(* ===== verification/Prelude.thy ===== *)
theory Prelude
  imports Main "HOL-Library.Multiset"
begin

text \<open>
  Shared vocabulary of the development.

  \<^item> Rust's machine integers: \<open>i64\<close>, \<open>i32\<close>, \<open>u64\<close> and \<open>u32\<close> values are \<open>int\<close> and
    \<open>nat\<close> together with their range predicates; the saturating, checked and casting
    operations the sources use are written out.  The workspace builds with
    \<open>overflow-checks = true\<close> and \<open>panic = "abort"\<close>, so a plain \<open>+\<close> that leaves the range
    is a panic, modelled as \<open>None\<close>.
  \<^item> Effects: an action reads and writes a state and returns an error or a value.  An
    error keeps the state reached so far (no rollback), which is what a statement sent
    to the database outside a transaction does.
  \<^item> Sequencing, loops with early exit, and the rules that carry an invariant through
    them.
  \<^item> List facts shared by the components: sums, stable sorting by a key, first match.
\<close>

named_theorems preserves_rules "rules that carry an invariant through an action"

section \<open>Machine integers\<close>

abbreviation i64_min :: int where "i64_min \<equiv> - 9223372036854775808"
abbreviation i64_max :: int where "i64_max \<equiv> 9223372036854775807"
abbreviation i32_max :: int where "i32_max \<equiv> 2147483647"
abbreviation u64_max :: nat where "u64_max \<equiv> 18446744073709551615"
abbreviation u32_max :: nat where "u32_max \<equiv> 4294967295"

definition in_i64 :: "int \<Rightarrow> bool" where
  "in_i64 x \<longleftrightarrow> i64_min \<le> x \<and> x \<le> i64_max"

definition checked_i64 :: "int \<Rightarrow> int option" where
  "checked_i64 x = (if in_i64 x then Some x else None)"

definition clamp_i64 :: "int \<Rightarrow> int" where
  "clamp_i64 x = max i64_min (min i64_max x)"

definition sat_add_i64 :: "int \<Rightarrow> int \<Rightarrow> int" where
  "sat_add_i64 a b = clamp_i64 (a + b)"

definition sat_sub_i64 :: "int \<Rightarrow> int \<Rightarrow> int" where
  "sat_sub_i64 a b = clamp_i64 (a - b)"

definition sat_add_i32 :: "int \<Rightarrow> int \<Rightarrow> int" where
  "sat_add_i32 a b = max (- 2147483648) (min i32_max (a + b))"

definition sat_add_u64 :: "nat \<Rightarrow> nat \<Rightarrow> nat" where
  "sat_add_u64 a b = min u64_max (a + b)"

definition sat_mul_u64 :: "nat \<Rightarrow> nat \<Rightarrow> nat" where
  "sat_mul_u64 a b = min u64_max (a * b)"

definition checked_u64 :: "nat \<Rightarrow> nat option" where
  "checked_u64 x = (if x \<le> u64_max then Some x else None)"

text \<open>\<open>x as i64\<close> for a \<open>u64\<close>, and \<open>x as u64\<close> for an \<open>i64\<close>: both reinterpret the bits.\<close>

definition u64_as_i64 :: "nat \<Rightarrow> int" where
  "u64_as_i64 n = (let m = int n mod 2 ^ 64 in if m < 2 ^ 63 then m else m - 2 ^ 64)"

definition i64_as_u64 :: "int \<Rightarrow> nat" where
  "i64_as_u64 x = nat (x mod 2 ^ 64)"

text \<open>\<open>i64::try_from\<close> on a \<open>u64\<close> and \<open>u64::try_from\<close> on an \<open>i64\<close>.\<close>

definition i64_try_from_u64 :: "nat \<Rightarrow> int option" where
  "i64_try_from_u64 n = (if int n \<le> i64_max then Some (int n) else None)"

definition u64_try_from_i64 :: "int \<Rightarrow> nat option" where
  "u64_try_from_i64 x = (if 0 \<le> x then Some (nat x) else None)"

lemma clamp_i64_id [simp]: "in_i64 x \<Longrightarrow> clamp_i64 x = x"
  by (simp add: in_i64_def clamp_i64_def)

lemma checked_i64_Some [simp]: "checked_i64 x = Some y \<longleftrightarrow> in_i64 x \<and> y = x"
  by (auto simp: checked_i64_def)

lemma in_i64_between: "0 \<le> x \<Longrightarrow> x \<le> y \<Longrightarrow> in_i64 y \<Longrightarrow> in_i64 x"
  by (simp add: in_i64_def)

lemma in_i64_0 [simp]: "in_i64 0"
  by (simp add: in_i64_def)

lemma u64_as_i64_small [simp]: "int n < 2 ^ 63 \<Longrightarrow> u64_as_i64 n = int n"
  by (simp add: u64_as_i64_def Let_def)

lemma i64_as_u64_nonneg [simp]: "0 \<le> x \<Longrightarrow> x \<le> i64_max \<Longrightarrow> i64_as_u64 x = nat x"
  by (simp add: i64_as_u64_def)

lemma i64_u64_roundtrip: "in_i64 x \<Longrightarrow> u64_as_i64 (i64_as_u64 x) = x"
proof -
  assume x: "in_i64 x"
  show ?thesis
  proof (cases "0 \<le> x")
    case True
    with x show ?thesis by (simp add: in_i64_def)
  next
    case False
    have "x mod 18446744073709551616 = (x + 18446744073709551616) mod 18446744073709551616"
      by simp
    also from x False have "\<dots> = x + 18446744073709551616"
      by (simp add: in_i64_def del: mod_add_self2)
    finally have m: "x mod 18446744073709551616 = x + 18446744073709551616" .
    with x False show ?thesis
      using m by (simp add: u64_as_i64_def i64_as_u64_def in_i64_def Let_def)
  qed
qed

section \<open>Actions: state, errors and early exit\<close>

type_synonym ('s, 'e, 'a) act = "'s \<Rightarrow> ('e + 'a) \<times> 's"

definition ret :: "'a \<Rightarrow> ('s, 'e, 'a) act" where
  "ret a s = (Inr a, s)"

definition raise :: "'e \<Rightarrow> ('s, 'e, 'a) act" where
  "raise e s = (Inl e, s)"

definition gets :: "('s \<Rightarrow> 'a) \<Rightarrow> ('s, 'e, 'a) act" where
  "gets f s = (Inr (f s), s)"

definition lift_sum :: "('e + 'a) \<Rightarrow> ('s, 'e, 'a) act" where
  "lift_sum r s = (r, s)"

text \<open>Rust's \<open>?\<close>: continue with the value, or leave with the error.\<close>

definition bindE :: "('s, 'e, 'a) act \<Rightarrow> ('a \<Rightarrow> ('s, 'e, 'b) act) \<Rightarrow> ('s, 'e, 'b) act" where
  "bindE m f s = (case m s of (Inl e, t) \<Rightarrow> (Inl e, t) | (Inr a, t) \<Rightarrow> f a t)"

definition seqE :: "('s, 'e, 'a) act \<Rightarrow> ('s, 'e, 'b) act \<Rightarrow> ('s, 'e, 'b) act" where
  "seqE m n = bindE m (\<lambda>_. n)"

text \<open>\<open>map_err\<close>/\<open>From\<close> conversion of the error.\<close>

definition map_err :: "('e \<Rightarrow> 'f) \<Rightarrow> ('s, 'e, 'a) act \<Rightarrow> ('s, 'f, 'a) act" where
  "map_err g m s = (case m s of (Inl e, t) \<Rightarrow> (Inl (g e), t) | (Inr a, t) \<Rightarrow> (Inr a, t))"

text \<open>A \<open>for\<close> loop threading an accumulator; an error leaves the loop.\<close>

fun foldE :: "('b \<Rightarrow> 'a \<Rightarrow> ('s, 'e, 'b) act) \<Rightarrow> 'b \<Rightarrow> 'a list \<Rightarrow> ('s, 'e, 'b) act" where
  "foldE f b [] s = (Inr b, s)"
| "foldE f b (x # xs) s = (case f b x s of (Inl e, t) \<Rightarrow> (Inl e, t) | (Inr b', t) \<Rightarrow> foldE f b' xs t)"

lemma ret_apply [simp]: "ret a s = (Inr a, s)" by (simp add: ret_def)
lemma raise_apply [simp]: "raise e s = (Inl e, s)" by (simp add: raise_def)
lemma gets_apply [simp]: "gets f s = (Inr (f s), s)" by (simp add: gets_def)
lemma lift_sum_apply [simp]: "lift_sum r s = (r, s)" by (simp add: lift_sum_def)

lemma bindE_Inl: "m s = (Inl e, t) \<Longrightarrow> bindE m f s = (Inl e, t)"
  by (simp add: bindE_def)

lemma bindE_Inr: "m s = (Inr a, t) \<Longrightarrow> bindE m f s = f a t"
  by (simp add: bindE_def)

lemma bindE_gets [simp]: "bindE (gets g) f s = f (g s) s"
  by (simp add: bindE_def)

lemma bindE_lift_sum: "bindE (lift_sum r) f s = (case r of Inl e \<Rightarrow> (Inl e, s) | Inr a \<Rightarrow> f a s)"
  by (simp add: bindE_def split: sum.splits)

lemma bindE_InrE:
  assumes "bindE m f s = (Inr b, t)"
  obtains a u where "m s = (Inr a, u)" and "f a u = (Inr b, t)"
  using assms by (auto simp: bindE_def split: prod.splits sum.splits)

lemma bindE_cases:
  assumes "bindE m f s = (r, t)"
  obtains (err) e where "m s = (Inl e, t)" and "r = Inl e" | (ok) a u where "m s = (Inr a, u)" and "f a u = (r, t)"
  using assms by (auto simp: bindE_def split: prod.splits sum.splits)

text \<open>A postcondition of both exits of a bind.\<close>

lemma bindE_post:
  assumes "\<And>e t. m s = (Inl e, t) \<Longrightarrow> Q t" and "\<And>a t. m s = (Inr a, t) \<Longrightarrow> Q (snd (f a t))"
  shows "Q (snd (bindE m f s))"
  using assms by (cases "m s"; cases "fst (m s)") (auto simp: bindE_def)

lemma map_err_Inr [simp]: "map_err g m s = (Inr a, t) \<longleftrightarrow> m s = (Inr a, t)"
  by (auto simp: map_err_def split: prod.splits sum.splits)

lemma map_err_Inl: "map_err g m s = (Inl e, t) \<Longrightarrow> \<exists>e'. m s = (Inl e', t)"
  by (auto simp: map_err_def split: prod.splits sum.splits)

lemma snd_map_err [simp]: "snd (map_err g m s) = snd (m s)"
  by (simp add: map_err_def split: prod.split sum.split)

lemma foldE_ConsE:
  assumes "foldE f b (x # xs) s = (Inr c, t)"
  obtains b' u where "f b x s = (Inr b', u)" and "foldE f b' xs u = (Inr c, t)"
  using assms by (auto split: prod.splits sum.splits)

text \<open>A loop that pushes one element per iteration.\<close>

lemma foldE_length:
  assumes "\<And>b x s b' t. f b x s = (Inr b', t) \<Longrightarrow> length b' = Suc (length b)"
  shows "foldE f b xs s = (Inr c, t) \<Longrightarrow> length c = length b + length xs"
proof (induction xs arbitrary: b s)
  case (Cons x xs)
  then show ?case using assms by (metis foldE_ConsE add_Suc_shift length_Cons)
qed simp

section \<open>Invariants of actions\<close>

definition preserves :: "('s \<Rightarrow> bool) \<Rightarrow> ('s, 'e, 'a) act \<Rightarrow> bool" where
  "preserves I m \<longleftrightarrow> (\<forall>s. I s \<longrightarrow> I (snd (m s)))"

lemma preservesI: "(\<And>s. I s \<Longrightarrow> I (snd (m s))) \<Longrightarrow> preserves I m"
  by (simp add: preserves_def)

lemma preservesD: "preserves I m \<Longrightarrow> I s \<Longrightarrow> I (snd (m s))"
  by (simp add: preserves_def)

lemma preserves_ret [preserves_rules]: "preserves I (ret a)"
  by (simp add: preserves_def)

lemma preserves_raise [preserves_rules]: "preserves I (raise e)"
  by (simp add: preserves_def)

lemma preserves_gets [preserves_rules]: "preserves I (gets f)"
  by (simp add: preserves_def)

lemma preserves_lift_sum [preserves_rules]: "preserves I (lift_sum r)"
  by (simp add: preserves_def)

lemma preserves_bindE [preserves_rules]:
  "preserves I m \<Longrightarrow> (\<And>a. preserves I (f a)) \<Longrightarrow> preserves I (bindE m f)"
  by (force simp: preserves_def bindE_def split: prod.splits sum.splits)

lemma preserves_seqE [preserves_rules]:
  "preserves I m \<Longrightarrow> preserves I n \<Longrightarrow> preserves I (seqE m n)"
  by (simp add: seqE_def preserves_bindE)

lemma preserves_map_err [preserves_rules]: "preserves I m \<Longrightarrow> preserves I (map_err g m)"
  by (force simp: preserves_def map_err_def split: prod.splits sum.splits)

lemma preserves_foldE [preserves_rules]:
  assumes "\<And>b x. preserves I (f b x)"
  shows "preserves I (foldE f b xs)"
proof (rule preservesI)
  fix s show "I s \<Longrightarrow> I (snd (foldE f b xs s))"
  proof (induction xs arbitrary: b s)
    case (Cons x xs)
    with assms[of b x] show ?case
      by (fastforce simp: preserves_def split: prod.splits sum.splits)
  qed simp
qed

lemma preserves_if [preserves_rules]:
  "(c \<Longrightarrow> preserves I m) \<Longrightarrow> (\<not> c \<Longrightarrow> preserves I n) \<Longrightarrow> preserves I (if c then m else n)"
  by simp

lemma preserves_case_option [preserves_rules]:
  "(x = None \<Longrightarrow> preserves I m) \<Longrightarrow> (\<And>a. x = Some a \<Longrightarrow> preserves I (f a)) \<Longrightarrow>
   preserves I (case x of None \<Rightarrow> m | Some a \<Rightarrow> f a)"
  by (simp split: option.split)

lemma preserves_case_sum [preserves_rules]:
  "(\<And>e. x = Inl e \<Longrightarrow> preserves I (g e)) \<Longrightarrow> (\<And>a. x = Inr a \<Longrightarrow> preserves I (f a)) \<Longrightarrow>
   preserves I (case x of Inl e \<Rightarrow> g e | Inr a \<Rightarrow> f a)"
  by (simp split: sum.split)

lemma preserves_case_prod [preserves_rules]:
  "(\<And>a b. x = (a, b) \<Longrightarrow> preserves I (f a b)) \<Longrightarrow> preserves I (case x of (a, b) \<Rightarrow> f a b)"
  by (simp split: prod.split)

section \<open>Lists\<close>

lemma sum_list_update_add:
  "i < length xs \<Longrightarrow> sum_list (xs[i := xs ! i + d]) = sum_list xs + (d::int)"
proof (induction xs arbitrary: i)
  case (Cons x xs)
  then show ?case by (cases i) auto
qed simp

lemma sum_list_map_le:
  "(\<And>x. x \<in> set xs \<Longrightarrow> f x \<le> (g x :: int)) \<Longrightarrow> sum_list (map f xs) \<le> sum_list (map g xs)"
  by (rule sum_list_mono)

lemma sum_list_nonneg_int:
  "(\<And>x. x \<in> set xs \<Longrightarrow> 0 \<le> (x::int)) \<Longrightarrow> 0 \<le> sum_list xs"
  by (rule sum_list_nonneg)

lemma find_Some_iff_in: "List.find P xs = Some x \<Longrightarrow> x \<in> set xs \<and> P x"
  by (auto simp: find_Some_iff)

lemma find_append:
  "List.find P (xs @ ys) = (case List.find P xs of None \<Rightarrow> List.find P ys | Some x \<Rightarrow> Some x)"
  by (induction xs) auto

text \<open>
  \<open>ORDER BY k DESC, id ASC\<close> and the stable \<open>sort_by\<close>/\<open>sort_by_key\<close> of Rust are the
  stable \<open>sort_key\<close>; a descending key is the negated key.
\<close>

lemma mset_sort_key_map: "sum_list (map f (sort_key k xs)) = (sum_list (map f xs) :: int)"
  by (metis mset_map mset_sort sum_mset_sum_list)

end
