(* ===== verification/Fees.thy ===== *)
theory Fees
  imports Prelude
begin

text \<open>
  The fee model of the accountant (\<open>accountant/src/config.rs\<close>): the topline fee in basis
  points with its loader, the wallet tiers with their rebate ratios, and
  \<open>compute_allocation\<close>, which splits one wallet's gross share of a coinbase reward into
  pool fee, NACHO accrual and net payout.

  Results are sums: \<open>Inl\<close> carries the error the Rust function returns.  The lemmas show
  that the split is exact, that each part is non-negative, when an error is returned, and
  that the loader admits exactly the fees up to \<open>MAX_TOPLINE_BPS\<close>.
\<close>

section \<open>Configuration\<close>

definition MAX_TOPLINE_BPS :: nat where "MAX_TOPLINE_BPS = 1000"
definition STANDARD_REBATE_BPS :: nat where "STANDARD_REBATE_BPS = 0"
definition ELITE_REBATE_BPS :: nat where "ELITE_REBATE_BPS = 0"
definition DEFAULT_TOPLINE_BPS :: nat where "DEFAULT_TOPLINE_BPS = 75"

datatype wallet_tier = Standard | Elite

fun wallet_tier_as_str :: "wallet_tier \<Rightarrow> string" where
  "wallet_tier_as_str Standard = ''standard''"
| "wallet_tier_as_str Elite = ''elite''"

record fee_config =
  topline_bps :: nat

text \<open>\<open>u16::from_str\<close>: an optional plus sign, then one or more decimal digits.\<close>

datatype parse_int_error = ParseEmpty | InvalidDigit | PosOverflow

fun to_digit :: "char \<Rightarrow> nat option" where
  "to_digit c = (let k = of_char c in if 48 \<le> k \<and> k \<le> 57 then Some (k - 48) else None)"

fun parse_u16_digits :: "nat \<Rightarrow> string \<Rightarrow> parse_int_error + nat" where
  "parse_u16_digits acc [] = Inr acc"
| "parse_u16_digits acc (c # cs) =
     (case to_digit c of
        None \<Rightarrow> Inl InvalidDigit
      | Some d \<Rightarrow> (let acc' = acc * 10 + d in
          if acc' > 65535 then Inl PosOverflow else parse_u16_digits acc' cs))"

fun parse_u16 :: "string \<Rightarrow> parse_int_error + nat" where
  "parse_u16 [] = Inl ParseEmpty"
| "parse_u16 (c # cs) =
     (if c = CHR ''+'' then (if cs = [] then Inl InvalidDigit else parse_u16_digits 0 cs)
      else parse_u16_digits 0 (c # cs))"

datatype accountant_error =
    NotUtf8 string
  | NotU16 string string parse_int_error
  | ToplineTooHigh string nat

definition FeeConfig_new :: "nat \<Rightarrow> string + fee_config" where
  "FeeConfig_new bps =
     (if bps > MAX_TOPLINE_BPS then Inl ''topline_bps exceeds MAX_TOPLINE_BPS''
      else Inr \<lparr>topline_bps = bps\<rparr>)"

definition parse_bps :: "string \<Rightarrow> string \<Rightarrow> accountant_error + nat" where
  "parse_bps var raw =
     (case parse_u16 raw of Inl e \<Rightarrow> Inl (NotU16 var raw e) | Inr n \<Rightarrow> Inr n)"

datatype var_error = NotPresent | NotUnicode

definition from_lookup ::
  "string \<Rightarrow> (string \<Rightarrow> var_error + string) \<Rightarrow> accountant_error + fee_config" where
  "from_lookup var lookup =
     (case (case lookup var of
              Inr s \<Rightarrow> parse_bps var s
            | Inl NotPresent \<Rightarrow> Inr DEFAULT_TOPLINE_BPS
            | Inl NotUnicode \<Rightarrow> Inl (NotUtf8 var)) of
        Inl e \<Rightarrow> Inl e
      | Inr bps \<Rightarrow> (case FeeConfig_new bps of
                      Inl _ \<Rightarrow> Inl (ToplineTooHigh var bps)
                    | Inr fc \<Rightarrow> Inr fc))"

fun rebate_bps :: "wallet_tier \<Rightarrow> nat" where
  "rebate_bps Standard = STANDARD_REBATE_BPS"
| "rebate_bps Elite = ELITE_REBATE_BPS"

section \<open>The split of one gross share\<close>

record allocation =
  gross_sompi :: int
  pool_fee_sompi :: int
  nacho_accrual_sompi :: int
  net_payout_sompi :: int
  applied_topline_bps :: nat
  applied_rebate_bps :: nat
  applied_tier :: wallet_tier

definition is_balanced :: "allocation \<Rightarrow> bool" where
  "is_balanced a \<longleftrightarrow>
     gross_sompi a = pool_fee_sompi a + nacho_accrual_sompi a + net_payout_sompi a"

datatype allocation_error =
    NegativeGross int
  | Overflow string
  | Unbalanced allocation

definition compute_allocation ::
  "fee_config \<Rightarrow> int \<Rightarrow> wallet_tier \<Rightarrow> allocation_error + allocation" where
  "compute_allocation cfg gross tier =
     (if gross < 0 then Inl (NegativeGross gross)
      else case checked_i64 (gross * int (topline_bps cfg)) of
        None \<Rightarrow> Inl (Overflow ''fee_share'')
      | Some m1 \<Rightarrow>
          (let fee_share = m1 div 10000 in
           case checked_i64 (fee_share * int (rebate_bps tier)) of
             None \<Rightarrow> Inl (Overflow ''nacho_accrual'')
           | Some m2 \<Rightarrow>
               (let nacho = m2 div 10000;
                    a = \<lparr>gross_sompi = gross,
                         pool_fee_sompi = fee_share - nacho,
                         nacho_accrual_sompi = nacho,
                         net_payout_sompi = gross - fee_share,
                         applied_topline_bps = topline_bps cfg,
                         applied_rebate_bps = rebate_bps tier,
                         applied_tier = tier\<rparr>
                in if \<not> is_balanced a then Inl (Unbalanced a) else Inr a)))"

section \<open>Correctness of the split\<close>

definition wf_fee :: "fee_config \<Rightarrow> bool" where
  "wf_fee cfg \<longleftrightarrow> topline_bps cfg \<le> MAX_TOPLINE_BPS"

text \<open>What the split promises about one allocation row.\<close>

definition sound_allocation :: "int \<Rightarrow> allocation \<Rightarrow> bool" where
  "sound_allocation gross a \<longleftrightarrow>
     gross_sompi a = gross \<and> is_balanced a \<and>
     0 \<le> pool_fee_sompi a \<and> 0 \<le> nacho_accrual_sompi a \<and> 0 \<le> net_payout_sompi a"

lemma rebate_bps_zero [simp]: "rebate_bps t = 0"
  by (cases t) (simp_all add: STANDARD_REBATE_BPS_def ELITE_REBATE_BPS_def)

lemma compute_allocation_eq:
  "compute_allocation cfg g t =
     (if g < 0 then Inl (NegativeGross g)
      else if \<not> in_i64 (g * int (topline_bps cfg)) then Inl (Overflow ''fee_share'')
      else Inr \<lparr>gross_sompi = g,
                pool_fee_sompi = g * int (topline_bps cfg) div 10000,
                nacho_accrual_sompi = 0,
                net_payout_sompi = g - g * int (topline_bps cfg) div 10000,
                applied_topline_bps = topline_bps cfg,
                applied_rebate_bps = 0, applied_tier = t\<rparr>)"
  by (simp add: compute_allocation_def checked_i64_def Let_def is_balanced_def)

lemma fee_share_le:
  assumes "0 \<le> g" and "b \<le> 10000"
  shows "g * int b div 10000 \<le> g" and "0 \<le> g * int b div 10000"
proof -
  have "g * int b \<le> g * 10000" using assms by (intro mult_left_mono) auto
  then have "g * int b div 10000 \<le> g * 10000 div 10000" by (rule zdiv_mono1) simp
  then show "g * int b div 10000 \<le> g" by simp
  show "0 \<le> g * int b div 10000" using assms by (simp add: pos_imp_zdiv_nonneg_iff)
qed

lemma compute_allocation_sound:
  "wf_fee cfg \<Longrightarrow> compute_allocation cfg g t = Inr a \<Longrightarrow> sound_allocation g a"
  using fee_share_le[of g "topline_bps cfg"]
  by (auto simp: compute_allocation_eq sound_allocation_def is_balanced_def wf_fee_def
      MAX_TOPLINE_BPS_def split: if_splits)

lemma compute_allocation_gross:
  "compute_allocation cfg g t = Inr a \<Longrightarrow> gross_sompi a = g \<and> is_balanced a"
  by (auto simp: compute_allocation_eq is_balanced_def split: if_splits)

lemma FeeConfig_new_wf: "FeeConfig_new b = Inr cfg \<longleftrightarrow> b \<le> MAX_TOPLINE_BPS \<and> cfg = \<lparr>topline_bps = b\<rparr>"
  by (auto simp: FeeConfig_new_def)

lemma parse_u16_digits_bound: "parse_u16_digits acc s = Inr n \<Longrightarrow> acc \<le> 65535 \<Longrightarrow> n \<le> 65535"
  by (induction acc s rule: parse_u16_digits.induct)
    (auto simp: Let_def simp del: to_digit.simps split: option.splits if_splits)



text \<open>
  The environment loader returns a fee configuration exactly when the variable is unset
  (the 75 bps default) or holds a decimal \<open>u16\<close> of at most 1000 basis points; a non-UTF-8
  value, a value that is not a \<open>u16\<close> and a fee above the ceiling each give their own
  error, so a configured fee is never above 10%.
\<close>

theorem from_lookup_cases:
  "from_lookup var lookup =
     (case lookup var of
        Inl NotPresent \<Rightarrow> Inr \<lparr>topline_bps = 75\<rparr>
      | Inl NotUnicode \<Rightarrow> Inl (NotUtf8 var)
      | Inr s \<Rightarrow> (case parse_u16 s of
                   Inl e \<Rightarrow> Inl (NotU16 var s e)
                 | Inr n \<Rightarrow> if n \<le> 1000 then Inr \<lparr>topline_bps = n\<rparr>
                          else Inl (ToplineTooHigh var n))) \<and>
   (\<forall>cfg. from_lookup var lookup = Inr cfg \<longrightarrow> wf_fee cfg)"
  by (auto simp: from_lookup_def parse_bps_def FeeConfig_new_def DEFAULT_TOPLINE_BPS_def
      MAX_TOPLINE_BPS_def wf_fee_def split: sum.splits var_error.splits if_splits)

theorem from_lookup_cases_witness:
  "from_lookup ''KATPOOL_FEE_TOPLINE_BPS'' (\<lambda>_. Inr ''250'') = Inr \<lparr>topline_bps = 250\<rparr> \<and>
   wf_fee \<lparr>topline_bps = 250\<rparr>"
proof -
  have "parse_u16 ''250'' = Inr 250" by simp
  then show ?thesis
    using from_lookup_cases[of "''KATPOOL_FEE_TOPLINE_BPS''" "\<lambda>_. Inr ''250''"] by simp
qed

end
