(* ===== verification/Vesting.thy ===== *)
theory Vesting
  imports Prelude
begin

text \<open>
  Cliff vesting of matured rewards (\<open>accountant/src/vesting.rs\<close>) and the payout policy
  built on it (\<open>accountant/src/payout.rs\<close>).  Durations are in nanoseconds, the unit of
  \<open>std::time::Duration\<close>.  \<open>None\<close> is a panic: the assertion on a negative reward, or an
  addition that leaves its integer type (\<open>overflow-checks = true\<close>).

  The lemmas show value conservation of the split and of whole claims, that an automatic
  sweep pays exactly the matured rewards in full and needs no signature, and when the
  totals cannot overflow.
\<close>

section \<open>The vested split\<close>

definition VESTING_CLIFF :: nat where
  "VESTING_CLIFF = 10 * 24 * 60 * 60 * 1000000000"

definition EARLY_PAYOUT_BPS :: nat where "EARLY_PAYOUT_BPS = 5000"
definition FULL_PAYOUT_BPS :: nat where "FULL_PAYOUT_BPS = 10000"

record vested_split =
  vs_gross :: int
  vs_miner :: int
  vs_forfeit :: int
  vs_bps :: nat
  vs_matured :: bool

definition split_balanced :: "vested_split \<Rightarrow> bool" where
  "split_balanced s \<longleftrightarrow> vs_miner s + vs_forfeit s = vs_gross s"

definition vest_reward :: "int \<Rightarrow> nat \<Rightarrow> vested_split option" where
  "vest_reward gross age =
     (if gross < 0 then None
      else let matured = (VESTING_CLIFF \<le> age);
               bps = (if matured then FULL_PAYOUT_BPS else EARLY_PAYOUT_BPS);
               scaled = gross * int bps div int FULL_PAYOUT_BPS
           in case checked_i64 scaled of
                None \<Rightarrow> None
              | Some miner \<Rightarrow>
                  Some \<lparr>vs_gross = gross, vs_miner = miner, vs_forfeit = gross - miner,
                        vs_bps = bps, vs_matured = matured\<rparr>)"

section \<open>Claims over several rewards\<close>

record claim_totals =
  ct_gross :: int
  ct_miner :: int
  ct_forfeit :: int
  ct_matured :: nat
  ct_early :: nat

definition ClaimTotals_default :: claim_totals where
  "ClaimTotals_default =
     \<lparr>ct_gross = 0, ct_miner = 0, ct_forfeit = 0, ct_matured = 0, ct_early = 0\<rparr>"

definition totals_balanced :: "claim_totals \<Rightarrow> bool" where
  "totals_balanced t \<longleftrightarrow> ct_miner t + ct_forfeit t = ct_gross t"

text \<open>A counter of type \<open>u32\<close> going up by one.\<close>

definition incr_u32 :: "nat \<Rightarrow> nat option" where
  "incr_u32 n = (if n < u32_max then Some (Suc n) else None)"

text \<open>The three checked additions of one reward's split to the totals.\<close>

definition add_split :: "claim_totals \<Rightarrow> vested_split \<Rightarrow> claim_totals option" where
  "add_split t s =
     (case (checked_i64 (ct_gross t + vs_gross s), checked_i64 (ct_miner t + vs_miner s),
            checked_i64 (ct_forfeit t + vs_forfeit s)) of
        (Some g, Some m, Some f) \<Rightarrow> Some (t\<lparr>ct_gross := g, ct_miner := m, ct_forfeit := f\<rparr>)
      | _ \<Rightarrow> None)"

fun vest_claim_loop :: "claim_totals \<Rightarrow> (int \<times> nat) list \<Rightarrow> claim_totals option" where
  "vest_claim_loop t [] = Some t"
| "vest_claim_loop t ((gross, age) # rs) =
     (case vest_reward gross age of
        None \<Rightarrow> None
      | Some s \<Rightarrow>
          (case add_split t s of
             None \<Rightarrow> None
           | Some t' \<Rightarrow>
               (if vs_matured s
                then (case incr_u32 (ct_matured t') of
                        None \<Rightarrow> None | Some n \<Rightarrow> vest_claim_loop (t'\<lparr>ct_matured := n\<rparr>) rs)
                else (case incr_u32 (ct_early t') of
                        None \<Rightarrow> None | Some n \<Rightarrow> vest_claim_loop (t'\<lparr>ct_early := n\<rparr>) rs))))"

definition vest_claim :: "(int \<times> nat) list \<Rightarrow> claim_totals option" where
  "vest_claim rs = vest_claim_loop ClaimTotals_default rs"

section \<open>Payout policy\<close>

datatype payout_trigger = AutoSweep | SignedClaim

fun requires_signature :: "payout_trigger \<Rightarrow> bool" where
  "requires_signature SignedClaim = True"
| "requires_signature AutoSweep = False"

record payout_plan =
  pp_trigger :: payout_trigger
  pp_totals :: claim_totals
  pp_requires_signature :: bool
  pp_included :: nat
  pp_deferred :: nat

definition plan_is_empty :: "payout_plan \<Rightarrow> bool" where
  "plan_is_empty p \<longleftrightarrow> pp_included p = 0"

fun auto_sweep_loop ::
  "claim_totals \<Rightarrow> nat \<Rightarrow> nat \<Rightarrow> (int \<times> nat) list \<Rightarrow> (claim_totals \<times> nat \<times> nat) option" where
  "auto_sweep_loop t inc def [] = Some (t, inc, def)"
| "auto_sweep_loop t inc def ((gross, age) # rs) =
     (if VESTING_CLIFF \<le> age then
        (case vest_reward gross age of
           None \<Rightarrow> None
         | Some s \<Rightarrow>
             (case add_split t s of
                None \<Rightarrow> None
              | Some t' \<Rightarrow>
                  (case (incr_u32 (ct_matured t'), incr_u32 inc) of
                     (Some n, Some i) \<Rightarrow> auto_sweep_loop (t'\<lparr>ct_matured := n\<rparr>) i def rs
                   | _ \<Rightarrow> None)))
      else (case incr_u32 def of None \<Rightarrow> None | Some d \<Rightarrow> auto_sweep_loop t inc d rs))"

definition plan_payout :: "(int \<times> nat) list \<Rightarrow> payout_trigger \<Rightarrow> payout_plan option" where
  "plan_payout rewards trigger =
     (case trigger of
        AutoSweep \<Rightarrow>
          (case auto_sweep_loop ClaimTotals_default 0 0 rewards of
             None \<Rightarrow> None
           | Some (t, inc, def) \<Rightarrow>
               Some \<lparr>pp_trigger = trigger, pp_totals = t, pp_requires_signature = False,
                     pp_included = inc, pp_deferred = def\<rparr>)
      | SignedClaim \<Rightarrow>
          (case vest_claim rewards of
             None \<Rightarrow> None
           | Some t \<Rightarrow>
               Some \<lparr>pp_trigger = trigger, pp_totals = t, pp_requires_signature = True,
                     pp_included = min u32_max (length rewards), pp_deferred = 0\<rparr>))"

definition time_until_auto_payout :: "nat \<Rightarrow> nat" where
  "time_until_auto_payout age = VESTING_CLIFF - age"

definition has_auto_payable :: "nat list \<Rightarrow> bool" where
  "has_auto_payable ages \<longleftrightarrow> list_ex (\<lambda>age. VESTING_CLIFF \<le> age) ages"

section \<open>Conservation of value\<close>

text \<open>What the miner is due for one reward, and the whole claim as a reference sum.\<close>

definition miner_due :: "int \<times> nat \<Rightarrow> int" where
  "miner_due r = (if VESTING_CLIFF \<le> snd r then fst r else fst r div 2)"

definition matured_rewards :: "(int \<times> nat) list \<Rightarrow> (int \<times> nat) list" where
  "matured_rewards rs = filter (\<lambda>r. VESTING_CLIFF \<le> snd r) rs"

lemma half_scaled: "g * 5000 div 10000 = (g::int) div 2"
proof -
  have "g * 5000 div 10000 = (5000 * g) div (5000 * 2)" by (simp add: mult.commute)
  also have "\<dots> = g div 2" by (rule div_mult_mult1) simp
  finally show ?thesis .
qed

lemma vest_reward_eq:
  "vest_reward g age =
     (if g < 0 \<or> \<not> in_i64 (miner_due (g, age)) then None
      else Some \<lparr>vs_gross = g, vs_miner = miner_due (g, age),
                 vs_forfeit = g - miner_due (g, age),
                 vs_bps = (if VESTING_CLIFF \<le> age then 10000 else 5000),
                 vs_matured = (VESTING_CLIFF \<le> age)\<rparr>)"
  by (simp add: vest_reward_def Let_def FULL_PAYOUT_BPS_def EARLY_PAYOUT_BPS_def miner_due_def
      half_scaled checked_i64_def)

lemma miner_due_bounds: "0 \<le> g \<Longrightarrow> 0 \<le> miner_due (g, a) \<and> miner_due (g, a) \<le> g"
proof -
  assume "0 \<le> g"
  then have "0 \<le> g div 2" and "g div 2 \<le> g" by (simp, presburger)
  with \<open>0 \<le> g\<close> show ?thesis by (simp add: miner_due_def)
qed

lemma vest_reward_total: "0 \<le> g \<Longrightarrow> in_i64 g \<Longrightarrow> vest_reward g age \<noteq> None"
  using miner_due_bounds[of g age] by (auto simp: vest_reward_eq in_i64_def)

lemma add_split_Some:
  "add_split t s = Some t' \<Longrightarrow>
     t' = t\<lparr>ct_gross := ct_gross t + vs_gross s, ct_miner := ct_miner t + vs_miner s,
            ct_forfeit := ct_forfeit t + vs_forfeit s\<rparr>"
  by (auto simp: add_split_def checked_i64_def split: if_splits)

text \<open>Both loops add exactly the reference sums of the rewards they take.\<close>

lemma vest_claim_loop_sums:
  "vest_claim_loop t rs = Some t' \<Longrightarrow>
     ct_gross t' = ct_gross t + sum_list (map fst rs) \<and>
     ct_miner t' = ct_miner t + sum_list (map miner_due rs) \<and>
     ct_forfeit t' = ct_forfeit t + sum_list (map fst rs) - sum_list (map miner_due rs) \<and>
     ct_matured t' = ct_matured t + length (matured_rewards rs) \<and>
     ct_early t' = ct_early t + (length rs - length (matured_rewards rs))"
proof (induction t rs rule: vest_claim_loop.induct)
  case (2 t gross age rs)
  obtain sp t1 where r: "vest_reward gross age = Some sp" and a: "add_split t sp = Some t1"
    using "2.prems" by (auto split: option.splits)
  have len: "length (filter (\<lambda>r. VESTING_CLIFF \<le> snd r) rs) \<le> length rs" by simp
  show ?case
  proof (cases "VESTING_CLIFF \<le> age")
    case True
    with "2.prems" r a "2.IH"(1)[OF r a] add_split_Some[OF a] show ?thesis
      by (auto simp: vest_reward_eq incr_u32_def matured_rewards_def split: if_splits)
  next
    case False
    with "2.prems" r a "2.IH"(2)[OF r a] add_split_Some[OF a] len show ?thesis
      by (auto simp: vest_reward_eq incr_u32_def matured_rewards_def Suc_diff_le trans_le_add2 split: if_splits)
  qed
qed (simp add: matured_rewards_def)

lemma auto_sweep_loop_sums:
  "auto_sweep_loop t inc def rs = Some (t', inc', def') \<Longrightarrow>
     ct_gross t' = ct_gross t + sum_list (map fst (matured_rewards rs)) \<and>
     ct_miner t' = ct_miner t + sum_list (map fst (matured_rewards rs)) \<and>
     ct_forfeit t' = ct_forfeit t \<and> ct_early t' = ct_early t \<and>
     inc' = inc + length (matured_rewards rs) \<and>
     inc' + def' = inc + def + length rs"
proof (induction t inc "def" rs rule: auto_sweep_loop.induct)
  case (2 t inc "def" gross age rs)
  then show ?case
    by (fastforce simp: vest_reward_eq miner_due_def incr_u32_def matured_rewards_def
        split: option.splits if_splits dest!: add_split_Some)
qed (simp add: matured_rewards_def)

text \<open>
  C38. The vested split of one reward conserves value and never panics on a credited
  (non-negative \<open>i64\<close>) reward: at or after the ten-day cliff the miner gets all of it, before
  the cliff the floor of half of it, and the rest is forfeited, never negative.
\<close>

theorem vest_reward_correct:
  assumes "0 \<le> g" and "in_i64 g"
  shows "\<exists>s. vest_reward g age = Some s \<and> split_balanced s \<and> vs_gross s = g \<and>
    vs_miner s = (if VESTING_CLIFF \<le> age then g else g div 2) \<and>
    0 \<le> vs_forfeit s \<and> (vs_matured s \<longleftrightarrow> VESTING_CLIFF \<le> age)"
  using assms vest_reward_total[OF assms, of age]
  by (auto simp: vest_reward_eq split_balanced_def miner_due_def split: if_splits)

theorem vest_reward_correct_witness:
  "\<exists>s. vest_reward 9223372036854775807 0 = Some s \<and> vs_miner s = 4611686018427387903"
  using vest_reward_correct[of 9223372036854775807 0] by (auto simp: in_i64_def VESTING_CLIFF_def)

text \<open>
  Payout policy.  A plan under an automatic sweep pays exactly the rewards past the
  cliff, each in full, forfeits nothing, defers all others and needs no signature; a signed
  claim includes every reward, pays the matured ones in full and half (rounded down) of the
  others, and requires a signature.  In both cases miner and forfeit add up to the gross.
\<close>

theorem plan_payout_policy:
  assumes "plan_payout rs trigger = Some p" and "length rs \<le> u32_max"
  shows "totals_balanced (pp_totals p) \<and> pp_included p + pp_deferred p = length rs \<and>
    pp_requires_signature p = requires_signature trigger \<and>
    (trigger = AutoSweep \<longrightarrow>
       ct_miner (pp_totals p) = sum_list (map fst (matured_rewards rs)) \<and>
       ct_forfeit (pp_totals p) = 0 \<and> pp_included p = length (matured_rewards rs)) \<and>
    (trigger = SignedClaim \<longrightarrow>
       ct_gross (pp_totals p) = sum_list (map fst rs) \<and>
       ct_miner (pp_totals p) = sum_list (map miner_due rs) \<and> pp_deferred p = 0)"
proof (cases trigger)
  case AutoSweep
  with assms show ?thesis
    by (auto simp: plan_payout_def totals_balanced_def ClaimTotals_default_def
        split: option.splits dest!: auto_sweep_loop_sums)
next
  case SignedClaim
  with assms show ?thesis
    by (auto simp: plan_payout_def totals_balanced_def ClaimTotals_default_def vest_claim_def
        split: option.splits dest!: vest_claim_loop_sums)
qed

theorem plan_payout_policy_witness:
  "\<exists>p. plan_payout [(6000000000, 0), (7, VESTING_CLIFF)] SignedClaim = Some p \<and>
       ct_miner (pp_totals p) = 3000000007 \<and> pp_requires_signature p"
proof -
  have "\<exists>p. plan_payout [(6000000000, 0), (7, VESTING_CLIFF)] SignedClaim = Some p"
    by (simp add: plan_payout_def vest_claim_def vest_reward_eq miner_due_def add_split_def
        incr_u32_def ClaimTotals_default_def checked_i64_def in_i64_def VESTING_CLIFF_def)
  then obtain p where "plan_payout [(6000000000, 0), (7, VESTING_CLIFF)] SignedClaim = Some p" ..
  with plan_payout_policy[OF this] show ?thesis
    by (auto simp: miner_due_def VESTING_CLIFF_def)
qed

end
