(* ===== verification/F64.thy ===== *)
theory F64
  imports Prelude Complex_Main "HOL-Library.Log_Nat"
begin

text \<open>
  Rust's \<open>f64\<close>: IEEE 754 binary64 with the default rounding (to nearest, ties to even).
  A value is a finite rational, an infinity or NaN; each operation is the exact rational
  result rounded once.  The sign of a zero is not represented: none of the modelled code
  divides by a zero or inspects its sign.

  The lemmas give the rounding error and the exactness of integers up to \<open>2 ^ 53\<close>, from
  which the accounting theories derive their bounds.
\<close>

datatype f64 = Fin rat | PInf | NInf | NaN

section \<open>Rounding\<close>

text \<open>The binary exponent \<open>e\<close> with \<open>2 ^ e \<le> a < 2 ^ (e + 1)\<close> of a positive rational.\<close>

definition exponent2 :: "rat \<Rightarrow> int" where
  "exponent2 a =
     (case quotient_of a of (p, q) \<Rightarrow>
        let e = bitlen p - bitlen q in if a < 2 powi e then e - 1 else e)"

definition round_half_even :: "rat \<Rightarrow> int" where
  "round_half_even x =
     (let f = \<lfloor>x\<rfloor>; d = x - of_int f
      in if d < 1 / 2 then f else if d > 1 / 2 then f + 1 else if even f then f else f + 1)"

text \<open>The distance between neighbouring floats around \<open>x\<close>, as an exponent of two.\<close>

definition ulp_exp :: "rat \<Rightarrow> int" where
  "ulp_exp x = max (exponent2 \<bar>x\<bar> - 52) (- 1074)"

definition f64_round :: "rat \<Rightarrow> f64" where
  "f64_round x =
     (if x = 0 then Fin 0
      else let q = ulp_exp x; r = of_int (round_half_even (x / 2 powi q)) * 2 powi q
           in if 2 ^ 1024 \<le> \<bar>r\<bar> then (if x > 0 then PInf else NInf) else Fin r)"

section \<open>Operations\<close>

fun f64_neg :: "f64 \<Rightarrow> f64" where
  "f64_neg (Fin x) = Fin (- x)"
| "f64_neg PInf = NInf"
| "f64_neg NInf = PInf"
| "f64_neg NaN = NaN"

fun f64_add :: "f64 \<Rightarrow> f64 \<Rightarrow> f64" where
  "f64_add (Fin x) (Fin y) = f64_round (x + y)"
| "f64_add NaN _ = NaN"
| "f64_add _ NaN = NaN"
| "f64_add PInf NInf = NaN"
| "f64_add NInf PInf = NaN"
| "f64_add PInf _ = PInf"
| "f64_add NInf _ = NInf"
| "f64_add _ PInf = PInf"
| "f64_add _ NInf = NInf"

definition f64_sign :: "f64 \<Rightarrow> int" where
  "f64_sign v = (case v of Fin x \<Rightarrow> (if x > 0 then 1 else if x < 0 then - 1 else 0)
                 | PInf \<Rightarrow> 1 | NInf \<Rightarrow> - 1 | NaN \<Rightarrow> 0)"

fun f64_mul :: "f64 \<Rightarrow> f64 \<Rightarrow> f64" where
  "f64_mul (Fin x) (Fin y) = f64_round (x * y)"
| "f64_mul NaN _ = NaN"
| "f64_mul _ NaN = NaN"
| "f64_mul a b =
     (let s = f64_sign a * f64_sign b in if s > 0 then PInf else if s < 0 then NInf else NaN)"

text \<open>Division; a zero divisor is the non-negative zero.\<close>

fun f64_div :: "f64 \<Rightarrow> f64 \<Rightarrow> f64" where
  "f64_div (Fin x) (Fin y) =
     (if y = 0 then (if x > 0 then PInf else if x < 0 then NInf else NaN) else f64_round (x / y))"
| "f64_div NaN _ = NaN"
| "f64_div _ NaN = NaN"
| "f64_div (Fin x) _ = Fin 0"
| "f64_div PInf (Fin y) = (if y < 0 then NInf else PInf)"
| "f64_div NInf (Fin y) = (if y < 0 then PInf else NInf)"
| "f64_div _ _ = NaN"

fun f64_le :: "f64 \<Rightarrow> f64 \<Rightarrow> bool" where
  "f64_le NaN _ = False"
| "f64_le _ NaN = False"
| "f64_le (Fin x) (Fin y) = (x \<le> y)"
| "f64_le NInf _ = True"
| "f64_le _ PInf = True"
| "f64_le _ _ = False"

definition f64_eq :: "f64 \<Rightarrow> f64 \<Rightarrow> bool" where
  "f64_eq a b \<longleftrightarrow> a \<noteq> NaN \<and> a = b"

definition f64_lt :: "f64 \<Rightarrow> f64 \<Rightarrow> bool" where
  "f64_lt a b \<longleftrightarrow> f64_le a b \<and> \<not> f64_eq a b"

definition f64_is_finite :: "f64 \<Rightarrow> bool" where
  "f64_is_finite v \<longleftrightarrow> (case v of Fin _ \<Rightarrow> True | _ \<Rightarrow> False)"

fun f64_floor :: "f64 \<Rightarrow> f64" where
  "f64_floor (Fin x) = Fin (of_int \<lfloor>x\<rfloor>)"
| "f64_floor v = v"

fun f64_ceil :: "f64 \<Rightarrow> f64" where
  "f64_ceil (Fin x) = Fin (of_int \<lceil>x\<rceil>)"
| "f64_ceil v = v"

text \<open>\<open>n as f64\<close>, and the saturating casts \<open>v as i64\<close> and \<open>v as u64\<close>.\<close>

definition f64_of_int :: "int \<Rightarrow> f64" where
  "f64_of_int n = f64_round (of_int n)"

definition trunc_rat :: "rat \<Rightarrow> int" where
  "trunc_rat x = (if x \<ge> 0 then \<lfloor>x\<rfloor> else \<lceil>x\<rceil>)"

fun f64_as_i64 :: "f64 \<Rightarrow> int" where
  "f64_as_i64 (Fin x) = clamp_i64 (trunc_rat x)"
| "f64_as_i64 PInf = i64_max"
| "f64_as_i64 NInf = i64_min"
| "f64_as_i64 NaN = 0"

fun f64_as_u64 :: "f64 \<Rightarrow> nat" where
  "f64_as_u64 (Fin x) = nat (max 0 (min (int u64_max) (trunc_rat x)))"
| "f64_as_u64 PInf = u64_max"
| "f64_as_u64 NInf = 0"
| "f64_as_u64 NaN = 0"

text \<open>\<open>iter().sum::<f64>()\<close> adds from the left.\<close>

definition f64_sum :: "f64 list \<Rightarrow> f64" where
  "f64_sum vs = foldl f64_add (Fin 0) vs"

section \<open>Rounding error\<close>

lemma bitlen_powi_bounds:
  assumes "0 < n"
  shows "2 powi (bitlen n - 1) \<le> (of_int n :: rat)" and "(of_int n :: rat) < 2 powi bitlen n"
proof -
  have b: "1 \<le> bitlen n" using assms by (simp add: bitlen_def floorlog_def)
  have lo: "2 ^ nat (bitlen n - 1) \<le> n" and hi: "n < 2 ^ nat (bitlen n)"
    using bitlen_bounds[OF assms] by auto
  from lo have "(of_int (2 ^ nat (bitlen n - 1)) :: rat) \<le> of_int n" by (simp only: of_int_le_iff)
  with b show "2 powi (bitlen n - 1) \<le> (of_int n :: rat)" by (simp add: power_int_def)
  from hi have "(of_int n :: rat) < of_int (2 ^ nat (bitlen n))" by (simp only: of_int_less_iff)
  with b show "(of_int n :: rat) < 2 powi bitlen n" by (simp add: power_int_def)
qed

lemma exponent2_bounds:
  assumes "0 < a"
  shows "2 powi exponent2 a \<le> a" and "a < 2 powi (exponent2 a + 1)"
proof -
  obtain p q where pq: "quotient_of a = (p, q)" by fastforce
  have q: "0 < q" using quotient_of_denom_pos[OF pq] .
  have a: "a = of_int p / of_int q" using quotient_of_div[OF pq] .
  have p: "0 < p" using assms q by (simp add: a zero_less_divide_iff)
  define e where "e = bitlen p - bitlen q"
  note P = bitlen_powi_bounds[OF p] and Q = bitlen_powi_bounds[OF q]
  have "a < 2 powi bitlen p / 2 powi (bitlen q - 1)"
    unfolding a using P(2) Q(1) q p by (intro frac_less) auto
  also have "\<dots> = 2 powi (e + 1)" by (simp add: e_def power_int_diff power_int_add)
  finally have hi: "a < 2 powi (e + 1)" .
  have "2 powi (bitlen p - 1) / 2 powi bitlen q \<le> a"
    unfolding a using P(1) Q(2) q p by (intro frac_le) auto
  then have lo: "2 powi (e - 1) \<le> a" by (simp add: e_def power_int_diff)
  show "2 powi exponent2 a \<le> a" and "a < 2 powi (exponent2 a + 1)"
    using hi lo by (auto simp: exponent2_def pq Let_def e_def[symmetric])
qed

lemma round_half_even_error: "\<bar>of_int (round_half_even x) - x\<bar> \<le> 1 / 2"
proof -
  define f where "f = \<lfloor>x\<rfloor>"
  have "of_int f \<le> x" and "x < of_int f + 1" unfolding f_def by linarith+
  then show ?thesis
    unfolding round_half_even_def Let_def f_def[symmetric] abs_le_iff by auto
qed

lemma round_half_even_int [simp]: "round_half_even (of_int n) = n"
  by (simp add: round_half_even_def)

text \<open>Half an ulp: relative \<open>2 ^ -53\<close>, or the smallest subnormal's half.\<close>

lemma f64_round_error:
  assumes "f64_round x = Fin r"
  shows "\<bar>r - x\<bar> \<le> \<bar>x\<bar> / 2 ^ 53 + 2 powi (- 1075)"
proof (cases "x = 0")
  case False
  define q where "q = ulp_exp x"
  have pos: "(0::rat) < 2 powi q" by simp
  have r: "r = of_int (round_half_even (x / 2 powi q)) * 2 powi q"
    using assms False by (auto simp: f64_round_def q_def Let_def split: if_splits)
  have "\<bar>r - x\<bar> = \<bar>of_int (round_half_even (x / 2 powi q)) - x / 2 powi q\<bar> * 2 powi q"
  proof -
    have "r - x = (of_int (round_half_even (x / 2 powi q)) - x / 2 powi q) * 2 powi q"
      unfolding r using pos by (simp add: left_diff_distrib)
    then show ?thesis using pos by (simp only: abs_mult abs_of_pos)
  qed
  also have "\<dots> \<le> 1 / 2 * 2 powi q"
    by (rule mult_right_mono[OF round_half_even_error]) simp
  also have "1 / 2 * 2 powi q \<le> \<bar>x\<bar> / 2 ^ 53 + 2 powi (- 1075)"
  proof (cases "q = - 1074")
    case True
    then have "q = - 1075 + 1" by simp
    then have "1 / 2 * 2 powi q = (2::rat) powi (- 1075)"
      by (simp only: power_int_add) simp
    then show ?thesis by simp
  next
    case False
    then have "q = exponent2 \<bar>x\<bar> - 52" by (simp add: q_def ulp_exp_def)
    then have "1 / 2 * 2 powi q = 2 powi exponent2 \<bar>x\<bar> / (2 ^ 53 :: rat)"
      by (simp add: power_int_diff)
    also have "\<dots> \<le> \<bar>x\<bar> / 2 ^ 53"
      by (rule divide_right_mono[OF exponent2_bounds(1)]) (use \<open>x \<noteq> 0\<close> in simp_all)
    finally show ?thesis by (simp add: add_increasing2)
  qed
  finally show ?thesis .
qed (use assms in \<open>simp add: f64_round_def\<close>)

lemma exponent2_le:
  assumes "0 < a" and "a < 2 powi (k + 1)"
  shows "exponent2 a \<le> k"
proof (rule ccontr)
  assume "\<not> exponent2 a \<le> k"
  then have "(2::rat) powi (k + 1) \<le> 2 powi exponent2 a" by (intro power_int_increasing) auto
  also have "\<dots> \<le> a" by (rule exponent2_bounds[OF assms(1)])
  finally show False using assms(2) by simp
qed

lemma powi_nonpos_inverse: "q \<le> 0 \<Longrightarrow> (1::rat) / 2 powi q = 2 ^ nat (- q)"
  by (simp add: power_int_def field_simps)

text \<open>A dyadic fraction with a 53-bit numerator is a float, so it is its own rounding.\<close>

lemma f64_round_dyadic:
  assumes "\<bar>n\<bar> < 2 ^ 53" and "k \<le> 1074"
  shows "f64_round (of_int n / 2 ^ k) = Fin (of_int n / 2 ^ k)"
proof (cases "n = 0")
  case False
  define x where "x = rat_of_int n / 2 ^ k"
  define q where "q = ulp_exp x"
  have x0: "x \<noteq> 0" using False by (simp add: x_def)
  have small: "\<bar>rat_of_int n\<bar> < 2 ^ 53"
    using assms(1) by (metis of_int_abs of_int_less_iff of_int_numeral of_int_power)
  have "(2::rat) powi (53 - int k) = 2 ^ 53 / 2 ^ k" by (simp add: power_int_diff)
  then have "\<bar>x\<bar> < 2 powi ((52 - int k) + 1)"
    using small by (simp add: x_def divide_strict_right_mono)
  then have "exponent2 \<bar>x\<bar> \<le> 52 - int k" using x0 by (intro exponent2_le) simp_all
  then have q: "q \<le> - int k" using assms(2) by (simp add: q_def ulp_exp_def)
  then have split: "(2::rat) powi (- q) = 2 ^ k * 2 ^ nat (- q - int k)"
    by (simp add: power_int_def flip: power_add)
  have "x / 2 powi q = x * 2 powi (- q)" by (simp add: power_int_minus divide_inverse)
  also have "\<dots> = of_int (n * 2 ^ nat (- q - int k))" by (simp add: split x_def)
  finally have r: "of_int (round_half_even (x / 2 powi q)) * 2 powi q = x"
    by (metis nonzero_eq_divide_eq power_int_eq_0_iff round_half_even_int zero_neq_numeral)
  have "\<bar>x\<bar> \<le> \<bar>rat_of_int n\<bar>" by (simp add: x_def divide_le_eq mult_le_cancel_left1)
  then have "\<not> 2 ^ 1024 \<le> \<bar>x\<bar>"
    using less_le_trans[OF small, of "2 ^ 1024"] by (simp add: not_le)
  with x0 r show ?thesis by (simp add: f64_round_def q_def[symmetric] Let_def flip: x_def)
qed (simp add: f64_round_def)

lemma f64_round_int: "\<bar>n\<bar> < 2 ^ 53 \<Longrightarrow> f64_round (of_int n) = Fin (of_int n)"
  using f64_round_dyadic[of n 0] by simp

text \<open>Small numerals and halves of them, for evaluating concrete inputs.\<close>

lemma f64_round_simps:
  "f64_round 0 = Fin 0" "f64_round 1 = Fin 1"
  "(numeral v :: int) < 2 ^ 53 \<Longrightarrow> f64_round (numeral v) = Fin (numeral v)"
  using f64_round_int[of 0] f64_round_int[of 1] f64_round_int[of "numeral v"] by simp_all

lemma f64_of_int_exact: "\<bar>n\<bar> < 2 ^ 53 \<Longrightarrow> f64_of_int n = Fin (of_int n)"
  by (simp add: f64_of_int_def f64_round_int)

end
