(* ===== verification/Pool_Db.thy ===== *)
theory Pool_Db
  imports Prelude F64 Fees
begin

text \<open>
  The PostgreSQL database the pool keeps its state in, as seen through
  \<open>crates/katpool-db\<close>: one record field per table, rows in insertion order, a counter per
  \<open>BIGSERIAL\<close> key, and the schema's constraints (\<open>crates/katpool-db/migrations\<close>) as checks
  of the statements that could violate them.

  \<^item> \<open>now\<close> is the statement timestamp SQL's \<open>now()\<close> returns.
  \<^item> \<open>faults\<close> says, for every statement in the order they are sent, whether the
    connection fails at it; a failed statement has no effect and raises \<open>DbIo\<close>.  All
    theorems quantify over it, so they cover an outage or a crash between any two
    statements.
  \<^item> \<open>transaction\<close> undoes the tables on an error, as \<open>ROLLBACK\<close> does.

  Columns that no modelled statement reads or writes (worker and session references,
  correlation ids, JSON payloads) are left out of the rows.
\<close>

type_synonym bytes = "nat list"
type_synonym timestamp = int
type_synonym wallet_id = int

datatype db_error =
    DbIo
  | Constraint string
  | RowNotFound
  | DbConfig string

section \<open>Rows\<close>

record wallet_row =
  w_id :: wallet_id
  w_address :: string
  w_network :: string

record share_row =
  sh_wallet :: wallet_id
  sh_difficulty :: f64
  sh_daa :: int
  sh_credited_at :: timestamp

record share_window =
  sw_id :: int
  sw_wallet :: wallet_id
  sw_daa_start :: int
  sw_daa_end :: int
  sw_started_at :: timestamp
  sw_ended_at :: timestamp
  sw_total_weight :: f64
  sw_share_count :: int

record coinbase_reward =
  cr_id :: int
  cr_txid :: bytes
  cr_index :: int
  cr_amount :: int
  cr_block_daa :: int
  cr_discovered_at :: timestamp
  cr_allocated_at :: "timestamp option"

record share_allocation =
  sa_id :: int
  sa_reward :: int
  sa_wallet :: wallet_id
  sa_weight :: f64
  sa_window_total :: f64
  sa_gross :: int
  sa_pool_fee :: int
  sa_nacho :: int
  sa_net :: int
  sa_computed_at :: timestamp
  sa_topline_bps :: int
  sa_rebate_bps :: int
  sa_tier :: wallet_tier

record nacho_rebate =
  nr_wallet :: wallet_id
  nr_accrued :: int
  nr_paid :: int
  nr_updated_at :: timestamp

datatype block_status = Found | SubmittedToNode | ConfirmedBlue | Matured | Orphaned

record block =
  b_id :: int
  b_hash :: bytes
  b_daa :: int
  b_blue_score :: "int option"
  b_status :: block_status
  b_found_at :: timestamp
  b_submitted_at :: "timestamp option"
  b_confirmed_at :: "timestamp option"
  b_matured_at :: "timestamp option"
  b_reward :: "int option"

datatype payout_kind = Kas | Krc20Nacho | Zkas

datatype payout_cycle_status = CyPlanned | CyBroadcasting | CyPartiallySettled | CySettled | CyFailed

datatype payout_status = Planned | Submitted | Accepted | Confirmed | Failed

datatype krc20_transfer_status = KPending | CommitSubmitted | RevealSubmitted | Completed | KFailed

record payout_cycle =
  pc_id :: int
  pc_kind :: payout_kind
  pc_status :: payout_cycle_status
  pc_daa_start :: int
  pc_daa_end :: int
  pc_planned_at :: timestamp
  pc_broadcast_at :: "timestamp option"
  pc_settled_at :: "timestamp option"
  pc_total_sompi :: int
  pc_total_recipients :: int
  pc_key :: string

record payout =
  po_id :: int
  po_cycle :: int
  po_wallet :: wallet_id
  po_amount :: int
  po_status :: payout_status
  po_tx_hash :: "bytes option"
  po_commit_hash :: "bytes option"
  po_reveal_hash :: "bytes option"
  po_planned_at :: timestamp
  po_submitted_at :: "timestamp option"
  po_confirmed_at :: "timestamp option"
  po_accepted_daa :: "int option"
  po_failure :: "string option"

record krc20_transfer =
  kt_id :: int
  kt_payout :: int
  kt_sompi :: int
  kt_nacho :: int
  kt_p2sh :: string
  kt_status :: krc20_transfer_status
  kt_commit_fee :: "int option"
  kt_reveal_fee :: "int option"
  kt_created_at :: timestamp
  kt_updated_at :: timestamp

record pool_meta_entry =
  pm_value :: string
  pm_updated_at :: timestamp

record audit_entry =
  au_actor :: string
  au_action :: string
  au_subject :: "string \<times> int"

section \<open>The database\<close>

record pool_db =
  now :: timestamp
  faults :: "nat \<Rightarrow> bool"
  calls :: nat
  wallets :: "wallet_row list"
  shares :: "share_row list"
  windows :: "share_window list"
  next_window :: int
  rewards :: "coinbase_reward list"
  next_reward :: int
  allocs :: "share_allocation list"
  next_alloc :: int
  rebates :: "nacho_rebate list"
  blocks :: "block list"
  cycles :: "payout_cycle list"
  next_cycle :: int
  payouts :: "payout list"
  next_payout :: int
  transfers :: "krc20_transfer list"
  next_transfer :: int
  meta :: "string \<rightharpoonup> pool_meta_entry"
  audit :: "audit_entry list"

type_synonym ('z, 'a) db_act = "('z pool_db_scheme, db_error, 'a) act"

text \<open>One statement sent to the server.\<close>

definition sql :: "('z, 'a) db_act \<Rightarrow> ('z, 'a) db_act" where
  "sql m s =
     (let t = s\<lparr>calls := Suc (calls s)\<rparr> in if faults s (calls s) then (Inl DbIo, t) else m t)"

text \<open>
  \<open>BEGIN \<dots> COMMIT\<close>: an error in the body or at the commit leaves the tables as they were
  before (\<open>BEGIN\<close> itself is a statement).
\<close>

definition transaction :: "('z pool_db_scheme, 'e, 'a) act \<Rightarrow> (db_error \<Rightarrow> 'e) \<Rightarrow> ('z pool_db_scheme, 'e, 'a) act" where
  "transaction body conv s =
     (case bindE (map_err conv (sql (ret ())))
             (\<lambda>_. bindE body (\<lambda>a. bindE (map_err conv (sql (ret ()))) (\<lambda>_. ret a))) s of
        (Inl e, t) \<Rightarrow> (Inl e, s\<lparr>calls := calls t\<rparr>)
      | (Inr a, t) \<Rightarrow> (Inr a, t))"

text \<open>\<open>UPDATE \<dots> SET f WHERE P\<close> on a table, with the schema's row check.\<close>

definition update_where :: "('r \<Rightarrow> bool) \<Rightarrow> ('r \<Rightarrow> 'r) \<Rightarrow> 'r list \<Rightarrow> 'r list" where
  "update_where P f rows = map (\<lambda>r. if P r then f r else r) rows"

definition rows_affected :: "('r \<Rightarrow> bool) \<Rightarrow> 'r list \<Rightarrow> nat" where
  "rows_affected P rows = length (filter P rows)"

definition coalesce :: "'a option \<Rightarrow> 'a option \<Rightarrow> 'a option" where
  "coalesce a b = (case a of Some x \<Rightarrow> Some x | None \<Rightarrow> b)"

text \<open>\<open>ORDER BY k DESC, id ASC\<close>.\<close>

definition order_desc :: "('r \<Rightarrow> int) \<Rightarrow> ('r \<Rightarrow> int) \<Rightarrow> 'r list \<Rightarrow> 'r list" where
  "order_desc k rid rows = sort_key (\<lambda>r. - k r) (sort_key rid rows)"

lemma set_order_desc [simp]: "set (order_desc k rid rows) = set rows"
  by (simp add: order_desc_def)

lemma mset_order_desc [simp]: "mset (order_desc k rid rows) = mset rows"
  by (simp add: order_desc_def)

lemma length_order_desc [simp]: "length (order_desc k rid rows) = length rows"
  by (simp add: order_desc_def)

lemma distinct_map_order_desc [simp]:
  "distinct (map f (order_desc k rid rows)) \<longleftrightarrow> distinct (map f rows)"
  by (metis mset_map mset_order_desc mset_eq_imp_distinct_iff)

lemma sum_list_order_desc: "sum_list (map f (order_desc k rid rows)) = (sum_list (map f rows) :: int)"
  by (metis mset_map mset_order_desc sum_mset_sum_list)

lemma coalesce_simps [simp]: "coalesce (Some x) b = Some x" "coalesce None b = b"
  by (simp_all add: coalesce_def)

lemma in_update_where:
  "r \<in> set (update_where P f rows) \<longleftrightarrow> (\<exists>r0 \<in> set rows. r = (if P r0 then f r0 else r0))"
  by (auto simp: update_where_def)

lemma map_update_where:
  "(\<And>r. P r \<Longrightarrow> g (f r) = g r) \<Longrightarrow> map g (update_where P f rows) = map g rows"
  by (simp add: update_where_def)

lemma image_update_where:
  "(\<And>r. P r \<Longrightarrow> g (f r) = g r) \<Longrightarrow> g ` set (update_where P f rows) = g ` set rows"
  by (metis list.set_map map_update_where)

section \<open>Carrying invariants through statements\<close>

text \<open>
  An invariant of the tables does not look at the clock, the fault oracle or the statement
  counter.
\<close>

definition db_inv :: "('z pool_db_scheme \<Rightarrow> bool) \<Rightarrow> bool" where
  "db_inv I \<longleftrightarrow> (\<forall>s n. I (s\<lparr>calls := n\<rparr>) = I s)"

lemma preserves_sql [preserves_rules]:
  assumes "db_inv I" and "preserves I m"
  shows "preserves I (sql m)"
  using assms by (auto simp: preserves_def sql_def Let_def db_inv_def)

lemma preserves_transaction [preserves_rules]:
  assumes "db_inv I" and "preserves I body"
  shows "preserves I (transaction body conv)"
proof -
  let ?m = "bindE (map_err conv (sql (ret ()))) (\<lambda>_. bindE body
     (\<lambda>a. bindE (map_err conv (sql (ret ()))) (\<lambda>_. ret a)))"
  have "preserves I ?m" using assms by (intro preserves_rules)
  then show ?thesis
    using assms(1)
    by (auto simp: preserves_def transaction_def db_inv_def split: prod.split sum.split)
qed

lemma sql_cases:
  obtains "sql m s = (Inl DbIo, s\<lparr>calls := Suc (calls s)\<rparr>)"
  | "sql m s = m (s\<lparr>calls := Suc (calls s)\<rparr>)"
  by (cases "faults s (calls s)") (auto simp: sql_def Let_def)

lemma sql_Inr: "sql m s = (Inr a, t) \<Longrightarrow> m (s\<lparr>calls := Suc (calls s)\<rparr>) = (Inr a, t)"
  by (auto simp: sql_def Let_def split: if_splits)

lemma transaction_Inl:
  "transaction body conv s = (Inl e, t) \<Longrightarrow> t = s\<lparr>calls := calls t\<rparr>"
  by (auto simp: transaction_def split: prod.splits sum.splits)

lemma transaction_Inr:
  assumes "transaction body conv s = (Inr a, t)"
  obtains v where "body (s\<lparr>calls := Suc (calls s)\<rparr>) = (Inr a, v)" and "t = v\<lparr>calls := Suc (calls v)\<rparr>"
  using assms
  by (auto simp: transaction_def bindE_def map_err_def sql_def Let_def ret_def
      split: prod.splits sum.splits if_splits)

section \<open>Tables whose rows only move forward\<close>

text \<open>
  The contract behind every status column: an action may add rows and may move rows
  forward in an order \<open>le\<close>, but never drops a row or moves it back.  Sequencing, loops,
  failed statements and rolled-back transactions keep it, so a component only has to show
  it for its own statements.
\<close>

locale monotone_table =
  fixes rows :: "'z pool_db_scheme \<Rightarrow> 'r list"
    and le :: "'r \<Rightarrow> 'r \<Rightarrow> bool"
  assumes le_refl: "le r r"
    and le_trans: "le a b \<Longrightarrow> le b c \<Longrightarrow> le a c"
    and rows_calls: "rows (s\<lparr>calls := n\<rparr>) = rows s"
begin

definition extends :: "'r list \<Rightarrow> 'r list \<Rightarrow> bool" where
  "extends xs ys \<longleftrightarrow> (\<forall>x \<in> set xs. \<exists>y \<in> set ys. le x y)"

definition advances :: "('z pool_db_scheme, 'e, 'a) act \<Rightarrow> bool" where
  "advances m \<longleftrightarrow> (\<forall>s. extends (rows s) (rows (snd (m s))))"

lemma extends_refl: "extends xs xs"
  using le_refl by (auto simp: extends_def)

lemma extends_trans: "extends xs ys \<Longrightarrow> extends ys zs \<Longrightarrow> extends xs zs"
  unfolding extends_def by (meson le_trans)

lemma extends_append: "extends xs (xs @ ys)"
  using le_refl by (auto simp: extends_def)

lemma extends_update: "(\<And>r. P r \<Longrightarrow> le r (f r)) \<Longrightarrow> extends xs (update_where P f xs)"
  unfolding extends_def by (metis in_update_where le_refl)

lemma advancesI: "(\<And>s. extends (rows s) (rows (snd (m s)))) \<Longrightarrow> advances m"
  by (simp add: advances_def)

lemma advancesD: "advances m \<Longrightarrow> extends (rows s) (rows (snd (m s)))"
  by (simp add: advances_def)

lemma advances_same: "(\<And>s. rows (snd (m s)) = rows s) \<Longrightarrow> advances m"
  by (simp add: advances_def extends_refl)

lemma advances_pure: "advances (ret a)" "advances (raise e)" "advances (gets f)" "advances (lift_sum r)"
  by (simp_all add: advances_def extends_refl)

lemma advances_bindE: "advances m \<Longrightarrow> (\<And>a. advances (f a)) \<Longrightarrow> advances (bindE m f)"
  unfolding advances_def bindE_def
  by (auto split: prod.split sum.split) (metis extends_trans snd_conv)+

lemma advances_map_err: "advances m \<Longrightarrow> advances (map_err g m)"
  unfolding advances_def map_err_def by (auto split: prod.split sum.split) (metis snd_conv)+

lemma advances_foldE: "(\<And>b x. advances (f b x)) \<Longrightarrow> advances (foldE f b xs)"
proof (rule advancesI)
  fix s assume f: "\<And>b x. advances (f b x)"
  show "extends (rows s) (rows (snd (foldE f b xs s)))"
  proof (induction xs arbitrary: b s)
    case (Cons x xs)
    show ?case using advancesD[OF f, of s b x] Cons.IH
      by (auto split: prod.split sum.split) (meson extends_trans)
  qed (simp add: extends_refl)
qed

lemma advances_sql: "advances m \<Longrightarrow> advances (sql m)"
  unfolding advances_def sql_def Let_def by (auto simp: rows_calls extends_refl) (metis rows_calls)

lemma advances_transaction:
  assumes "advances body"
  shows "advances (transaction body conv)"
proof (rule advancesI)
  fix s :: "'z pool_db_scheme"
  let ?m = "bindE (map_err conv (sql (ret ()))) (\<lambda>_. bindE body
     (\<lambda>a. bindE (map_err conv (sql (ret ()))) (\<lambda>_. ret a)))"
  have "advances ?m"
    by (intro advances_bindE advances_map_err advances_sql advances_pure assms)
  then show "extends (rows s) (rows (snd (transaction body conv s)))"
    using advancesD[of ?m s]
    by (auto simp: transaction_def rows_calls extends_refl split: prod.split sum.split)
qed

lemma advances_if: "advances m \<Longrightarrow> advances n \<Longrightarrow> advances (if c then m else n)"
  by simp

lemmas advances_intros =
  advances_pure advances_bindE advances_map_err advances_foldE advances_sql advances_transaction
  advances_if

end

text \<open>A freshly migrated database on a healthy connection.\<close>

definition empty_db :: pool_db where
  "empty_db = \<lparr>now = 0, faults = (\<lambda>_. False), calls = 0, wallets = [], shares = [], windows = [],
     next_window = 1, rewards = [], next_reward = 1, allocs = [], next_alloc = 1, rebates = [],
     blocks = [], cycles = [], next_cycle = 1, payouts = [], next_payout = 1, transfers = [],
     next_transfer = 1, meta = (\<lambda>_. None), audit = []\<rparr>"

end
