(* ===== verification/Payout_Cycle.thy ===== *)
theory Payout_Cycle
  imports Payout_Repo
begin

text \<open>
  Payout cycles, the part the KAS and ZKas engines share in shape: the DAA window a cycle is
  named after (\<open>payout-kas/src/window.rs\<close>, \<open>payout-zkas/src/window.rs\<close>), planning
  (\<open>payout-kas/src/plan.rs\<close>), the restart-safe state machine of a KAS cycle
  (\<open>payout-kas/src/cycle.rs\<close>) and the KAS confirmation policy (\<open>payout-kas/src/confirm.rs\<close>).

  The lemmas show that the windows tile the score axis, that planning creates one row per
  eligible wallet with the right amount and totals or nothing at all, that a resumed cycle is
  frozen, that the cycle status is the documented fold of the recipients' statuses, and when
  a payout counts as confirmed.
\<close>

section \<open>Windows\<close>

definition cycle_window :: "nat \<Rightarrow> nat \<Rightarrow> nat \<times> nat" where
  "cycle_window virtual_daa_score span0 =
     (let span = max span0 1;
          bucket = virtual_daa_score div span;
          start = sat_mul_u64 bucket span
      in (start, sat_add_u64 start span))"

text \<open>
  The window of a DAA score is a half-open interval of width \<open>span\<close> (at least one) that
  contains the score, and every score inside it has the same window: ticks of one bucket
  resume one cycle, and consecutive windows neither overlap nor leave a gap.
\<close>

theorem cycle_window_correct:
  assumes "cycle_window v sp = (a, b)" and "v + max sp 1 \<le> u64_max"
  shows "b = a + max sp 1 \<and> a \<le> v \<and> v < b \<and>
    (\<forall>u. a \<le> u \<and> u < b \<longrightarrow> cycle_window u sp = (a, b)) \<and>
    fst (cycle_window b sp) = b"
proof -
  define w where "w = max sp 1"
  have w: "0 < w" by (simp add: w_def)
  have small: "u div w * w \<le> u" for u by (simp add: div_times_less_eq_dividend)
  have step: "cycle_window u sp = (sat_mul_u64 (u div w) w, sat_add_u64 (sat_mul_u64 (u div w) w) w)" for u
    by (simp add: cycle_window_def Let_def w_def)
  have fits: "v + w \<le> u64_max" using assms(2) by (simp add: w_def)
  then have lo: "v div w * w + w \<le> u64_max" using small[of v] by linarith
  then have a: "a = v div w * w" and b: "b = a + w"
    using assms(1) by (auto simp: step sat_mul_u64_def sat_add_u64_def)
  have "v < b" using dividend_less_div_times[OF w, of v] by (simp add: a b)
  moreover have "cycle_window u sp = (a, b)" if "a \<le> u \<and> u < b" for u
  proof -
    have "u div w = v div w" using that unfolding a b by (intro div_nat_eqI) (auto simp: algebra_simps)
    then show ?thesis using assms(1) by (auto simp: step)
  qed
  moreover have "fst (cycle_window b sp) = b"
  proof -
    have "b div w * w = b" unfolding a b using w by (simp add: algebra_simps)
    then show ?thesis using lo unfolding a b by (simp add: step sat_mul_u64_def)
  qed
  moreover have "max sp 1 = w" by (simp add: w_def)
  ultimately show ?thesis using small[of v] by (simp only:) (simp add: a b)
qed

theorem cycle_window_correct_witness:
  "cycle_window 7300 3600 = (7200, 10800) \<and> (7200 \<le> (7300::nat) \<and> cycle_window 7999 3600 = (7200, 10800))"
proof -
  have "cycle_window 7300 3600 = (7200, 10800)"
    by (simp add: cycle_window_def Let_def sat_mul_u64_def sat_add_u64_def)
  with cycle_window_correct[OF this] show ?thesis by simp
qed

section \<open>Planning\<close>

text \<open>The loop of both planners: one ensured row per eligible wallet, totals saturating.\<close>

definition ensure_recipients ::
  "(kas_eligible_wallet \<Rightarrow> int) \<Rightarrow> int \<Rightarrow> kas_eligible_wallet list \<Rightarrow> ('z, int \<times> int) db_act" where
  "ensure_recipients amt cid ws = foldE (\<lambda>(total_sompi, total_recipients) w.
     bindE (ensure_payout cid (ew_wallet w) (amt w)) (\<lambda>_.
     ret (sat_add_i64 total_sompi (amt w), sat_add_i32 total_recipients 1))) (0, 0) ws"

text \<open>The body of the planning transaction.\<close>

definition plan_body ::
  "payout_kind \<Rightarrow> (kas_eligible_wallet \<Rightarrow> int) \<Rightarrow> int \<Rightarrow> nat \<Rightarrow> nat \<Rightarrow>
   ('z, payout_cycle \<times> kas_eligible_wallet list \<times> int) db_act" where
  "plan_body kind amt threshold daa_start daa_end =
     bindE (create_cycle kind daa_start daa_end) (\<lambda>cycle.
     bindE (eligible_query kind threshold) (\<lambda>eligible.
     bindE (ensure_recipients amt (pc_id cycle) eligible) (\<lambda>(total_sompi, total_recipients).
     bindE (set_cycle_totals (pc_id cycle) total_sompi total_recipients) (\<lambda>_.
     ret (cycle, eligible, total_sompi)))))"

record plan_kas_cycle_params =
  kp_daa_start :: nat
  kp_daa_end :: nat
  kp_threshold :: int

text \<open>\<open>PlanKasCycleResult\<close> and \<open>CycleState\<close> have the same two fields.\<close>

record cycle_state =
  cs_cycle :: payout_cycle
  cs_payouts :: "payout list"

definition plan_kas_cycle :: "plan_kas_cycle_params \<Rightarrow> ('z, cycle_state) db_act" where
  "plan_kas_cycle params =
     bindE (transaction (plan_body Kas ew_payable (kp_threshold params)
              (kp_daa_start params) (kp_daa_end params)) id) (\<lambda>(cycle, _, _).
     bindE (list_for_cycle (pc_id cycle)) (\<lambda>payouts.
     bindE (get_cycle (pc_id cycle)) (\<lambda>cycle.
     ret \<lparr>cs_cycle = cycle, cs_payouts = payouts\<rparr>)))"

section \<open>Cycle status\<close>

record payout_status_counts =
  ct_total :: nat
  ct_pending :: nat
  ct_in_flight :: nat
  ct_confirmed :: nat
  ct_failed :: nat

definition count_status :: "payout_status_counts \<Rightarrow> payout \<Rightarrow> payout_status_counts" where
  "count_status c p = (case po_status p of
      Planned \<Rightarrow> c\<lparr>ct_pending := ct_pending c + 1\<rparr>
    | Submitted \<Rightarrow> c\<lparr>ct_in_flight := ct_in_flight c + 1\<rparr>
    | Accepted \<Rightarrow> c\<lparr>ct_in_flight := ct_in_flight c + 1\<rparr>
    | Confirmed \<Rightarrow> c\<lparr>ct_confirmed := ct_confirmed c + 1\<rparr>
    | Failed \<Rightarrow> c\<lparr>ct_failed := ct_failed c + 1\<rparr>)"

definition from_payouts :: "payout list \<Rightarrow> payout_status_counts" where
  "from_payouts ps = foldl count_status
     \<lparr>ct_total = length ps, ct_pending = 0, ct_in_flight = 0, ct_confirmed = 0, ct_failed = 0\<rparr> ps"

definition derive_cycle_status :: "payout_status_counts \<Rightarrow> payout_cycle_status" where
  "derive_cycle_status c =
     (if ct_total c = 0 then CyPlanned
      else if ct_confirmed c = ct_total c then CySettled
      else if ct_confirmed c + ct_failed c = ct_total c
        then (if 0 < ct_confirmed c then CyPartiallySettled else CyFailed)
      else if 0 < ct_confirmed c then CyPartiallySettled
      else if 0 < ct_in_flight c \<or> 0 < ct_failed c then CyBroadcasting
      else CyPlanned)"

definition pending_payouts :: "cycle_state \<Rightarrow> payout list" where
  "pending_payouts st = filter (\<lambda>p. po_status p = Planned) (cs_payouts st)"

definition derived_status :: "cycle_state \<Rightarrow> payout_cycle_status" where
  "derived_status st = derive_cycle_status (from_payouts (cs_payouts st))"

definition resume_or_plan_kas_cycle :: "plan_kas_cycle_params \<Rightarrow> ('z, cycle_state) db_act" where
  "resume_or_plan_kas_cycle params =
     (let key = idempotency_key Kas (kp_daa_start params) (kp_daa_end params)
      in bindE (find_cycle_by_idempotency_key key) (\<lambda>found.
         case found of
           Some cycle \<Rightarrow>
             bindE (list_for_cycle (pc_id cycle)) (\<lambda>payouts.
             bindE (audit_append ''payout-kas'' ''cycle.resume'' (''payout_cycle'', pc_id cycle)) (\<lambda>_.
             ret \<lparr>cs_cycle = cycle, cs_payouts = payouts\<rparr>))
         | None \<Rightarrow>
             bindE (plan_kas_cycle params) (\<lambda>planned.
             bindE (audit_append ''payout-kas'' ''cycle.plan'' (''payout_cycle'', pc_id (cs_cycle planned))) (\<lambda>_.
             ret planned))))"

definition persist_cycle_status :: "int \<Rightarrow> payout_cycle_status \<Rightarrow> ('z, unit) db_act" where
  "persist_cycle_status cid derived = (case derived of
      CyPlanned \<Rightarrow> ret ()
    | CyBroadcasting \<Rightarrow> mark_cycle_broadcasting cid
    | CyPartiallySettled \<Rightarrow> seqE (mark_cycle_broadcasting cid) (mark_cycle_partially_settled cid)
    | CySettled \<Rightarrow> seqE (mark_cycle_broadcasting cid) (mark_cycle_settled cid)
    | CyFailed \<Rightarrow> mark_cycle_failed cid)"

definition reconcile_cycle_status :: "int \<Rightarrow> ('z, payout_cycle_status) db_act" where
  "reconcile_cycle_status cid =
     bindE (list_for_cycle cid) (\<lambda>payouts.
     let derived = derive_cycle_status (from_payouts payouts)
     in bindE (transaction
          (seqE (persist_cycle_status cid derived)
                (audit_append ''payout-kas'' ''cycle.reconcile'' (''payout_cycle'', cid))) id)
        (\<lambda>_. ret derived))"

section \<open>KAS confirmation policy\<close>

definition KAS_PAYOUT_CONFIRMATION_DAA :: nat where "KAS_PAYOUT_CONFIRMATION_DAA = 100"
definition NON_COINBASE_MATURITY_DAA :: nat where "NON_COINBASE_MATURITY_DAA = 10"
definition COINBASE_MATURITY_DAA :: nat where "COINBASE_MATURITY_DAA = 1000"

datatype confirmation_state = CsPending | CsAccepted | CsConfirmed | CsUnknown

record kas_confirmation_inputs =
  ki_virtual_daa_score :: nat
  ki_in_mempool :: bool
  ki_change_block_daa_score :: "nat option"
  ki_recorded_accept_daa :: "nat option"

definition kas_classify_confirmation :: "kas_confirmation_inputs \<Rightarrow> confirmation_state" where
  "kas_classify_confirmation i =
     (case (case ki_recorded_accept_daa i of Some d \<Rightarrow> Some d | None \<Rightarrow> ki_change_block_daa_score i) of
        Some d \<Rightarrow> if sat_add_u64 d KAS_PAYOUT_CONFIRMATION_DAA \<le> ki_virtual_daa_score i
                  then CsConfirmed else CsAccepted
      | None \<Rightarrow> if ki_in_mempool i then CsPending else CsUnknown)"

definition is_spendable :: "nat \<Rightarrow> bool \<Rightarrow> nat \<Rightarrow> bool" where
  "is_spendable block_daa_score is_coinbase virtual_daa_score =
     (let needed = (if is_coinbase then COINBASE_MATURITY_DAA else NON_COINBASE_MATURITY_DAA)
      in sat_add_u64 block_daa_score needed \<le> virtual_daa_score)"

section \<open>The status fold\<close>

abbreviation with_status :: "payout_status set \<Rightarrow> payout list \<Rightarrow> nat" where
  "with_status S ps \<equiv> length (filter (\<lambda>p. po_status p \<in> S) ps)"

lemma foldl_count_status:
  "foldl count_status c ps =
     c\<lparr>ct_pending := ct_pending c + with_status {Planned} ps,
       ct_in_flight := ct_in_flight c + with_status {Submitted, Accepted} ps,
       ct_confirmed := ct_confirmed c + with_status {Confirmed} ps,
       ct_failed := ct_failed c + with_status {Failed} ps\<rparr>"
proof (induction ps arbitrary: c)
  case (Cons p ps)
  show ?case by (cases "po_status p"; simp add: Cons.IH; simp add: count_status_def)
qed simp

lemma from_payouts_eq:
  "from_payouts ps = \<lparr>ct_total = length ps, ct_pending = with_status {Planned} ps,
     ct_in_flight = with_status {Submitted, Accepted} ps,
     ct_confirmed = with_status {Confirmed} ps, ct_failed = with_status {Failed} ps\<rparr>"
  by (simp add: from_payouts_def foldl_count_status)

lemma with_status_0: "with_status S ps = 0 \<longleftrightarrow> (\<forall>p \<in> set ps. po_status p \<notin> S)"
  by (auto simp: filter_empty_conv)

lemma with_status_all: "with_status S ps = length ps \<longleftrightarrow> (\<forall>p \<in> set ps. po_status p \<in> S)"
  by (metis (no_types, lifting) filter_id_conv filter_True length_filter_less nless_le)

lemma with_status_Un:
  "S \<inter> T = {} \<Longrightarrow> with_status S ps + with_status T ps = with_status (S \<union> T) ps"
  by (induction ps) auto

text \<open>
  The derived cycle status is exactly the documented fold of the recipients' statuses,
  and the five cases are exclusive: settled when all recipients are confirmed, failed when
  all failed, partially settled when some but not all are confirmed, planned when nothing
  has left \<open>planned\<close>, broadcasting otherwise.
\<close>

theorem derive_cycle_status_correct:
  "derive_cycle_status (from_payouts ps) =
     (if \<forall>p \<in> set ps. po_status p = Planned then CyPlanned
      else if \<forall>p \<in> set ps. po_status p = Confirmed then CySettled
      else if \<forall>p \<in> set ps. po_status p = Failed then CyFailed
      else if \<exists>p \<in> set ps. po_status p = Confirmed then CyPartiallySettled
      else CyBroadcasting)"
proof (cases "ps = []")
  case False
  have cf: "with_status {Confirmed} ps + with_status {Failed} ps = length ps \<longleftrightarrow>
      (\<forall>p \<in> set ps. po_status p = Confirmed \<or> po_status p = Failed)"
    using with_status_Un[of "{Confirmed}" "{Failed}" ps] with_status_all[of "{Confirmed} \<union> {Failed}" ps]
    by auto
  have pos: "0 < with_status S ps \<longleftrightarrow> (\<exists>p \<in> set ps. po_status p \<in> S)" for S
    using with_status_0[of S ps] by (metis gr_zeroI less_numeral_extra(3))
  have all: "with_status {Confirmed} ps = length ps \<longleftrightarrow> (\<forall>p \<in> set ps. po_status p = Confirmed)"
    using with_status_all[of "{Confirmed}" ps] by simp
  obtain q where q: "q \<in> set ps" using False by (meson ex_in_conv set_empty)
  show ?thesis
    unfolding derive_cycle_status_def from_payouts_eq
    using False q unfolding payout_status_counts.simps cf pos all
    by (auto, metis payout_status.exhaust)+
qed (simp add: derive_cycle_status_def from_payouts_eq)

theorem derive_cycle_status_correct_witness:
  "derive_cycle_status (from_payouts [sample_payout Confirmed, sample_payout Submitted]) = CyPartiallySettled"
  using derive_cycle_status_correct[of "[sample_payout Confirmed, sample_payout Submitted]"]
  by (simp add: sample_payout_def)

lemma from_payouts_mset: "mset ps = mset qs \<Longrightarrow> from_payouts ps = from_payouts qs"
proof -
  assume eq: "mset ps = mset qs"
  then have "with_status S ps = with_status S qs" for S by (metis mset_filter size_mset)
  then show ?thesis unfolding from_payouts_eq using mset_eq_length[OF eq] by (simp only:)
qed

section \<open>Persisting the status\<close>

text \<open>The transition table the guarded updates of a reconciliation implement.\<close>

definition reconciled :: "payout_cycle_status \<Rightarrow> payout_cycle_status \<Rightarrow> payout_cycle_status" where
  "reconciled st derived = (case derived of
      CyPlanned \<Rightarrow> st
    | CyBroadcasting \<Rightarrow> if st = CyPlanned then CyBroadcasting else st
    | CyPartiallySettled \<Rightarrow> if st \<in> {CySettled, CyFailed} then st else CyPartiallySettled
    | CySettled \<Rightarrow> if st = CyFailed then CyFailed else CySettled
    | CyFailed \<Rightarrow> if st = CySettled then CySettled else CyFailed)"

abbreviation cycle_statuses :: "'z pool_db_scheme \<Rightarrow> (int \<times> payout_cycle_status) list" where
  "cycle_statuses s \<equiv> map (\<lambda>c. (pc_id c, pc_status c)) (cycles s)"

lemma update_cycle_Inr:
  assumes "update_cycle cid P f s = (Inr u, t)"
  shows "cycles t = update_where (\<lambda>c. pc_id c = cid \<and> P c) (f (now s)) (cycles s)"
    and "payouts t = payouts s" and "audit t = audit s" and "allocs t = allocs s"
    and "wallets t = wallets s"
  using assms by (auto simp: update_cycle_def sql_def Let_def split: if_splits)

lemmas cycle_status_ops =
  mark_cycle_broadcasting_def mark_cycle_partially_settled_def mark_cycle_settled_def
  mark_cycle_failed_def

text \<open>One guarded transition, seen on the status column.\<close>

lemma update_cycle_statuses:
  assumes "update_cycle cid P f s = (Inr u, t)"
    and "\<And>c. P c = Q (pc_status c)" and "\<And>x c. pc_id (f x c) = pc_id c \<and> pc_status (f x c) = st'"
  shows "cycle_statuses t = map (\<lambda>(i, st). (i, if i = cid \<and> Q st then st' else st)) (cycle_statuses s)"
    and "payouts t = payouts s" and "audit t = audit s"
  using update_cycle_Inr[OF assms(1)] assms(2,3) by (simp_all add: update_where_def)

lemma mark_cycle_statuses:
  "mark_cycle_broadcasting cid s = (Inr u, t) \<Longrightarrow>
   cycle_statuses t = map (\<lambda>(i, st). (i, if i = cid \<and> st \<in> {CyPlanned, CyBroadcasting}
     then CyBroadcasting else st)) (cycle_statuses s) \<and> payouts t = payouts s \<and> audit t = audit s"
  "mark_cycle_partially_settled cid s = (Inr u, t) \<Longrightarrow>
   cycle_statuses t = map (\<lambda>(i, st). (i, if i = cid \<and> st \<in> {CyBroadcasting, CyPartiallySettled}
     then CyPartiallySettled else st)) (cycle_statuses s) \<and> payouts t = payouts s \<and> audit t = audit s"
  "mark_cycle_settled cid s = (Inr u, t) \<Longrightarrow>
   cycle_statuses t = map (\<lambda>(i, st). (i, if i = cid \<and> st \<in> {CyBroadcasting, CyPartiallySettled, CySettled}
     then CySettled else st)) (cycle_statuses s) \<and> payouts t = payouts s \<and> audit t = audit s"
  "mark_cycle_failed cid s = (Inr u, t) \<Longrightarrow>
   cycle_statuses t = map (\<lambda>(i, st). (i, if i = cid \<and> st \<noteq> CySettled
     then CyFailed else st)) (cycle_statuses s) \<and> payouts t = payouts s \<and> audit t = audit s"
  unfolding cycle_status_ops by (intro conjI; erule update_cycle_statuses; simp)+

lemma persist_cycle_status_Inr:
  assumes "persist_cycle_status cid d s = (Inr u, t)"
  shows "cycle_statuses t = map (\<lambda>(i, st). (i, if i = cid then reconciled st d else st)) (cycle_statuses s) \<and>
    payouts t = payouts s \<and> audit t = audit s"
proof (cases d)
  case CyPartiallySettled
  with assms obtain w v where "mark_cycle_broadcasting cid s = (Inr v, w)"
    and "mark_cycle_partially_settled cid w = (Inr u, t)"
    by (auto simp: persist_cycle_status_def seqE_def elim: bindE_InrE)
  from mark_cycle_statuses(1)[OF this(1)] mark_cycle_statuses(2)[OF this(2)] CyPartiallySettled
  show ?thesis by (auto simp: reconciled_def comp_def intro: payout_cycle_status.exhaust)
next
  case CySettled
  with assms obtain w v where "mark_cycle_broadcasting cid s = (Inr v, w)"
    and "mark_cycle_settled cid w = (Inr u, t)"
    by (auto simp: persist_cycle_status_def seqE_def elim: bindE_InrE)
  from mark_cycle_statuses(1)[OF this(1)] mark_cycle_statuses(3)[OF this(2)] CySettled
  show ?thesis by (auto simp: reconciled_def comp_def intro: payout_cycle_status.exhaust)
next
  case CyBroadcasting
  then show ?thesis using assms mark_cycle_statuses(1)[of cid s u t]
    by (auto simp: persist_cycle_status_def reconciled_def)
next
  case CyFailed
  then show ?thesis using assms mark_cycle_statuses(4)[of cid s u t]
    by (auto simp: persist_cycle_status_def reconciled_def)
qed (use assms in \<open>auto simp: persist_cycle_status_def reconciled_def\<close>)

lemma list_for_cycle_cases:
  obtains "list_for_cycle cid s = (Inl DbIo, s\<lparr>calls := Suc (calls s)\<rparr>)"
  | "list_for_cycle cid s = (Inr (order_desc po_amount po_id (filter (\<lambda>p. po_cycle p = cid) (payouts s))),
       s\<lparr>calls := Suc (calls s)\<rparr>)"
  by (cases "faults s (calls s)") (auto simp: list_for_cycle_def sql_def Let_def)

text \<open>
  C40. Reconciling a KAS cycle derives the status from the counts of its recipients and moves the cycle row
  accordingly, through broadcasting where needed: a settled cycle is never reopened and a failed one never revived.  It touches no
  other cycle and no payout, and appends one audit entry (also when the status does not move, although its comment says
  that a repetition has no side effects), all in one transaction: when any statement fails, cycles, payouts and audit
  log are as before.
\<close>

theorem reconcile_cycle_status_correct:
  "case reconcile_cycle_status cid s of
     (Inl e, t) \<Rightarrow> cycles t = cycles s \<and> payouts t = payouts s \<and> audit t = audit s
   | (Inr d, t) \<Rightarrow>
       d = derive_cycle_status (from_payouts (filter (\<lambda>p. po_cycle p = cid) (payouts s))) \<and>
       cycle_statuses t = map (\<lambda>(i, st). (i, if i = cid then reconciled st d else st)) (cycle_statuses s) \<and>
       payouts t = payouts s \<and>
       audit t = audit s @ [\<lparr>au_actor = ''payout-kas'', au_action = ''cycle.reconcile'',
                             au_subject = (''payout_cycle'', cid)\<rparr>]"
proof (cases rule: list_for_cycle_cases[of cid s])
  case 1
  then show ?thesis by (simp add: reconcile_cycle_status_def bindE_def)
next
  case 2
  let ?ps = "filter (\<lambda>p. po_cycle p = cid) (payouts s)"
  let ?d = "derive_cycle_status (from_payouts ?ps)"
  let ?s = "s\<lparr>calls := Suc (calls s)\<rparr>"
  let ?body = "seqE (persist_cycle_status cid ?d)
     (audit_append ''payout-kas'' ''cycle.reconcile'' (''payout_cycle'', cid))"
  have d: "derive_cycle_status (from_payouts (order_desc po_amount po_id ?ps)) = ?d"
    by (simp add: from_payouts_mset[of "order_desc po_amount po_id ?ps" ?ps])
  have run: "reconcile_cycle_status cid s = bindE (transaction ?body id) (\<lambda>_. ret ?d) ?s"
    unfolding reconcile_cycle_status_def by (simp add: bindE_def 2 Let_def d)
  show ?thesis
  proof (cases "transaction ?body id ?s")
    case (Pair r t)
    show ?thesis
    proof (cases r)
      case (Inl e)
      with Pair have "transaction ?body id ?s = (Inl e, t)" by simp
      from transaction_Inl[OF this] obtain n where "t = ?s\<lparr>calls := n\<rparr>" by blast
      then show ?thesis unfolding run using Pair Inl by (simp add: bindE_def)
    next
      case (Inr n)
      with Pair have "transaction ?body id ?s = (Inr n, t)" by simp
      then obtain v where b: "?body (?s\<lparr>calls := Suc (calls ?s)\<rparr>) = (Inr n, v)"
        and t: "t = v\<lparr>calls := Suc (calls v)\<rparr>" by (rule transaction_Inr)
      from b obtain u w where p: "persist_cycle_status cid ?d (?s\<lparr>calls := Suc (calls ?s)\<rparr>) = (Inr u, w)"
        and a: "audit_append ''payout-kas'' ''cycle.reconcile'' (''payout_cycle'', cid) w = (Inr n, v)"
        unfolding seqE_def by (rule bindE_InrE)
      have w: "cycle_statuses w = map (\<lambda>(i, st). (i, if i = cid then reconciled st ?d else st)) (cycle_statuses s)"
        "payouts w = payouts s" "audit w = audit s"
        using persist_cycle_status_Inr[OF p] by simp_all
      from a have v: "cycles v = cycles w" "payouts v = payouts w" "audit v = audit w @
         [\<lparr>au_actor = ''payout-kas'', au_action = ''cycle.reconcile'', au_subject = (''payout_cycle'', cid)\<rparr>]"
        unfolding audit_append_def by (auto dest!: sql_Inr)
      show ?thesis unfolding run using Pair Inr w v by (simp add: bindE_def t)
    qed
  qed
qed

section \<open>What planning creates\<close>

text \<open>Saturating accumulation of non-negative amounts.\<close>

lemma foldl_sat_add_i64:
  assumes "\<And>w. w \<in> set ws \<Longrightarrow> 0 \<le> amt w" and "0 \<le> a" and "a \<le> i64_max"
  shows "foldl (\<lambda>a w. sat_add_i64 a (amt w)) a ws = min i64_max (a + sum_list (map amt ws))"
  using assms
proof (induction ws arbitrary: a)
  case (Cons w ws)
  have nn: "0 \<le> amt w" "0 \<le> sum_list (map amt ws)"
    using Cons.prems(1) by (auto intro!: sum_list_nonneg)
  then have step: "sat_add_i64 a (amt w) = min i64_max (a + amt w)"
    using Cons.prems(2) by (simp add: sat_add_i64_def clamp_i64_def)
  have "foldl (\<lambda>a w. sat_add_i64 a (amt w)) a (w # ws) =
      min i64_max (min i64_max (a + amt w) + sum_list (map amt ws))"
    using Cons.IH[of "min i64_max (a + amt w)"] Cons.prems nn by (simp add: step)
  also have "\<dots> = min i64_max (a + sum_list (map amt (w # ws)))" using nn by (simp add: min_def)
  finally show ?case .
qed simp

lemma foldl_sat_add_i32:
  "0 \<le> n \<Longrightarrow> n \<le> i32_max \<Longrightarrow> foldl (\<lambda>a _. sat_add_i32 a 1) n ws = min i32_max (n + int (length ws))"
proof (induction ws arbitrary: n)
  case (Cons w ws)
  have "sat_add_i32 n 1 = min i32_max (n + 1)" using Cons.prems by (simp add: sat_add_i32_def)
  then show ?case using Cons.IH[of "min i32_max (n + 1)"] Cons.prems by (simp add: min_def)
qed simp

lemma ensure_payout_new:
  assumes "ensure_payout cid w amount s = (Inr p, t)"
    and "\<forall>q \<in> set (payouts s). po_cycle q = cid \<longrightarrow> po_wallet q \<noteq> w"
  shows "payouts t = payouts s @ [p] \<and> cycles t = cycles s \<and> wallets t = wallets s \<and> allocs t = allocs s \<and>
    (po_cycle p, po_wallet p, po_amount p, po_status p) = (cid, w, amount, Planned) \<and> po_tx_hash p = None"
  using sql_Inr[OF assms(1)[unfolded ensure_payout_def]] assms(2)
  by (auto simp: Let_def new_payout_def split: if_splits option.splits dest: find_Some_iff_in)

lemma ensure_recipients_new:
  assumes "foldE (\<lambda>(a, n) w. bindE (ensure_payout cid (ew_wallet w) (amt w)) (\<lambda>_.
      ret (sat_add_i64 a (amt w), sat_add_i32 n 1))) (a0, n0) ws s = (Inr (a1, n1), t)"
    and "distinct (map ew_wallet ws)"
    and "\<forall>q \<in> set (payouts s). po_cycle q = cid \<longrightarrow> po_wallet q \<notin> ew_wallet ` set ws"
  shows "\<exists>rows. payouts t = payouts s @ rows \<and> cycles t = cycles s \<and>
    map (\<lambda>p. (po_cycle p, po_wallet p, po_amount p, po_status p)) rows =
      map (\<lambda>w. (cid, ew_wallet w, amt w, Planned)) ws \<and>
    a1 = foldl (\<lambda>a w. sat_add_i64 a (amt w)) a0 ws \<and> n1 = foldl (\<lambda>a _. sat_add_i32 a 1) n0 ws"
  using assms
proof (induction ws arbitrary: a0 n0 s)
  case (Cons w ws)
  let ?step = "\<lambda>(a, n) w. bindE (ensure_payout cid (ew_wallet w) (amt w)) (\<lambda>_.
      ret (sat_add_i64 a (amt w), sat_add_i32 n 1))"
  from Cons.prems(1) obtain b u where f: "?step (a0, n0) w s = (Inr b, u)"
    and tl: "foldE ?step b ws u = (Inr (a1, n1), t)" by (rule foldE_ConsE)
  from f obtain p where e: "ensure_payout cid (ew_wallet w) (amt w) s = (Inr p, u)"
    and b: "b = (sat_add_i64 a0 (amt w), sat_add_i32 n0 1)"
    by (auto elim!: bindE_InrE)
  note rest = tl[unfolded b]
  have new: "payouts u = payouts s @ [p]" "cycles u = cycles s"
    "(po_cycle p, po_wallet p, po_amount p, po_status p) = (cid, ew_wallet w, amt w, Planned)"
    using ensure_payout_new[OF e] Cons.prems(3) by auto
  from Cons.IH[OF rest] Cons.prems(2,3) new obtain rows where "payouts t = payouts u @ rows" "cycles t = cycles u"
    "map (\<lambda>p. (po_cycle p, po_wallet p, po_amount p, po_status p)) rows =
       map (\<lambda>w. (cid, ew_wallet w, amt w, Planned)) ws"
    "a1 = foldl (\<lambda>a w. sat_add_i64 a (amt w)) (sat_add_i64 a0 (amt w)) ws"
    "n1 = foldl (\<lambda>a _. sat_add_i32 a 1) (sat_add_i32 n0 1) ws"
    by auto
  with new show ?case by (intro exI[of _ "p # rows"]) simp
qed simp

lemma create_cycle_new:
  assumes "create_cycle kind a b s = (Inr c, t)"
    and "\<forall>d \<in> set (cycles s). pc_key d \<noteq> idempotency_key kind a b"
  shows "cycles t = cycles s @ [c] \<and> payouts t = payouts s \<and> wallets t = wallets s \<and> allocs t = allocs s \<and>
    pc_id c = next_cycle s \<and> pc_key c = idempotency_key kind a b \<and> pc_status c = CyPlanned \<and>
    pc_kind c = kind \<and> pc_daa_start c = u64_as_i64 a \<and> pc_daa_end c = u64_as_i64 b"
  using sql_Inr[OF assms(1)[unfolded create_cycle_def]] assms(2)
  by (auto simp: Let_def split: if_splits option.splits dest: find_Some_iff_in)

text \<open>The wallets a planner pays, before the database's ordering.\<close>

definition payable_wallets :: "payout_kind \<Rightarrow> int \<Rightarrow> 'z pool_db_scheme \<Rightarrow> kas_eligible_wallet list" where
  "payable_wallets kind threshold s = filter (\<lambda>r. threshold \<le> ew_payable r) (eligible_rows kind s)"

lemma eligible_rows_frame:
  assumes "wallets t = wallets s" and "allocs t = allocs s"
    and "\<And>w. confirmed_paid_sompi kind (cycles t) (payouts t) w = confirmed_paid_sompi kind (cycles s) (payouts s) w"
  shows "eligible_rows kind t = eligible_rows kind s"
  using assms by (simp add: eligible_rows_def eligible_row_def)

lemma eligible_rows_calls [simp]: "eligible_rows kind (s\<lparr>calls := n\<rparr>) = eligible_rows kind s"
  by (rule eligible_rows_frame) simp_all

lemma in_eligible_rows: "w \<in> set (eligible_rows kind s) \<Longrightarrow> \<exists>r \<in> set (wallets s). w = eligible_row kind s r"
  by (auto simp: eligible_rows_def)

lemma eligible_query_Inr:
  assumes "eligible_query kind thr s = (Inr ws, t)"
  shows "ws = order_desc ew_payable ew_wallet (payable_wallets kind thr s)"
    and "payouts t = payouts s" and "cycles t = cycles s" and "wallets t = wallets s" and "allocs t = allocs s"
    and "\<forall>w \<in> set ws. in_i64 (ew_payable w)"
  using sql_Inr[OF assms[unfolded eligible_query_def]]
  by (auto simp: Let_def payable_wallets_def list_all_iff split: if_splits)

lemma distinct_payable_wallets:
  "distinct (map w_id (wallets s)) \<Longrightarrow> distinct (map ew_wallet (payable_wallets kind thr s))"
  by (simp add: payable_wallets_def eligible_rows_def distinct_map_filter comp_def eligible_row_def Let_def)

lemma confirmed_paid_new_cycle:
  assumes "\<forall>q \<in> set ps. po_cycle q \<noteq> pc_id c"
  shows "confirmed_paid_sompi kind (cs @ [c]) ps w = confirmed_paid_sompi kind cs ps w"
proof -
  have "cycle_of (cs @ [c]) q = cycle_of cs q" if "q \<in> set ps" for q
    using assms that by (auto simp: cycle_of_def find_append split: option.split)
  then have "filter (\<lambda>p. po_wallet p = w \<and> counts_as_paid kind (cs @ [c]) p) ps =
      filter (\<lambda>p. po_wallet p = w \<and> counts_as_paid kind cs p) ps"
    by (intro filter_cong) (simp_all add: counts_as_paid_def)
  then show ?thesis by (simp add: confirmed_paid_sompi_def)
qed

text \<open>
  The specification of planning the window \<open>[a, b)\<close>: one new cycle in \<open>planned\<close>, one planned
  payout per payable wallet with the planner's amount, and the totals of exactly those rows.
\<close>

definition planned_cycle ::
  "payout_kind \<Rightarrow> (kas_eligible_wallet \<Rightarrow> int) \<Rightarrow> int \<Rightarrow> nat \<Rightarrow> nat \<Rightarrow>
   'z pool_db_scheme \<Rightarrow> 'z pool_db_scheme \<Rightarrow> payout_cycle \<Rightarrow> bool" where
  "planned_cycle kind amt thr a b s t c \<longleftrightarrow>
     (\<exists>rows. payouts t = payouts s @ rows \<and>
        mset (map (\<lambda>p. (po_wallet p, po_amount p)) rows) =
          mset (map (\<lambda>w. (ew_wallet w, amt w)) (payable_wallets kind thr s)) \<and>
        list_all (\<lambda>p. po_cycle p = pc_id c \<and> po_status p = Planned) rows) \<and>
     cycles t = cycles s @ [c] \<and>
     pc_id c = next_cycle s \<and> pc_key c = idempotency_key kind a b \<and> pc_status c = CyPlanned \<and>
     pc_total_sompi c = min i64_max (sum_list (map amt (payable_wallets kind thr s))) \<and>
     pc_total_recipients c = min i32_max (int (length (payable_wallets kind thr s)))"

text \<open>
  A planner is an amount rule that never pays more than the payable balance; what planning
  creates is proved once for all of them.
\<close>

locale cycle_planner =
  fixes kind :: payout_kind
    and amt :: "kas_eligible_wallet \<Rightarrow> int"
  assumes amt_pos: "0 < ew_payable w \<Longrightarrow> 0 < amt w"
    and amt_le: "amt w \<le> ew_payable w"
begin

lemma plan_fresh:
  assumes ok: "payout_db_ok s" and wal: "distinct (map w_id (wallets s))"
    and fresh: "\<forall>d \<in> set (cycles s). pc_key d \<noteq> idempotency_key kind a b"
    and thr: "0 < thr"
    and run: "plan_body kind amt thr a b s = (Inr (c, ws, tot), t)"
  shows "\<exists>c'. planned_cycle kind amt thr a b s t c' \<and> pc_id c' = pc_id c \<and> tot = pc_total_sompi c' \<and>
    mset ws = mset (payable_wallets kind thr s)"
proof -
  from run obtain s1 s2 s3 n u where cr: "create_cycle kind a b s = (Inr c, s1)"
    and el: "eligible_query kind thr s1 = (Inr ws, s2)"
    and en: "ensure_recipients amt (pc_id c) ws s2 = (Inr (tot, n), s3)"
    and st: "set_cycle_totals (pc_id c) tot n s3 = (Inr u, t)"
    unfolding plan_body_def by (auto elim!: bindE_InrE)
  note C = create_cycle_new[OF cr fresh] and E = eligible_query_Inr[OF el]
  have idfresh: "pc_id c \<notin> pc_id ` set (cycles s)"
    using ok C by (auto simp: payout_db_ok_def)
  then have nopay: "\<forall>q \<in> set (payouts s). po_cycle q \<noteq> pc_id c"
    using ok unfolding payout_db_ok_def by (metis imageI subsetD)
  have "confirmed_paid_sompi kind (cycles s1) (payouts s1) w = confirmed_paid_sompi kind (cycles s) (payouts s) w" for w
    using C nopay by (simp add: confirmed_paid_new_cycle)
  then have rows: "eligible_rows kind s1 = eligible_rows kind s"
    using C by (intro eligible_rows_frame) simp_all
  let ?W = "payable_wallets kind thr s"
  have ws: "ws = order_desc ew_payable ew_wallet ?W" using E(1) rows by (simp add: payable_wallets_def)
  have pos: "0 < ew_payable w" if "w \<in> set ws" for w using that thr by (auto simp: ws payable_wallets_def)
  have dist: "distinct (map ew_wallet ws)" unfolding ws using distinct_payable_wallets[OF wal] by simp
  have "\<forall>q \<in> set (payouts s2). po_cycle q = pc_id c \<longrightarrow> po_wallet q \<notin> ew_wallet ` set ws"
    using nopay C E by simp
  from ensure_recipients_new[OF en[unfolded ensure_recipients_def] dist this] obtain rws where
    P: "payouts s3 = payouts s2 @ rws" "cycles s3 = cycles s2"
    and view: "map (\<lambda>p. (po_cycle p, po_wallet p, po_amount p, po_status p)) rws =
      map (\<lambda>w. (pc_id c, ew_wallet w, amt w, Planned)) ws"
    and tot: "tot = foldl (\<lambda>a w. sat_add_i64 a (amt w)) 0 ws"
    and n: "n = foldl (\<lambda>a _. sat_add_i32 a 1) 0 ws" by blast
  have tot': "tot = min i64_max (sum_list (map amt ?W))"
    unfolding tot using pos amt_pos
    by (subst foldl_sat_add_i64) (auto simp: ws sum_list_order_desc less_imp_le)
  have n': "n = min i32_max (int (length ?W))" unfolding n by (simp add: foldl_sat_add_i32 ws)
  have cyc: "cycles t = cycles s @ [c\<lparr>pc_total_sompi := tot, pc_total_recipients := n\<rparr>]"
  proof -
    have "pc_id x \<noteq> pc_id c" if "x \<in> set (cycles s)" for x using idfresh that by (metis imageI)
    then have "update_where (\<lambda>r. pc_id r = pc_id c \<and> True) g (cycles s) = cycles s" for g
      by (intro update_where_none) simp
    then show ?thesis
      using update_cycle_Inr(1)[OF st[unfolded set_cycle_totals_def]] P(2) E(3) C
      by (simp add: update_where_def)
  qed
  have pay: "payouts t = payouts s @ rws"
    using update_cycle_Inr(2)[OF st[unfolded set_cycle_totals_def]] P(1) E(2) C by simp
  have "map (\<lambda>(_, w, a, _). (w, a)) (map (\<lambda>p. (po_cycle p, po_wallet p, po_amount p, po_status p)) rws) =
      map (\<lambda>(_, w, a, _). (w, a)) (map (\<lambda>w. (pc_id c, ew_wallet w, amt w, Planned)) ws)"
    by (simp only: view)
  then have "map (\<lambda>p. (po_wallet p, po_amount p)) rws = map (\<lambda>w. (ew_wallet w, amt w)) ws"
    by (simp add: comp_def)
  then have "mset (map (\<lambda>p. (po_wallet p, po_amount p)) rws) = mset (map (\<lambda>w. (ew_wallet w, amt w)) ?W)"
    by (metis mset_map mset_order_desc ws)
  moreover have "list_all (\<lambda>(i, _, _, st). i = pc_id c \<and> st = Planned)
      (map (\<lambda>p. (po_cycle p, po_wallet p, po_amount p, po_status p)) rws)"
    unfolding view by (simp add: list_all_iff)
  then have "list_all (\<lambda>p. po_cycle p = pc_id c \<and> po_status p = Planned) rws"
    by (simp add: list_all_iff)
  ultimately show ?thesis
    using pay cyc C
    by (intro exI[of _ "c\<lparr>pc_total_sompi := tot, pc_total_recipients := n\<rparr>"])
      (auto simp: planned_cycle_def tot' n' ws)
qed

lemma plan_transaction:
  assumes "payout_db_ok s" and "distinct (map w_id (wallets s))"
    and "\<forall>d \<in> set (cycles s). pc_key d \<noteq> idempotency_key kind a b" and "0 < thr"
    and run: "transaction (plan_body kind amt thr a b) id s = (res, t)"
  shows "(\<exists>e. res = Inl e) \<and> cycles t = cycles s \<and> payouts t = payouts s \<or>
    (\<exists>c ws c'. res = Inr (c, ws, pc_total_sompi c') \<and> planned_cycle kind amt thr a b s t c' \<and> pc_id c = pc_id c' \<and>
       mset ws = mset (payable_wallets kind thr s))"
proof (cases res)
  case (Inl e)
  with run transaction_Inl[of "plan_body kind amt thr a b" id s e t] obtain n where "t = s\<lparr>calls := n\<rparr>" by auto
  with Inl show ?thesis by simp
next
  case (Inr r)
  obtain c ws tot where r: "r = (c, ws, tot)" by (cases r)
  from run Inr r have "transaction (plan_body kind amt thr a b) id s = (Inr (c, ws, tot), t)" by simp
  then obtain v where b: "plan_body kind amt thr a b (s\<lparr>calls := Suc (calls s)\<rparr>) = (Inr (c, ws, tot), v)"
    and t: "t = v\<lparr>calls := Suc (calls v)\<rparr>" by (rule transaction_Inr)
  have "\<exists>c'. planned_cycle kind amt thr a b (s\<lparr>calls := Suc (calls s)\<rparr>) v c' \<and> pc_id c' = pc_id c \<and>
      tot = pc_total_sompi c' \<and> mset ws = mset (payable_wallets kind thr (s\<lparr>calls := Suc (calls s)\<rparr>))"
    using assms b by (intro plan_fresh[OF _ _ _ _ b]) (auto simp: db_inv_def[THEN iffD1, rule_format, OF payout_db_ok_inv])
  then show ?thesis by (auto simp: Inr r t planned_cycle_def payable_wallets_def)
qed

end

interpretation kas_planner: cycle_planner Kas ew_payable
  by unfold_locales simp_all

text \<open>
  C33. Planning a KAS cycle for a new window is all or nothing, whichever statement fails:
  either no cycle and no payout was written, or exactly the planned cycle exists, with one
  planned payout of the full payable balance per wallet at or above the threshold and the
  matching totals.
\<close>

theorem plan_kas_cycle_atomic:
  assumes "payout_db_ok s" and "distinct (map w_id (wallets s))"
    and "\<forall>d \<in> set (cycles s). pc_key d \<noteq> idempotency_key Kas (kp_daa_start p) (kp_daa_end p)"
    and "0 < kp_threshold p"
    and "plan_kas_cycle p s = (res, t)"
  shows "(\<exists>e. res = Inl e) \<and> cycles t = cycles s \<and> payouts t = payouts s \<or>
    (\<exists>c. planned_cycle Kas ew_payable (kp_threshold p) (kp_daa_start p) (kp_daa_end p) s t c \<and>
       (\<forall>st. res = Inr st \<longrightarrow> cs_cycle st = c \<and>
          mset (cs_payouts st) = mset (filter (\<lambda>q. po_cycle q = pc_id c) (payouts t))))"
proof -
  let ?tx = "transaction (plan_body Kas ew_payable (kp_threshold p) (kp_daa_start p) (kp_daa_end p)) id"
  obtain r u where tx: "?tx s = (r, u)" by (cases "?tx s")
  note cases = kas_planner.plan_transaction[OF assms(1-4) tx]
  show ?thesis
  proof (cases r)
    case (Inl e)
    with assms(5) tx have "t = u" "res = Inl e" by (auto simp: plan_kas_cycle_def bindE_def)
    with cases Inl show ?thesis by simp
  next
    case (Inr x)
    then obtain c ws c' where x: "r = Inr (c, ws, pc_total_sompi c')"
      and pl: "planned_cycle Kas ew_payable (kp_threshold p) (kp_daa_start p) (kp_daa_end p) s u c'"
      and cid: "pc_id c = pc_id c'" using cases by auto
    have rest: "(res, t) = bindE (list_for_cycle (pc_id c)) (\<lambda>payouts. bindE (get_cycle (pc_id c))
        (\<lambda>cycle. ret \<lparr>cs_cycle = cycle, cs_payouts = payouts\<rparr>)) u"
      using assms(5) tx x by (simp add: plan_kas_cycle_def bindE_def)
    have same: "payouts t = payouts u \<and> cycles t = cycles u" "res = Inr st \<Longrightarrow>
        cs_payouts st = order_desc po_amount po_id (filter (\<lambda>q. po_cycle q = pc_id c) (payouts u)) \<and>
        List.find (\<lambda>d. pc_id d = pc_id c) (cycles u) = Some (cs_cycle st)" for st
      using rest by (auto simp: bindE_def list_for_cycle_def get_cycle_def sql_def Let_def
          split: if_splits option.splits)
    have "c' = d" if "List.find (\<lambda>d. pc_id d = pc_id c) (cycles u) = Some d" for d
    proof -
      have "List.find (\<lambda>d. pc_id d = pc_id c) (cycles s) = None"
        using assms(1) pl by (auto simp: payout_db_ok_def planned_cycle_def cid find_None_iff)
      with that pl show ?thesis by (simp add: planned_cycle_def cid find_append)
    qed
    with same pl show ?thesis by (auto simp: planned_cycle_def cid intro!: exI[of _ c'])
  qed
qed

text \<open>A database with one wallet owed 20 coins.\<close>

definition one_wallet_db :: pool_db where
  "one_wallet_db = empty_db\<lparr>
     wallets := [\<lparr>w_id = 1, w_address = ''zkas:a'', w_network = ''mainnet''\<rparr>],
     allocs := [\<lparr>sa_id = 1, sa_reward = 1, sa_wallet = 1, sa_weight = Fin 1, sa_window_total = Fin 1,
       sa_gross = 2000000000, sa_pool_fee = 0, sa_nacho = 0, sa_net = 2000000000, sa_computed_at = 0,
       sa_topline_bps = 0, sa_rebate_bps = 0, sa_tier = Standard\<rparr>],
     next_alloc := 2\<rparr>"

lemma one_wallet_db_ok [simp]:
  "payout_db_ok one_wallet_db" "distinct (map w_id (wallets one_wallet_db))" "cycles one_wallet_db = []"
  by (simp_all add: one_wallet_db_def empty_db_def payout_db_ok_def)

abbreviation sample_params :: plan_kas_cycle_params where
  "sample_params \<equiv> \<lparr>kp_daa_start = 0, kp_daa_end = 86400, kp_threshold = 1000000000\<rparr>"

theorem plan_kas_cycle_atomic_witness:
  "\<exists>c. planned_cycle Kas ew_payable 1000000000 0 86400 one_wallet_db (snd (plan_kas_cycle sample_params one_wallet_db)) c \<and>
     pc_total_sompi c = 2000000000 \<and> pc_total_recipients c = 1"
proof -
  let ?r = "plan_kas_cycle sample_params one_wallet_db"
  note simps = plan_kas_cycle_def plan_body_def create_cycle_def eligible_query_def eligible_rows_def
    eligible_row_def ensure_recipients_def ensure_payout_def set_cycle_totals_def update_cycle_def
    transaction_def sql_def bindE_def map_err_def Let_def one_wallet_db_def empty_db_def
  have inr: "cycles (snd ?r) \<noteq> []"
    by (simp add: simps cycle_checks_def allocated_sompi_def confirmed_paid_sompi_def in_i64_def order_desc_def
        new_payout_def payout_checks_def payout_refs_def update_where_def sat_add_i64_def sat_add_i32_def
        clamp_i64_def list_for_cycle_def get_cycle_def)
  from plan_kas_cycle_atomic[of one_wallet_db sample_params "fst ?r" "snd ?r"] inr
  obtain c where c: "planned_cycle Kas ew_payable 1000000000 0 86400 one_wallet_db (snd ?r) c" by auto
  have "payable_wallets Kas 1000000000 one_wallet_db =
      [\<lparr>ew_wallet = 1, ew_address = ''zkas:a'', ew_network = ''mainnet'', ew_allocated = 2000000000,
        ew_confirmed_paid = 0, ew_payable = 2000000000\<rparr>]"
    by (simp add: payable_wallets_def eligible_rows_def eligible_row_def one_wallet_db_def empty_db_def
        allocated_sompi_def confirmed_paid_sompi_def)
  with c show ?thesis by (auto simp: planned_cycle_def)
qed

section \<open>Resuming\<close>

text \<open>
  A tick that finds the window's cycle resumes it frozen: whatever balances have become,
  it returns that cycle with exactly its recipients, changes no cycle and no payout, and
  offers only the rows still \<open>planned\<close> for signing.
\<close>

theorem resume_freezes_cycle:
  assumes "List.find (\<lambda>c. pc_key c = idempotency_key Kas (kp_daa_start p) (kp_daa_end p)) (cycles s) = Some c"
  shows "cycles (snd (resume_or_plan_kas_cycle p s)) = cycles s \<and>
    payouts (snd (resume_or_plan_kas_cycle p s)) = payouts s \<and>
    (case fst (resume_or_plan_kas_cycle p s) of Inl e \<Rightarrow> e = DbIo
     | Inr st \<Rightarrow> cs_cycle st = c \<and>
         mset (cs_payouts st) = mset (filter (\<lambda>q. po_cycle q = pc_id c) (payouts s)) \<and>
         set (pending_payouts st) = {q \<in> set (payouts s). po_cycle q = pc_id c \<and> po_status q = Planned})"
  using assms
  by (auto simp: resume_or_plan_kas_cycle_def find_cycle_by_idempotency_key_def list_for_cycle_def
      audit_append_def pending_payouts_def bindE_def sql_def Let_def split: sum.split)

theorem resume_freezes_cycle_witness:
  "\<exists>c. fst (resume_or_plan_kas_cycle sample_params
     (one_wallet_db\<lparr>cycles := [c]\<rparr>)) = Inr \<lparr>cs_cycle = c, cs_payouts = []\<rparr> \<and> pc_status c = CySettled"
proof -
  let ?c = "\<lparr>pc_id = 1, pc_kind = Kas, pc_status = CySettled, pc_daa_start = 0, pc_daa_end = 86400,
    pc_planned_at = 0, pc_broadcast_at = None, pc_settled_at = None, pc_total_sompi = 0,
    pc_total_recipients = 0, pc_key = idempotency_key Kas 0 86400\<rparr>"
  let ?s = "one_wallet_db\<lparr>cycles := [?c]\<rparr>"
  have "case fst (resume_or_plan_kas_cycle sample_params ?s) of Inl e \<Rightarrow> e = DbIo
     | Inr st \<Rightarrow> cs_cycle st = ?c \<and> mset (cs_payouts st) = mset (filter (\<lambda>q. po_cycle q = pc_id ?c) (payouts ?s)) \<and>
         set (pending_payouts st) = {q \<in> set (payouts ?s). po_cycle q = pc_id ?c \<and> po_status q = Planned}"
    using resume_freezes_cycle[of sample_params ?s ?c] by simp
  moreover have "\<exists>st. fst (resume_or_plan_kas_cycle sample_params ?s) = Inr st"
    by (simp add: resume_or_plan_kas_cycle_def find_cycle_by_idempotency_key_def list_for_cycle_def
      audit_append_def bindE_def sql_def Let_def one_wallet_db_def empty_db_def)
  ultimately have "fst (resume_or_plan_kas_cycle sample_params ?s) = Inr \<lparr>cs_cycle = ?c, cs_payouts = []\<rparr>"
    by (auto simp: one_wallet_db_def empty_db_def)
  then show ?thesis by (intro exI[of _ ?c]) simp
qed

section \<open>KAS confirmation\<close>

text \<open>
  A KAS payout counts as confirmed exactly when an accepting score is known, recorded
  before or seen now, and lies at least 100 below the virtual score; once a score is recorded
  the verdict never falls back to pending or unknown, whatever is observed, and a confirmed
  payout stays confirmed as the score grows.
\<close>

theorem kas_confirmation_policy:
  assumes "ki_virtual_daa_score i < u64_max"
  shows "(kas_classify_confirmation i = CsConfirmed \<longleftrightarrow>
      (case ki_recorded_accept_daa i of
         Some d \<Rightarrow> d + 100 \<le> ki_virtual_daa_score i
       | None \<Rightarrow> (case ki_change_block_daa_score i of
           Some d \<Rightarrow> d + 100 \<le> ki_virtual_daa_score i | None \<Rightarrow> False))) \<and>
    (ki_recorded_accept_daa i \<noteq> None \<longrightarrow> kas_classify_confirmation i \<in> {CsAccepted, CsConfirmed}) \<and>
    (kas_classify_confirmation i = CsConfirmed \<and> ki_virtual_daa_score i \<le> v \<longrightarrow>
       kas_classify_confirmation (i\<lparr>ki_virtual_daa_score := v\<rparr>) = CsConfirmed)"
  using assms
  by (auto simp: kas_classify_confirmation_def sat_add_u64_def KAS_PAYOUT_CONFIRMATION_DAA_def
      split: option.splits if_splits)

theorem kas_confirmation_policy_witness:
  "kas_classify_confirmation \<lparr>ki_virtual_daa_score = 300, ki_in_mempool = False,
     ki_change_block_daa_score = None, ki_recorded_accept_daa = Some 200\<rparr> = CsConfirmed"
  using kas_confirmation_policy[of "\<lparr>ki_virtual_daa_score = 300, ki_in_mempool = False,
     ki_change_block_daa_score = None, ki_recorded_accept_daa = Some 200\<rparr>"] by simp

end
