(* ===== verification/Db_View.thy ===== *)
theory Db_View
  imports Payout_Cycle
begin

text \<open>
  What an engine that drives payouts can rely on while it plans, reads, confirms and
  reconciles: those statements keep the schema's invariant, leave everything the engine watches
  (its log of payments, the wallets, a latch) alone, and only move payout rows forward.

  The interface is a locale.  Its operations are the watched part \<open>view\<close> of the world and the
  order \<open>le\<close> of payout rows; its laws say that the statements' updates do not show in the view.
  The payout engines interpret it on their own worlds.
\<close>

locale db_view = monotone_table "payouts :: 'z pool_db_scheme \<Rightarrow> payout list" le
  for le :: "payout \<Rightarrow> payout \<Rightarrow> bool" +
  fixes view :: "'z pool_db_scheme \<Rightarrow> 'v"
  assumes view_calls: "view (s\<lparr>calls := n\<rparr>) = view s"
    and view_payouts: "view (s\<lparr>payouts := ps\<rparr>) = view s"
    and view_next_payout: "view (s\<lparr>next_payout := i\<rparr>) = view s"
    and view_cycles: "view (s\<lparr>cycles := cs\<rparr>) = view s"
    and view_next_cycle: "view (s\<lparr>next_cycle := i\<rparr>) = view s"
    and view_audit: "view (s\<lparr>audit := a\<rparr>) = view s"
begin

lemmas view_frame = view_calls view_payouts view_next_payout view_cycles view_next_cycle view_audit

definition calm :: "('z pool_db_scheme, 'e, 'a) act \<Rightarrow> bool" where
  "calm m \<longleftrightarrow> preserves payout_db_ok m \<and> (\<forall>v. preserves (\<lambda>s. view s = v) m) \<and> advances m"

lemma calmI:
  "preserves payout_db_ok m \<Longrightarrow> (\<And>s. view (snd (m s)) = view s) \<Longrightarrow> advances m \<Longrightarrow> calm m"
  by (simp add: calm_def preserves_def)

lemma calm_keeps: "calm m \<Longrightarrow> preserves payout_db_ok m" "calm m \<Longrightarrow> view (snd (m s)) = view s"
  "calm m \<Longrightarrow> extends (payouts s) (payouts (snd (m s)))"
  by (simp_all add: calm_def preserves_def advancesD)

lemma calm_pure: "calm (ret a)" "calm (raise e)" "calm (gets f)" "calm (lift_sum r)"
  by (simp_all add: calm_def preserves_rules advances_pure)

lemma calm_bindE: "calm m \<Longrightarrow> (\<And>a. calm (f a)) \<Longrightarrow> calm (bindE m f)"
  by (simp add: calm_def preserves_rules advances_bindE)

lemma calm_seqE: "calm m \<Longrightarrow> calm n \<Longrightarrow> calm (seqE m n)"
  by (simp add: seqE_def calm_bindE)

lemma calm_map_err: "calm m \<Longrightarrow> calm (map_err g m)"
  by (simp add: calm_def preserves_rules advances_map_err)

lemma calm_foldE: "(\<And>b x. calm (f b x)) \<Longrightarrow> calm (foldE f b xs)"
  by (simp add: calm_def preserves_rules advances_foldE)

lemma view_inv: "db_inv (\<lambda>s. view s = v)"
  by (simp add: db_inv_def view_frame)

lemma calm_sql: "calm m \<Longrightarrow> calm (sql m)"
  by (simp add: calm_def preserves_sql view_inv advances_sql)

lemma calm_transaction: "calm m \<Longrightarrow> calm (transaction m conv)"
  by (simp add: calm_def preserves_transaction view_inv advances_transaction)

lemma calm_if: "calm m \<Longrightarrow> calm n \<Longrightarrow> calm (if c then m else n)"
  by simp

lemma calm_case_option: "calm m \<Longrightarrow> (\<And>a. calm (f a)) \<Longrightarrow> calm (case x of None \<Rightarrow> m | Some a \<Rightarrow> f a)"
  by (simp split: option.split)

lemma calm_case_prod: "(\<And>a b. calm (f a b)) \<Longrightarrow> calm (case x of (a, b) \<Rightarrow> f a b)"
  by (simp split: prod.split)

lemma calm_case_prod_app: "(\<And>a b. calm (f a b y)) \<Longrightarrow> calm ((case x of (a, b) \<Rightarrow> f a b) y)"
  by (simp split: prod.split)

lemmas calm_control = calm_pure calm_bindE calm_seqE calm_map_err calm_foldE calm_transaction calm_if
  calm_case_option calm_case_prod calm_case_prod_app

text \<open>A statement that only reads.\<close>

lemma calm_read: "(\<And>s. snd (m s) = s) \<Longrightarrow> calm (sql m)"
  by (intro calm_sql calmI preservesI advances_same) simp_all

lemma calm_reads:
  "calm (find_cycle_by_idempotency_key key)" "calm (get_cycle cid)" "calm (eligible_query kind thr)"
  "calm (list_for_cycle cid)" "calm (list_cycle_recipients cid)" "calm (wallet_get_by_id w)"
  "calm in_flight_spend_tx_hashes" "calm (list_krc20_by_status st lmt)" "calm (list_krc20_for_cycle cid)"
  "calm (get_payout pid)" "calm (list_krc20_eligible_wallets thr lmt)" "calm list_zkas_in_flight_payouts" "calm (meta_get k)"
  unfolding find_cycle_by_idempotency_key_def get_cycle_def eligible_query_def list_for_cycle_def
    list_cycle_recipients_def wallet_get_by_id_def in_flight_spend_tx_hashes_def list_krc20_by_status_def
    list_krc20_for_cycle_def get_payout_def list_krc20_eligible_wallets_def
    list_zkas_in_flight_payouts_def meta_get_def
  by (rule calm_read, simp add: Let_def split: option.split)+

lemma calm_create_cycle: "calm (create_cycle kind a b)"
proof (rule calmI)
  show "view (snd (create_cycle kind a b s)) = view s" for s :: "'z pool_db_scheme"
    by (simp add: create_cycle_def sql_def Let_def view_frame split: option.split)
  show "advances (create_cycle kind a b)"
    unfolding create_cycle_def by (intro advances_sql advances_same) (simp add: Let_def split: option.split)
qed (rule preserves_create_cycle)

lemma calm_update_cycle:
  assumes "\<And>t c. pc_id (f t c) = pc_id c \<and> pc_key (f t c) = pc_key c"
  shows "calm (update_cycle cid P f)"
proof (rule calmI)
  show "preserves payout_db_ok (update_cycle cid P f :: ('z pool_db_scheme, db_error, unit) act)"
    by (intro preserves_update_cycle assms)
  show "view (snd (update_cycle cid P f s)) = view s" for s :: "'z pool_db_scheme"
    by (simp add: update_cycle_def sql_def Let_def view_frame)
  show "advances (update_cycle cid P f)"
    unfolding update_cycle_def by (intro advances_sql advances_same) (simp add: Let_def)
qed

lemma calm_mark_cycle:
  "calm (mark_cycle_broadcasting cid)" "calm (mark_cycle_partially_settled cid)"
  "calm (mark_cycle_settled cid)" "calm (mark_cycle_failed cid)" "calm (set_cycle_totals cid a n)"
  unfolding mark_cycle_broadcasting_def mark_cycle_partially_settled_def mark_cycle_settled_def
    mark_cycle_failed_def set_cycle_totals_def
  by (intro calm_update_cycle; simp)+

lemma calm_update_payout:
  assumes "\<And>t p. po_id (f t p) = po_id p \<and> po_cycle (f t p) = po_cycle p \<and> po_wallet (f t p) = po_wallet p"
    and "\<And>t p. P p \<Longrightarrow> le p (f t p)"
  shows "calm (update_payout pid P f)"
proof (rule calmI)
  show "preserves payout_db_ok (update_payout pid P f :: ('z pool_db_scheme, db_error, nat) act)"
    by (intro preserves_update_payout assms)
  show "view (snd (update_payout pid P f s)) = view s" for s :: "'z pool_db_scheme"
    by (simp add: update_payout_def sql_def Let_def view_frame)
  show "advances (update_payout pid P f)"
    unfolding update_payout_def
    by (intro advances_sql advancesI) (auto simp: Let_def extends_refl intro!: extends_update assms(2))
qed

lemma calm_ensure_payout: "calm (ensure_payout cid w a)"
proof (rule calmI)
  show "view (snd (ensure_payout cid w a s)) = view s" for s :: "'z pool_db_scheme"
    by (simp add: ensure_payout_def sql_def Let_def view_frame split: option.split)
  show "advances (ensure_payout cid w a)"
    unfolding ensure_payout_def
    by (intro advances_sql advancesI) (simp add: Let_def extends_refl extends_append split: option.split)
qed (rule preserves_ensure_payout)

lemma calm_audit: "calm (audit_append a b c)"
proof (rule calmI)
  show "view (snd (audit_append a b c s)) = view s" for s :: "'z pool_db_scheme"
    by (simp add: audit_append_def sql_def Let_def view_frame)
  show "advances (audit_append a b c)"
    unfolding audit_append_def by (intro advances_sql advances_same) (simp add: Let_def)
qed (rule preserves_meta)

lemmas calm_statements = calm_reads calm_create_cycle calm_mark_cycle calm_ensure_payout calm_audit

lemma calm_plan_kas: "calm (plan_kas_cycle p)"
  unfolding plan_kas_cycle_def plan_body_def ensure_recipients_def
  by (intro calm_control calm_statements)

lemma calm_resume_kas: "calm (resume_or_plan_kas_cycle p)"
  unfolding resume_or_plan_kas_cycle_def Let_def
  by (intro calm_control calm_statements calm_plan_kas)

lemma calm_reconcile: "calm (reconcile_cycle_status cid)"
proof -
  have "calm (persist_cycle_status cid st)" for st
    unfolding persist_cycle_status_def
    by (cases st) (simp_all add: calm_control calm_statements)
  then show ?thesis unfolding reconcile_cycle_status_def Let_def by (intro calm_control calm_statements)
qed

end

end
