(* ===== verification/Zkas_Engine.thy ===== *)
theory Zkas_Engine
  imports Db_View
begin

text \<open>
  The ZKas shielded payout engine (\<open>payout-zkas/src\<close>): planning with the per-wallet cap
  (\<open>plan.rs\<close>), the confirmation policy (\<open>confirm.rs\<close>), the sender boundary and its error
  classes (\<open>sender.rs\<close>), the chain reader (\<open>chain.rs\<close>), and the leader's tick with its
  broadcast pass, in-flight latch, confirmation pass and reconciliation (\<open>engine.rs\<close>).

  The state of the engine is the database plus the log of the payments it has asked the
  sender for; what the sender answers is an oracle read in the order of the calls.  A failed
  statement ends the tick where it stands, so a connection loss and a crash of the process
  between two statements or during a send look the same, and every theorem covers them.

  Parameters for code outside the repository: the sender's answers, the node's answers
  (\<open>chain_reader\<close>, \<open>vc_response\<close>), and the rendering and parsing of hashes (\<open>hash_codec\<close>).
\<close>

section \<open>Planning\<close>

definition DEFAULT_PER_WALLET_CAP_SOMPI :: int where
  "DEFAULT_PER_WALLET_CAP_SOMPI = 30000000000"

record plan_zkas_cycle_params =
  zp_daa_start :: nat
  zp_daa_end :: nat
  zp_threshold :: int
  zp_per_wallet_cap :: int

record plan_zkas_cycle_result =
  zr_cycle :: payout_cycle
  zr_payouts_planned :: nat
  zr_total_sompi :: int

definition capped_amount :: "int \<Rightarrow> kas_eligible_wallet \<Rightarrow> int" where
  "capped_amount per_wallet_cap w = min (ew_payable w) (max per_wallet_cap 1)"

definition plan_zkas_cycle :: "plan_zkas_cycle_params \<Rightarrow> ('z, plan_zkas_cycle_result) db_act" where
  "plan_zkas_cycle params =
     bindE (transaction (plan_body Zkas (capped_amount (zp_per_wallet_cap params)) (zp_threshold params)
              (zp_daa_start params) (zp_daa_end params)) id) (\<lambda>(cycle, eligible, total_sompi).
     ret \<lparr>zr_cycle = cycle, zr_payouts_planned = length eligible, zr_total_sompi = total_sompi\<rparr>)"

section \<open>Confirmation policy\<close>

definition ZKAS_PAYOUT_CONFIRMATION_DAA :: nat where "ZKAS_PAYOUT_CONFIRMATION_DAA = 100"

record confirmation_inputs =
  ci_virtual_daa_score :: nat
  ci_in_mempool :: bool
  ci_accept_daa :: "nat option"

definition classify_confirmation :: "confirmation_inputs \<Rightarrow> nat \<Rightarrow> confirmation_state" where
  "classify_confirmation i confirmation_daa =
     (case ci_accept_daa i of
        Some accept \<Rightarrow>
          if confirmation_daa \<le> ci_virtual_daa_score i - accept then CsConfirmed else CsAccepted
      | None \<Rightarrow> if ci_in_mempool i then CsPending else CsUnknown)"

section \<open>The sender boundary\<close>

datatype send_error =
    Seed string
  | Spawn string string
  | SendFailed "int option" string
  | TimedOut nat
  | NoTxid string

definition is_ambiguous :: "send_error \<Rightarrow> bool" where
  "is_ambiguous e = (case e of TimedOut _ \<Rightarrow> True | NoTxid _ \<Rightarrow> True | _ \<Rightarrow> False)"

definition is_ascii_hexdigit :: "char \<Rightarrow> bool" where
  "is_ascii_hexdigit c = (let n = of_char c :: nat in
     (48 \<le> n \<and> n \<le> 57) \<or> (65 \<le> n \<and> n \<le> 70) \<or> (97 \<le> n \<and> n \<le> 102))"

text \<open>\<open>char::is_whitespace\<close> on ASCII text, and \<open>str::trim\<close>.\<close>

definition is_whitespace :: "char \<Rightarrow> bool" where
  "is_whitespace c = (let n = of_char c :: nat in (9 \<le> n \<and> n \<le> 13) \<or> n = 32)"

definition trim :: "string \<Rightarrow> string" where
  "trim cs = rev (dropWhile is_whitespace (rev (dropWhile is_whitespace cs)))"

definition is_hex64 :: "string \<Rightarrow> bool" where
  "is_hex64 l \<longleftrightarrow> length l = 64 \<and> list_all is_ascii_hexdigit l"

text \<open>\<open>str::lines\<close>: split at line feeds, without a trailing empty line or carriage return.\<close>

fun split_lf :: "string \<Rightarrow> string list" where
  "split_lf [] = [[]]"
| "split_lf (c # cs) = (if c = CHR 0x0A then [] # split_lf cs
     else case split_lf cs of [] \<Rightarrow> [[c]] | l # ls \<Rightarrow> (c # l) # ls)"

definition strip_cr :: "string \<Rightarrow> string" where
  "strip_cr l = (if l \<noteq> [] \<and> last l = CHR 0x0D then butlast l else l)"

definition lines :: "string \<Rightarrow> string list" where
  "lines cs = (let ls = split_lf cs; ls' = (if last ls = [] then butlast ls else ls) in map strip_cr ls')"

definition parse_txid :: "(string \<Rightarrow> bytes option) \<Rightarrow> string \<Rightarrow> bytes option" where
  "parse_txid parse_hash stdout =
     (case List.find is_hex64 (map trim (rev (lines stdout))) of
        None \<Rightarrow> None | Some l \<Rightarrow> parse_hash l)"

definition join_bars :: "string list \<Rightarrow> string" where
  "join_bars ls = (case ls of [] \<Rightarrow> [] | l # ls' \<Rightarrow> l @ concat (map (\<lambda>x. '' | '' @ x) ls'))"

definition tail :: "string \<Rightarrow> nat \<Rightarrow> string" where
  "tail cs max_lines = join_bars (rev (take max_lines (rev (lines cs))))"

text \<open>The seed file: \<open>Inl\<close> is the text of a read error.\<close>

definition read_seed :: "string + string \<Rightarrow> send_error + string" where
  "read_seed file = (case file of
      Inl e \<Rightarrow> Inl (Seed e)
    | Inr raw \<Rightarrow> let seed = trim raw in
        if \<not> is_hex64 seed then Inl (Seed ''must contain exactly 64 hex chars'') else Inr seed)"

text \<open>
  What running \<open>shielded-pay send\<close> came to, as the operating system reports it: it could not
  be started, waiting for it failed, the budget elapsed, or it exited with a status.
\<close>

datatype child_outcome =
    SpawnError string
  | WaitError string
  | Elapsed
  | Exited (exit_code: "int option") (stdout: string) (stderr: string)

record shielded_pay_cli =
  sp_bin :: string
  sp_timeout_secs :: nat

definition cli_send ::
  "(string \<Rightarrow> bytes option) \<Rightarrow> shielded_pay_cli \<Rightarrow> string + string \<Rightarrow> child_outcome \<Rightarrow> send_error + bytes" where
  "cli_send parse_hash cli seed_file child =
     (case read_seed seed_file of
        Inl e \<Rightarrow> Inl e
      | Inr seed \<Rightarrow>
         (case child of
            SpawnError m \<Rightarrow> Inl (Spawn (sp_bin cli) m)
          | WaitError m \<Rightarrow> Inl (Spawn (sp_bin cli) (''wait: '' @ m))
          | Elapsed \<Rightarrow> Inl (TimedOut (sp_timeout_secs cli))
          | Exited code out err \<Rightarrow>
              if code \<noteq> Some 0 then Inl (SendFailed code (tail err 4))
              else (case parse_txid parse_hash out of
                      None \<Rightarrow> Inl (NoTxid (tail out 4))
                    | Some txid \<Rightarrow> Inr txid)))"

section \<open>The chain reader\<close>

datatype chain_error = Transport string | CursorInvalid

record acceptance_scan =
  as_accepted :: "bytes \<rightharpoonup> nat"
  as_new_cursor :: "bytes option"

text \<open>The node's answers during one tick.\<close>

record chain_reader =
  ch_virtual_daa_score :: "chain_error + nat"
  ch_sink :: "chain_error + bytes"
  ch_in_mempool :: "bytes \<Rightarrow> chain_error + bool"
  ch_accepted_since :: "bytes \<Rightarrow> bytes set \<Rightarrow> chain_error + acceptance_scan"

definition contains :: "string \<Rightarrow> string \<Rightarrow> bool" where
  "contains cs pat \<longleftrightarrow> list_ex (\<lambda>k. take (length pat) (drop k cs) = pat) [0..<Suc (length cs)]"

definition to_ascii_lowercase :: "string \<Rightarrow> string" where
  "to_ascii_lowercase cs = map (\<lambda>c. let n = of_char c :: nat in
     if 65 \<le> n \<and> n \<le> 90 then char_of (n + 32) else c) cs"

definition grpc_in_mempool :: "(string + unit) \<Rightarrow> chain_error + bool" where
  "grpc_in_mempool entry = (case entry of
      Inr _ \<Rightarrow> Inr True
    | Inl msg \<Rightarrow> if contains (to_ascii_lowercase msg) ''not found'' then Inr False else Inl (Transport msg))"

record vc_entry =
  ve_accepting_block :: bytes
  ve_accepted_ids :: "bytes list"

record vc_response =
  vc_added :: "bytes list"
  vc_entries :: "vc_entry list"

fun scan_entries ::
  "(bytes \<Rightarrow> string + nat) \<Rightarrow> bytes set \<Rightarrow> (bytes \<rightharpoonup> nat) \<Rightarrow> vc_entry list \<Rightarrow> chain_error + (bytes \<rightharpoonup> nat)" where
  "scan_entries get_block watched acc [] = Inr acc"
| "scan_entries get_block watched acc (e # es) =
     (let hits = filter (\<lambda>i. i \<in> watched) (ve_accepted_ids e)
      in if hits = [] then scan_entries get_block watched acc es
         else case get_block (ve_accepting_block e) of
                Inl msg \<Rightarrow> Inl (Transport msg)
              | Inr daa \<Rightarrow> scan_entries get_block watched (foldl (\<lambda>m i. m(i \<mapsto> daa)) acc hits) es)"

definition grpc_accepted_since ::
  "(bytes \<Rightarrow> string + vc_response) \<Rightarrow> (bytes \<Rightarrow> string + nat) \<Rightarrow> bytes \<Rightarrow> bytes set \<Rightarrow> chain_error + acceptance_scan" where
  "grpc_accepted_since get_chain get_block cursor watched =
     (case get_chain cursor of
        Inl msg \<Rightarrow> if contains msg ''not found'' \<or> contains msg ''chain''
                   then Inl CursorInvalid else Inl (Transport msg)
      | Inr resp \<Rightarrow>
          let new_cursor = (if vc_added resp = [] then None else Some (last (vc_added resp)))
          in if watched = {} then Inr \<lparr>as_accepted = (\<lambda>_. None), as_new_cursor = new_cursor\<rparr>
             else case scan_entries get_block watched (\<lambda>_. None) (vc_entries resp) of
                    Inl e \<Rightarrow> Inl e
                  | Inr acc \<Rightarrow> Inr \<lparr>as_accepted = acc, as_new_cursor = new_cursor\<rparr>)"

section \<open>The engine\<close>

definition INFLIGHT_KEY :: string where "INFLIGHT_KEY = ''zkas_payout_inflight''"
definition CONFIRM_CURSOR_KEY :: string where "CONFIRM_CURSOR_KEY = ''zkas_payout_confirm_cursor''"

definition over_spend_cap :: "int \<Rightarrow> int option \<Rightarrow> bool" where
  "over_spend_cap t cap = (case cap of Some c \<Rightarrow> c < t | None \<Rightarrow> False)"

datatype execution_mode = DryRun | Live

record engine_config =
  ec_cycle_span_daa :: nat
  ec_threshold :: int
  ec_per_wallet_cap :: int
  ec_spend_cap :: "int option"
  ec_mode :: execution_mode
  ec_max_sends :: nat

datatype engine_error =
    EDb db_error
  | EChain chain_error
  | EDaaOutOfRange nat
  | ESpanTooSmall nat nat
  | EPanic

record tick_stats =
  ts_planned :: nat
  ts_sends_attempted :: nat
  ts_sends_accepted :: nat
  ts_accepted :: nat
  ts_confirmed :: nat
  ts_inflight_latched :: bool
  ts_spend_capped :: bool

definition default_stats :: tick_stats where
  "default_stats = \<lparr>ts_planned = 0, ts_sends_attempted = 0, ts_sends_accepted = 0, ts_accepted = 0,
     ts_confirmed = 0, ts_inflight_latched = False, ts_spend_capped = False\<rparr>"

text \<open>
  One call of the sender: what was asked, for which payout row (kept for the proofs), and
  the answer.
\<close>

record send_entry =
  se_payout :: int
  se_to :: string
  se_amount :: nat
  se_result :: "send_error + bytes"

record engine_world = pool_db +
  sends :: "send_entry list"
  outcomes :: "nat \<Rightarrow> send_error + bytes"

type_synonym 'a eng_act = "(engine_world, engine_error, 'a) act"

record hash_codec =
  hc_show :: "bytes \<Rightarrow> string"
  hc_parse :: "string \<Rightarrow> bytes option"

definition engine_new :: "engine_config \<Rightarrow> engine_error + engine_config" where
  "engine_new cfg =
     (if ec_cycle_span_daa cfg \<le> ZKAS_PAYOUT_CONFIRMATION_DAA
      then Inl (ESpanTooSmall (ec_cycle_span_daa cfg) ZKAS_PAYOUT_CONFIRMATION_DAA) else Inr cfg)"

abbreviation db :: "(engine_world, db_error, 'a) act \<Rightarrow> 'a eng_act" where
  "db m \<equiv> map_err EDb m"

abbreviation chain :: "chain_error + 'a \<Rightarrow> 'a eng_act" where
  "chain r \<equiv> map_err EChain (lift_sum r)"

definition sender_send :: "int \<Rightarrow> string \<Rightarrow> nat \<Rightarrow> (send_error + bytes) eng_act" where
  "sender_send pid addr amount s =
     (let r = outcomes s (length (sends s));
          e = \<lparr>se_payout = pid, se_to = addr, se_amount = amount, se_result = r\<rparr>
      in (Inr r, s\<lparr>sends := sends s @ [e]\<rparr>))"

definition inflight_latch :: "string option eng_act" where
  "inflight_latch = bindE (db (meta_get INFLIGHT_KEY)) (\<lambda>e. ret (map_option pm_value e))"

text \<open>
  The \<open>for\<close> loop of the broadcast pass in three pieces: what is done with the sender's answer,
  one iteration, and the loop.  The boolean says whether the loop goes on; the early
  \<open>return\<close>s of the source are \<open>False\<close>.
\<close>

definition settle_send :: "int \<Rightarrow> tick_stats \<Rightarrow> send_error + bytes \<Rightarrow> (tick_stats \<times> bool) eng_act" where
  "settle_send pid stats res =
     (case res of
        Inr txid \<Rightarrow>
          bindE (db (mark_payout_submitted pid txid)) (\<lambda>_.
          bindE (db (meta_delete INFLIGHT_KEY)) (\<lambda>_.
          ret (stats\<lparr>ts_sends_accepted := ts_sends_accepted stats + 1\<rparr>, True)))
      | Inl e \<Rightarrow>
          if is_ambiguous e then ret (stats, False)
          else bindE (db (meta_delete INFLIGHT_KEY)) (\<lambda>_. ret (stats, False)))"

definition send_one :: "tick_stats \<Rightarrow> cycle_recipient \<Rightarrow> (tick_stats \<times> bool) eng_act" where
  "send_one stats0 r =
     (let stats = stats0\<lparr>ts_sends_attempted := ts_sends_attempted stats0 + 1\<rparr>
      in bindE (db (meta_set INFLIGHT_KEY (show_int (rc_payout r)))) (\<lambda>_.
         case u64_try_from_i64 (rc_amount r) of
           None \<Rightarrow> bindE (db (meta_delete INFLIGHT_KEY)) (\<lambda>_. ret (stats, True))
         | Some amount \<Rightarrow>
             bindE (sender_send (rc_payout r) (rc_address r) amount) (settle_send (rc_payout r) stats)))"

fun broadcast_loop :: "execution_mode \<Rightarrow> tick_stats \<Rightarrow> cycle_recipient list \<Rightarrow> tick_stats eng_act" where
  "broadcast_loop mode stats [] = ret stats"
| "broadcast_loop mode stats (r # rs) =
     (if mode = DryRun then broadcast_loop mode stats rs
      else bindE (send_one stats r) (\<lambda>(stats, go_on).
        if go_on then broadcast_loop mode stats rs else ret stats))"

definition planned_recipients :: "cycle_recipient list \<Rightarrow> cycle_recipient list" where
  "planned_recipients rs = filter (\<lambda>r. rc_status r = Planned) rs"

definition broadcast_planned :: "engine_config \<Rightarrow> tick_stats \<Rightarrow> cycle_recipient list \<Rightarrow> tick_stats eng_act" where
  "broadcast_planned cfg stats recipients =
     (let planned = planned_recipients recipients
      in if planned = [] then ret stats
         else
           let total_sompi = sum_list (map rc_amount planned)
           in if \<not> in_i64 total_sompi then raise EPanic
              else if over_spend_cap total_sompi (ec_spend_cap cfg)
                then ret (stats\<lparr>ts_spend_capped := True\<rparr>)
              else broadcast_loop (ec_mode cfg) stats (take (ec_max_sends cfg) planned))"

definition broadcast_pass :: "engine_config \<Rightarrow> payout_cycle \<Rightarrow> tick_stats \<Rightarrow> tick_stats eng_act" where
  "broadcast_pass cfg cycle stats =
     bindE inflight_latch (\<lambda>latched.
     if latched \<noteq> None then ret (stats\<lparr>ts_inflight_latched := True\<rparr>)
     else bindE (db (list_cycle_recipients (pc_id cycle))) (broadcast_planned cfg stats))"

definition ensure_confirm_cursor :: "hash_codec \<Rightarrow> chain_reader \<Rightarrow> unit eng_act" where
  "ensure_confirm_cursor hc ch =
     bindE (db (meta_get CONFIRM_CURSOR_KEY)) (\<lambda>e.
     if e = None
     then bindE (chain (ch_sink ch)) (\<lambda>sink.
          bindE (db (meta_set CONFIRM_CURSOR_KEY (hc_show hc sink))) (\<lambda>_. ret ()))
     else ret ())"

definition reanchor_cursor :: "hash_codec \<Rightarrow> chain_reader \<Rightarrow> unit eng_act" where
  "reanchor_cursor hc ch =
     bindE (chain (ch_sink ch)) (\<lambda>sink.
     bindE (db (meta_set CONFIRM_CURSOR_KEY (hc_show hc sink))) (\<lambda>_. ret ()))"

definition daa_to_i64 :: "nat \<Rightarrow> int eng_act" where
  "daa_to_i64 daa = (case i64_try_from_u64 daa of None \<Rightarrow> raise (EDaaOutOfRange daa) | Some d \<Rightarrow> ret d)"

text \<open>The body of the confirmation loop for one in-flight payout.\<close>

definition confirm_one ::
  "chain_reader \<Rightarrow> nat \<Rightarrow> (bytes \<rightharpoonup> nat) \<Rightarrow> tick_stats \<Rightarrow> zkas_in_flight \<Rightarrow> tick_stats eng_act" where
  "confirm_one ch virtual_daa accepted stats p =
     (if length (zf_tx_hash p) \<noteq> 32 then ret stats
      else
        let txid = zf_tx_hash p;
            newly_accepted_daa = accepted txid;
            recorded = (case zf_accepted_daa p of None \<Rightarrow> None | Some v \<Rightarrow> u64_try_from_i64 v);
            accept_daa = (case recorded of Some d \<Rightarrow> Some d | None \<Rightarrow> newly_accepted_daa)
        in bindE (if accept_daa = None then chain (ch_in_mempool ch txid) else ret False) (\<lambda>in_mempool.
           case classify_confirmation \<lparr>ci_virtual_daa_score = virtual_daa, ci_in_mempool = in_mempool,
                  ci_accept_daa = accept_daa\<rparr> ZKAS_PAYOUT_CONFIRMATION_DAA of
             CsConfirmed \<Rightarrow>
               bindE (case (newly_accepted_daa, recorded) of
                        (Some daa, None) \<Rightarrow> bindE (daa_to_i64 daa) (\<lambda>d.
                          bindE (db (mark_payout_accepted (zf_payout p) d)) (\<lambda>_. ret ()))
                      | _ \<Rightarrow> ret ()) (\<lambda>_.
               bindE (db (mark_payout_confirmed (zf_payout p))) (\<lambda>_.
               ret (stats\<lparr>ts_confirmed := ts_confirmed stats + 1\<rparr>)))
           | CsAccepted \<Rightarrow>
               (case (recorded, newly_accepted_daa) of
                  (None, Some daa) \<Rightarrow> bindE (daa_to_i64 daa) (\<lambda>d.
                    bindE (db (mark_payout_accepted (zf_payout p) d)) (\<lambda>_.
                    ret (stats\<lparr>ts_accepted := ts_accepted stats + 1\<rparr>)))
                | _ \<Rightarrow> ret stats)
           | CsPending \<Rightarrow> ret stats
           | CsUnknown \<Rightarrow> ret stats))"

definition watched_txids :: "zkas_in_flight list \<Rightarrow> bytes set" where
  "watched_txids ps = set (map zf_tx_hash (filter (\<lambda>p. length (zf_tx_hash p) = 32) ps))"

definition apply_scan ::
  "hash_codec \<Rightarrow> chain_reader \<Rightarrow> nat \<Rightarrow> tick_stats \<Rightarrow> zkas_in_flight list \<Rightarrow> acceptance_scan \<Rightarrow> tick_stats eng_act" where
  "apply_scan hc ch virtual_daa stats in_flight scan =
     bindE (foldE (confirm_one ch virtual_daa (as_accepted scan)) stats in_flight) (\<lambda>stats.
     case as_new_cursor scan of
       None \<Rightarrow> ret stats
     | Some c \<Rightarrow> bindE (db (meta_set CONFIRM_CURSOR_KEY (hc_show hc c))) (\<lambda>_. ret stats))"

definition scan_from ::
  "hash_codec \<Rightarrow> chain_reader \<Rightarrow> nat \<Rightarrow> tick_stats \<Rightarrow> zkas_in_flight list \<Rightarrow> pool_meta_entry option \<Rightarrow> tick_stats eng_act" where
  "scan_from hc ch virtual_daa stats in_flight cursor_row =
     (case cursor_row of
        None \<Rightarrow> bindE (ensure_confirm_cursor hc ch) (\<lambda>_. ret stats)
      | Some row \<Rightarrow>
         (case hc_parse hc (pm_value row) of
            None \<Rightarrow> bindE (reanchor_cursor hc ch) (\<lambda>_. ret stats)
          | Some cursor \<Rightarrow>
             (case ch_accepted_since ch cursor (watched_txids in_flight) of
                Inl CursorInvalid \<Rightarrow> bindE (reanchor_cursor hc ch) (\<lambda>_. ret stats)
              | Inl e \<Rightarrow> raise (EChain e)
              | Inr scan \<Rightarrow> apply_scan hc ch virtual_daa stats in_flight scan)))"

definition confirm_pass :: "hash_codec \<Rightarrow> chain_reader \<Rightarrow> nat \<Rightarrow> tick_stats \<Rightarrow> tick_stats eng_act" where
  "confirm_pass hc ch virtual_daa stats =
     bindE (db list_zkas_in_flight_payouts) (\<lambda>in_flight.
     bindE (db (meta_get CONFIRM_CURSOR_KEY)) (scan_from hc ch virtual_daa stats in_flight))"

definition engine_cycle_status :: "payout list \<Rightarrow> payout_cycle_status option" where
  "engine_cycle_status rows =
     (let confirmed = length (filter (\<lambda>p. po_status p = Confirmed) rows);
          failed = length (filter (\<lambda>p. po_status p = Failed) rows);
          in_flight = length (filter (\<lambda>p. po_status p \<in> {Submitted, Accepted}) rows)
      in if confirmed = length rows then Some CySettled
         else if 0 < confirmed then Some CyPartiallySettled
         else if 0 < in_flight then Some CyBroadcasting
         else if failed = length rows then Some CyFailed
         else None)"

definition reconcile_cycle :: "int \<Rightarrow> unit eng_act" where
  "reconcile_cycle cid =
     bindE (db (list_for_cycle cid)) (\<lambda>rows.
     if rows = [] then ret ()
     else case engine_cycle_status rows of
            Some CySettled \<Rightarrow> db (mark_cycle_settled cid)
          | Some CyPartiallySettled \<Rightarrow> db (mark_cycle_partially_settled cid)
          | Some CyBroadcasting \<Rightarrow> db (mark_cycle_broadcasting cid)
          | Some CyFailed \<Rightarrow> db (mark_cycle_failed cid)
          | _ \<Rightarrow> ret ())"

definition resume_or_plan_zkas :: "engine_config \<Rightarrow> nat \<Rightarrow> tick_stats \<Rightarrow> (payout_cycle \<times> tick_stats) eng_act" where
  "resume_or_plan_zkas cfg virtual_daa stats =
     (let (start, stop) = cycle_window virtual_daa (ec_cycle_span_daa cfg);
          key = idempotency_key Zkas start stop
      in bindE (db (find_cycle_by_idempotency_key key)) (\<lambda>found.
         case found of
           Some cycle \<Rightarrow> ret (cycle, stats)
         | None \<Rightarrow>
             bindE (db (plan_zkas_cycle \<lparr>zp_daa_start = start, zp_daa_end = stop,
               zp_threshold = ec_threshold cfg, zp_per_wallet_cap = ec_per_wallet_cap cfg\<rparr>)) (\<lambda>plan.
             ret (zr_cycle plan, stats\<lparr>ts_planned := zr_payouts_planned plan\<rparr>))))"

definition tick_once :: "engine_config \<Rightarrow> hash_codec \<Rightarrow> bool \<Rightarrow> chain_reader \<Rightarrow> tick_stats eng_act" where
  "tick_once cfg hc leader ch =
     bindE (db (sql (ret leader))) (\<lambda>acquired.
     if \<not> acquired then ret default_stats
     else
       bindE (chain (ch_virtual_daa_score ch)) (\<lambda>virtual_daa.
       bindE (resume_or_plan_zkas cfg virtual_daa default_stats) (\<lambda>(cycle, stats).
       bindE (broadcast_pass cfg cycle stats) (\<lambda>stats.
       bindE (confirm_pass hc ch virtual_daa stats) (\<lambda>stats.
       bindE (reconcile_cycle (pc_id cycle)) (\<lambda>_.
       ret stats))))))"

section \<open>Actions that neither pay nor touch the latch\<close>

text \<open>
  The engine watches the log of payments, the in-flight latch and the wallets: a calm action
  leaves them alone, keeps the schema's invariant and moves payout rows only forward.
\<close>

interpretation zkas_view: db_view payout_le "\<lambda>s :: engine_world. (sends s, meta s INFLIGHT_KEY, wallets s)"
  by unfold_locales simp_all

abbreviation calm :: "(engine_world, 'e, 'a) act \<Rightarrow> bool" where
  "calm \<equiv> zkas_view.calm"

named_theorems calm_rules "rules for calm actions"

lemmas calm_library [calm_rules] = zkas_view.calm_control zkas_view.calm_statements

lemma calm_mark_payout [calm_rules]:
  "calm (mark_payout_submitted pid h)" "calm (mark_payout_accepted pid d)" "calm (mark_payout_confirmed pid)"
  by (intro zkas_view.calmI preserves_mark_payout mark_payout_advances;
      simp add: payout_status_ops update_payout_def sql_def Let_def)+

lemma keys_differ [simp]: "INFLIGHT_KEY \<noteq> CONFIRM_CURSOR_KEY" "CONFIRM_CURSOR_KEY \<noteq> INFLIGHT_KEY"
  by (simp_all add: INFLIGHT_KEY_def CONFIRM_CURSOR_KEY_def)

lemma calm_set_cursor [calm_rules]: "calm (meta_set CONFIRM_CURSOR_KEY v)"
proof (rule zkas_view.calmI)
  show "payout_table.advances (meta_set CONFIRM_CURSOR_KEY v :: (engine_world, db_error, pool_meta_entry) act)"
    unfolding meta_set_def by (intro payout_table.advances_sql payout_table.advances_same) (simp add: Let_def)
qed (rule preserves_meta, simp add: meta_set_def sql_def Let_def)

lemma calm_plan [calm_rules]: "calm (plan_zkas_cycle p)"
  unfolding plan_zkas_cycle_def plan_body_def ensure_recipients_def
  by (intro calm_rules | simp only: split_beta)+

lemma calm_resume [calm_rules]: "calm (resume_or_plan_zkas cfg v st)"
  unfolding resume_or_plan_zkas_def Let_def
  by (simp only: split_beta) (intro calm_rules)

lemma calm_reconcile_zkas [calm_rules]: "calm (reconcile_cycle cid)"
  unfolding reconcile_cycle_def
  by (intro calm_rules) (auto intro!: calm_rules split: payout_cycle_status.split)

lemma calm_cursor [calm_rules]: "calm (ensure_confirm_cursor hc ch)" "calm (reanchor_cursor hc ch)"
  unfolding ensure_confirm_cursor_def reanchor_cursor_def by (intro calm_rules)+

lemma calm_confirm_one [calm_rules]: "calm (confirm_one ch v acc st p)"
  unfolding confirm_one_def Let_def daa_to_i64_def
  by (intro calm_rules) (auto intro!: calm_rules split: confirmation_state.split option.split)

lemma calm_confirm_pass [calm_rules]: "calm (confirm_pass hc ch v st)"
  unfolding confirm_pass_def scan_from_def apply_scan_def
  by (intro calm_rules) (auto intro!: calm_rules split: sum.split chain_error.split)

lemma calm_latch [calm_rules]: "calm inflight_latch"
  unfolding inflight_latch_def by (intro calm_rules)

section \<open>What has been paid\<close>

text \<open>The payment was accepted, or the sender could not tell.\<close>

definition may_have_paid :: "send_entry \<Rightarrow> bool" where
  "may_have_paid e = (case se_result e of Inr _ \<Rightarrow> True | Inl err \<Rightarrow> is_ambiguous err)"

text \<open>The row and wallet a payment was made for.\<close>

definition pays_row :: "engine_world \<Rightarrow> send_entry \<Rightarrow> payout \<Rightarrow> bool" where
  "pays_row s e p \<longleftrightarrow> po_id p = se_payout e \<and> po_amount p = int (se_amount e) \<and>
     (\<exists>w \<in> set (wallets s). w_id w = po_wallet p \<and> w_address w = se_to e)"

text \<open>
  The engine's invariant, with \<open>latched\<close> saying whether the in-flight latch is set: every
  payment was made for an existing row, no row was possibly paid twice, and a row that was
  possibly paid is still \<open>planned\<close> only under the latch.
\<close>

definition pay_inv :: "bool \<Rightarrow> engine_world \<Rightarrow> bool" where
  "pay_inv latched s \<longleftrightarrow> payout_db_ok s \<and>
     (\<forall>e \<in> set (sends s). \<exists>p \<in> set (payouts s). pays_row s e p \<and>
        (may_have_paid e \<longrightarrow> po_status p \<noteq> Planned \<or> latched)) \<and>
     distinct (map se_payout (filter may_have_paid (sends s)))"

definition latched :: "engine_world \<Rightarrow> bool" where
  "latched s \<longleftrightarrow> meta s INFLIGHT_KEY \<noteq> None"

definition engine_inv :: "engine_world \<Rightarrow> bool" where
  "engine_inv s \<longleftrightarrow> pay_inv (latched s) s"

lemma pay_inv_mono: "pay_inv False s \<Longrightarrow> pay_inv b s"
  unfolding pay_inv_def by blast

lemma pay_inv_frame:
  assumes "pay_inv b s" and "payout_db_ok t" and "sends t = sends s"
    and "set (wallets s) \<subseteq> set (wallets t)" and "payout_table.extends (payouts s) (payouts t)"
  shows "pay_inv b t"
proof -
  have "\<exists>q \<in> set (payouts t). pays_row t e q \<and> (may_have_paid e \<longrightarrow> po_status q \<noteq> Planned \<or> b)"
    if "e \<in> set (sends s)" for e
  proof -
    from assms(1) that obtain p where p: "p \<in> set (payouts s)" "pays_row s e p"
      "may_have_paid e \<longrightarrow> po_status p \<noteq> Planned \<or> b" unfolding pay_inv_def by blast
    with assms(5) obtain q where "q \<in> set (payouts t)" "payout_le p q"
      unfolding payout_table.extends_def by blast
    with p assms(4) show ?thesis
      by (intro bexI[of _ q]) (auto simp: pays_row_def payout_le_def)
  qed
  with assms(1,2,3) show ?thesis by (simp add: pay_inv_def)
qed

lemma calm_quiet:
  assumes "calm m"
  shows "sends (snd (m s)) = sends s" "meta (snd (m s)) INFLIGHT_KEY = meta s INFLIGHT_KEY"
    "wallets (snd (m s)) = wallets s" "latched (snd (m s)) = latched s"
  using zkas_view.calm_keeps(2)[OF assms, of s] by (simp_all add: latched_def)

lemma calm_pay_inv:
  assumes "calm m" and "pay_inv b s"
  shows "pay_inv b (snd (m s))"
  by (rule pay_inv_frame[OF assms(2)])
    (use assms zkas_view.calm_keeps[OF assms(1)] in \<open>auto simp: calm_quiet pay_inv_def dest: preservesD\<close>)

lemma calm_engine_inv: "calm m \<Longrightarrow> preserves engine_inv m"
  by (simp add: preserves_def engine_inv_def calm_pay_inv calm_quiet)

section \<open>The broadcast loop\<close>

definition planned_row :: "engine_world \<Rightarrow> cycle_recipient \<Rightarrow> bool" where
  "planned_row s r \<longleftrightarrow> (\<exists>p \<in> set (payouts s). po_id p = rc_payout r \<and> po_status p = Planned \<and>
     po_amount p = rc_amount r \<and> (\<exists>w \<in> set (wallets s). w_id w = po_wallet p \<and> w_address w = rc_address r))"

lemma pay_inv_meta:
  "pay_inv b s \<Longrightarrow> pay_inv b (snd (meta_set k v s))" "pay_inv b s \<Longrightarrow> pay_inv b (snd (meta_delete k s))"
proof -
  show "pay_inv b s \<Longrightarrow> pay_inv b (snd (meta_set k v s))"
    by (rule pay_inv_frame, assumption, rule preservesD[OF preserves_meta(2)], simp add: pay_inv_def)
      (simp_all add: meta_set_def sql_def Let_def payout_table.extends_refl)
  show "pay_inv b s \<Longrightarrow> pay_inv b (snd (meta_delete k s))"
    by (rule pay_inv_frame, assumption, rule preservesD[OF preserves_meta(3)], simp add: pay_inv_def)
      (simp_all add: meta_delete_def sql_def Let_def payout_table.extends_refl)
qed

lemma meta_set_Inr: "meta_set k v s = (Inr a, t) \<Longrightarrow>
    payouts t = payouts s \<and> wallets t = wallets s \<and> sends t = sends s \<and> outcomes t = outcomes s \<and> meta t k \<noteq> None"
  by (auto simp: meta_set_def Let_def dest!: sql_Inr)

lemma meta_set_Inl: "meta_set k v s = (Inl e, t) \<Longrightarrow> \<exists>n. t = s\<lparr>calls := n\<rparr>"
  by (auto simp: meta_set_def sql_def Let_def split: if_splits)

lemma meta_delete_Inr: "meta_delete k s = (Inr a, t) \<Longrightarrow>
    payouts t = payouts s \<and> wallets t = wallets s \<and> sends t = sends s \<and> outcomes t = outcomes s \<and> meta t k = None"
  by (auto simp: meta_delete_def Let_def dest!: sql_Inr)

lemma meta_delete_Inl: "meta_delete k s = (Inl e, t) \<Longrightarrow> \<exists>n. t = s\<lparr>calls := n\<rparr>"
  by (auto simp: meta_delete_def sql_def Let_def split: if_splits)

lemma planned_row_unique:
  assumes "payout_db_ok s" and "planned_row s r" and "p \<in> set (payouts s)" and "po_id p = rc_payout r"
  shows "po_status p = Planned"
proof -
  from assms(2) obtain q where q: "q \<in> set (payouts s)" "po_id q = rc_payout r" "po_status q = Planned"
    unfolding planned_row_def by blast
  have "inj_on po_id (set (payouts s))" using assms(1) unfolding payout_db_ok_def distinct_map by blast
  from inj_onD[OF this, of p q] assms(3,4) q show ?thesis by simp
qed

text \<open>A payment for a planned row, made while nothing is in flight.\<close>

lemma pay_inv_send:
  assumes inv: "pay_inv False s" and row: "planned_row s r"
    and e: "se_payout e = rc_payout r" "se_to e = rc_address r" "int (se_amount e) = rc_amount r"
  shows "pay_inv (may_have_paid e) (s\<lparr>sends := sends s @ [e]\<rparr>)"
proof -
  let ?t = "s\<lparr>sends := sends s @ [e]\<rparr>"
  have "\<exists>p \<in> set (payouts s). pays_row s e p"
    using row e unfolding planned_row_def pays_row_def by metis
  moreover have "se_payout e \<notin> se_payout ` set (filter may_have_paid (sends s))"
  proof
    assume "se_payout e \<in> se_payout ` set (filter may_have_paid (sends s))"
    then obtain e' where "e' \<in> set (sends s)" "may_have_paid e'" "se_payout e' = se_payout e" by auto
    with inv obtain p where "p \<in> set (payouts s)" "po_id p = rc_payout r" "po_status p \<noteq> Planned"
      unfolding pay_inv_def pays_row_def using e(1) by metis
    moreover have "payout_db_ok s" using inv by (simp add: pay_inv_def)
    ultimately show False using planned_row_unique row by blast
  qed
  moreover have "pays_row ?t = pays_row s" "payout_db_ok ?t"
    using inv by (auto simp: pays_row_def fun_eq_iff pay_inv_def payout_db_ok_def)
  ultimately show ?thesis using inv unfolding pay_inv_def by auto
qed

lemma mark_payout_submitted_Inr:
  assumes "mark_payout_submitted pid h s = (Inr n, t)"
  shows "payouts t = update_where (\<lambda>p. po_id p = pid \<and> po_status p \<in> {Planned, Submitted})
      (\<lambda>p. p\<lparr>po_status := Submitted, po_tx_hash := Some h,
             po_submitted_at := coalesce (po_submitted_at p) (Some (now s))\<rparr>) (payouts s)"
  using update_payout_Inr(1)[OF assms[unfolded mark_payout_submitted_def]] .

text \<open>Recording the transaction id settles the payment without the latch.\<close>

lemma pay_inv_submitted:
  assumes inv: "pay_inv False s" and row: "planned_row s r" and e: "se_payout e = rc_payout r"
    and u: "payouts u = payouts s" "wallets u = wallets s" "sends u = sends s @ [e]" "pay_inv b u"
    and run: "mark_payout_submitted (rc_payout r) h u = (Inr n, t)"
  shows "pay_inv False t"
proof -
  have calm: "calm (mark_payout_submitted (rc_payout r) h)" by (rule calm_mark_payout)
  have t: "sends t = sends u" "wallets t = wallets u" "payout_table.extends (payouts u) (payouts t)"
    "pay_inv b t"
    using calm_quiet[OF calm, of u] calm_pay_inv[OF calm u(4)] calm run
    using zkas_view.calm_keeps(3)[OF calm, of u] by auto
  have "\<exists>q \<in> set (payouts t). pays_row t x q \<and> (may_have_paid x \<longrightarrow> po_status q \<noteq> Planned)"
    if x: "x \<in> set (sends t)" for x
  proof (cases "x = e")
    case True
    from t(4) x obtain q where q: "q \<in> set (payouts t)" "pays_row t x q" unfolding pay_inv_def by blast
    from q(1) obtain r0 where r0: "q = (if po_id r0 = rc_payout r \<and> po_status r0 \<in> {Planned, Submitted}
        then r0\<lparr>po_status := Submitted, po_tx_hash := Some h,
               po_submitted_at := coalesce (po_submitted_at r0) (Some (now u))\<rparr> else r0)"
      unfolding mark_payout_submitted_Inr[OF run] in_update_where by blast
    have "po_status q \<noteq> Planned"
      using q(2) True e unfolding r0 by (cases "po_status r0 \<in> {Planned, Submitted}") (auto simp: pays_row_def)
    with q show ?thesis by blast
  next
    case False
    with x t u have "x \<in> set (sends s)" by simp
    with inv obtain p where p: "p \<in> set (payouts s)" "pays_row s x p" "may_have_paid x \<longrightarrow> po_status p \<noteq> Planned"
      unfolding pay_inv_def by blast
    with t(3) u obtain q where "q \<in> set (payouts t)" "payout_le p q" unfolding payout_table.extends_def by metis
    with p t u show ?thesis by (intro bexI[of _ q]) (auto simp: pays_row_def payout_le_def)
  qed
  with t(4) show ?thesis by (simp add: pay_inv_def)
qed

lemma planned_row_other:
  assumes "mark_payout_submitted pid h u = (Inr n, t)" and "planned_row u r" and "rc_payout r \<noteq> pid"
    and "wallets t = wallets u"
  shows "planned_row t r"
proof -
  from assms(2) obtain p where p: "p \<in> set (payouts u)" "po_id p = rc_payout r" "po_status p = Planned"
    "po_amount p = rc_amount r" "\<exists>w \<in> set (wallets u). w_id w = po_wallet p \<and> w_address w = rc_address r"
    unfolding planned_row_def by blast
  then have "p \<in> set (payouts t)"
    unfolding mark_payout_submitted_Inr[OF assms(1)] in_update_where using assms(3) by (intro bexI[of _ p]) auto
  with p assms(4) show ?thesis unfolding planned_row_def by auto
qed

lemma planned_row_frame:
  "payouts t = payouts s \<Longrightarrow> wallets t = wallets s \<Longrightarrow> planned_row t r = planned_row s r"
  by (simp add: planned_row_def)

text \<open>What one iteration leaves behind, on both exits.\<close>

definition after_send :: "engine_world \<Rightarrow> cycle_recipient \<Rightarrow> (engine_error + tick_stats \<times> bool) \<times> engine_world \<Rightarrow> bool" where
  "after_send s r x \<longleftrightarrow> engine_inv (snd x) \<and>
     (case fst x of Inl _ \<Rightarrow> True
      | Inr (_, go_on) \<Rightarrow> go_on \<longrightarrow> pay_inv False (snd x) \<and> \<not> latched (snd x) \<and>
          (\<forall>y. rc_payout y \<noteq> rc_payout r \<longrightarrow> planned_row s y \<longrightarrow> planned_row (snd x) y))"

lemma pay_inv_engine_inv:
  "pay_inv False u \<Longrightarrow> engine_inv u" "pay_inv b u \<Longrightarrow> latched u \<Longrightarrow> engine_inv u"
  by (simp_all add: engine_inv_def pay_inv_mono) (cases b; simp add: pay_inv_mono)

lemma after_send_delete:
  assumes "pay_inv False u"
    and "\<And>y. rc_payout y \<noteq> rc_payout r \<Longrightarrow> planned_row s y \<Longrightarrow> planned_row u y"
  shows "after_send s r (bindE (db (meta_delete INFLIGHT_KEY)) (\<lambda>_. ret (st, go_on)) u)"
proof (cases "meta_delete INFLIGHT_KEY u")
  case (Pair res t)
  have t: "pay_inv False t" using pay_inv_meta(2)[OF assms(1), of INFLIGHT_KEY] Pair by simp
  show ?thesis
  proof (cases res)
    case (Inl e)
    with Pair t show ?thesis
      by (simp add: after_send_def bindE_def map_err_def pay_inv_engine_inv)
  next
    case (Inr a)
    with Pair have "meta_delete INFLIGHT_KEY u = (Inr a, t)" by simp
    note D = meta_delete_Inr[OF this]
    then have "planned_row t = planned_row u" by (auto simp: planned_row_frame[of t u])
    with Pair Inr t D assms(2) show ?thesis
      by (simp add: after_send_def bindE_def map_err_def pay_inv_engine_inv latched_def)
  qed
qed

lemma after_send_settle:
  assumes u: "pay_inv False u" and row: "planned_row u r" and amt: "0 \<le> rc_amount r" and lat: "latched u"
    and keep: "\<And>y. planned_row s y \<Longrightarrow> planned_row u y"
  shows "after_send s r (bindE (sender_send (rc_payout r) (rc_address r) (nat (rc_amount r)))
    (settle_send (rc_payout r) st) u)"
proof -
  define res where "res = outcomes u (length (sends u))"
  define e where "e = \<lparr>se_payout = rc_payout r, se_to = rc_address r, se_amount = nat (rc_amount r), se_result = res\<rparr>"
  define v where "v = u\<lparr>sends := sends u @ [e]\<rparr>"
  have v: "pay_inv (may_have_paid e) v" unfolding v_def using pay_inv_send[OF u row, of e] amt by (simp add: e_def)
  have keepv: "planned_row v y" if "planned_row s y" for y
    using keep[OF that] by (simp add: v_def planned_row_def)
  have lv: "latched v" using lat by (simp add: v_def latched_def)
  have run: "bindE (sender_send (rc_payout r) (rc_address r) (nat (rc_amount r))) (settle_send (rc_payout r) st) u =
      settle_send (rc_payout r) st res v"
    by (simp add: bindE_def sender_send_def Let_def res_def e_def v_def)
  show ?thesis
  proof (cases res)
    case (Inl err)
    then show ?thesis unfolding run settle_send_def using v lv keepv after_send_delete[of v r s]
      by (auto simp: after_send_def e_def may_have_paid_def pay_inv_engine_inv)
  next
    case (Inr txid)
    obtain rr t where m: "mark_payout_submitted (rc_payout r) txid v = (rr, t)" by fastforce
    have calm: "calm (mark_payout_submitted (rc_payout r) txid)" by (rule calm_mark_payout)
    have t: "pay_inv (may_have_paid e) t" "latched t" "wallets t = wallets v"
      using calm_pay_inv[OF calm v] calm_quiet[OF calm, of v] m lv by simp_all
    show ?thesis
    proof (cases rr)
      case (Inl x)
      with m t Inr show ?thesis unfolding run
        by (simp add: settle_send_def after_send_def bindE_def map_err_def pay_inv_engine_inv)
    next
      case (Inr n)
      with m have m': "mark_payout_submitted (rc_payout r) txid v = (Inr n, t)" by simp
      have "pay_inv False t"
        by (rule pay_inv_submitted[OF u row _ _ _ _ v m', of e]) (simp_all add: v_def e_def)
      moreover have "planned_row t y" if "rc_payout y \<noteq> rc_payout r" "planned_row s y" for y
        using planned_row_other[OF m' keepv[OF that(2)] that(1) t(3)] .
      ultimately have "after_send s r (bindE (db (meta_delete INFLIGHT_KEY))
          (\<lambda>_. ret (st\<lparr>ts_sends_accepted := ts_sends_accepted st + 1\<rparr>, True)) t)"
        by (rule after_send_delete)
      then show ?thesis using m' \<open>res = Inr txid\<close>
        by (simp add: run settle_send_def bindE_Inr[of "db (mark_payout_submitted (rc_payout r) txid)" v n t])
    qed
  qed
qed

lemma after_send_one:
  assumes inv: "pay_inv False s" and row: "planned_row s r"
  shows "after_send s r (send_one st r s)"
proof -
  have amt: "0 \<le> rc_amount r"
    using inv row unfolding pay_inv_def planned_row_def payout_db_ok_def payout_checks_def by fastforce
  obtain x u where m: "meta_set INFLIGHT_KEY (show_int (rc_payout r)) s = (x, u)" by fastforce
  have u: "pay_inv False u" using pay_inv_meta(1)[OF inv, of INFLIGHT_KEY] m by (metis snd_conv)
  show ?thesis
  proof (cases x)
    case (Inl e)
    with m u show ?thesis
      by (simp add: send_one_def Let_def bindE_def map_err_def after_send_def pay_inv_engine_inv)
  next
    case (Inr a)
    with m have M: "payouts u = payouts s" "wallets u = wallets s" "latched u"
      using meta_set_Inr[of INFLIGHT_KEY _ s a u] by (simp_all add: latched_def)
    then have "planned_row u = planned_row s" by (auto simp: planned_row_frame[of u s])
    with after_send_settle[OF u _ amt M(3), of s] row Inr m amt show ?thesis
      by (simp add: send_one_def Let_def bindE_def map_err_def u64_try_from_i64_def)
  qed
qed

lemma broadcast_loop_inv:
  assumes "pay_inv False s" and "\<not> latched s" and "\<forall>r \<in> set rs. planned_row s r"
    and "distinct (map rc_payout rs)"
  shows "engine_inv (snd (broadcast_loop mode stats rs s))"
  using assms
proof (induction rs arbitrary: s stats)
  case Nil
  then show ?case by (simp add: pay_inv_engine_inv)
next
  case (Cons r rs)
  obtain x t where run: "send_one stats r s = (x, t)" by fastforce
  have after: "after_send s r (x, t)" using after_send_one[of s r stats] Cons.prems run by simp
  show ?case
  proof (cases "mode = DryRun \<or> (\<exists>e. x = Inl e)")
    case True
    with Cons after run show ?thesis by (auto simp: bindE_def after_send_def)
  next
    case False
    then obtain st go_on where x: "x = Inr (st, go_on)" by (cases x) auto
    have "engine_inv (snd (broadcast_loop mode st rs t))" if go_on
    proof (rule Cons.IH)
      show "\<forall>y \<in> set rs. planned_row t y"
      proof
        fix y assume y: "y \<in> set rs"
        then have "rc_payout y \<noteq> rc_payout r"
          using Cons.prems(4) by (metis distinct.simps(2) image_eqI list.set_map list.simps(9))
        moreover have "planned_row s y" using y Cons.prems(3) by simp
        ultimately show "planned_row t y" using after x that by (simp add: after_send_def)
      qed
    qed (use after x that Cons.prems(4) in \<open>auto simp: after_send_def\<close>)
    with False after run x show ?thesis by (simp add: bindE_def after_send_def)
  qed
qed

lemma recipient_of_view: "map rc_payout (recipient_of s p) = [] \<or> map rc_payout (recipient_of s p) = [po_id p]"
  by (simp add: recipient_of_def split: option.split)

lemma distinct_recipients:
  "distinct (map po_id ps) \<Longrightarrow> distinct (map rc_payout (concat (map (recipient_of s) ps))) \<and>
     set (map rc_payout (concat (map (recipient_of s) ps))) \<subseteq> set (map po_id ps)"
proof (induction ps)
  case (Cons p ps)
  let ?tl = "map rc_payout (concat (map (recipient_of s) ps))"
  have tl: "distinct ?tl" "set ?tl \<subseteq> set (map po_id ps)" using Cons by simp_all
  with Cons.prems have "po_id p \<notin> set ?tl" by auto
  moreover have "map rc_payout (concat (map (recipient_of s) (p # ps))) = map rc_payout (recipient_of s p) @ ?tl" by simp
  ultimately show ?case using recipient_of_view[of s p] tl by auto
qed simp

lemma list_cycle_recipients_rows:
  assumes "list_cycle_recipients cid s = (Inr rs, t)" and "payout_db_ok s"
  shows "distinct (map rc_payout (take n (planned_recipients rs)))"
    and "\<forall>r \<in> set (take n (planned_recipients rs)). planned_row s r"
proof -
  let ?ps = "order_desc po_amount po_id (filter (\<lambda>p. po_cycle p = cid) (payouts s))"
  have "recipient_of (s\<lparr>calls := n\<rparr>) = recipient_of s" for n by (simp add: fun_eq_iff recipient_of_def split: option.split)
  with assms(1) have rs: "rs = concat (map (recipient_of s) ?ps)"
    by (auto simp: list_cycle_recipients_def dest!: sql_Inr)
  have "distinct (map po_id ?ps)" using assms(2) by (simp add: payout_db_ok_def distinct_map_filter)
  from distinct_recipients[OF this, of s] have "distinct (map rc_payout rs)" unfolding rs by (rule conjunct1)
  then have "distinct (map rc_payout (planned_recipients rs))"
    unfolding planned_recipients_def by (rule distinct_map_filter)
  then show "distinct (map rc_payout (take n (planned_recipients rs)))" by (simp flip: take_map)
  have "planned_row s r" if "r \<in> set rs" "rc_status r = Planned" for r
    using that unfolding rs
    by (auto simp: recipient_of_def planned_row_def split: option.splits)
      (metis (mono_tags, lifting) find_Some_iff_in)
  then show "\<forall>r \<in> set (take n (planned_recipients rs)). planned_row s r"
    by (auto simp: planned_recipients_def dest!: in_set_takeD)
qed

lemma preserves_broadcast_pass: "preserves engine_inv (broadcast_pass cfg cycle st)"
proof (rule preservesI)
  fix s assume inv: "engine_inv s"
  show "engine_inv (snd (broadcast_pass cfg cycle st s))"
    unfolding broadcast_pass_def
  proof (rule bindE_post)
    fix e t assume "inflight_latch s = (Inl e, t)"
    then show "engine_inv t" using preservesD[OF calm_engine_inv[OF calm_latch] inv] by simp
  next
    fix l t assume l: "inflight_latch s = (Inr l, t)"
    then have t: "engine_inv t" using preservesD[OF calm_engine_inv[OF calm_latch] inv] by simp
    have lt: "l = None \<longleftrightarrow> \<not> latched t"
      using l by (auto simp: inflight_latch_def meta_get_def latched_def elim!: bindE_InrE dest!: sql_Inr)
    have "engine_inv (snd (bindE (db (list_cycle_recipients (pc_id cycle))) (broadcast_planned cfg st) t))" if "\<not> latched t"
    proof (rule bindE_post)
      have calm: "calm (list_cycle_recipients (pc_id cycle))" by (rule zkas_view.calm_reads)
      note keep = preservesD[OF calm_engine_inv[OF calm] t] calm_quiet[OF calm, of t]
      fix e u assume "db (list_cycle_recipients (pc_id cycle)) t = (Inl e, u)"
      then show "engine_inv u" using keep(1) by (metis snd_conv snd_map_err)
    next
      have calm: "calm (list_cycle_recipients (pc_id cycle))" by (rule zkas_view.calm_reads)
      note keep = preservesD[OF calm_engine_inv[OF calm] t] calm_quiet[OF calm, of t]
      fix rs u assume "db (list_cycle_recipients (pc_id cycle)) t = (Inr rs, u)"
      then have r: "list_cycle_recipients (pc_id cycle) t = (Inr rs, u)" by simp
      have u: "engine_inv u" "\<not> latched u" using keep r that by simp_all
      have "payouts u = payouts t" "wallets u = wallets t"
        using r by (auto simp: list_cycle_recipients_def dest!: sql_Inr)
      then have "planned_row u = planned_row t" by (auto simp: planned_row_frame[of u t])
      moreover have "payout_db_ok t" using t by (simp add: engine_inv_def pay_inv_def)
      ultimately have "engine_inv (snd (broadcast_loop (ec_mode cfg) st (take (ec_max_sends cfg) (planned_recipients rs)) u))"
        using u list_cycle_recipients_rows[OF r] by (intro broadcast_loop_inv) (simp_all add: engine_inv_def)
      with u show "engine_inv (snd (broadcast_planned cfg st rs u))"
        by (simp add: broadcast_planned_def Let_def)
    qed
    with t lt show "engine_inv (snd ((if l \<noteq> None then ret (st\<lparr>ts_inflight_latched := True\<rparr>)
     else bindE (db (list_cycle_recipients (pc_id cycle))) (broadcast_planned cfg st)) t))"
      by simp
  qed
qed

lemma preserves_tick: "preserves engine_inv (tick_once cfg hc leader ch)"
proof -
  have "calm (sql (ret leader))"
    by (rule zkas_view.calm_read) simp
  then have "preserves engine_inv (sql (ret leader))" by (rule calm_engine_inv)
  moreover have "preserves engine_inv (resume_or_plan_zkas cfg v st)" "preserves engine_inv (confirm_pass hc ch v st)"
    "preserves engine_inv (reconcile_cycle cid)" for v st cid
    by (intro calm_engine_inv calm_rules)+
  ultimately show ?thesis unfolding tick_once_def
    by (intro preserves_bindE preserves_if preserves_ret preserves_map_err preserves_lift_sum
        preserves_case_prod preserves_broadcast_pass)
qed

section \<open>Running the engine\<close>

text \<open>
  What the rest of the system may do between two ticks, and what a restart does: the clock,
  the connection and the sender go on, wallets and allocations are added, other engines
  advance their payouts.  Only the engine and the operator touch the latch, and the
  operator's reconciliation is not part of a run.
\<close>

definition world_moves :: "engine_world \<Rightarrow> engine_world \<Rightarrow> bool" where
  "world_moves s t \<longleftrightarrow> payout_db_ok t \<and> sends t = sends s \<and>
     meta t INFLIGHT_KEY = meta s INFLIGHT_KEY \<and> set (wallets s) \<subseteq> set (wallets t) \<and>
     payout_table.extends (payouts s) (payouts t)"

inductive engine_run :: "engine_world \<Rightarrow> engine_world \<Rightarrow> bool" where
  run_refl: "engine_run s s"
| run_tick: "engine_run s t \<Longrightarrow> engine_run s (snd (tick_once cfg hc leader ch t))"
| run_world: "engine_run s t \<Longrightarrow> world_moves t u \<Longrightarrow> engine_run s u"

lemma engine_run_inv: "engine_run s t \<Longrightarrow> engine_inv s \<Longrightarrow> engine_inv t"
proof (induction rule: engine_run.induct)
  case (run_world s t u)
  then show ?case
    by (auto simp: world_moves_def engine_inv_def latched_def intro!: pay_inv_frame[of _ t u])
qed (simp_all add: preservesD[OF preserves_tick])


section \<open>The latch halts broadcasting\<close>

lemma calm_latched:
  assumes "calm m"
  shows "preserves (\<lambda>s. sends s = l \<and> meta s INFLIGHT_KEY = Some v) m"
  using calm_quiet[OF assms] by (auto intro: preservesI)

lemma calm_leader [calm_rules]: "calm (sql (ret leader))"
  by (rule zkas_view.calm_read) simp

lemma preserves_latched:
  "preserves (\<lambda>s. sends s = l \<and> meta s INFLIGHT_KEY = Some v) (tick_once cfg hc leader ch)"
proof -
  let ?I = "\<lambda>s :: engine_world. sends s = l \<and> meta s INFLIGHT_KEY = Some v"
  have "preserves ?I (broadcast_pass cfg c st)" for c st
  proof (rule preservesI)
    fix s :: engine_world assume s: "?I s"
    show "?I (snd (broadcast_pass cfg c st s))" unfolding broadcast_pass_def
    proof (rule bindE_post)
      show "?I t" if "inflight_latch s = (Inl e, t)" for e t
        using preservesD[OF calm_latched[OF calm_latch] s] that by simp
    next
      fix x t assume x: "inflight_latch s = (Inr x, t)"
      then have "x = map_option pm_value (meta s INFLIGHT_KEY)"
        by (auto simp: inflight_latch_def meta_get_def elim!: bindE_InrE dest!: sql_Inr)
      then have "x = Some (pm_value v)" using s by simp
      then show "?I (snd ((if x \<noteq> None then ret (st\<lparr>ts_inflight_latched := True\<rparr>)
        else bindE (db (list_cycle_recipients (pc_id c))) (broadcast_planned cfg st)) t))"
        using preservesD[OF calm_latched[OF calm_latch] s] x by simp
    qed
  qed
  moreover have "preserves ?I (sql (ret leader))" "preserves ?I (resume_or_plan_zkas cfg d st)"
    "preserves ?I (confirm_pass hc ch d st)" "preserves ?I (reconcile_cycle cid)" for d st cid
    by (intro calm_latched calm_rules)+
  ultimately show ?thesis unfolding tick_once_def
    by (intro preserves_bindE preserves_if preserves_ret preserves_map_err preserves_lift_sum preserves_case_prod)
qed

text \<open>
  C5. Once the in-flight latch is set, no run of the engine sends anything or clears the
  latch, however many ticks, restarts and outages follow; only the operator can.
\<close>

theorem latch_halts_broadcasting:
  assumes "engine_run s t" and "meta s INFLIGHT_KEY = Some v"
  shows "sends t = sends s \<and> meta t INFLIGHT_KEY = Some v"
  using assms
proof (induction rule: engine_run.induct)
  case (run_tick s t cfg hc leader ch)
  then show ?case
    using preservesD[OF preserves_latched[of "sends s" v cfg hc leader ch], of t] by simp
qed (auto simp: world_moves_def)

section \<open>What one tick sends\<close>

abbreviation send_view :: "send_entry \<Rightarrow> int \<times> string \<times> int" where
  "send_view e \<equiv> (se_payout e, se_to e, int (se_amount e))"

abbreviation recipient_view :: "cycle_recipient \<Rightarrow> int \<times> string \<times> int" where
  "recipient_view r \<equiv> (rc_payout r, rc_address r, rc_amount r)"

lemma settle_send_log: "sends (snd (settle_send pid st res u)) = sends u"
proof -
  have "sends (snd (meta_delete k s)) = sends s" for k and s :: engine_world
    by (simp add: meta_delete_def sql_def Let_def)
  moreover have "sends (snd (mark_payout_submitted pid h s)) = sends s" for h and s :: engine_world
    by (rule calm_quiet, rule calm_mark_payout)
  ultimately show ?thesis unfolding settle_send_def
    by (auto simp: bindE_def map_err_def split: sum.split prod.splits) (metis snd_conv)+
qed

lemma settle_send_go: "fst (settle_send pid st res u) = Inr (st', True) \<Longrightarrow> \<exists>txid. res = Inr txid"
  unfolding settle_send_def by (auto simp: bindE_def split: sum.splits prod.splits if_splits)

lemma send_one_log:
  assumes "0 \<le> rc_amount r"
  shows "\<exists>es. sends (snd (send_one st r s)) = sends s @ es \<and>
    (es = [] \<and> (\<exists>e. fst (send_one st r s) = Inl e) \<or>
     (\<exists>e. es = [e] \<and> send_view e = recipient_view r \<and>
        (\<forall>st'. fst (send_one st r s) = Inr (st', True) \<longrightarrow> (\<exists>txid. se_result e = Inr txid))))"
proof -
  obtain x u where m: "meta_set INFLIGHT_KEY (show_int (rc_payout r)) s = (x, u)" by fastforce
  show ?thesis
  proof (cases x)
    case (Inl e)
    with m have "meta_set INFLIGHT_KEY (show_int (rc_payout r)) s = (Inl e, u)" by simp
    from meta_set_Inl[OF this] show ?thesis using m Inl
      by (auto simp: send_one_def Let_def bindE_def map_err_def)
  next
    case (Inr a)
    with m have mi: "meta_set INFLIGHT_KEY (show_int (rc_payout r)) s = (Inr a, u)" by simp
    let ?st = "st\<lparr>ts_sends_attempted := ts_sends_attempted st + 1\<rparr>"
    let ?e = "\<lparr>se_payout = rc_payout r, se_to = rc_address r, se_amount = nat (rc_amount r),
      se_result = outcomes u (length (sends u))\<rparr>"
    have run: "send_one st r s = settle_send (rc_payout r) ?st (se_result ?e) (u\<lparr>sends := sends u @ [?e]\<rparr>)"
      using mi assms
      by (simp add: send_one_def Let_def bindE_def map_err_def u64_try_from_i64_def sender_send_def)
    show ?thesis unfolding run settle_send_log
      using meta_set_Inr[OF mi] assms
      by (intro exI[of _ "[?e]"]) (auto dest!: settle_send_go intro: prod_eqI)
  qed
qed

lemma broadcast_loop_log:
  assumes "\<forall>r \<in> set rs. 0 \<le> rc_amount r"
  shows "\<exists>es. sends (snd (broadcast_loop mode st rs s)) = sends s @ es \<and>
    map send_view es = map recipient_view (take (length es) rs) \<and> length es \<le> length rs \<and>
    list_all (\<lambda>e. \<exists>txid. se_result e = Inr txid) (butlast es) \<and> (mode = DryRun \<longrightarrow> es = [])"
  using assms
proof (induction rs arbitrary: s st)
  case (Cons r rs)
  show ?case
  proof (cases "mode = DryRun")
    case True
    with Cons.IH[of st s] Cons.prems show ?thesis by auto
  next
    case False
    obtain x t where run: "send_one st r s = (x, t)" by fastforce
    from send_one_log[of r st s] Cons.prems run obtain es where es: "sends t = sends s @ es"
      "es = [] \<and> (\<exists>e. x = Inl e) \<or> (\<exists>e. es = [e] \<and> send_view e = recipient_view r \<and>
        (\<forall>st'. x = Inr (st', True) \<longrightarrow> (\<exists>txid. se_result e = Inr txid)))" by auto
    show ?thesis
    proof (cases "\<exists>st'. x = Inr (st', True)")
      case True
      then obtain st' where x: "x = Inr (st', True)" by blast
      with es obtain e where e: "es = [e]" "send_view e = recipient_view r" "\<exists>txid. se_result e = Inr txid" by auto
      from Cons.IH[of st' t] Cons.prems obtain ts where ts:
        "sends (snd (broadcast_loop mode st' rs t)) = sends t @ ts"
        "map send_view ts = map recipient_view (take (length ts) rs)" "length ts \<le> length rs"
        "list_all (\<lambda>e. \<exists>txid. se_result e = Inr txid) (butlast ts)" by auto
      have "sends (snd (broadcast_loop mode st (r # rs) s)) = sends s @ e # ts"
        using False run x ts(1) es(1) e(1) by (simp add: bindE_def)
      with e ts False show ?thesis by (intro exI[of _ "e # ts"]) auto
    next
      case noGo: False
      have "snd (broadcast_loop mode st (r # rs) s) = t"
        using False run noGo by (cases x) (auto simp: bindE_def)
      with es False show ?thesis by (intro exI[of _ es]) auto
    qed
  qed
qed simp

text \<open>The payments one tick may add to the log.\<close>

definition tick_sends_ok :: "engine_config \<Rightarrow> send_entry list \<Rightarrow> bool" where
  "tick_sends_ok cfg es \<longleftrightarrow> length es \<le> ec_max_sends cfg \<and>
     (ec_mode cfg = DryRun \<longrightarrow> es = []) \<and>
     list_all (\<lambda>e. \<exists>txid. se_result e = Inr txid) (butlast es) \<and>
     (case ec_spend_cap cfg of None \<Rightarrow> True
      | Some cap \<Rightarrow> es = [] \<or> sum_list (map (\<lambda>e. int (se_amount e)) es) \<le> cap)"

lemma tick_sends_ok_Nil [simp]: "tick_sends_ok cfg []"
  by (simp add: tick_sends_ok_def split: option.split)

lemma sum_take_le:
  assumes "\<forall>r \<in> set rs. 0 \<le> (f r :: int)"
  shows "sum_list (map f (take n rs)) \<le> sum_list (map f rs)"
proof -
  have "sum_list (map f rs) = sum_list (map f (take n rs)) + sum_list (map f (drop n rs))"
    by (metis append_take_drop_id map_append sum_list_append)
  moreover have "0 \<le> sum_list (map f (drop n rs))"
    by (rule sum_list_nonneg) (use assms in \<open>auto dest: in_set_dropD\<close>)
  ultimately show ?thesis by simp
qed

lemma loop_sends_ok:
  assumes "\<forall>r \<in> set planned. 0 \<le> rc_amount r"
    and cap: "\<not> over_spend_cap (sum_list (map rc_amount planned)) (ec_spend_cap cfg)"
  shows "\<exists>es. sends (snd (broadcast_loop (ec_mode cfg) st (take (ec_max_sends cfg) planned) s)) = sends s @ es \<and>
    tick_sends_ok cfg es"
proof -
  let ?rs = "take (ec_max_sends cfg) planned"
  have nn: "\<forall>r \<in> set ?rs. 0 \<le> rc_amount r" using assms(1) by (auto dest: in_set_takeD)
  from broadcast_loop_log[OF nn, of "ec_mode cfg" st s] obtain es where
    es: "sends (snd (broadcast_loop (ec_mode cfg) st ?rs s)) = sends s @ es"
      "map send_view es = map recipient_view (take (length es) ?rs)" "length es \<le> length ?rs"
      "list_all (\<lambda>e. \<exists>txid. se_result e = Inr txid) (butlast es)" "ec_mode cfg = DryRun \<longrightarrow> es = []" by auto
  have "map (\<lambda>(_, _, a). a) (map send_view es) = map (\<lambda>(_, _, a). a) (map recipient_view (take (length es) ?rs))"
    by (simp only: es(2))
  then have "map (\<lambda>e. int (se_amount e)) es = map rc_amount (take (length es) ?rs)" by (simp add: comp_def)
  moreover have "sum_list (map rc_amount (take (length es) ?rs)) \<le> sum_list (map rc_amount planned)"
    by (rule order_trans[OF sum_take_le[OF nn] sum_take_le[OF assms(1)]])
  ultimately have "sum_list (map (\<lambda>e. int (se_amount e)) es) \<le> sum_list (map rc_amount planned)" by simp
  with es cap show ?thesis
    by (intro exI[of _ es]) (auto simp: tick_sends_ok_def over_spend_cap_def split: option.splits)
qed

definition sent_since :: "engine_world \<Rightarrow> engine_config \<Rightarrow> engine_world \<Rightarrow> bool" where
  "sent_since s cfg t \<longleftrightarrow> (\<exists>es. sends t = sends s @ es \<and> tick_sends_ok cfg es)"

lemma sent_since_same: "sends t = sends s \<Longrightarrow> sent_since s cfg t"
  by (simp add: sent_since_def)

lemma recipients_nonneg:
  fixes s :: engine_world
  assumes "list_cycle_recipients cid s = (Inr rs, t)" and "payout_db_ok s"
  shows "\<forall>r \<in> set (planned_recipients rs). 0 \<le> rc_amount r"
proof
  fix r assume "r \<in> set (planned_recipients rs)"
  with list_cycle_recipients_rows(2)[OF assms, of "length (planned_recipients rs)"] have "planned_row s r" by simp
  with assms(2) show "0 \<le> rc_amount r"
    unfolding planned_row_def payout_db_ok_def payout_checks_def by fastforce
qed

lemma broadcast_pass_sent:
  assumes ok: "payout_db_ok s"
  shows "sent_since s cfg (snd (broadcast_pass cfg c st s))"
  unfolding broadcast_pass_def
proof (rule bindE_post)
  show "sent_since s cfg t" if "inflight_latch s = (Inl e, t)" for e t
    using calm_quiet(1)[OF calm_latch, of s] that by (simp add: sent_since_same)
next
  fix l t assume "inflight_latch s = (Inr l, t)"
  then have t: "sends t = sends s" "payout_db_ok t"
    using calm_quiet(1)[OF calm_latch, of s] preservesD[of payout_db_ok inflight_latch s] calm_latch ok
    by (auto dest: zkas_view.calm_keeps(1))
  have "sent_since s cfg (snd (bindE (db (list_cycle_recipients (pc_id c))) (broadcast_planned cfg st) t))"
  proof (rule bindE_post)
    have q: "sends (snd (list_cycle_recipients (pc_id c) t)) = sends t" by (rule calm_quiet, rule zkas_view.calm_reads)
    show "sent_since s cfg u" if "db (list_cycle_recipients (pc_id c)) t = (Inl e, u)" for e u
      using q t that by (metis sent_since_same snd_conv snd_map_err)
    fix rs u assume "db (list_cycle_recipients (pc_id c)) t = (Inr rs, u)"
    then have r: "list_cycle_recipients (pc_id c) t = (Inr rs, u)" by simp
    then have u: "sends u = sends s" using q t by simp
    show "sent_since s cfg (snd (broadcast_planned cfg st rs u))"
      using loop_sends_ok[OF recipients_nonneg[OF r t(2)], of cfg st u] u
      by (auto simp: broadcast_planned_def Let_def sent_since_def)
  qed
  with t show "sent_since s cfg (snd ((if l \<noteq> None then ret (st\<lparr>ts_inflight_latched := True\<rparr>)
     else bindE (db (list_cycle_recipients (pc_id c))) (broadcast_planned cfg st)) t))"
    by (simp add: sent_since_same)
qed

lemma sent_since_calm: "sent_since s cfg t \<Longrightarrow> calm m \<Longrightarrow> sent_since s cfg (snd (m t))"
  by (simp add: sent_since_def calm_quiet)

lemma sent_since_bind:
  assumes "calm m" and "payout_db_ok s"
    and "\<And>a t. payout_db_ok t \<Longrightarrow> sends t = sends s \<Longrightarrow> sent_since t cfg (snd (f a t))"
  shows "sent_since s cfg (snd (bindE m f s))"
proof (rule bindE_post)
  have q: "sends (snd (m s)) = sends s" "payout_db_ok (snd (m s))"
    using assms(1,2) calm_quiet(1)[OF assms(1)] by (auto dest: preservesD zkas_view.calm_keeps(1))
  show "sent_since s cfg t" if "m s = (Inl e, t)" for e t using q that by (simp add: sent_since_same)
  show "sent_since s cfg (snd (f a t))" if "m s = (Inr a, t)" for a t
    using assms(3)[of t a] q that by (simp add: sent_since_def)
qed

text \<open>
  C6. What a single tick sends, whatever it resumes or plans and wherever it fails: at most
  \<open>max_sends_per_tick\<close> payments, none in dry-run mode, never more in total than the spend cap,
  and it stops at the first payment that was not accepted.
\<close>

theorem tick_sends_bounded:
  assumes "payout_db_ok s"
  shows "\<exists>es. sends (snd (tick_once cfg hc leader ch s)) = sends s @ es \<and>
    length es \<le> ec_max_sends cfg \<and> (ec_mode cfg = DryRun \<longrightarrow> es = []) \<and>
    list_all (\<lambda>e. \<exists>txid. se_result e = Inr txid) (butlast es) \<and>
    (\<forall>cap. ec_spend_cap cfg = Some cap \<longrightarrow> es = [] \<or> sum_list (map (\<lambda>e. int (se_amount e)) es) \<le> cap)"
proof -
  have tail: "sent_since t cfg (snd (bindE (broadcast_pass cfg cyc st) (\<lambda>st.
      bindE (confirm_pass hc ch v st) (\<lambda>st. bindE (reconcile_cycle (pc_id cyc)) (\<lambda>_. ret st))) t))"
    if "payout_db_ok t" for t cyc st v
  proof (rule bindE_post)
    note sent = broadcast_pass_sent[OF that, of cfg cyc st]
    show "sent_since t cfg u" if "broadcast_pass cfg cyc st t = (Inl e, u)" for e u
      using sent that by simp
    show "sent_since t cfg (snd (bindE (confirm_pass hc ch v a) (\<lambda>st. bindE (reconcile_cycle (pc_id cyc)) (\<lambda>_. ret st)) u))"
      if "broadcast_pass cfg cyc st t = (Inr a, u)" for a u
      by (rule sent_since_calm) (use sent that in \<open>simp, intro calm_rules\<close>)
  qed
  have "sent_since s cfg (snd (tick_once cfg hc leader ch s))"
    unfolding tick_once_def
  proof (rule sent_since_bind[OF _ assms])
    show "calm (db (sql (ret leader)))" by (intro calm_rules)
    fix acquired and t :: engine_world assume t: "payout_db_ok t"
    have "sent_since t cfg (snd (bindE (chain (ch_virtual_daa_score ch)) (\<lambda>v.
       bindE (resume_or_plan_zkas cfg v default_stats) (\<lambda>(cycle, stats).
       bindE (broadcast_pass cfg cycle stats) (\<lambda>stats. bindE (confirm_pass hc ch v stats) (\<lambda>stats.
       bindE (reconcile_cycle (pc_id cycle)) (\<lambda>_. ret stats))))) t))"
      by (rule sent_since_bind[OF _ t], intro calm_rules, rule sent_since_bind, rule calm_resume)
        (auto split: prod.split intro: tail)
    then show "sent_since t cfg (snd ((if \<not> acquired then ret default_stats
       else bindE (chain (ch_virtual_daa_score ch)) (\<lambda>v.
       bindE (resume_or_plan_zkas cfg v default_stats) (\<lambda>(cycle, stats).
       bindE (broadcast_pass cfg cycle stats) (\<lambda>stats. bindE (confirm_pass hc ch v stats) (\<lambda>stats.
       bindE (reconcile_cycle (pc_id cycle)) (\<lambda>_. ret stats)))))) t))"
      by (simp add: sent_since_same)
  qed
  then show ?thesis by (auto simp: sent_since_def tick_sends_ok_def split: option.splits)
qed

section \<open>Confirmation\<close>

text \<open>
  The ZKas verdict on a submitted payment: confirmed exactly when its accepting score is
  at least the confirmation depth below the virtual score, accepted when a score is known
  but not deep enough, and without any acceptance only pending or unknown, which change
  nothing.
\<close>

theorem classify_confirmation_correct:
  "(classify_confirmation i ZKAS_PAYOUT_CONFIRMATION_DAA = CsConfirmed \<longleftrightarrow>
      (\<exists>d. ci_accept_daa i = Some d \<and> d + 100 \<le> ci_virtual_daa_score i)) \<and>
   (classify_confirmation i ZKAS_PAYOUT_CONFIRMATION_DAA = CsAccepted \<longleftrightarrow>
      (\<exists>d. ci_accept_daa i = Some d \<and> ci_virtual_daa_score i < d + 100)) \<and>
   (ci_accept_daa i = None \<longleftrightarrow>
      classify_confirmation i ZKAS_PAYOUT_CONFIRMATION_DAA \<in> {CsPending, CsUnknown})"
  by (auto simp: classify_confirmation_def ZKAS_PAYOUT_CONFIRMATION_DAA_def split: option.splits)

lemma update_payout_Inl:
  "update_payout pid P f s = (Inl e, t) \<Longrightarrow> payouts t = payouts s"
  by (auto simp: update_payout_def sql_def Let_def split: if_splits)

text \<open>What the confirmation of one payout may do to a row.\<close>

definition deep :: "nat \<Rightarrow> payout \<Rightarrow> bool" where
  "deep v p \<longleftrightarrow> (\<exists>d. po_accepted_daa p = Some d \<and> 0 \<le> d \<and> nat d + ZKAS_PAYOUT_CONFIRMATION_DAA \<le> v)"

definition confirm_step :: "nat \<Rightarrow> payout \<Rightarrow> payout \<Rightarrow> bool" where
  "confirm_step v p q \<longleftrightarrow> po_id q = po_id p \<and>
     (q = p \<or> po_status p \<in> {Submitted, Accepted} \<and>
        (po_status q = Accepted \<or> po_status q = Confirmed \<and> deep v q))"

definition watches :: "zkas_in_flight \<Rightarrow> 'z pool_db_scheme \<Rightarrow> bool" where
  "watches f s \<longleftrightarrow> (\<forall>d. zf_accepted_daa f = Some d \<longrightarrow> 0 \<le> d) \<and>
     (\<forall>p \<in> set (payouts s). po_id p = zf_payout f \<longrightarrow>
        po_status p \<in> {Submitted, Accepted} \<and> po_accepted_daa p = zf_accepted_daa f)"

definition confirms :: "nat \<Rightarrow> int \<Rightarrow> payout list \<Rightarrow> payout list \<Rightarrow> bool" where
  "confirms v pid = list_all2 (\<lambda>p q. q = p \<or> po_id p = pid \<and> confirm_step v p q)"

lemma confirms_refl: "confirms v pid ps ps"
  by (simp add: confirms_def list_all2_refl)

lemma confirms_map:
  assumes "\<And>p. p \<in> set ps \<Longrightarrow> po_id p = pid \<Longrightarrow> confirm_step v p (f p)"
  shows "confirms v pid ps (map (\<lambda>p. if po_id p = pid then f p else p) ps)"
  using assms by (auto simp: confirms_def list_all2_map2 intro!: list_all2I dest: set_zip_leftD simp: set_zip)

lemma mark_accepted_rows:
  assumes "mark_payout_accepted (zf_payout f) d s = (x, t)" and "watches f s" and "zf_accepted_daa f = None"
  shows "payouts t = payouts s \<or> payouts t = map (\<lambda>p. if po_id p = zf_payout f
    then p\<lparr>po_status := Accepted, po_accepted_daa := Some d\<rparr> else p) (payouts s)"
  using assms unfolding mark_payout_accepted_def
  by (cases x) (auto simp: update_where_def watches_def dest!: update_payout_Inl update_payout_Inr(1))

lemma mark_confirmed_rows:
  assumes "mark_payout_confirmed pid s = (x, t)"
    and "\<forall>p \<in> set (payouts s). po_id p = pid \<longrightarrow> po_status p \<in> {Submitted, Accepted}"
  shows "payouts t = payouts s \<or> (\<exists>c. payouts t = map (\<lambda>p. if po_id p = pid
    then p\<lparr>po_status := Confirmed, po_confirmed_at := coalesce (po_confirmed_at p) (Some c)\<rparr> else p) (payouts s))"
proof (cases x)
  case (Inl e)
  with assms(1) show ?thesis unfolding mark_payout_confirmed_def by (auto dest!: update_payout_Inl)
next
  case (Inr n)
  with assms(1) have "update_payout pid (\<lambda>p. po_status p \<in> {Submitted, Accepted, Confirmed})
      (\<lambda>t p. p\<lparr>po_status := Confirmed, po_confirmed_at := coalesce (po_confirmed_at p) (Some t)\<rparr>) s = (Inr n, t)"
    unfolding mark_payout_confirmed_def by simp
  from update_payout_Inr(1)[OF this] assms(2)
  have "payouts t = map (\<lambda>p. if po_id p = pid then p\<lparr>po_status := Confirmed,
      po_confirmed_at := coalesce (po_confirmed_at p) (Some (now s))\<rparr> else p) (payouts s)"
    by (auto simp: update_where_def)
  then show ?thesis by blast
qed

text \<open>The two writing branches.\<close>

lemma confirms_accept:
  assumes "watches f s" and "zf_accepted_daa f = None"
  shows "confirms v (zf_payout f) (payouts s) (payouts (snd (mark_payout_accepted (zf_payout f) d s)))"
proof -
  obtain x t where m: "mark_payout_accepted (zf_payout f) d s = (x, t)" by fastforce
  from mark_accepted_rows[OF m assms] show ?thesis
    using assms(1) m by (auto simp: confirms_refl watches_def confirm_step_def intro!: confirms_map)
qed

lemma confirms_confirm:
  assumes "\<forall>p \<in> set (payouts s). po_id p = pid \<longrightarrow> po_status p \<in> {Submitted, Accepted} \<and> deep v p"
  shows "confirms v pid (payouts s) (payouts (snd (mark_payout_confirmed pid s)))"
proof -
  obtain x t where m: "mark_payout_confirmed pid s = (x, t)" by fastforce
  from mark_confirmed_rows[OF m] assms show ?thesis
    using m by (auto simp: confirms_refl confirm_step_def deep_def intro!: confirms_map)
qed

lemma confirms_accept_confirm:
  assumes w: "watches f s" and none: "zf_accepted_daa f = None" and d: "0 \<le> d" "nat d + ZKAS_PAYOUT_CONFIRMATION_DAA \<le> v"
    and m: "mark_payout_accepted (zf_payout f) d s = (Inr n, u)"
  shows "confirms v (zf_payout f) (payouts s) (payouts (snd (mark_payout_confirmed (zf_payout f) u)))"
proof -
  have u: "payouts u = map (\<lambda>p. if po_id p = zf_payout f
      then p\<lparr>po_status := Accepted, po_accepted_daa := Some d\<rparr> else p) (payouts s)"
    using update_payout_Inr(1)[OF m[unfolded mark_payout_accepted_def]] w none
    by (auto simp: update_where_def watches_def)
  obtain x t where c: "mark_payout_confirmed (zf_payout f) u = (x, t)" by fastforce
  have "\<forall>p \<in> set (payouts u). po_id p = zf_payout f \<longrightarrow> po_status p \<in> {Submitted, Accepted}"
    unfolding u by auto
  from mark_confirmed_rows[OF c this] show ?thesis
  proof
    assume "payouts t = payouts u"
    then show ?thesis using w c unfolding u
      by (auto simp: watches_def confirm_step_def intro!: confirms_map)
  next
    assume "\<exists>k. payouts t = map (\<lambda>p. if po_id p = zf_payout f
      then p\<lparr>po_status := Confirmed, po_confirmed_at := coalesce (po_confirmed_at p) (Some k)\<rparr> else p) (payouts u)"
    then obtain k where k: "payouts t = map (\<lambda>p. if po_id p = zf_payout f
      then p\<lparr>po_status := Confirmed, po_confirmed_at := coalesce (po_confirmed_at p) (Some k)\<rparr> else p) (payouts u)"
      by blast
    have "payouts t = map (\<lambda>p. if po_id p = zf_payout f then p\<lparr>po_status := Confirmed,
        po_accepted_daa := Some d, po_confirmed_at := coalesce (po_confirmed_at p) (Some k)\<rparr> else p) (payouts s)"
      unfolding k u by auto
    then show ?thesis using w c d
      by (auto simp: watches_def confirm_step_def deep_def intro!: confirms_map)
  qed
qed

lemma confirm_one_rows:
  assumes w: "watches f s"
  shows "confirms v (zf_payout f) (payouts s) (payouts (snd (confirm_one ch v acc st f s)))"
proof (cases "length (zf_tx_hash f) = 32")
  case True
  let ?C = "\<lambda>t. confirms v (zf_payout f) (payouts s) (payouts t)"
  have same: "?C s" by (rule confirms_refl)
  show ?thesis
  proof (cases "zf_accepted_daa f")
    case (Some d)
    have d: "0 \<le> d" using w Some by (simp add: watches_def)
    have "?C (snd (mark_payout_confirmed (zf_payout f) s))" if "ZKAS_PAYOUT_CONFIRMATION_DAA \<le> v - nat d"
      using w Some d that
      by (intro confirms_confirm) (auto simp: watches_def deep_def ZKAS_PAYOUT_CONFIRMATION_DAA_def)
    then show ?thesis using True Some d same
      by (auto simp: confirm_one_def Let_def u64_try_from_i64_def classify_confirmation_def bindE_def
          map_err_def split: prod.split sum.split option.split)
  next
    case None
    note plain = True None
    show ?thesis
    proof (cases "acc (zf_tx_hash f)")
      case None
      with plain same show ?thesis
        by (auto simp: confirm_one_def Let_def classify_confirmation_def bindE_def map_err_def
            split: sum.split)
    next
      case (Some daa)
      obtain x u where m: "mark_payout_accepted (zf_payout f) (int daa) s = (x, u)" by fastforce
      have u: "?C u" using confirms_accept[OF w plain(2), of v "int daa"] m by simp
      have "?C (snd (mark_payout_confirmed (zf_payout f) u))"
        if "x = Inr n" "ZKAS_PAYOUT_CONFIRMATION_DAA \<le> v - daa" for n
        using that m
        by (intro confirms_accept_confirm[OF w plain(2), of "int daa" v n u])
          (auto simp: ZKAS_PAYOUT_CONFIRMATION_DAA_def)
      then have c: "?C t" if "mark_payout_confirmed (zf_payout f) u = (y, t)" "x = Inr n"
          "ZKAS_PAYOUT_CONFIRMATION_DAA \<le> v - daa" for y t n using that by (metis snd_conv)
      show ?thesis using plain Some same u c m
        by (cases x; cases "mark_payout_confirmed (zf_payout f) u")
          (auto simp: confirm_one_def Let_def classify_confirmation_def bindE_def map_err_def daa_to_i64_def
            i64_try_from_u64_def split: sum.splits prod.splits)
    qed
  qed
qed (simp add: confirm_one_def confirms_refl)

lemma watches_other:
  assumes "confirms v pid (payouts s) (payouts t)" and "watches f s" and "zf_payout f \<noteq> pid"
  shows "watches f t"
proof -
  have "p \<in> set (payouts s)" if "p \<in> set (payouts t)" "po_id p = zf_payout f" for p
  proof -
    from that(1) obtain i where i: "i < length (payouts t)" "p = payouts t ! i" by (auto simp: in_set_conv_nth)
    with assms(1) have "payouts t ! i = payouts s ! i \<or> po_id (payouts s ! i) = pid \<and>
        confirm_step v (payouts s ! i) (payouts t ! i)" "i < length (payouts s)"
      by (auto simp: confirms_def list_all2_conv_all_nth)
    with i that(2) assms(3) show ?thesis by (auto simp: confirm_step_def)
  qed
  with assms(2) show ?thesis unfolding watches_def by blast
qed

lemma confirm_step_trans: "confirm_step v p q \<Longrightarrow> confirm_step v q r \<Longrightarrow> confirm_step v p r"
  by (auto simp: confirm_step_def)

lemma confirms_steps: "confirms v pid ps qs \<Longrightarrow> list_all2 (confirm_step v) ps qs"
  unfolding confirms_def by (erule list_all2_mono) (auto simp: confirm_step_def)

lemma confirm_loop_rows:
  assumes "distinct (map zf_payout fs)" and "\<forall>f \<in> set fs. watches f s"
  shows "list_all2 (confirm_step v) (payouts s) (payouts (snd (foldE (confirm_one ch v acc) st fs s)))"
  using assms
proof (induction fs arbitrary: s st)
  case Nil
  then show ?case by (simp add: list_all2_refl confirm_step_def)
next
  case (Cons f fs)
  obtain x t where run: "confirm_one ch v acc st f s = (x, t)" by fastforce
  have step: "confirms v (zf_payout f) (payouts s) (payouts t)"
    using confirm_one_rows[of f s v ch acc st] Cons.prems run by simp
  have "watches g t" if "g \<in> set fs" for g
  proof (rule watches_other[OF step])
    show "watches g s" using Cons.prems(2) that by simp
    have "zf_payout f \<notin> zf_payout ` set fs" using Cons.prems(1) by simp
    with that show "zf_payout g \<noteq> zf_payout f" by (metis imageI)
  qed
  then have rest: "list_all2 (confirm_step v) (payouts t) (payouts (snd (foldE (confirm_one ch v acc) st' fs t)))" for st'
    using Cons.prems(1) by (intro Cons.IH) simp_all
  have "list_all2 (confirm_step v) (payouts s) (payouts (snd (foldE (confirm_one ch v acc) st' fs t)))" for st'
    by (rule list_all2_trans[OF confirm_step_trans confirms_steps[OF step] rest])
  with confirms_steps[OF step] run show ?case by (auto split: sum.split)
qed

lemma in_flight_watched:
  fixes s :: engine_world
  assumes "list_zkas_in_flight_payouts s = (Inr fs, t)" and ok: "payout_db_ok s"
  shows "distinct (map zf_payout fs)" and "\<forall>f \<in> set fs. watches f s" and "payouts t = payouts s"
proof -
  let ?rows = "sort_key po_id (filter (\<lambda>p. po_status p \<in> {Submitted, Accepted} \<and>
      kind_of (cycles s) p = Some Zkas) (payouts s))"
  let ?view = "\<lambda>p. case po_tx_hash p of None \<Rightarrow> [] | Some h \<Rightarrow> [\<lparr>zf_payout = po_id p, zf_cycle = po_cycle p,
      zf_tx_hash = h, zf_accepted_daa = po_accepted_daa p\<rparr>]"
  have fs: "fs = concat (map ?view ?rows)" and t: "payouts t = payouts s"
    using assms(1) by (auto simp: list_zkas_in_flight_payouts_def dest!: sql_Inr)
  show "payouts t = payouts s" by (rule t)
  have ids: "map zf_payout (concat (map ?view ps)) = map po_id (filter (\<lambda>p. po_tx_hash p \<noteq> None) ps)" for ps
    by (induction ps) (auto split: option.split)
  have "distinct (map po_id (payouts s))" using ok by (simp add: payout_db_ok_def)
  then have "distinct (map po_id ?rows)"
    by (metis (no_types, lifting) distinct_map_filter mset_map mset_sort mset_eq_imp_distinct_iff)
  then show "distinct (map zf_payout fs)" unfolding fs ids by (rule distinct_map_filter)
  show "\<forall>f \<in> set fs. watches f s"
  proof
    fix f assume "f \<in> set fs"
    then obtain p where p: "p \<in> set (payouts s)" "po_status p \<in> {Submitted, Accepted}"
      "zf_payout f = po_id p" "zf_accepted_daa f = po_accepted_daa p"
      unfolding fs by (auto split: option.splits)
    moreover have "q = p" if "q \<in> set (payouts s)" "po_id q = po_id p" for q
      using \<open>distinct (map po_id (payouts s))\<close> p(1) that by (metis distinct_map inj_onD)
    moreover have "0 \<le> d" if "po_accepted_daa p = Some d" for d
      using ok p(1) that by (auto simp: payout_db_ok_def payout_checks_def)
    ultimately show "watches f s" unfolding watches_def by auto
  qed
qed

lemma payouts_bindE_steady:
  "(\<And>a s. payouts (snd (f a s)) = payouts s) \<Longrightarrow> payouts (snd (bindE m f s)) = payouts (snd (m s))"
  by (auto simp: bindE_def split: prod.split sum.split)

lemma cursor_steady:
  "payouts (snd (meta_set k x t)) = payouts t"
  "payouts (snd (ensure_confirm_cursor hc ch t)) = payouts t"
  "payouts (snd (reanchor_cursor hc ch t)) = payouts t"
  by (auto simp: meta_get_def meta_set_def ensure_confirm_cursor_def reanchor_cursor_def sql_def Let_def
      bindE_def map_err_def split: sum.split)

text \<open>
  C11. The confirmation pass only ever moves submitted payouts forward: each row is unchanged,
  or was submitted or accepted and is now accepted, or is now confirmed with a recorded
  accepting score at least 100 below the virtual score.  Nothing is failed, returned to
  \<open>planned\<close> or confirmed on absence, whatever the node answers and wherever the pass stops.
\<close>

theorem confirm_pass_correct:
  assumes "payout_db_ok s"
  shows "list_all2 (\<lambda>p q. po_id q = po_id p \<and> (q = p \<or> po_status p \<in> {Submitted, Accepted} \<and>
      (po_status q = Accepted \<or> po_status q = Confirmed \<and>
         (\<exists>d. po_accepted_daa q = Some d \<and> 0 \<le> d \<and> d + 100 \<le> int v))))
    (payouts s) (payouts (snd (confirm_pass hc ch v st s)))"
proof -
  let ?R = "\<lambda>t. list_all2 (confirm_step v) (payouts s) (payouts t)"
  have same: "?R t" if "payouts t = payouts s" for t :: engine_world
    using that by (simp add: list_all2_refl confirm_step_def)
  obtain x t where l: "list_zkas_in_flight_payouts s = (x, t)" by fastforce
  then have t: "payouts t = payouts s"
    by (auto simp: list_zkas_in_flight_payouts_def sql_def Let_def split: if_splits)
  obtain y u where g: "meta_get CONFIRM_CURSOR_KEY t = (y, u)" by fastforce
  then have u: "payouts u = payouts s"
    using t by (auto simp: meta_get_def sql_def Let_def split: if_splits)
  have "?R (snd (confirm_pass hc ch v st s))"
  proof (cases "(\<exists>e. x = Inl e) \<or> (\<exists>e. y = Inl e)")
    case True
    with l g t u show ?thesis by (cases x) (auto simp: confirm_pass_def bindE_def map_err_def same)
  next
    case False
    then obtain fs c where xy: "x = Inr fs" "y = Inr c" by (metis obj_sumE)
    note F = in_flight_watched[OF l[unfolded xy(1)] assms]
    have "?R (snd (foldE (confirm_one ch v acc) st fs u))" for acc
      using confirm_loop_rows[OF F(1), of u v ch acc st] F(2) u by (simp add: watches_def)
    then have "?R (snd (scan_from hc ch v st fs c u))"
      using u by (auto simp: scan_from_def apply_scan_def payouts_bindE_steady cursor_steady same
          split: option.split sum.split chain_error.split)
    with l g xy show ?thesis by (simp add: confirm_pass_def bindE_def map_err_def)
  qed
  then show ?thesis
    by (rule list_all2_mono) (auto simp: confirm_step_def deep_def ZKAS_PAYOUT_CONFIRMATION_DAA_def)
qed

section \<open>Planning with the cap\<close>

interpretation zkas_planner: cycle_planner Zkas "capped_amount cap" for cap
  by unfold_locales (simp_all add: capped_amount_def)

text \<open>
  C34. Planning a ZKas cycle for a new window is all or nothing and pays every wallet at or
  above the threshold its payable balance, clamped to the per-wallet cap (at least one
  sompi), with totals over exactly those rows.
\<close>

theorem plan_zkas_cycle_atomic:
  assumes "payout_db_ok s" and "distinct (map w_id (wallets s))"
    and "\<forall>d \<in> set (cycles s). pc_key d \<noteq> idempotency_key Zkas (zp_daa_start p) (zp_daa_end p)"
    and "0 < zp_threshold p" and "plan_zkas_cycle p s = (res, t)"
  shows "(\<exists>e. res = Inl e) \<and> cycles t = cycles s \<and> payouts t = payouts s \<or>
    (\<exists>r c. res = Inr r \<and> pc_id (zr_cycle r) = pc_id c \<and>
       planned_cycle Zkas (capped_amount (zp_per_wallet_cap p)) (zp_threshold p)
         (zp_daa_start p) (zp_daa_end p) s t c \<and>
       zr_payouts_planned r = length (payable_wallets Zkas (zp_threshold p) s) \<and>
       zr_total_sompi r = pc_total_sompi c)"
proof -
  let ?amt = "capped_amount (zp_per_wallet_cap p)"
  let ?tx = "transaction (plan_body Zkas ?amt (zp_threshold p) (zp_daa_start p) (zp_daa_end p)) id"
  obtain r u where tx: "?tx s = (r, u)" by fastforce
  from zkas_planner.plan_transaction[OF assms(1-4) tx] show ?thesis
  proof (elim disjE exE conjE)
    fix e assume "r = Inl e" "cycles u = cycles s" "payouts u = payouts s"
    with assms(5) tx show ?thesis by (auto simp: plan_zkas_cycle_def bindE_def)
  next
    fix c ws c' assume a: "r = Inr (c, ws, pc_total_sompi c')"
      "planned_cycle Zkas ?amt (zp_threshold p) (zp_daa_start p) (zp_daa_end p) s u c'"
      "pc_id c = pc_id c'" "mset ws = mset (payable_wallets Zkas (zp_threshold p) s)"
    have "res = Inr \<lparr>zr_cycle = c, zr_payouts_planned = length ws, zr_total_sompi = pc_total_sompi c'\<rparr>" "u = t"
      using assms(5) tx a(1) by (simp_all add: plan_zkas_cycle_def bindE_def)
    with a mset_eq_length[OF a(4)] show ?thesis by (intro disjI2) auto
  qed
qed

section \<open>A concrete engine\<close>

text \<open>
  One wallet owed 20 coins, a sender that accepts everything, a node whose score is \<open>v\<close>, and
  the default configuration with hourly cycles.
\<close>

definition world0 :: engine_world where
  "world0 = \<lparr>now = 0, faults = (\<lambda>_. False), calls = 0,
     wallets = [\<lparr>w_id = 1, w_address = ''zkas:a'', w_network = ''mainnet''\<rparr>], shares = [], windows = [],
     next_window = 1, rewards = [], next_reward = 1,
     allocs = [\<lparr>sa_id = 1, sa_reward = 1, sa_wallet = 1, sa_weight = Fin 1, sa_window_total = Fin 1,
       sa_gross = 2000000000, sa_pool_fee = 0, sa_nacho = 0, sa_net = 2000000000, sa_computed_at = 0,
       sa_topline_bps = 0, sa_rebate_bps = 0, sa_tier = Standard\<rparr>],
     next_alloc = 2, rebates = [], blocks = [], cycles = [], next_cycle = 1, payouts = [], next_payout = 1,
     transfers = [], next_transfer = 1, meta = (\<lambda>_. None), audit = [],
     sends = [], outcomes = (\<lambda>n. Inr (replicate 32 n))\<rparr>"

definition config0 :: engine_config where
  "config0 = \<lparr>ec_cycle_span_daa = 3600, ec_threshold = 500000000, ec_per_wallet_cap = 30000000000,
     ec_spend_cap = Some 100000000000, ec_mode = Live, ec_max_sends = 5\<rparr>"

definition chain0 :: "nat \<Rightarrow> chain_reader" where
  "chain0 v = \<lparr>ch_virtual_daa_score = Inr v, ch_sink = Inr (replicate 32 7), ch_in_mempool = (\<lambda>_. Inr True),
     ch_accepted_since = (\<lambda>_ _. Inr \<lparr>as_accepted = (\<lambda>_. None), as_new_cursor = None\<rparr>)\<rparr>"

definition codec0 :: hash_codec where
  "codec0 = \<lparr>hc_show = (\<lambda>_. ''h''), hc_parse = (\<lambda>_. Some (replicate 32 7))\<rparr>"

abbreviation tick0 :: "nat \<Rightarrow> engine_world \<Rightarrow> engine_world" where
  "tick0 v s \<equiv> snd (tick_once config0 codec0 True (chain0 v) s)"

lemmas concrete = world0_def config0_def chain0_def codec0_def

lemmas evaluate =
  concrete tick_once_def bindE_def sql_def Let_def map_err_def transaction_def
  resume_or_plan_zkas_def cycle_window_def sat_mul_u64_def sat_add_u64_def
  find_cycle_by_idempotency_key_def plan_zkas_cycle_def plan_body_def create_cycle_def
  eligible_query_def eligible_rows_def eligible_row_def ensure_recipients_def ensure_payout_def
  set_cycle_totals_def update_cycle_def cycle_checks_def allocated_sompi_def confirmed_paid_sompi_def
  in_i64_def order_desc_def new_payout_def payout_checks_def payout_refs_def update_where_def
  sat_add_i64_def sat_add_i32_def clamp_i64_def list_for_cycle_def capped_amount_def
  broadcast_pass_def broadcast_planned_def inflight_latch_def meta_get_def list_cycle_recipients_def
  recipient_of_def planned_recipients_def over_spend_cap_def send_one_def settle_send_def sender_send_def
  u64_try_from_i64_def meta_set_def meta_delete_def mark_payout_submitted_def update_payout_def
  rows_affected_def confirm_pass_def scan_from_def apply_scan_def list_zkas_in_flight_payouts_def
  kind_of_def cycle_of_def ensure_confirm_cursor_def reconcile_cycle_def engine_cycle_status_def
  mark_cycle_broadcasting_def mark_cycle_settled_def counts_as_paid_def idempotency_key_def
  show_nat.simps digit_char_def is_prefix_of_def confirm_one_def watched_txids_def
  classify_confirmation_def INFLIGHT_KEY_def CONFIRM_CURSOR_KEY_def

lemma world0_ok [simp]: "payout_db_ok world0" "sends world0 = []" "distinct (map w_id (wallets world0))"
  by (simp_all add: world0_def payout_db_ok_def)

lemma tick0_sends:
  "map (\<lambda>e. (se_to e, se_amount e, se_result e)) (sends (tick0 3590 world0)) =
     [(''zkas:a'', 2000000000, Inr (replicate 32 0))]"
  by (simp add: evaluate)


theorem latch_halts_broadcasting_witness:
  "sends (tick0 3590 (world0\<lparr>meta := [INFLIGHT_KEY \<mapsto> \<lparr>pm_value = ''1'', pm_updated_at = 0\<rparr>]\<rparr>)) = []"
proof -
  let ?s = "world0\<lparr>meta := [INFLIGHT_KEY \<mapsto> \<lparr>pm_value = ''1'', pm_updated_at = 0\<rparr>]\<rparr>"
  have "engine_run ?s (tick0 3590 ?s)" by (intro run_tick run_refl)
  from latch_halts_broadcasting[OF this] show ?thesis by simp
qed

theorem tick_sends_bounded_witness:
  "\<exists>es. sends (tick0 3590 world0) = es \<and> length es \<le> 5 \<and> sum_list (map (\<lambda>e. int (se_amount e)) es) \<le> 100000000000"
  using tick_sends_bounded[of world0 config0 codec0 True "chain0 3590"] by (auto simp: config0_def)

theorem confirm_pass_correct_witness:
  "let s = world0\<lparr>payouts := [sample_payout Planned], cycles := [\<lparr>pc_id = 1, pc_kind = Zkas, pc_status = CyPlanned,
      pc_daa_start = 0, pc_daa_end = 3600, pc_planned_at = 0, pc_broadcast_at = None, pc_settled_at = None,
      pc_total_sompi = 0, pc_total_recipients = 0, pc_key = []\<rparr>], next_payout := 2, next_cycle := 2\<rparr>
   in map po_status (payouts (snd (confirm_pass codec0 (chain0 5000) 5000 default_stats s))) = [Planned]"
proof -
  let ?s = "world0\<lparr>payouts := [sample_payout Planned], cycles := [\<lparr>pc_id = 1, pc_kind = Zkas, pc_status = CyPlanned,
      pc_daa_start = 0, pc_daa_end = 3600, pc_planned_at = 0, pc_broadcast_at = None, pc_settled_at = None,
      pc_total_sompi = 0, pc_total_recipients = 0, pc_key = []\<rparr>], next_payout := 2, next_cycle := 2\<rparr>"
  have "payout_db_ok ?s"
    by (simp add: world0_def payout_db_ok_def sample_payout_def payout_checks_def cycle_checks_def)
  from confirm_pass_correct[OF this, of 5000 codec0 "chain0 5000" default_stats] show ?thesis
    by (auto simp: list_all2_Cons1 sample_payout_def)
qed

theorem plan_zkas_cycle_atomic_witness:
  "\<exists>r. fst (plan_zkas_cycle \<lparr>zp_daa_start = 0, zp_daa_end = 3600, zp_threshold = 500000000,
      zp_per_wallet_cap = 1500000000\<rparr> world0) = Inr r \<and> zr_total_sompi r = 1500000000"
proof -
  let ?p = "\<lparr>zp_daa_start = 0, zp_daa_end = 3600, zp_threshold = 500000000, zp_per_wallet_cap = 1500000000\<rparr>"
  have inr: "\<exists>r. fst (plan_zkas_cycle ?p world0) = Inr r" by (simp add: evaluate)
  have "payable_wallets Zkas 500000000 world0 =
      [\<lparr>ew_wallet = 1, ew_address = ''zkas:a'', ew_network = ''mainnet'', ew_allocated = 2000000000,
        ew_confirmed_paid = 0, ew_payable = 2000000000\<rparr>]"
    by (simp add: payable_wallets_def eligible_rows_def eligible_row_def world0_def
        allocated_sompi_def confirmed_paid_sompi_def)
  moreover from plan_zkas_cycle_atomic[of world0 ?p "fst (plan_zkas_cycle ?p world0)" "snd (plan_zkas_cycle ?p world0)"]
    inr world0_ok obtain r c where "fst (plan_zkas_cycle ?p world0) = Inr r" "zr_total_sompi r = pc_total_sompi c"
      "planned_cycle Zkas (capped_amount 1500000000) 500000000 0 3600 world0
         (snd (plan_zkas_cycle ?p world0)) c"
    by (auto simp: world0_def)
  ultimately show ?thesis by (auto simp: planned_cycle_def capped_amount_def)
qed

section \<open>Limits of the design\<close>

text \<open>
  The per-row guarantee does not extend to balances: payable balances count confirmed
  payouts only, so a payment sent shortly before a window boundary and not yet a hundred
  scores deep when the next window opens is planned and sent a second time.  Two ticks
  twenty scores apart, with a valid configuration, no fault and a sender that accepts both
  payments, pay a wallet twice the amount it was ever allocated.
\<close>

theorem boundary_pays_twice:
  "engine_new config0 = Inr config0 \<and> allocated_sompi (allocs world0) 1 = 2000000000 \<and>
   map (\<lambda>e. (se_to e, se_amount e, se_result e)) (sends (tick0 3610 (tick0 3590 world0))) =
     [(''zkas:a'', 2000000000, Inr (replicate 32 0)), (''zkas:a'', 2000000000, Inr (replicate 32 1))]"
proof -
  have "engine_new config0 = Inr config0"
    by (simp add: engine_new_def config0_def ZKAS_PAYOUT_CONFIRMATION_DAA_def)
  moreover have "map (\<lambda>e. (se_to e, se_amount e, se_result e)) (sends (tick0 3610 (tick0 3590 world0))) =
     [(''zkas:a'', 2000000000, Inr (replicate 32 0)), (''zkas:a'', 2000000000, Inr (replicate 32 1))]"
    by (simp add: evaluate)
  ultimately show ?thesis by (simp add: allocated_sompi_def world0_def)
qed

text \<open>
  A cycle that is still \<open>planned\<close> when its first payout confirms is never moved by the
  engine's reconciliation: the transition to settled or partially settled is guarded by
  \<open>broadcasting\<close>, which this reconciliation, unlike the KAS one, does not pass through.
\<close>

theorem reconcile_leaves_planned_cycle:
  assumes "\<exists>p \<in> set (payouts s). po_cycle p = cid \<and> po_status p = Confirmed"
    and "\<forall>c \<in> set (cycles s). pc_id c = cid \<longrightarrow> pc_status c = CyPlanned"
  shows "cycles (snd (reconcile_cycle cid s)) = cycles s"
proof -
  have keep: "cycles (snd (update_cycle cid P f t)) = cycles s"
    if "cycles t = cycles s" "\<And>c. pc_status c = CyPlanned \<Longrightarrow> \<not> P c" for P f and t :: engine_world
    using that assms(2) by (auto simp: update_cycle_def sql_def Let_def update_where_def intro!: map_idI)
  have status: "engine_cycle_status rows = Some CySettled \<or> engine_cycle_status rows = Some CyPartiallySettled"
    if "\<exists>p \<in> set rows. po_status p = Confirmed" for rows
  proof -
    have "filter (\<lambda>p. po_status p = Confirmed) rows \<noteq> []" using that by (auto simp: filter_empty_conv)
    then show ?thesis by (simp add: engine_cycle_status_def Let_def)
  qed
  show ?thesis
  proof (cases rule: list_for_cycle_cases[of cid s])
    case 1
    then show ?thesis by (simp add: reconcile_cycle_def bindE_def map_err_def)
  next
    case 2
    let ?rows = "order_desc po_amount po_id (filter (\<lambda>p. po_cycle p = cid) (payouts s))"
    have "?rows \<noteq> []" "engine_cycle_status ?rows = Some CySettled \<or> engine_cycle_status ?rows = Some CyPartiallySettled"
      using assms(1) status[of ?rows] by (auto simp flip: set_empty)
    moreover have "db (list_for_cycle cid) s = (Inr ?rows, s\<lparr>calls := Suc (calls s)\<rparr>)" using 2 by simp
    note run = bindE_Inr[of "db (list_for_cycle cid)", OF this]
    ultimately show ?thesis unfolding reconcile_cycle_def run
      by (auto simp: mark_cycle_settled_def mark_cycle_partially_settled_def keep)
  qed
qed

text \<open>A cycle left in \<open>planned\<close> by a failed tick, all of whose payouts are confirmed.\<close>

theorem reconcile_leaves_planned_cycle_witness:
  "let s = world0\<lparr>payouts := [sample_payout Confirmed], cycles := [\<lparr>pc_id = 1, pc_kind = Zkas, pc_status = CyPlanned,
      pc_daa_start = 0, pc_daa_end = 3600, pc_planned_at = 0, pc_broadcast_at = None, pc_settled_at = None,
      pc_total_sompi = 0, pc_total_recipients = 0, pc_key = []\<rparr>]\<rparr>
   in map pc_status (cycles (snd (reconcile_cycle 1 s))) = [CyPlanned]"
proof -
  let ?s = "world0\<lparr>payouts := [sample_payout Confirmed], cycles := [\<lparr>pc_id = 1, pc_kind = Zkas, pc_status = CyPlanned,
      pc_daa_start = 0, pc_daa_end = 3600, pc_planned_at = 0, pc_broadcast_at = None, pc_settled_at = None,
      pc_total_sompi = 0, pc_total_recipients = 0, pc_key = []\<rparr>]\<rparr>"
  show ?thesis using reconcile_leaves_planned_cycle[of ?s 1] by (simp add: sample_payout_def Let_def)
qed

text \<open>
  The boundary to the spending process: whatever it prints, a payment is reported
  accepted only for exit status zero and a parsable 64-digit transaction id, and the outcomes
  that keep the latch are exactly a timeout and an exit status zero without such an id; every
  other failure, a failed wait on the started process and a non-zero exit included, is
  treated as safe to retry.
\<close>

theorem cli_send_outcomes:
  assumes "read_seed seed_file = Inr seed"
  shows "(\<exists>txid. cli_send parse cli seed_file child = Inr txid) =
      (\<exists>out err txid. child = Exited (Some 0) out err \<and> parse_txid parse out = Some txid) \<and>
    (\<exists>e. cli_send parse cli seed_file child = Inl e \<and> is_ambiguous e) =
      (child = Elapsed \<or> (\<exists>out err. child = Exited (Some 0) out err \<and> parse_txid parse out = None))"
  using assms by (cases child; auto simp: cli_send_def is_ambiguous_def split: option.splits)

theorem cli_send_outcomes_witness:
  "\<exists>e. cli_send (\<lambda>_. None) \<lparr>sp_bin = ''shielded-pay'', sp_timeout_secs = 900\<rparr> (Inr (replicate 64 CHR ''a'')) Elapsed = Inl e \<and>
     is_ambiguous e"
proof -
  have "read_seed (Inr (replicate 64 CHR ''a'')) = Inr (replicate 64 CHR ''a'')"
    by (simp add: read_seed_def is_hex64_def trim_def is_whitespace_def is_ascii_hexdigit_def Let_def list_all_iff)
  from cli_send_outcomes[OF this, of "\<lambda>_. None" "\<lparr>sp_bin = ''shielded-pay'', sp_timeout_secs = 900\<rparr>" Elapsed]
  show ?thesis by blast
qed

end
