(* ===== verification/Accounting_Repo.thy ===== *)
theory Accounting_Repo
  imports Payout_Repo
begin

text \<open>
  The repositories the accountant writes (\<open>crates/katpool-db/src/repo\<close>): share windows
  (\<open>share_window.rs\<close>), matured coinbase rewards (\<open>coinbase_reward.rs\<close>), share allocations
  (\<open>share_allocation.rs\<close>), NACHO rebates (\<open>nacho_rebate.rs\<close>) and the block lifecycle
  (\<open>block.rs\<close>).  Every function is one statement with the schema's constraints.

  The lemmas show what each statement may change: rewards are stamped once, allocation
  batches land whole or not at all, rebates never pay more than accrued, and block statuses
  move forward.
\<close>

section \<open>Share windows\<close>

definition window_checks :: "share_window \<Rightarrow> bool" where
  "window_checks w \<longleftrightarrow> sw_daa_start w < sw_daa_end w \<and> \<not> f64_lt (sw_total_weight w) (Fin 0) \<and> 0 \<le> sw_share_count w"

definition same_window :: "wallet_id \<Rightarrow> int \<Rightarrow> int \<Rightarrow> share_window \<Rightarrow> bool" where
  "same_window w a b r \<longleftrightarrow> sw_wallet r = w \<and> sw_daa_start r = a \<and> sw_daa_end r = b"

definition share_window_insert ::
  "wallet_id \<Rightarrow> nat \<Rightarrow> nat \<Rightarrow> timestamp \<Rightarrow> timestamp \<Rightarrow> f64 \<Rightarrow> int \<Rightarrow> ('z, int) db_act" where
  "share_window_insert w daa_start daa_end started ended weight n = sql (\<lambda>s.
     let row = \<lparr>sw_id = next_window s, sw_wallet = w, sw_daa_start = u64_as_i64 daa_start,
                sw_daa_end = u64_as_i64 daa_end, sw_started_at = started, sw_ended_at = ended,
                sw_total_weight = weight, sw_share_count = n\<rparr>;
         s' = s\<lparr>next_window := next_window s + 1\<rparr>
     in if \<not> window_checks row then (Inl (Constraint ''share_window''), s')
        else if list_ex (same_window w (u64_as_i64 daa_start) (u64_as_i64 daa_end)) (windows s)
        then (Inl (Constraint ''share_window_wallet_id_daa_start_daa_end_key''), s')
        else (Inr (next_window s), s'\<lparr>windows := windows s @ [row]\<rparr>))"

definition share_window_find :: "wallet_id \<Rightarrow> nat \<Rightarrow> nat \<Rightarrow> ('z, share_window option) db_act" where
  "share_window_find w daa_start daa_end = sql (gets (\<lambda>s.
     List.find (same_window w (u64_as_i64 daa_start) (u64_as_i64 daa_end)) (windows s)))"

text \<open>\<open>ORDER BY total_weight DESC\<close>: PostgreSQL sorts NaN and infinity above every number.\<close>

definition f64_rat :: "f64 \<Rightarrow> rat" where
  "f64_rat v = (case v of Fin x \<Rightarrow> x | _ \<Rightarrow> 0)"

definition weight_desc :: "('r \<Rightarrow> f64) \<Rightarrow> 'r list \<Rightarrow> 'r list" where
  "weight_desc k rows =
     filter (\<lambda>r. \<not> f64_is_finite (k r)) rows @
     sort_key (\<lambda>r. - f64_rat (k r)) (filter (\<lambda>r. f64_is_finite (k r)) rows)"

definition list_for_window :: "nat \<Rightarrow> nat \<Rightarrow> ('z, share_window list) db_act" where
  "list_for_window daa_start daa_end = sql (gets (\<lambda>s.
     weight_desc sw_total_weight (filter (\<lambda>r. sw_daa_start r = u64_as_i64 daa_start \<and>
       sw_daa_end r = u64_as_i64 daa_end) (windows s))))"

section \<open>Coinbase rewards\<close>

datatype ensure_outcome = Inserted | AlreadyExisted

text \<open>\<open>x as i32\<close> for a \<open>u32\<close>.\<close>

definition u32_as_i32 :: "nat \<Rightarrow> int" where
  "u32_as_i32 n = (let m = int n mod 2 ^ 32 in if m < 2 ^ 31 then m else m - 2 ^ 32)"

definition reward_checks :: "coinbase_reward \<Rightarrow> bool" where
  "reward_checks r \<longleftrightarrow> length (cr_txid r) = 32 \<and> 0 \<le> cr_index r \<and> 0 \<le> cr_amount r \<and> 0 \<le> cr_block_daa r"

definition same_outpoint :: "bytes \<Rightarrow> int \<Rightarrow> coinbase_reward \<Rightarrow> bool" where
  "same_outpoint txid i r \<longleftrightarrow> cr_txid r = txid \<and> cr_index r = i"

definition reward_ensure ::
  "bytes \<Rightarrow> nat \<Rightarrow> int \<Rightarrow> nat \<Rightarrow> ('z, int \<times> ensure_outcome) db_act" where
  "reward_ensure txid index amount block_daa = sql (\<lambda>s.
     let row = \<lparr>cr_id = next_reward s, cr_txid = txid, cr_index = u32_as_i32 index, cr_amount = amount,
                cr_block_daa = u64_as_i64 block_daa, cr_discovered_at = now s, cr_allocated_at = None\<rparr>;
         s' = s\<lparr>next_reward := next_reward s + 1\<rparr>
     in if \<not> reward_checks row then (Inl (Constraint ''coinbase_reward''), s')
        else case List.find (same_outpoint txid (u32_as_i32 index)) (rewards s) of
               Some r \<Rightarrow> (Inr (cr_id r, AlreadyExisted), s')
             | None \<Rightarrow> (Inr (next_reward s, Inserted), s'\<lparr>rewards := rewards s @ [row]\<rparr>))"

definition list_unallocated :: "int \<Rightarrow> ('z, coinbase_reward list) db_act" where
  "list_unallocated lmt = sql (gets (\<lambda>s.
     take (nat lmt) (sort_key cr_block_daa (sort_key cr_id
       (filter (\<lambda>r. cr_allocated_at r = None) (rewards s))))))"

definition lock_for_allocation :: "int \<Rightarrow> ('z, coinbase_reward option) db_act" where
  "lock_for_allocation rid = sql (gets (\<lambda>s. List.find (\<lambda>r. cr_id r = rid) (rewards s)))"

definition mark_allocated :: "int \<Rightarrow> ('z, unit) db_act" where
  "mark_allocated rid = sql (\<lambda>s.
     (Inr (), s\<lparr>rewards := update_where (\<lambda>r. cr_id r = rid)
        (\<lambda>r. r\<lparr>cr_allocated_at := coalesce (cr_allocated_at r) (Some (now s))\<rparr>) (rewards s)\<rparr>))"

definition find_by_outpoint :: "bytes \<Rightarrow> nat \<Rightarrow> ('z, coinbase_reward option) db_act" where
  "find_by_outpoint txid index = sql (gets (\<lambda>s. List.find (same_outpoint txid (u32_as_i32 index)) (rewards s)))"

section \<open>Share allocations\<close>

record new_allocation =
  na_wallet :: wallet_id
  na_weight :: f64
  na_window_total :: f64
  na_gross :: int
  na_pool_fee :: int
  na_nacho :: int
  na_net :: int
  na_topline_bps :: int
  na_rebate_bps :: int
  na_tier :: wallet_tier

definition new_allocation_is_balanced :: "new_allocation \<Rightarrow> bool" where
  "new_allocation_is_balanced r \<longleftrightarrow> na_gross r = na_pool_fee r + na_nacho r + na_net r"

definition allocation_checks :: "new_allocation \<Rightarrow> bool" where
  "allocation_checks r \<longleftrightarrow>
     \<not> f64_lt (na_weight r) (Fin 0) \<and> \<not> f64_le (na_window_total r) (Fin 0) \<and>
     0 \<le> na_gross r \<and> 0 \<le> na_pool_fee r \<and> 0 \<le> na_nacho r \<and> 0 \<le> na_net r \<and>
     na_gross r = na_pool_fee r + na_nacho r + na_net r \<and> f64_le (na_weight r) (na_window_total r) \<and>
     0 \<le> na_topline_bps r \<and> na_topline_bps r \<le> 1000 \<and> 0 \<le> na_rebate_bps r \<and> na_rebate_bps r \<le> 10000"

definition allocation_row :: "int \<Rightarrow> timestamp \<Rightarrow> int \<Rightarrow> new_allocation \<Rightarrow> share_allocation" where
  "allocation_row rid t i r =
     \<lparr>sa_id = i, sa_reward = rid, sa_wallet = na_wallet r, sa_weight = na_weight r,
      sa_window_total = na_window_total r, sa_gross = na_gross r, sa_pool_fee = na_pool_fee r,
      sa_nacho = na_nacho r, sa_net = na_net r, sa_computed_at = t, sa_topline_bps = na_topline_bps r,
      sa_rebate_bps = na_rebate_bps r, sa_tier = na_tier r\<rparr>"

definition insert_batch :: "int \<Rightarrow> new_allocation list \<Rightarrow> ('z, nat) db_act" where
  "insert_batch rid rows =
     (if rows = [] then ret 0
      else if \<not> list_all new_allocation_is_balanced rows then raise (DbConfig ''allocation is unbalanced'')
      else sql (\<lambda>s.
        let s' = s\<lparr>next_alloc := next_alloc s + int (length rows)\<rparr>;
            new = map (\<lambda>(i, r). allocation_row rid (now s) i r)
                    (zip (map (\<lambda>k. next_alloc s + int k) [0..<length rows]) rows)
        in if \<not> list_all allocation_checks rows then (Inl (Constraint ''share_allocation''), s')
           else if \<not> distinct (map na_wallet rows) \<or>
             list_ex (\<lambda>a. sa_reward a = rid \<and> sa_wallet a \<in> set (map na_wallet rows)) (allocs s)
           then (Inl (Constraint ''share_allocation_reward_wallet_uniq''), s')
           else if \<not> list_ex (\<lambda>r. cr_id r = rid) (rewards s) \<or>
             \<not> list_all (\<lambda>r. list_ex (\<lambda>w. w_id w = na_wallet r) (wallets s)) rows
           then (Inl (Constraint ''share_allocation foreign key''), s')
           else (Inr (length rows), s'\<lparr>allocs := allocs s @ new\<rparr>)))"

definition list_for_reward :: "int \<Rightarrow> ('z, share_allocation list) db_act" where
  "list_for_reward rid = sql (gets (\<lambda>s. weight_desc sa_weight (filter (\<lambda>a. sa_reward a = rid) (allocs s))))"

definition allocations_for_wallet :: "wallet_id \<Rightarrow> int \<Rightarrow> ('z, share_allocation list) db_act" where
  "allocations_for_wallet w lmt = sql (gets (\<lambda>s.
     take (nat lmt) (sort_key (\<lambda>a. - sa_computed_at a) (filter (\<lambda>a. sa_wallet a = w) (allocs s)))))"

definition latest_applied_tier_for_wallet :: "wallet_id \<Rightarrow> ('z, wallet_tier option) db_act" where
  "latest_applied_tier_for_wallet w = sql (gets (\<lambda>s.
     case sort_key (\<lambda>a. - sa_computed_at a) (sort_key (\<lambda>a. - sa_id a)
            (filter (\<lambda>a. sa_wallet a = w) (allocs s))) of
       [] \<Rightarrow> None | a # _ \<Rightarrow> Some (sa_tier a)))"

definition pending_balance_for_wallet :: "wallet_id \<Rightarrow> ('z, int) db_act" where
  "pending_balance_for_wallet w = sql (\<lambda>s.
     let t = allocated_sompi (allocs s) w
     in if in_i64 t then (Inr t, s) else (Inl (Constraint ''bigint out of range''), s))"

section \<open>NACHO rebates\<close>

definition pending_sompi :: "nacho_rebate \<Rightarrow> int" where
  "pending_sompi r = nr_accrued r - nr_paid r"

definition rebate_checks :: "nacho_rebate \<Rightarrow> bool" where
  "rebate_checks r \<longleftrightarrow> 0 \<le> nr_accrued r \<and> 0 \<le> nr_paid r \<and> nr_paid r \<le> nr_accrued r \<and> in_i64 (nr_accrued r)"

definition rebate_get :: "wallet_id \<Rightarrow> ('z, nacho_rebate option) db_act" where
  "rebate_get w = sql (gets (\<lambda>s. List.find (\<lambda>r. nr_wallet r = w) (rebates s)))"

text \<open>\<open>INSERT \<dots> ON CONFLICT (wallet_id) DO UPDATE SET accrued_sompi = f old\<close>.\<close>

definition rebate_upsert :: "wallet_id \<Rightarrow> int \<Rightarrow> (int \<Rightarrow> int) \<Rightarrow> ('z, nacho_rebate) db_act" where
  "rebate_upsert w init f = sql (\<lambda>s.
     case List.find (\<lambda>r. nr_wallet r = w) (rebates s) of
       Some r \<Rightarrow>
         let r' = r\<lparr>nr_accrued := f (nr_accrued r), nr_updated_at := now s\<rparr>
         in if \<not> rebate_checks r' then (Inl (Constraint ''nacho_rebate_accrual''), s)
            else (Inr r', s\<lparr>rebates := update_where (\<lambda>x. nr_wallet x = w) (\<lambda>_. r') (rebates s)\<rparr>)
     | None \<Rightarrow>
         let r' = \<lparr>nr_wallet = w, nr_accrued = init, nr_paid = 0, nr_updated_at = now s\<rparr>
         in if \<not> rebate_checks r' \<or> \<not> list_ex (\<lambda>x. w_id x = w) (wallets s)
            then (Inl (Constraint ''nacho_rebate_accrual''), s)
            else (Inr r', s\<lparr>rebates := rebates s @ [r']\<rparr>))"

definition rebate_accrue :: "wallet_id \<Rightarrow> int \<Rightarrow> ('z, nacho_rebate) db_act" where
  "rebate_accrue w delta =
     (if delta < 0 then raise (DbConfig ''accrue delta must be non-negative'')
      else rebate_upsert w delta (\<lambda>old. old + delta))"

definition rebate_mark_paid :: "wallet_id \<Rightarrow> int \<Rightarrow> ('z, nacho_rebate) db_act" where
  "rebate_mark_paid w delta =
     (if delta < 0 then raise (DbConfig ''mark_paid delta must be non-negative'')
      else sql (\<lambda>s.
        case List.find (\<lambda>r. nr_wallet r = w) (rebates s) of
          None \<Rightarrow> (Inl RowNotFound, s)
        | Some r \<Rightarrow>
            let r' = r\<lparr>nr_paid := nr_paid r + delta, nr_updated_at := now s\<rparr>
            in if \<not> rebate_checks r' then (Inl (Constraint ''nacho_rebate_paid_le_accrued''), s)
               else (Inr r', s\<lparr>rebates := update_where (\<lambda>x. nr_wallet x = w) (\<lambda>_. r') (rebates s)\<rparr>)))"

definition rebate_set_accrual :: "wallet_id \<Rightarrow> int \<Rightarrow> ('z, nacho_rebate) db_act" where
  "rebate_set_accrual w accrued =
     (if accrued < 0 then raise (DbConfig ''set_accrual value must be non-negative'')
      else rebate_upsert w accrued (\<lambda>_. accrued))"

definition rebate_list_pending :: "int \<Rightarrow> int \<Rightarrow> ('z, nacho_rebate list) db_act" where
  "rebate_list_pending min_pending lmt = sql (gets (\<lambda>s.
     take (nat lmt) (sort_key (\<lambda>r. - pending_sompi r)
       (filter (\<lambda>r. min_pending \<le> pending_sompi r) (rebates s)))))"

section \<open>Blocks\<close>

definition block_checks :: "block \<Rightarrow> bool" where
  "block_checks b \<longleftrightarrow> length (b_hash b) = 32 \<and> 0 \<le> b_daa b \<and>
     (case b_blue_score b of None \<Rightarrow> True | Some k \<Rightarrow> 0 \<le> k) \<and>
     (case b_reward b of None \<Rightarrow> True | Some k \<Rightarrow> 0 \<le> k) \<and>
     (case b_submitted_at b of None \<Rightarrow> True | Some t \<Rightarrow> b_found_at b \<le> t) \<and>
     (case b_confirmed_at b of None \<Rightarrow> True
      | Some t \<Rightarrow> (case b_submitted_at b of None \<Rightarrow> False | Some u \<Rightarrow> u \<le> t)) \<and>
     (case b_matured_at b of None \<Rightarrow> True
      | Some t \<Rightarrow> (case b_confirmed_at b of None \<Rightarrow> False | Some u \<Rightarrow> u \<le> t))"

definition new_block :: "'z pool_db_scheme \<Rightarrow> bytes \<Rightarrow> nat \<Rightarrow> block" where
  "new_block s hash daa =
     \<lparr>b_id = int (length (blocks s)) + 1, b_hash = hash, b_daa = u64_as_i64 daa, b_blue_score = None,
      b_status = Found, b_found_at = now s, b_submitted_at = None, b_confirmed_at = None,
      b_matured_at = None, b_reward = None\<rparr>"

definition block_insert :: "bytes \<Rightarrow> nat \<Rightarrow> ('z, int) db_act" where
  "block_insert hash daa = sql (\<lambda>s.
     let row = new_block s hash daa
     in if \<not> block_checks row then (Inl (Constraint ''block''), s)
        else if list_ex (\<lambda>b. b_hash b = hash) (blocks s) then (Inl (Constraint ''block_hash_key''), s)
        else (Inr (b_id row), s\<lparr>blocks := blocks s @ [row]\<rparr>))"

definition block_ensure :: "bytes \<Rightarrow> nat \<Rightarrow> ('z, int \<times> ensure_outcome) db_act" where
  "block_ensure hash daa = sql (\<lambda>s.
     let row = new_block s hash daa
     in if \<not> block_checks row then (Inl (Constraint ''block''), s)
        else case List.find (\<lambda>b. b_hash b = hash) (blocks s) of
               Some b \<Rightarrow> (Inr (b_id b, AlreadyExisted), s)
             | None \<Rightarrow> (Inr (b_id row, Inserted), s\<lparr>blocks := blocks s @ [row]\<rparr>))"

definition find_by_hash :: "bytes \<Rightarrow> ('z, block option) db_act" where
  "find_by_hash hash = sql (gets (\<lambda>s. List.find (\<lambda>b. b_hash b = hash) (blocks s)))"

definition update_block ::
  "bytes \<Rightarrow> (block \<Rightarrow> bool) \<Rightarrow> (timestamp \<Rightarrow> block \<Rightarrow> block) \<Rightarrow> ('z, unit) db_act" where
  "update_block hash P f = sql (\<lambda>s.
     let hit = (\<lambda>b. b_hash b = hash \<and> P b)
     in if list_all (\<lambda>b. hit b \<longrightarrow> block_checks (f (now s) b)) (blocks s)
        then (Inr (), s\<lparr>blocks := update_where hit (f (now s)) (blocks s)\<rparr>)
        else (Inl (Constraint ''block_lifecycle_order''), s))"

definition mark_submitted :: "bytes \<Rightarrow> ('z, unit) db_act" where
  "mark_submitted hash = update_block hash (\<lambda>b. b_status b \<in> {Found, SubmittedToNode})
     (\<lambda>t b. b\<lparr>b_status := SubmittedToNode, b_submitted_at := coalesce (b_submitted_at b) (Some t)\<rparr>)"

definition mark_confirmed_blue :: "bytes \<Rightarrow> int option \<Rightarrow> ('z, unit) db_act" where
  "mark_confirmed_blue hash blue = update_block hash (\<lambda>b. b_status b \<in> {SubmittedToNode, ConfirmedBlue})
     (\<lambda>t b. b\<lparr>b_status := ConfirmedBlue, b_blue_score := coalesce blue (b_blue_score b),
              b_confirmed_at := coalesce (b_confirmed_at b) (Some t)\<rparr>)"

definition mark_matured :: "bytes \<Rightarrow> int \<Rightarrow> ('z, unit) db_act" where
  "mark_matured hash reward = update_block hash (\<lambda>b. b_status b \<in> {ConfirmedBlue, Matured})
     (\<lambda>t b. b\<lparr>b_status := Matured, b_reward := Some reward,
              b_matured_at := coalesce (b_matured_at b) (Some t)\<rparr>)"

definition mark_orphaned :: "bytes \<Rightarrow> ('z, unit) db_act" where
  "mark_orphaned hash = update_block hash (\<lambda>b. b_status b \<noteq> Matured) (\<lambda>t b. b\<lparr>b_status := Orphaned\<rparr>)"

definition list_recent :: "int \<Rightarrow> int option \<Rightarrow> ('z, block list) db_act" where
  "list_recent lmt before = sql (gets (\<lambda>s.
     take (nat lmt) (sort_key (\<lambda>b. - b_id b)
       (filter (\<lambda>b. case before of None \<Rightarrow> True | Some k \<Rightarrow> b_id b < k) (blocks s)))))"

definition total_count :: "('z, int) db_act" where
  "total_count = sql (gets (\<lambda>s. int (length (blocks s))))"

definition count_by_status :: "('z, (block_status \<times> int) list) db_act" where
  "count_by_status = sql (gets (\<lambda>s.
     map (\<lambda>st. (st, int (length (filter (\<lambda>b. b_status b = st) (blocks s)))))
       (remdups (map b_status (blocks s)))))"

definition list_by_status :: "block_status list \<Rightarrow> int \<Rightarrow> ('z, block list) db_act" where
  "list_by_status sts lmt = sql (gets (\<lambda>s.
     take (nat lmt) (sort_key b_found_at (filter (\<lambda>b. b_status b \<in> set sts) (blocks s)))))"

section \<open>Rows only move forward\<close>

text \<open>A reward keeps its outpoint, amount and score, and its allocation stamp for ever.\<close>

definition reward_le :: "coinbase_reward \<Rightarrow> coinbase_reward \<Rightarrow> bool" where
  "reward_le r q \<longleftrightarrow> cr_id q = cr_id r \<and> cr_txid q = cr_txid r \<and> cr_index q = cr_index r \<and>
     cr_amount q = cr_amount r \<and> cr_block_daa q = cr_block_daa r \<and>
     (cr_allocated_at r \<noteq> None \<longrightarrow> cr_allocated_at q = cr_allocated_at r)"

interpretation reward_table: monotone_table rewards reward_le
  by unfold_locales (auto simp: reward_le_def)

text \<open>Allocation rows are never changed.\<close>

interpretation alloc_table: monotone_table allocs "(=)"
  by unfold_locales simp_all

text \<open>
  The life of a block: found, submitted, confirmed blue, matured; or orphaned from any of the
  first three.  Matured and orphaned are final, and timestamps, once set, stay.
\<close>

fun block_next :: "block_status \<Rightarrow> block_status \<Rightarrow> bool" where
  "block_next Found t = True"
| "block_next SubmittedToNode t = (t \<noteq> Found)"
| "block_next ConfirmedBlue t = (t \<in> {ConfirmedBlue, Matured, Orphaned})"
| "block_next Matured t = (t = Matured)"
| "block_next Orphaned t = (t = Orphaned)"

definition block_le :: "block \<Rightarrow> block \<Rightarrow> bool" where
  "block_le b c \<longleftrightarrow> b_id c = b_id b \<and> b_hash c = b_hash b \<and> b_daa c = b_daa b \<and>
     block_next (b_status b) (b_status c) \<and>
     (b_submitted_at b \<noteq> None \<longrightarrow> b_submitted_at c = b_submitted_at b) \<and>
     (b_confirmed_at b \<noteq> None \<longrightarrow> b_confirmed_at c = b_confirmed_at b) \<and>
     (b_matured_at b \<noteq> None \<longrightarrow> b_matured_at c = b_matured_at b)"

lemma block_next_refl: "block_next st st"
  by (cases st) simp_all

lemma block_next_trans: "block_next a b \<Longrightarrow> block_next b c \<Longrightarrow> block_next a c"
  by (cases a; cases b; cases c; simp)

interpretation block_table: monotone_table blocks block_le
  by unfold_locales (auto simp: block_le_def block_next_refl intro: block_next_trans)

lemma update_block_advances:
  assumes "\<And>t b. P b \<Longrightarrow> block_le b (f t b)"
  shows "block_table.advances (update_block hash P f)"
  unfolding update_block_def
  by (intro block_table.advances_sql block_table.advancesI)
    (auto simp: Let_def block_table.extends_refl intro!: block_table.extends_update assms)

lemma block_next_Orphaned: "st \<noteq> Matured \<Longrightarrow> block_next st Orphaned"
  by (cases st) simp_all

lemma mark_block_advances:
  "block_table.advances (mark_submitted hash)" "block_table.advances (mark_confirmed_blue hash blue)"
  "block_table.advances (mark_matured hash reward)" "block_table.advances (mark_orphaned hash)"
  unfolding mark_submitted_def mark_confirmed_blue_def mark_matured_def mark_orphaned_def
  by (rule update_block_advances, auto simp: block_le_def coalesce_def block_next_Orphaned split: option.split)+

text \<open>
  Whatever block statement runs, no block row is lost or renamed, the lifecycle only moves
  forward (found, submitted, confirmed blue, matured, with orphaned reachable from each but the
  last), matured and orphaned blocks keep their status, and recorded times are final.
\<close>

theorem block_ops_monotone:
  "block_table.advances (block_insert hash daa) \<and> block_table.advances (block_ensure hash daa) \<and>
   block_table.advances (mark_submitted hash) \<and> block_table.advances (mark_confirmed_blue hash blue) \<and>
   block_table.advances (mark_matured hash reward) \<and> block_table.advances (mark_orphaned hash)"
proof -
  have "block_table.advances (block_insert hash daa)" "block_table.advances (block_ensure hash daa)"
    unfolding block_insert_def block_ensure_def
    by (intro block_table.advances_sql block_table.advancesI,
        simp add: Let_def block_table.extends_refl block_table.extends_append split: option.split)+
  then show ?thesis by (simp add: mark_block_advances)
qed

lemma reward_advances:
  "reward_table.advances (reward_ensure txid i amount daa)" "reward_table.advances (mark_allocated rid)"
proof -
  show "reward_table.advances (reward_ensure txid i amount daa)"
    unfolding reward_ensure_def
    by (intro reward_table.advances_sql reward_table.advancesI)
      (simp add: Let_def reward_table.extends_refl reward_table.extends_append split: option.split)
  show "reward_table.advances (mark_allocated rid)"
    unfolding mark_allocated_def
    by (intro reward_table.advances_sql reward_table.advancesI)
      (auto simp: reward_le_def coalesce_def split: option.split intro!: reward_table.extends_update)
qed

section \<open>Rebates\<close>

definition rebates_ok :: "'z pool_db_scheme \<Rightarrow> bool" where
  "rebates_ok s \<longleftrightarrow> distinct (map nr_wallet (rebates s)) \<and> (\<forall>r \<in> set (rebates s). rebate_checks r)"

lemma rebates_ok_inv [simp]: "db_inv rebates_ok"
  by (simp add: db_inv_def rebates_ok_def)

lemma rebates_ok_replace:
  assumes "rebates_ok s" and "nr_wallet r = w" and "rebate_checks r"
  shows "rebates_ok (s\<lparr>rebates := update_where (\<lambda>x. nr_wallet x = w) (\<lambda>_. r) (rebates s)\<rparr>)"
proof -
  have "map nr_wallet (update_where (\<lambda>x. nr_wallet x = w) (\<lambda>_. r) (rebates s)) = map nr_wallet (rebates s)"
    by (rule map_update_where) (simp add: assms(2))
  then show ?thesis using assms by (auto simp: rebates_ok_def in_update_where)
qed

lemma preserves_rebate_upsert: "preserves rebates_ok (rebate_upsert w i f)"
  unfolding rebate_upsert_def
proof (intro preserves_sql rebates_ok_inv preservesI)
  fix s :: "'z pool_db_scheme" assume ok: "rebates_ok s"
  show "rebates_ok (snd (case List.find (\<lambda>r. nr_wallet r = w) (rebates s) of
       None \<Rightarrow> let r' = \<lparr>nr_wallet = w, nr_accrued = i, nr_paid = 0, nr_updated_at = now s\<rparr>
         in if \<not> rebate_checks r' \<or> \<not> list_ex (\<lambda>x. w_id x = w) (wallets s)
            then (Inl (Constraint ''nacho_rebate_accrual''), s)
            else (Inr r', s\<lparr>rebates := rebates s @ [r']\<rparr>)
     | Some r \<Rightarrow> let r' = r\<lparr>nr_accrued := f (nr_accrued r), nr_updated_at := now s\<rparr>
         in if \<not> rebate_checks r' then (Inl (Constraint ''nacho_rebate_accrual''), s)
            else (Inr r', s\<lparr>rebates := update_where (\<lambda>x. nr_wallet x = w) (\<lambda>_. r') (rebates s)\<rparr>)))"
  proof (cases "List.find (\<lambda>r. nr_wallet r = w) (rebates s)")
    case None
    then have "\<forall>x \<in> set (rebates s). nr_wallet x \<noteq> w" by (simp add: find_None_iff)
    with ok None show ?thesis by (auto simp: Let_def rebates_ok_def)
  next
    case (Some r)
    with ok show ?thesis by (auto simp: Let_def intro!: rebates_ok_replace dest!: find_Some_iff_in)
  qed
qed

lemma preserves_rebate_mark_paid: "preserves rebates_ok (rebate_mark_paid w delta)"
  unfolding rebate_mark_paid_def
  by (intro preserves_if preserves_raise preserves_sql rebates_ok_inv preservesI)
    (auto simp: Let_def dest!: find_Some_iff_in intro!: rebates_ok_replace split: option.split)

text \<open>
  Rebate accounting never pays out more than was accrued: every rebate statement keeps one
  balance per wallet with both totals non-negative and the paid total at most the accrued
  one, rejecting any update that would break it.
\<close>

theorem rebate_ops_keep_balance:
  "preserves rebates_ok (rebate_accrue w delta) \<and> preserves rebates_ok (rebate_mark_paid w delta) \<and>
   preserves rebates_ok (rebate_set_accrual w delta) \<and>
   (rebate_checks r \<longrightarrow> 0 \<le> pending_sompi r)"
  by (simp add: rebate_accrue_def rebate_set_accrual_def preserves_raise rebate_checks_def pending_sompi_def
      preserves_rebate_upsert preserves_rebate_mark_paid)

theorem rebate_ops_keep_balance_witness:
  "rebate_checks \<lparr>nr_wallet = 1, nr_accrued = 5, nr_paid = 3, nr_updated_at = 0\<rparr> \<and>
   0 \<le> pending_sompi \<lparr>nr_wallet = 1, nr_accrued = 5, nr_paid = 3, nr_updated_at = 0\<rparr>"
  using rebate_ops_keep_balance[of 1 0 "\<lparr>nr_wallet = 1, nr_accrued = 5, nr_paid = 3, nr_updated_at = 0\<rparr>"]
  by (auto simp: rebate_checks_def in_i64_def)

end
