(* ===== verification/Domain.thy ===== *)
theory Domain
  imports Prelude F64
begin

text \<open>
  The validated newtypes of \<open>crates/katpool-domain/src\<close> that guard the accounting layer:
  wallet addresses (\<open>address.rs\<close>), worker names (\<open>worker.rs\<close>) and share difficulties
  (\<open>difficulty.rs\<close>).  A Rust string is its list of bytes, so lengths are byte lengths; a
  character outside ASCII is rejected at its first byte.  \<open>DaaScore\<close> (\<open>score.rs\<close>) is a
  transparent \<open>u64\<close> and is a natural number in the models.

  The lemmas characterise exactly which inputs each constructor admits and show that the
  accepted address prefixes cannot shadow one another.
\<close>

section \<open>Wallet addresses\<close>

definition ACCEPTED_PREFIXES :: "string list" where
  "ACCEPTED_PREFIXES =
     [''zkastest:'', ''zkassim:'', ''zkasdev:'', ''zkas:'',
      ''firecashtest:'', ''firecashsim:'', ''firecashdev:'', ''firecash:'',
      ''kaspatest:'', ''kaspa:'']"

definition MIN_TOTAL_LEN :: nat where "MIN_TOTAL_LEN = 13"
definition MAX_TOTAL_LEN :: nat where "MAX_TOTAL_LEN = 110"

datatype address_error =
    InvalidPrefix
  | TooShort nat
  | TooLong nat
  | InvalidCharacter char

definition is_ascii_lowercase :: "char \<Rightarrow> bool" where
  "is_ascii_lowercase c = (let n = of_char c :: nat in 97 \<le> n \<and> n \<le> 122)"

definition is_ascii_uppercase :: "char \<Rightarrow> bool" where
  "is_ascii_uppercase c = (let n = of_char c :: nat in 65 \<le> n \<and> n \<le> 90)"

definition is_ascii_digit :: "char \<Rightarrow> bool" where
  "is_ascii_digit c = (let n = of_char c :: nat in 48 \<le> n \<and> n \<le> 57)"

definition strip_prefix :: "string \<Rightarrow> string \<Rightarrow> string option" where
  "strip_prefix p s = (if take (length p) s = p then Some (drop (length p) s) else None)"

fun find_map :: "('a \<Rightarrow> 'b option) \<Rightarrow> 'a list \<Rightarrow> 'b option" where
  "find_map f [] = None"
| "find_map f (x # xs) = (case f x of Some y \<Rightarrow> Some y | None \<Rightarrow> find_map f xs)"

definition WalletAddress_new :: "string \<Rightarrow> address_error + string" where
  "WalletAddress_new s =
     (case find_map (\<lambda>p. strip_prefix p s) ACCEPTED_PREFIXES of
        None \<Rightarrow> Inl InvalidPrefix
      | Some body \<Rightarrow>
          if length s < MIN_TOTAL_LEN then Inl (TooShort (length s))
          else if MAX_TOTAL_LEN < length s then Inl (TooLong (length s))
          else case List.find (\<lambda>ch. \<not> (is_ascii_lowercase ch \<or> is_ascii_digit ch)) body of
                 Some ch \<Rightarrow> Inl (InvalidCharacter ch)
               | None \<Rightarrow> Inr s)"

section \<open>Worker names\<close>

definition WORKER_MAX_LEN :: nat where "WORKER_MAX_LEN = 64"

datatype worker_name_error =
    WorkerEmpty
  | WorkerTooLong nat
  | WorkerInvalidCharacter char

definition is_safe_worker_char :: "char \<Rightarrow> bool" where
  "is_safe_worker_char ch \<longleftrightarrow>
     is_ascii_lowercase ch \<or> is_ascii_uppercase ch \<or> is_ascii_digit ch \<or>
     ch \<in> {CHR ''_'', CHR ''-'', CHR ''.'', CHR ''#'', CHR ''@'', CHR '':'', CHR ''+'', CHR ''/'', CHR 0x5C}"

definition WorkerName_new :: "string \<Rightarrow> worker_name_error + string" where
  "WorkerName_new s =
     (if s = [] then Inl WorkerEmpty
      else if WORKER_MAX_LEN < length s then Inl (WorkerTooLong (length s))
      else case List.find (\<lambda>ch. \<not> is_safe_worker_char ch) s of
             Some ch \<Rightarrow> Inl (WorkerInvalidCharacter ch)
           | None \<Rightarrow> Inr s)"

section \<open>Share difficulties\<close>

datatype difficulty_error = NotFinite | NonPositive

definition ShareDifficulty_new :: "f64 \<Rightarrow> difficulty_error + f64" where
  "ShareDifficulty_new d =
     (if \<not> f64_is_finite d then Inl NotFinite
      else if f64_le d (Fin 0) then Inl NonPositive
      else Inr d)"

section \<open>What is admitted\<close>

lemma find_map_Some: "find_map f xs = Some y \<Longrightarrow> \<exists>x \<in> set xs. f x = Some y"
  by (induction xs) (auto split: option.splits)

lemma find_map_None: "find_map f xs = None \<longleftrightarrow> (\<forall>x \<in> set xs. f x = None)"
  by (induction xs) (auto split: option.splits)

lemma strip_prefix_append: "strip_prefix p s = Some b \<longleftrightarrow> s = p @ b"
  by (auto simp: strip_prefix_def) (metis append_take_drop_id)

lemma append_eq_prefix:
  "p @ b = q @ c \<Longrightarrow> length p \<le> length q \<Longrightarrow> take (length p) q = p"
  by (metis append_eq_append_conv_if)

text \<open>No accepted prefix is a prefix of another: the trailing colon separates them.\<close>

lemma prefixes_apart:
  assumes "p \<in> set ACCEPTED_PREFIXES" and "q \<in> set ACCEPTED_PREFIXES" and "p @ b = q @ c"
  shows "p = q"
proof -
  have short: "p = q" if "p \<in> set ACCEPTED_PREFIXES" "q \<in> set ACCEPTED_PREFIXES"
    "take (length p) q = p" for p q
  proof -
    have "list_all (\<lambda>p. list_all (\<lambda>q. take (length p) q = p \<longrightarrow> p = q) ACCEPTED_PREFIXES) ACCEPTED_PREFIXES"
      by (simp add: ACCEPTED_PREFIXES_def)
    with that show ?thesis by (simp add: list_all_iff)
  qed
  show ?thesis
  proof (cases "length p \<le> length q")
    case True
    with append_eq_prefix[OF assms(3)] assms show ?thesis by (blast intro: short)
  next
    case False
    with append_eq_prefix[OF assms(3)[symmetric]] assms show ?thesis by (metis short nat_le_linear)
  qed
qed

lemma address_body:
  "find_map (\<lambda>p. strip_prefix p s) ACCEPTED_PREFIXES = Some b \<longleftrightarrow>
     (\<exists>p \<in> set ACCEPTED_PREFIXES. s = p @ b)"
proof
  assume "find_map (\<lambda>p. strip_prefix p s) ACCEPTED_PREFIXES = Some b"
  then show "\<exists>p \<in> set ACCEPTED_PREFIXES. s = p @ b"
    by (auto dest!: find_map_Some simp: strip_prefix_append)
next
  assume "\<exists>p \<in> set ACCEPTED_PREFIXES. s = p @ b"
  then obtain p where p: "p \<in> set ACCEPTED_PREFIXES" "s = p @ b" by blast
  then have "find_map (\<lambda>p. strip_prefix p s) ACCEPTED_PREFIXES \<noteq> None"
    unfolding find_map_None using strip_prefix_append[of p s b] by (metis option.discI)
  then obtain c where c: "find_map (\<lambda>p. strip_prefix p s) ACCEPTED_PREFIXES = Some c" by blast
  then obtain q where "q \<in> set ACCEPTED_PREFIXES" "s = q @ c"
    by (auto dest!: find_map_Some simp: strip_prefix_append)
  with p c show "find_map (\<lambda>p. strip_prefix p s) ACCEPTED_PREFIXES = Some b"
    using prefixes_apart[of p q b c] by simp
qed

text \<open>
  A wallet address is admitted exactly when it is 13 to 110 bytes long and consists of one
  accepted network prefix followed by lower-case letters and digits only; the address is kept
  unchanged, and no string matches two accepted prefixes, so their order does not matter.
\<close>

theorem WalletAddress_new_iff:
  "(WalletAddress_new s = Inr a \<longleftrightarrow> a = s \<and> 13 \<le> length s \<and> length s \<le> 110 \<and>
      (\<exists>p body. p \<in> set ACCEPTED_PREFIXES \<and> s = p @ body \<and>
         list_all (\<lambda>c. is_ascii_lowercase c \<or> is_ascii_digit c) body)) \<and>
   (p \<in> set ACCEPTED_PREFIXES \<and> q \<in> set ACCEPTED_PREFIXES \<and> p @ b = q @ c \<longrightarrow> p = q)"
proof -
  have "WalletAddress_new s = Inr a \<longleftrightarrow> (\<exists>body. find_map (\<lambda>p. strip_prefix p s) ACCEPTED_PREFIXES = Some body \<and>
      13 \<le> length s \<and> length s \<le> 110 \<and> a = s \<and> list_all (\<lambda>c. is_ascii_lowercase c \<or> is_ascii_digit c) body)"
    by (auto simp: WalletAddress_new_def MIN_TOTAL_LEN_def MAX_TOTAL_LEN_def find_None_iff list_all_iff
        split: option.splits dest: find_Some_iff_in)
  then show ?thesis unfolding address_body using prefixes_apart by blast
qed

theorem WalletAddress_new_iff_witness:
  "WalletAddress_new ''zkastest:pyfjy228l6gukj2v'' = Inr ''zkastest:pyfjy228l6gukj2v''"
proof -
  have "list_all (\<lambda>c. is_ascii_lowercase c \<or> is_ascii_digit c) ''pyfjy228l6gukj2v''"
    by (simp add: is_ascii_lowercase_def is_ascii_digit_def)
  moreover have "''zkastest:'' \<in> set ACCEPTED_PREFIXES" by (simp add: ACCEPTED_PREFIXES_def)
  ultimately have "\<exists>p body. p \<in> set ACCEPTED_PREFIXES \<and> ''zkastest:pyfjy228l6gukj2v'' = p @ body \<and>
      list_all (\<lambda>c. is_ascii_lowercase c \<or> is_ascii_digit c) body"
    by (intro exI[of _ "''zkastest:''"] exI[of _ "''pyfjy228l6gukj2v''"]) simp
  then show ?thesis
    using WalletAddress_new_iff[of "''zkastest:pyfjy228l6gukj2v''" "''zkastest:pyfjy228l6gukj2v''"] by simp
qed

lemma WorkerName_new_Inr:
  "WorkerName_new s = Inr a \<longleftrightarrow> a = s \<and> s \<noteq> [] \<and> length s \<le> 64 \<and> list_all is_safe_worker_char s"
  by (auto simp: WorkerName_new_def WORKER_MAX_LEN_def find_None_iff list_all_iff
      split: option.splits dest: find_Some_iff_in)

lemma ShareDifficulty_new_Inr: "ShareDifficulty_new d = Inr a \<longleftrightarrow> a = d \<and> (\<exists>x. d = Fin x \<and> 0 < x)"
  by (cases d) (auto simp: ShareDifficulty_new_def f64_is_finite_def)

end
