(* ===== verification/Allocation.thy ===== *)
theory Allocation
  imports Accounting_Repo Domain
begin

text \<open>
  The PROP allocation engine of the accountant: closing a share window
  (\<open>accountant/src/window.rs\<close>) and distributing one matured coinbase reward over it
  (\<open>accountant/src/allocation.rs\<close>), with the shares in \<open>f64\<close> as the code computes them.

  The tier classifier is a parameter: the code asks a service for it and falls back to the
  standard tier on any error.  The floating-point sum of a window follows the row order of
  the table.  An integer overflow of the gross total is a panic (\<open>AePanic\<close>).

  The lemmas show that an allocation is atomic and happens at most once per reward, that
  every sompi of the reward is accounted for in balanced rows, and when the rounding of
  the shares can go wrong.
\<close>

section \<open>Closing a window\<close>

record close_outcome =
  co_wallets :: int
  co_shares :: int
  co_total_weight :: f64

definition shares_in :: "int \<Rightarrow> int \<Rightarrow> share_row list \<Rightarrow> share_row list" where
  "shares_in lo hi sh = filter (\<lambda>r. lo \<le> sh_daa r \<and> sh_daa r < hi) sh"

text \<open>The rollup of one wallet: weight, count and first credit.\<close>

definition rollup :: "int \<Rightarrow> int \<Rightarrow> timestamp \<Rightarrow> share_row list \<Rightarrow> int \<Rightarrow> wallet_id \<Rightarrow> share_window" where
  "rollup lo hi t sel i w =
     (let mine = filter (\<lambda>r. sh_wallet r = w) sel
      in \<lparr>sw_id = i, sw_wallet = w, sw_daa_start = lo, sw_daa_end = hi,
          sw_started_at = Min (set (map sh_credited_at mine)), sw_ended_at = t,
          sw_total_weight = f64_sum (map sh_difficulty mine), sw_share_count = int (length mine)\<rparr>)"

definition upsert_window :: "share_window \<Rightarrow> share_window list \<Rightarrow> share_window list" where
  "upsert_window r rows =
     (if list_ex (same_window (sw_wallet r) (sw_daa_start r) (sw_daa_end r)) rows
      then update_where (same_window (sw_wallet r) (sw_daa_start r) (sw_daa_end r))
             (\<lambda>x. x\<lparr>sw_total_weight := sw_total_weight r, sw_share_count := sw_share_count r,
                    sw_ended_at := sw_ended_at r\<rparr>) rows
      else rows @ [r])"

definition materialise :: "int \<Rightarrow> int \<Rightarrow> timestamp \<Rightarrow> ('z, int) db_act" where
  "materialise lo hi t = sql (\<lambda>s.
     let sel = shares_in lo hi (shares s);
         ws = remdups (map sh_wallet sel);
         new = map2 (rollup lo hi t sel) (map (\<lambda>k. next_window s + int k) [0..<length ws]) ws
     in if \<not> list_all (\<lambda>r. f64_is_finite (sw_total_weight r)) new
        then (Inl (Constraint ''value out of range''), s)
        else if \<not> list_all window_checks new then (Inl (Constraint ''share_window''), s)
        else (Inr (int (length ws)),
              s\<lparr>windows := foldl (\<lambda>rows r. upsert_window r rows) (windows s) new,
                next_window := next_window s + int (length ws)\<rparr>))"

definition window_totals :: "int \<Rightarrow> int \<Rightarrow> ('z, f64 \<times> int) db_act" where
  "window_totals lo hi = sql (gets (\<lambda>s.
     let rows = filter (\<lambda>r. sw_daa_start r = lo \<and> sw_daa_end r = hi) (windows s)
     in (f64_sum (map sw_total_weight rows), sum_list (map sw_share_count rows))))"

definition close_window :: "nat \<Rightarrow> nat \<Rightarrow> timestamp \<Rightarrow> ('z, close_outcome) db_act" where
  "close_window daa_start daa_end t =
     (if daa_end \<le> daa_start then raise (DbConfig ''close_window: daa_end must be > daa_start'')
      else let lo = u64_as_i64 daa_start; hi = u64_as_i64 daa_end
        in transaction (bindE (materialise lo hi t) (\<lambda>inserted.
             bindE (window_totals lo hi) (\<lambda>(weight, n).
             ret \<lparr>co_wallets = inserted, co_shares = n, co_total_weight = weight\<rparr>))) id)"

section \<open>Pro-rating\<close>

definition pro_rate :: "int \<Rightarrow> f64 \<Rightarrow> f64 \<Rightarrow> int" where
  "pro_rate block_reward weight total_weight =
     (if f64_eq weight (Fin 0) \<or> f64_le total_weight (Fin 0) then 0
      else
        let ratio = f64_div weight total_weight;
            portion = f64_mul (f64_of_int block_reward) ratio;
            floored = f64_floor portion
        in if f64_le floored (Fin 0) then 0
           else if f64_le (f64_of_int block_reward) floored then block_reward
           else f64_as_i64 floored)"

text \<open>The slot that receives the residue: the first one with the smallest wallet id.\<close>

definition residue_slot :: "wallet_id list \<Rightarrow> nat" where
  "residue_slot ws = hd (sort_key (\<lambda>i. ws ! i) [0..<length ws])"

definition assign_residue :: "wallet_id list \<Rightarrow> int \<Rightarrow> int list \<Rightarrow> int list" where
  "assign_residue ws residue grosses =
     (if ws = [] then grosses
      else let i = residue_slot ws in grosses[i := sat_add_i64 (grosses ! i) residue])"

section \<open>The engine\<close>

datatype allocation_outcome =
    Allocated nat int int int int
  | AlreadyAllocated
  | NoContributingWallets int

datatype allocation_engine_error =
    AeDb db_error
  | AeMath allocation_error
  | UnknownReward int
  | InvalidWindowWeight f64
  | InvalidWalletAddress string
  | AePanic

text \<open>Leaving the transaction early: with an error, or because the reward is already done.\<close>

datatype allocation_stop = StopErr allocation_engine_error | StopAlready

record totals =
  tl_pool_fee :: int
  tl_nacho :: int
  tl_net :: int

definition sum_totals :: "allocation list \<Rightarrow> totals" where
  "sum_totals as = foldl (\<lambda>t a. \<lparr>tl_pool_fee = sat_add_i64 (tl_pool_fee t) (pool_fee_sompi a),
       tl_nacho = sat_add_i64 (tl_nacho t) (nacho_accrual_sompi a),
       tl_net = sat_add_i64 (tl_net t) (net_payout_sompi a)\<rparr>)
     \<lparr>tl_pool_fee = 0, tl_nacho = 0, tl_net = 0\<rparr> as"

text \<open>\<open>i16::try_from(x).unwrap_or(i16::MAX)\<close>.\<close>

definition bps_to_i16 :: "nat \<Rightarrow> int" where
  "bps_to_i16 n = (if n \<le> 32767 then int n else 32767)"

type_synonym classifier = "string \<Rightarrow> string + wallet_tier"

definition lookup_wallet_addr :: "wallet_id \<Rightarrow> ('z pool_db_scheme, allocation_engine_error, string) act" where
  "lookup_wallet_addr w =
     bindE (map_err AeDb (sql (\<lambda>s. case List.find (\<lambda>r. w_id r = w) (wallets s) of
              None \<Rightarrow> (Inl RowNotFound, s) | Some r \<Rightarrow> (Inr (w_address r), s)))) (\<lambda>addr.
     case WalletAddress_new addr of
       Inl _ \<Rightarrow> raise (InvalidWalletAddress addr) | Inr a \<Rightarrow> ret a)"

definition classify_all ::
  "classifier \<Rightarrow> share_window list \<Rightarrow> ('z pool_db_scheme, allocation_engine_error, wallet_tier list) act" where
  "classify_all classify ws = foldE (\<lambda>tiers w.
     bindE (lookup_wallet_addr (sw_wallet w)) (\<lambda>addr.
     ret (tiers @ [case classify addr of Inl _ \<Rightarrow> Standard | Inr t \<Rightarrow> t]))) [] ws"

fun compute_all :: "fee_config \<Rightarrow> (int \<times> wallet_tier) list \<Rightarrow> allocation_error + allocation list" where
  "compute_all fee [] = Inr []"
| "compute_all fee ((g, t) # xs) =
     (case compute_allocation fee g t of
        Inl e \<Rightarrow> Inl e
      | Inr a \<Rightarrow> (case compute_all fee xs of Inl e \<Rightarrow> Inl e | Inr as \<Rightarrow> Inr (a # as)))"

definition new_row :: "f64 \<Rightarrow> share_window \<Rightarrow> allocation \<Rightarrow> new_allocation" where
  "new_row total_weight w a =
     \<lparr>na_wallet = sw_wallet w, na_weight = sw_total_weight w, na_window_total = total_weight,
      na_gross = gross_sompi a, na_pool_fee = pool_fee_sompi a, na_nacho = nacho_accrual_sompi a,
      na_net = net_payout_sompi a, na_topline_bps = bps_to_i16 (applied_topline_bps a),
      na_rebate_bps = bps_to_i16 (applied_rebate_bps a), na_tier = applied_tier a\<rparr>"

abbreviation stop_db :: "('z, 'a) db_act \<Rightarrow> ('z pool_db_scheme, allocation_stop, 'a) act" where
  "stop_db m \<equiv> map_err (\<lambda>e. StopErr (AeDb e)) m"

text \<open>Lock the reward row and leave when it is missing or already allocated.\<close>

definition gate_reward :: "int \<Rightarrow> ('z pool_db_scheme, allocation_stop, unit) act" where
  "gate_reward rid =
     bindE (stop_db (lock_for_allocation rid)) (\<lambda>row.
     case row of
       None \<Rightarrow> raise (StopErr (UnknownReward rid))
     | Some r \<Rightarrow> if cr_allocated_at r \<noteq> None then raise StopAlready else ret ())"

definition accrue_all :: "(share_window \<times> allocation) list \<Rightarrow> ('z pool_db_scheme, allocation_stop, unit) act" where
  "accrue_all ws = foldE (\<lambda>_ (w, a).
     if 0 < nacho_accrual_sompi a
     then bindE (stop_db (rebate_accrue (sw_wallet w) (nacho_accrual_sompi a))) (\<lambda>_. ret ())
     else ret ()) () ws"

definition record_allocation ::
  "string \<Rightarrow> int \<Rightarrow> share_window list \<Rightarrow> f64 \<Rightarrow> allocation list \<Rightarrow> ('z pool_db_scheme, allocation_stop, unit) act" where
  "record_allocation instance_id rid ws total_weight as =
     bindE (gate_reward rid) (\<lambda>_.
     bindE (stop_db (insert_batch rid (map2 (new_row total_weight) ws as))) (\<lambda>_.
     bindE (accrue_all (zip ws as)) (\<lambda>_.
     bindE (stop_db (mark_allocated rid)) (\<lambda>_.
     bindE (stop_db (audit_append instance_id ''coinbase_reward.allocated'' (''coinbase_reward'', rid))) (\<lambda>_.
     ret ())))))"

text \<open>Run the transaction; an early return drops it, which rolls it back.\<close>

definition run_gated ::
  "('z pool_db_scheme, allocation_stop, unit) act \<Rightarrow> allocation_outcome \<Rightarrow>
   ('z pool_db_scheme, allocation_engine_error, allocation_outcome) act" where
  "run_gated body outcome s =
     (case transaction body (\<lambda>e. StopErr (AeDb e)) s of
        (Inr _, t) \<Rightarrow> (Inr outcome, t)
      | (Inl StopAlready, t) \<Rightarrow> (Inr AlreadyAllocated, t)
      | (Inl (StopErr e), t) \<Rightarrow> (Inl e, t))"

definition finalise_empty ::
  "string \<Rightarrow> int \<Rightarrow> int \<Rightarrow> ('z pool_db_scheme, allocation_engine_error, allocation_outcome) act" where
  "finalise_empty instance_id rid reward = run_gated
     (bindE (gate_reward rid) (\<lambda>_.
      bindE (stop_db (mark_allocated rid)) (\<lambda>_.
      bindE (stop_db (audit_append instance_id ''coinbase_reward.allocated_empty'' (''coinbase_reward'', rid))) (\<lambda>_.
      ret ())))) (NoContributingWallets reward)"

definition distribute ::
  "fee_config \<Rightarrow> classifier \<Rightarrow> string \<Rightarrow> int \<Rightarrow> int \<Rightarrow> share_window list \<Rightarrow>
   ('z pool_db_scheme, allocation_engine_error, allocation_outcome) act" where
  "distribute fee classify instance_id rid reward ws =
     (let total_weight = f64_sum (map sw_total_weight ws)
      in if \<not> f64_is_finite total_weight \<or> f64_le total_weight (Fin 0)
         then raise (InvalidWindowWeight total_weight)
         else
           let shares = map (\<lambda>w. pro_rate reward (sw_total_weight w) total_weight) ws;
               summed = sum_list shares
           in if \<not> in_i64 summed then raise AePanic
              else
                let residue = sat_sub_i64 reward summed;
                    grosses = assign_residue (map sw_wallet ws) residue shares
                in bindE (classify_all classify ws) (\<lambda>tiers.
                   bindE (map_err AeMath (lift_sum (compute_all fee (zip grosses tiers)))) (\<lambda>as.
                   let t = sum_totals as
                   in run_gated (record_allocation instance_id rid ws total_weight as)
                        (Allocated (length ws) (tl_net t) (tl_nacho t) (tl_pool_fee t) residue))))"

definition allocate_coinbase_reward ::
  "fee_config \<Rightarrow> classifier \<Rightarrow> string \<Rightarrow> int \<Rightarrow> int \<Rightarrow> nat \<Rightarrow> nat \<Rightarrow>
   ('z pool_db_scheme, allocation_engine_error, allocation_outcome) act" where
  "allocate_coinbase_reward fee classify instance_id rid reward daa_start daa_end =
     (if reward < 0 then raise (AeMath (NegativeGross reward))
      else
        bindE (bindE (gets now) (\<lambda>t. map_err AeDb (close_window daa_start daa_end t))) (\<lambda>_.
        bindE (map_err AeDb (list_for_window daa_start daa_end)) (\<lambda>ws.
        if ws = [] then finalise_empty instance_id rid reward
        else distribute fee classify instance_id rid reward ws)))"

section \<open>Shares of a reward\<close>

lemma pro_rate_nonneg: "0 \<le> reward \<Longrightarrow> 0 \<le> pro_rate reward w t"
proof -
  have "0 \<le> f64_as_i64 v" if "\<not> f64_le v (Fin 0)" for v
  proof (cases v)
    case (Fin x)
    then have "0 < x" using that by simp
    then have "0 \<le> \<lfloor>x\<rfloor>" by simp
    with \<open>0 < x\<close> Fin show ?thesis by (simp add: clamp_i64_def trunc_rat_def)
  qed (use that in simp_all)
  then show "0 \<le> reward \<Longrightarrow> 0 \<le> pro_rate reward w t"
    by (auto simp: pro_rate_def Let_def)
qed

lemma pro_rate_le:
  assumes "0 \<le> reward" and "reward < 2 ^ 53"
  shows "pro_rate reward w t \<le> reward"
proof -
  have "f64_as_i64 v \<le> reward" if "\<not> f64_le v (Fin 0)" "\<not> f64_le (Fin (of_int reward)) v" for v
  proof (cases v)
    case (Fin x)
    then have "0 < x" "x < of_int reward" using that by auto
    then have "\<lfloor>x\<rfloor> \<le> reward" "0 \<le> \<lfloor>x\<rfloor>" by linarith+
    then show ?thesis using Fin \<open>0 < x\<close> assms by (simp add: trunc_rat_def clamp_i64_def)
  qed (use that assms in auto)
  moreover have "f64_of_int reward = Fin (of_int reward)" using assms by (intro f64_of_int_exact) simp
  ultimately show ?thesis using assms(1) by (auto simp: pro_rate_def Let_def)
qed

text \<open>
  The share of one wallet is between nothing and the whole reward for every reward below
  \<open>2 ^ 53\<close> sompi, whatever the two weights are, infinities and NaN included.
\<close>

theorem pro_rate_in_range:
  assumes "0 \<le> reward" and "reward < 2 ^ 53"
  shows "0 \<le> pro_rate reward weight total_weight \<and> pro_rate reward weight total_weight \<le> reward"
  using pro_rate_nonneg pro_rate_le assms by blast

theorem pro_rate_in_range_witness:
  "0 \<le> pro_rate 6000000000 NaN PInf \<and> pro_rate 6000000000 NaN PInf \<le> 6000000000"
  using pro_rate_in_range[of 6000000000 NaN PInf] by simp

lemma residue_slot_lt: "ws \<noteq> [] \<Longrightarrow> residue_slot ws < length ws"
proof -
  assume "ws \<noteq> []"
  then have "sort_key (\<lambda>i. ws ! i) [0..<length ws] \<noteq> []" by (metis length_0_conv length_sort length_upt minus_nat.diff_0)
  from hd_in_set[OF this] show ?thesis unfolding residue_slot_def by simp
qed

lemma sum_list_ge_nth: "i < length xs \<Longrightarrow> (\<And>x. x \<in> set xs \<Longrightarrow> 0 \<le> x) \<Longrightarrow> xs ! i \<le> sum_list (xs :: int list)"
  by (meson elem_le_sum_list member_le_sum_list nth_mem sum_list_nonneg)

lemma assign_residue_sum:
  assumes "0 \<le> reward" and "reward \<le> i64_max" and "\<And>x. x \<in> set gs \<Longrightarrow> 0 \<le> x" and "in_i64 (sum_list gs)"
    and "ws \<noteq> []" and "length gs = length ws"
  shows "sum_list (assign_residue ws (sat_sub_i64 reward (sum_list gs)) gs) = reward"
proof -
  let ?i = "residue_slot ws"
  have i: "?i < length gs" using residue_slot_lt[OF assms(5)] assms(6) by simp
  have nn: "0 \<le> sum_list gs" "0 \<le> gs ! ?i" using assms(3) i by (auto intro: sum_list_nonneg)
  have le: "gs ! ?i \<le> sum_list gs" using sum_list_ge_nth[OF i] assms(3) by blast
  have r: "sat_sub_i64 reward (sum_list gs) = reward - sum_list gs"
    using assms(1,2,4) nn by (simp add: sat_sub_i64_def in_i64_def)
  have "sat_add_i64 (gs ! ?i) (reward - sum_list gs) = gs ! ?i + (reward - sum_list gs)"
    unfolding sat_add_i64_def using assms(1,2,4) nn le by (intro clamp_i64_id) (simp add: in_i64_def)
  then show ?thesis
    unfolding r assign_residue_def Let_def using assms(5) i sum_list_update_add[OF i, of "reward - sum_list gs"] by simp
qed

lemma length_assign_residue: "length (assign_residue ws r gs) = length gs"
  by (simp add: assign_residue_def Let_def)

lemma compute_all_Inr:
  "compute_all fee xs = Inr as \<Longrightarrow> map gross_sompi as = map fst xs \<and> list_all is_balanced as"
proof (induction fee xs arbitrary: as rule: compute_all.induct)
  case (2 fee g t xs)
  then show ?case by (auto split: sum.splits dest!: compute_allocation_gross)
qed simp

section \<open>The books\<close>

text \<open>The tables an allocation writes, and the clock its stamps come from.\<close>

definition books :: "share_allocation list \<Rightarrow> coinbase_reward list \<Rightarrow> nacho_rebate list \<Rightarrow> audit_entry list \<Rightarrow>
    timestamp \<Rightarrow> 'z pool_db_scheme \<Rightarrow> bool" where
  "books a r b u n s \<longleftrightarrow> allocs s = a \<and> rewards s = r \<and> rebates s = b \<and> audit s = u \<and> now s = n"

abbreviation same_books :: "'z pool_db_scheme \<Rightarrow> 'z pool_db_scheme \<Rightarrow> bool" where
  "same_books s \<equiv> books (allocs s) (rewards s) (rebates s) (audit s) (now s)"

lemma books_inv [simp]: "db_inv (books a r b u n)"
  by (simp add: db_inv_def books_def)

lemma preserves_books_reads:
  "preserves (books a r b u n) (close_window x y t)" "preserves (books a r b u n) (list_for_window x y)"
  "preserves (books a r b u n) (classify_all c ws)"
proof -
  have "preserves (books a r b u n) (materialise lo hi t)" "preserves (books a r b u n) (window_totals lo hi)" for lo hi
    unfolding materialise_def window_totals_def
    by (intro preserves_sql books_inv preservesI; simp add: Let_def books_def)+
  then show "preserves (books a r b u n) (close_window x y t)"
    unfolding close_window_def Let_def by (intro preserves_rules books_inv)
  show "preserves (books a r b u n) (list_for_window x y)"
    unfolding list_for_window_def by (intro preserves_rules books_inv)
  have "preserves (books a r b u n) (lookup_wallet_addr w)" for w
    unfolding lookup_wallet_addr_def
    by (intro preserves_rules books_inv) (simp add: preserves_def split: option.split)
  then show "preserves (books a r b u n) (classify_all c ws)"
    unfolding classify_all_def by (intro preserves_rules)
qed

lemma run_gated_cases:
  obtains (stopped) x n where "run_gated body out s = (x, s\<lparr>calls := n\<rparr>)"
      "(\<exists>e. x = Inl e) \<or> x = Inr AlreadyAllocated"
  | (committed) u where "run_gated body out s = (Inr out, u\<lparr>calls := Suc (calls u)\<rparr>)"
      "body (s\<lparr>calls := Suc (calls s)\<rparr>) = (Inr (), u)"
proof -
  obtain r t where tx: "transaction body (\<lambda>e. StopErr (AeDb e)) s = (r, t)" by fastforce
  show thesis
  proof (cases r)
    case (Inl x)
    with tx have t: "t = s\<lparr>calls := calls t\<rparr>" using transaction_Inl by metis
    have "run_gated body out s =
        ((case x of StopAlready \<Rightarrow> Inr AlreadyAllocated | StopErr e \<Rightarrow> Inl e), t)"
      using tx Inl by (simp add: run_gated_def split: allocation_stop.split)
    then show thesis by (subst (asm) t, intro stopped) (auto split: allocation_stop.split)
  next
    case (Inr x)
    with tx have "transaction body (\<lambda>e. StopErr (AeDb e)) s = (Inr (), t)" by simp
    then obtain v where "body (s\<lparr>calls := Suc (calls s)\<rparr>) = (Inr (), v)" "t = v\<lparr>calls := Suc (calls v)\<rparr>"
      by (rule transaction_Inr)
    with tx Inr show thesis by (intro committed[of v]) (simp_all add: run_gated_def)
  qed
qed

lemma gate_reward_Inr:
  assumes "gate_reward rid s = (Inr (), t)"
  shows "t = s\<lparr>calls := Suc (calls s)\<rparr>"
    and "\<exists>r. List.find (\<lambda>r. cr_id r = rid) (rewards s) = Some r \<and> cr_allocated_at r = None"
  using assms
  by (auto simp: gate_reward_def lock_for_allocation_def elim!: bindE_InrE dest!: sql_Inr split: option.splits if_splits)

text \<open>The stamp \<open>mark_allocated\<close> puts on a reward.\<close>

definition stamp_reward :: "int \<Rightarrow> timestamp \<Rightarrow> coinbase_reward list \<Rightarrow> coinbase_reward list" where
  "stamp_reward rid n rows = update_where (\<lambda>r. cr_id r = rid)
     (\<lambda>r. r\<lparr>cr_allocated_at := coalesce (cr_allocated_at r) (Some n)\<rparr>) rows"

lemma mark_allocated_Inr:
  "mark_allocated rid s = (Inr x, t) \<Longrightarrow>
   t = s\<lparr>calls := Suc (calls s), rewards := stamp_reward rid (now s) (rewards s)\<rparr>"
  by (auto simp: mark_allocated_def stamp_reward_def dest!: sql_Inr)

lemma audit_append_Inr:
  "audit_append a b c s = (Inr x, t) \<Longrightarrow>
   t = s\<lparr>calls := Suc (calls s), audit := audit s @ [\<lparr>au_actor = a, au_action = b, au_subject = c\<rparr>]\<rparr>"
  by (auto simp: audit_append_def dest!: sql_Inr split: if_splits)

text \<open>The rows of one reward: its whole amount, in balanced rows, one per wallet.\<close>

definition row_balanced :: "share_allocation \<Rightarrow> bool" where
  "row_balanced a \<longleftrightarrow> 0 \<le> sa_pool_fee a \<and> 0 \<le> sa_nacho a \<and> 0 \<le> sa_net a \<and>
     sa_gross a = sa_pool_fee a + sa_nacho a + sa_net a"

definition pays_reward :: "int \<Rightarrow> int \<Rightarrow> share_allocation list \<Rightarrow> bool" where
  "pays_reward rid reward rows \<longleftrightarrow> distinct (map sa_wallet rows) \<and>
     list_all (\<lambda>a. sa_reward a = rid \<and> row_balanced a) rows \<and> sum_list (map sa_gross rows) = reward"

lemma insert_batch_Inr:
  assumes "insert_batch rid rows s = (Inr k, t)" and "rows \<noteq> []"
  obtains new where "t = s\<lparr>calls := Suc (calls s), next_alloc := next_alloc s + int (length rows), allocs := allocs s @ new\<rparr>"
    and "map sa_wallet new = map na_wallet rows" and "map sa_gross new = map na_gross rows"
    and "map sa_nacho new = map na_nacho rows" and "map sa_net new = map na_net rows"
    and "map sa_pool_fee new = map na_pool_fee rows"
    and "pays_reward rid (sum_list (map na_gross rows)) new"
proof -
  let ?idx = "map (\<lambda>k. next_alloc s + int k) [0..<length rows]"
  let ?new = "map (\<lambda>(i, r). allocation_row rid (now s) i r) (zip ?idx rows)"
  have chk: "list_all allocation_checks rows" "distinct (map na_wallet rows)"
    and t: "t = s\<lparr>calls := Suc (calls s), next_alloc := next_alloc s + int (length rows), allocs := allocs s @ ?new\<rparr>"
    using assms by (auto simp: insert_batch_def Let_def dest!: sql_Inr split: if_splits)
  have proj: "map f ?new = map g rows" if "\<And>i r. f (allocation_row rid (now s) i r) = g r"
    for f :: "share_allocation \<Rightarrow> 'b" and g
  proof -
    have "map f ?new = map (g \<circ> snd) (zip ?idx rows)" using that by auto
    then show ?thesis by (metis map_map length_map length_upt diff_zero map_snd_zip)
  qed
  have w: "map sa_wallet ?new = map na_wallet rows" and g: "map sa_gross ?new = map na_gross rows"
    by (rule proj, simp add: allocation_row_def)+
  have bal: "sa_reward a = rid \<and> row_balanced a" if "a \<in> set ?new" for a
  proof -
    obtain i r where "a = allocation_row rid (now s) i r" "r \<in> set rows"
      using \<open>a \<in> set ?new\<close> by (auto dest: set_zip_rightD)
    then show ?thesis using chk(1) by (auto simp: list_all_iff allocation_checks_def allocation_row_def row_balanced_def)
  qed
  have "pays_reward rid (sum_list (map na_gross rows)) ?new"
    unfolding pays_reward_def w g list_all_iff using chk(2) bal by blast
  then show thesis
    using t w g by (intro that[of ?new] proj) (simp_all add: allocation_row_def)
qed

text \<open>What a wallet has accrued in rebates.\<close>

definition accrued_of :: "nacho_rebate list \<Rightarrow> wallet_id \<Rightarrow> int" where
  "accrued_of rows w = (case List.find (\<lambda>r. nr_wallet r = w) rows of None \<Rightarrow> 0 | Some r \<Rightarrow> nr_accrued r)"

lemma find_update_where:
  assumes "\<And>r. P r \<Longrightarrow> Q (f r) = Q r"
  shows "List.find Q (update_where P f rows) = map_option (\<lambda>r. if P r then f r else r) (List.find Q rows)"
  using assms by (induction rows) (auto simp: update_where_def)

lemma rebate_accrue_Inr:
  assumes "rebate_accrue w d s = (Inr x, t)"
  shows "\<exists>b. t = s\<lparr>calls := Suc (calls s), rebates := b\<rparr> \<and>
    (\<forall>v. accrued_of b v = accrued_of (rebates s) v + (if v = w then d else 0))"
proof (cases "List.find (\<lambda>r. nr_wallet r = w) (rebates s)")
  case None
  let ?row = "\<lparr>nr_wallet = w, nr_accrued = d, nr_paid = 0, nr_updated_at = now s\<rparr>"
  have t: "t = s\<lparr>calls := Suc (calls s), rebates := rebates s @ [?row]\<rparr>"
    using assms None by (auto simp: rebate_accrue_def rebate_upsert_def Let_def dest!: sql_Inr split: if_splits)
  have "accrued_of (rebates s @ [?row]) v = accrued_of (rebates s) v + (if v = w then d else 0)" for v
    using None by (auto simp: accrued_of_def find_append split: option.split)
  with t show ?thesis by blast
next
  case (Some r)
  let ?row = "r\<lparr>nr_accrued := nr_accrued r + d, nr_updated_at := now s\<rparr>"
  let ?b = "update_where (\<lambda>x. nr_wallet x = w) (\<lambda>_. ?row) (rebates s)"
  have t: "t = s\<lparr>calls := Suc (calls s), rebates := ?b\<rparr>"
    using assms Some by (auto simp: rebate_accrue_def rebate_upsert_def Let_def dest!: sql_Inr split: if_splits)
  have w: "nr_wallet r = w" using find_Some_iff_in[OF Some] by simp
  have "accrued_of ?b v = accrued_of (rebates s) v + (if v = w then d else 0)" for v
  proof -
    have "List.find (\<lambda>x. nr_wallet x = v) ?b =
        map_option (\<lambda>x. if nr_wallet x = w then ?row else x) (List.find (\<lambda>x. nr_wallet x = v) (rebates s))"
      by (rule find_update_where) (simp add: w)
    then show ?thesis using Some
      by (auto simp: accrued_of_def dest!: find_Some_iff_in split: option.split)
  qed
  with t show ?thesis by blast
qed

lemma accrue_all_Inr:
  assumes "accrue_all xs s = (Inr x, t)" and "\<forall>(w, a) \<in> set xs. 0 \<le> nacho_accrual_sompi a"
  shows "\<exists>b n. t = s\<lparr>calls := n, rebates := b\<rparr> \<and> (\<forall>v. accrued_of b v = accrued_of (rebates s) v +
    sum_list (map (\<lambda>(w, a). if sw_wallet w = v then nacho_accrual_sompi a else 0) xs))"
  using assms
proof (induction xs arbitrary: s)
  case Nil
  then show ?case by (auto simp: accrue_all_def intro!: exI[of _ "rebates t"] exI[of _ "calls t"])
next
  case (Cons y xs)
  obtain w a where y: "y = (w, a)" by fastforce
  let ?d = "nacho_accrual_sompi a"
  obtain u where hd: "(if 0 < ?d then bindE (stop_db (rebate_accrue (sw_wallet w) ?d)) (\<lambda>_. ret ()) else ret ()) s = (Inr (), u)"
    and tl: "accrue_all xs u = (Inr x, t)"
    using Cons.prems(1) unfolding accrue_all_def y by (elim foldE_ConsE) auto
  have "\<exists>b n. u = s\<lparr>calls := n, rebates := b\<rparr> \<and>
      (\<forall>v. accrued_of b v = accrued_of (rebates s) v + (if sw_wallet w = v then ?d else 0))"
  proof (cases "0 < ?d")
    case True
    then have "\<exists>x. rebate_accrue (sw_wallet w) ?d s = (Inr x, u)"
      using hd by (auto elim!: bindE_InrE)
    then obtain b where "u = s\<lparr>calls := Suc (calls s), rebates := b\<rparr>"
      "\<forall>v. accrued_of b v = accrued_of (rebates s) v + (if v = sw_wallet w then ?d else 0)"
      using rebate_accrue_Inr by blast
    then show ?thesis by (intro exI[of _ b] exI[of _ "Suc (calls s)"]) auto
  next
    case False
    then have "?d = 0" "u = s" using Cons.prems(2) hd y by auto
    then show ?thesis by (auto intro!: exI[of _ "rebates s"] exI[of _ "calls s"])
  qed
  then obtain b n where u: "u = s\<lparr>calls := n, rebates := b\<rparr>"
    and b: "\<And>v. accrued_of b v = accrued_of (rebates s) v + (if sw_wallet w = v then ?d else 0)" by blast
  obtain b' n' where t: "t = u\<lparr>calls := n', rebates := b'\<rparr>"
    and b': "\<And>v. accrued_of b' v = accrued_of (rebates u) v +
      sum_list (map (\<lambda>(w, a). if sw_wallet w = v then nacho_accrual_sompi a else 0) xs)"
    using Cons.IH[OF tl] Cons.prems(2) by auto
  have "t = s\<lparr>calls := n', rebates := b'\<rparr>" using t u by simp
  moreover have "accrued_of b' v = accrued_of (rebates s) v +
      sum_list (map (\<lambda>(w, a). if sw_wallet w = v then nacho_accrual_sompi a else 0) (y # xs))" for v
    using b[of v] b'[of v] u y by simp
  ultimately show ?case by blast
qed

lemma accrual_per_wallet:
  assumes "length as = length ws" and "map sa_wallet new = map sw_wallet ws"
    and "map sa_nacho new = map nacho_accrual_sompi as"
  shows "sum_list (map (\<lambda>(w, a). if sw_wallet w = v then nacho_accrual_sompi a else 0) (zip ws as)) =
    sum_list (map sa_nacho (filter (\<lambda>a. sa_wallet a = v) new))"
proof -
  have "length ws = length new" using assms(2) by (metis length_map)
  with assms(1) show ?thesis using assms(2,3)
    by (induction as ws new rule: list_induct3) auto
qed

text \<open>The committed transaction, table by table.\<close>

lemma record_allocation_Inr:
  assumes rec: "record_allocation iid rid ws tw as s = (Inr (), t)"
    and len: "length as = length ws" and ne: "ws \<noteq> []"
    and nacho: "\<forall>a \<in> set as. 0 \<le> nacho_accrual_sompi a"
  obtains new n k b where
    "t = s\<lparr>calls := n, next_alloc := k, allocs := allocs s @ new, rebates := b,
          rewards := stamp_reward rid (now s) (rewards s),
          audit := audit s @ [\<lparr>au_actor = iid, au_action = ''coinbase_reward.allocated'',
                               au_subject = (''coinbase_reward'', rid)\<rparr>]\<rparr>"
    and "\<exists>r. List.find (\<lambda>r. cr_id r = rid) (rewards s) = Some r \<and> cr_allocated_at r = None"
    and "pays_reward rid (sum_list (map gross_sompi as)) new"
    and "map sa_wallet new = map sw_wallet ws" and "map sa_net new = map net_payout_sompi as"
    and "map sa_pool_fee new = map pool_fee_sompi as" and "map sa_nacho new = map nacho_accrual_sompi as"
    and "\<forall>v. accrued_of b v = accrued_of (rebates s) v + sum_list (map sa_nacho (filter (\<lambda>a. sa_wallet a = v) new))"
proof -
  let ?rows = "map2 (new_row tw) ws as"
  obtain s1 s2 s3 s4 k where g: "gate_reward rid s = (Inr (), s1)"
    and i: "insert_batch rid ?rows s1 = (Inr k, s2)" and a: "accrue_all (zip ws as) s2 = (Inr (), s3)"
    and m: "mark_allocated rid s3 = (Inr (), s4)"
    and u: "\<exists>x. audit_append iid ''coinbase_reward.allocated'' (''coinbase_reward'', rid) s4 = (Inr x, t)"
    using rec unfolding record_allocation_def by (auto elim!: bindE_InrE)
  have proj: "map f ?rows = map h as" if "\<And>w x. f (new_row tw w x) = h x" for f :: "new_allocation \<Rightarrow> int" and h
  proof -
    have "map f ?rows = map (h \<circ> snd) (zip ws as)" using that by auto
    then show ?thesis by (metis map_map len map_snd_zip)
  qed
  have w: "map na_wallet ?rows = map sw_wallet ws"
  proof -
    have "map na_wallet ?rows = map (sw_wallet \<circ> fst) (zip ws as)" by (auto simp: new_row_def)
    then show ?thesis by (metis map_map len map_fst_zip)
  qed
  have ne': "?rows \<noteq> []" using ne len by (cases ws; cases as) auto
  obtain new where s2: "s2 = s1\<lparr>calls := Suc (calls s1), next_alloc := next_alloc s1 + int (length ?rows), allocs := allocs s1 @ new\<rparr>"
    and nw: "map sa_wallet new = map na_wallet ?rows" and nn: "map sa_nacho new = map na_nacho ?rows"
    and nt: "map sa_net new = map na_net ?rows" and np: "map sa_pool_fee new = map na_pool_fee ?rows"
    and pay: "pays_reward rid (sum_list (map na_gross ?rows)) new"
    by (rule insert_batch_Inr[OF i ne'])
  have pos: "\<forall>(w, a) \<in> set (zip ws as). 0 \<le> nacho_accrual_sompi a"
    using nacho by (auto dest: set_zip_rightD)
  obtain b n where s3: "s3 = s2\<lparr>calls := n, rebates := b\<rparr>" and b: "\<And>v. accrued_of b v = accrued_of (rebates s2) v +
    sum_list (map (\<lambda>(w, a). if sw_wallet w = v then nacho_accrual_sompi a else 0) (zip ws as))"
    using accrue_all_Inr[OF a pos] by blast
  have acc: "sum_list (map (\<lambda>(w, a). if sw_wallet w = v then nacho_accrual_sompi a else 0) (zip ws as)) =
      sum_list (map sa_nacho (filter (\<lambda>a. sa_wallet a = v) new))" for v
    using accrual_per_wallet[OF len, of new] nw nn w proj[of na_nacho nacho_accrual_sompi] by (simp add: new_row_def)
  note s1 = gate_reward_Inr[OF g]
  have s4: "s4 = s3\<lparr>calls := Suc (calls s3), rewards := stamp_reward rid (now s3) (rewards s3)\<rparr>"
    using mark_allocated_Inr[OF m] .
  have t: "t = s4\<lparr>calls := Suc (calls s4), audit := audit s4 @
      [\<lparr>au_actor = iid, au_action = ''coinbase_reward.allocated'', au_subject = (''coinbase_reward'', rid)\<rparr>]\<rparr>"
    using u audit_append_Inr by blast
  show thesis
  proof (rule that)
    show "t = s\<lparr>calls := calls t, next_alloc := next_alloc s + int (length ?rows), allocs := allocs s @ new, rebates := b,
          rewards := stamp_reward rid (now s) (rewards s),
          audit := audit s @ [\<lparr>au_actor = iid, au_action = ''coinbase_reward.allocated'',
                               au_subject = (''coinbase_reward'', rid)\<rparr>]\<rparr>"
      by (simp add: t s4 s3 s2 s1(1))
    show "\<forall>v. accrued_of b v = accrued_of (rebates s) v + sum_list (map sa_nacho (filter (\<lambda>a. sa_wallet a = v) new))"
      using b acc s2 s1(1) by simp
  qed (use s1(2) pay nw w nt np nn proj[of na_gross gross_sompi] proj[of na_net net_payout_sompi]
      proj[of na_pool_fee pool_fee_sompi] proj[of na_nacho nacho_accrual_sompi] in \<open>simp_all add: new_row_def\<close>)
qed

lemma sum_totals_exact:
  assumes "\<And>a. a \<in> set as \<Longrightarrow> 0 \<le> pool_fee_sompi a \<and> 0 \<le> nacho_accrual_sompi a \<and> 0 \<le> net_payout_sompi a \<and> is_balanced a"
    and "sum_list (map gross_sompi as) \<le> i64_max"
  shows "sum_totals as = \<lparr>tl_pool_fee = sum_list (map pool_fee_sompi as),
    tl_nacho = sum_list (map nacho_accrual_sompi as), tl_net = sum_list (map net_payout_sompi as)\<rparr>"
  using assms
proof (induction as rule: rev_induct)
  case Nil
  then show ?case by (simp add: sum_totals_def)
next
  case (snoc a as)
  have nn: "0 \<le> sum_list (map pool_fee_sompi as)" "0 \<le> sum_list (map nacho_accrual_sompi as)"
    "0 \<le> sum_list (map net_payout_sompi as)"
    using snoc.prems(1) by (auto intro!: sum_list_nonneg)
  have g: "sum_list (map gross_sompi xs) = sum_list (map pool_fee_sompi xs) + sum_list (map nacho_accrual_sompi xs) +
      sum_list (map net_payout_sompi xs)" if "\<And>a. a \<in> set xs \<Longrightarrow> is_balanced a" for xs
    using that by (induction xs) (auto simp: is_balanced_def)
  have bal: "sum_list (map gross_sompi as) = sum_list (map pool_fee_sompi as) + sum_list (map nacho_accrual_sompi as) +
      sum_list (map net_payout_sompi as)" using snoc.prems(1) by (intro g) simp
  have a: "gross_sompi a = pool_fee_sompi a + nacho_accrual_sompi a + net_payout_sompi a" "0 \<le> pool_fee_sompi a"
    "0 \<le> nacho_accrual_sompi a" "0 \<le> net_payout_sompi a"
    using snoc.prems(1)[of a] by (auto simp: is_balanced_def)
  have le: "sum_list (map gross_sompi as) + gross_sompi a \<le> i64_max" using snoc.prems(2) by simp
  have IH: "sum_totals as = \<lparr>tl_pool_fee = sum_list (map pool_fee_sompi as),
    tl_nacho = sum_list (map nacho_accrual_sompi as), tl_net = sum_list (map net_payout_sompi as)\<rparr>"
    using snoc.prems(1) le a by (intro snoc.IH) (simp, linarith)
  have rng: "in_i64 (sum_list (map pool_fee_sompi as) + pool_fee_sompi a)"
    "in_i64 (sum_list (map nacho_accrual_sompi as) + nacho_accrual_sompi a)"
    "in_i64 (sum_list (map net_payout_sompi as) + net_payout_sompi a)"
    using nn a le bal by (simp_all add: in_i64_def)
  show ?case using IH rng by (simp add: sum_totals_def sat_add_i64_def)
qed

lemma compute_all_sound:
  assumes "wf_fee fee" and "compute_all fee xs = Inr as" and "a \<in> set as"
  shows "0 \<le> pool_fee_sompi a \<and> 0 \<le> nacho_accrual_sompi a \<and> 0 \<le> net_payout_sompi a \<and> is_balanced a"
  using assms
proof (induction fee xs arbitrary: as rule: compute_all.induct)
  case (2 fee g t xs)
  then show ?case using compute_allocation_sound[of fee g t]
    by (auto simp: sound_allocation_def split: sum.splits)
qed simp

lemma classify_all_length:
  "classify_all c ws s = (Inr tiers, t) \<Longrightarrow> length tiers = length ws"
  unfolding classify_all_def by (drule foldE_length[rotated]) (auto elim!: bindE_InrE)

section \<open>What an allocation does\<close>

definition open_reward :: "int \<Rightarrow> coinbase_reward list \<Rightarrow> bool" where
  "open_reward rid rows \<longleftrightarrow>
     (case List.find (\<lambda>r. cr_id r = rid) rows of None \<Rightarrow> False | Some r \<Rightarrow> cr_allocated_at r = None)"

definition window_wallets :: "nat \<Rightarrow> nat \<Rightarrow> share_window list \<Rightarrow> wallet_id set" where
  "window_wallets daa_start daa_end rows = sw_wallet ` {w \<in> set rows.
     sw_daa_start w = u64_as_i64 daa_start \<and> sw_daa_end w = u64_as_i64 daa_end}"

text \<open>
  The contract of one allocation, by result: the whole reward in balanced rows and a stamp; a
  stamp only; or untouched books.
\<close>

fun allocation_effect :: "int \<Rightarrow> int \<Rightarrow> wallet_id set \<Rightarrow> 'z pool_db_scheme \<Rightarrow>
    allocation_engine_error + allocation_outcome \<Rightarrow> 'z pool_db_scheme \<Rightarrow> bool" where
  "allocation_effect rid reward ws s (Inr (Allocated n net nacho fee residue)) t \<longleftrightarrow>
     open_reward rid (rewards s) \<and> rewards t = stamp_reward rid (now s) (rewards s) \<and>
     (\<exists>new. allocs t = allocs s @ new \<and> pays_reward rid reward new \<and> set (map sa_wallet new) = ws \<and>
        n = length new \<and> net = sum_list (map sa_net new) \<and> nacho = sum_list (map sa_nacho new) \<and>
        fee = sum_list (map sa_pool_fee new) \<and> net + nacho + fee = reward \<and>
        (\<forall>v. accrued_of (rebates t) v =
           accrued_of (rebates s) v + sum_list (map sa_nacho (filter (\<lambda>a. sa_wallet a = v) new))))"
| "allocation_effect rid reward ws s (Inr (NoContributingWallets retained)) t \<longleftrightarrow>
     open_reward rid (rewards s) \<and> rewards t = stamp_reward rid (now s) (rewards s) \<and>
     ws = {} \<and> retained = reward \<and> allocs t = allocs s \<and> rebates t = rebates s"
| "allocation_effect rid reward ws s (Inr AlreadyAllocated) t \<longleftrightarrow> same_books s t"
| "allocation_effect rid reward ws s (Inl e) t \<longleftrightarrow> same_books s t"

lemma allocation_effect_stopped:
  assumes "(\<exists>e. x = Inl e) \<or> x = Inr AlreadyAllocated" and "same_books s t"
  shows "allocation_effect rid reward ws s x t"
  using assms by auto

lemma open_rewardI:
  "\<exists>r. List.find (\<lambda>r. cr_id r = rid) rows = Some r \<and> cr_allocated_at r = None \<Longrightarrow> open_reward rid rows"
  by (auto simp: open_reward_def)

text \<open>Either exit of a gated transaction, given the effect of its committed body.\<close>

lemma run_gated_effect:
  assumes "run_gated body out s = (x, t)"
    and "\<And>u. body (s\<lparr>calls := Suc (calls s)\<rparr>) = (Inr (), u) \<Longrightarrow>
      allocation_effect rid reward ws s (Inr out) (u\<lparr>calls := Suc (calls u)\<rparr>)"
  shows "allocation_effect rid reward ws s x t"
  using assms(1)
proof (cases rule: run_gated_cases[of body out s])
  case (stopped y n)
  with assms(1) have "x = y" "same_books s t" by (auto simp: books_def)
  with stopped(2) show ?thesis by (intro allocation_effect_stopped) auto
next
  case (committed u)
  with assms show ?thesis by auto
qed

lemma finalise_empty_effect:
  assumes "finalise_empty iid rid reward s = (x, t)"
  shows "allocation_effect rid reward {} s x t"
  using assms unfolding finalise_empty_def
proof (rule run_gated_effect)
  fix u
  assume body: "bindE (gate_reward rid) (\<lambda>_. bindE (stop_db (mark_allocated rid)) (\<lambda>_.
      bindE (stop_db (audit_append iid ''coinbase_reward.allocated_empty'' (''coinbase_reward'', rid))) (\<lambda>_.
      ret ()))) (s\<lparr>calls := Suc (calls s)\<rparr>) = (Inr (), u)"
  then obtain s1 s2 where g: "gate_reward rid (s\<lparr>calls := Suc (calls s)\<rparr>) = (Inr (), s1)"
    and m: "mark_allocated rid s1 = (Inr (), s2)"
    and a: "\<exists>x. audit_append iid ''coinbase_reward.allocated_empty'' (''coinbase_reward'', rid) s2 = (Inr x, u)"
    by (auto elim!: bindE_InrE)
  from a have u: "u = s2\<lparr>calls := Suc (calls s2), audit := audit s2 @ [\<lparr>au_actor = iid,
      au_action = ''coinbase_reward.allocated_empty'', au_subject = (''coinbase_reward'', rid)\<rparr>]\<rparr>"
    using audit_append_Inr by blast
  show "allocation_effect rid reward {} s (Inr (NoContributingWallets reward)) (u\<lparr>calls := Suc (calls u)\<rparr>)"
    using gate_reward_Inr[OF g] mark_allocated_Inr[OF m] by (simp add: u open_rewardI)
qed

lemma allocation_effect_start:
  assumes "same_books s s1" and "allocation_effect rid reward ws s1 x t"
  shows "allocation_effect rid reward ws s x t"
proof -
  consider e where "x = Inl e" | n net nacho fee residue where "x = Inr (Allocated n net nacho fee residue)"
    | "x = Inr AlreadyAllocated" | k where "x = Inr (NoContributingWallets k)"
    by (cases x; metis allocation_outcome.exhaust)
  then show ?thesis using assms by cases (simp_all add: books_def)
qed

text \<open>The gross shares handed to the fee split add up to the reward.\<close>

lemma grosses_sum:
  assumes "0 \<le> reward" and "reward \<le> i64_max" and "ws \<noteq> []"
    and "gs = map (\<lambda>w. pro_rate reward (sw_total_weight w) tw) ws" and "in_i64 (sum_list gs)"
  shows "sum_list (assign_residue (map sw_wallet ws) (sat_sub_i64 reward (sum_list gs)) gs) = reward"
  using assms pro_rate_nonneg by (intro assign_residue_sum) auto

lemma record_allocation_effect:
  assumes fee: "wf_fee fee" and r: "reward \<le> i64_max" and ne: "ws \<noteq> []"
    and comp: "compute_all fee (zip grosses tiers) = Inr as"
    and len: "length grosses = length ws" "length tiers = length ws" and sum: "sum_list grosses = reward"
    and body: "record_allocation iid rid ws tw as (s\<lparr>calls := Suc (calls s)\<rparr>) = (Inr (), u)"
  shows "allocation_effect rid reward (sw_wallet ` set ws) s
    (Inr (Allocated (length ws) (tl_net (sum_totals as)) (tl_nacho (sum_totals as)) (tl_pool_fee (sum_totals as)) residue))
    (u\<lparr>calls := Suc (calls u)\<rparr>)"
proof -
  have gr: "map gross_sompi as = grosses" using compute_all_Inr[OF comp] len by simp
  then have la: "length as = length ws" using len by (metis length_map)
  note snd = compute_all_sound[OF fee comp]
  have tot: "sum_totals as = \<lparr>tl_pool_fee = sum_list (map pool_fee_sompi as),
    tl_nacho = sum_list (map nacho_accrual_sompi as), tl_net = sum_list (map net_payout_sompi as)\<rparr>"
    by (rule sum_totals_exact) (use snd gr sum r in auto)
  have bal: "sum_list (map gross_sompi xs) = sum_list (map net_payout_sompi xs) + sum_list (map nacho_accrual_sompi xs) +
      sum_list (map pool_fee_sompi xs)" if "\<And>a. a \<in> set xs \<Longrightarrow> is_balanced a" for xs
    using that by (induction xs) (auto simp: is_balanced_def)
  have nn: "\<forall>a \<in> set as. 0 \<le> nacho_accrual_sompi a" using snd by blast
  obtain new n k b where
    u: "u = s\<lparr>calls := n, next_alloc := k, allocs := allocs s @ new, rebates := b,
          rewards := stamp_reward rid (now s) (rewards s),
          audit := audit s @ [\<lparr>au_actor = iid, au_action = ''coinbase_reward.allocated'',
                               au_subject = (''coinbase_reward'', rid)\<rparr>]\<rparr>"
    and op: "\<exists>r. List.find (\<lambda>r. cr_id r = rid) (rewards s) = Some r \<and> cr_allocated_at r = None"
    and pay: "pays_reward rid reward new" and w: "map sa_wallet new = map sw_wallet ws"
    and m: "map sa_net new = map net_payout_sompi as" "map sa_pool_fee new = map pool_fee_sompi as"
      "map sa_nacho new = map nacho_accrual_sompi as"
    and acc: "\<forall>v. accrued_of b v = accrued_of (rebates s) v + sum_list (map sa_nacho (filter (\<lambda>a. sa_wallet a = v) new))"
    by (rule record_allocation_Inr[OF body la ne nn]) (rule that, simp add: gr sum, simp_all add: gr sum)
  have "length new = length ws" using w by (metis length_map)
  moreover have "set (map sa_wallet new) = sw_wallet ` set ws" using w by (metis set_map)
  moreover have "sum_list (map net_payout_sompi as) + sum_list (map nacho_accrual_sompi as) +
      sum_list (map pool_fee_sompi as) = reward"
    using bal[of as] snd gr sum by auto
  ultimately show ?thesis using pay op acc m by (auto simp: u tot open_rewardI intro!: exI[of _ new])
qed

lemma distribute_effect:
  assumes fee: "wf_fee fee" and r: "0 \<le> reward" "reward \<le> i64_max" and ne: "ws \<noteq> []"
    and d: "distribute fee classify iid rid reward ws s = (x, t)"
  shows "allocation_effect rid reward (sw_wallet ` set ws) s x t"
proof -
  let ?tw = "f64_sum (map sw_total_weight ws)"
  let ?gs = "map (\<lambda>w. pro_rate reward (sw_total_weight w) ?tw) ws"
  let ?g = "assign_residue (map sw_wallet ws) (sat_sub_i64 reward (sum_list ?gs)) ?gs"
  have refl: "same_books s s" by (simp add: books_def)
  show ?thesis
  proof (cases "(\<not> f64_is_finite ?tw \<or> f64_le ?tw (Fin 0)) \<or> \<not> in_i64 (sum_list ?gs)")
    case True
    then show ?thesis using d refl by (auto simp: distribute_def Let_def split: if_splits)
  next
    case False
    have keep: "same_books s (snd (classify_all classify ws s))"
      using preservesD[OF preserves_books_reads(3)] refl by blast
    obtain c s1 where c: "classify_all classify ws s = (c, s1)" by fastforce
    with keep have s1: "same_books s s1" by simp
    show ?thesis
    proof (cases "\<exists>tiers as. c = Inr tiers \<and> compute_all fee (zip ?g tiers) = Inr as")
      case True
      then obtain tiers as where tc: "c = Inr tiers" "compute_all fee (zip ?g tiers) = Inr as" by blast
      let ?t = "sum_totals as"
      have "run_gated (record_allocation iid rid ws ?tw as) (Allocated (length ws) (tl_net ?t) (tl_nacho ?t)
          (tl_pool_fee ?t) (sat_sub_i64 reward (sum_list ?gs))) s1 = (x, t)"
        using d False c tc by (simp add: distribute_def Let_def bindE_def map_err_def)
      then have "allocation_effect rid reward (sw_wallet ` set ws) s1 x t"
      proof (rule run_gated_effect)
        fix u
        assume "record_allocation iid rid ws ?tw as (s1\<lparr>calls := Suc (calls s1)\<rparr>) = (Inr (), u)"
        moreover have "length ?g = length ws" by (simp add: length_assign_residue)
        moreover have "length tiers = length ws" using classify_all_length c tc(1) by blast
        moreover have "sum_list ?g = reward" using False by (intro grosses_sum[OF r ne HOL.refl]) simp
        ultimately show "allocation_effect rid reward (sw_wallet ` set ws) s1 (Inr (Allocated (length ws) (tl_net ?t)
            (tl_nacho ?t) (tl_pool_fee ?t) (sat_sub_i64 reward (sum_list ?gs)))) (u\<lparr>calls := Suc (calls u)\<rparr>)"
          by (intro record_allocation_effect[OF fee r(2) ne tc(2)])
      qed
      then show ?thesis by (rule allocation_effect_start[OF s1])
    next
      case False': False
      then have "\<exists>e. x = Inl e \<and> t = s1"
        using d False c by (auto simp: distribute_def Let_def bindE_def map_err_def split: sum.splits)
      then show ?thesis using s1 by auto
    qed
  qed
qed

lemma set_weight_desc [simp]: "set (weight_desc k rows) = set rows"
  by (auto simp: weight_desc_def)

lemma list_for_window_Inr:
  assumes "list_for_window a b s = (Inr ws, t)"
  shows "t = s\<lparr>calls := Suc (calls s)\<rparr>" and "sw_wallet ` set ws = window_wallets a b (windows s)"
proof -
  have *: "ws = weight_desc sw_total_weight (filter (\<lambda>r. sw_daa_start r = u64_as_i64 a \<and>
      sw_daa_end r = u64_as_i64 b) (windows s)) \<and> t = s\<lparr>calls := Suc (calls s)\<rparr>"
    using assms by (auto simp: list_for_window_def dest!: sql_Inr)
  then show "t = s\<lparr>calls := Suc (calls s)\<rparr>" by simp
  from * show "sw_wallet ` set ws = window_wallets a b (windows s)" by (simp add: window_wallets_def)
qed

text \<open>Neither the windows nor the reward sequence move once a window is closed.\<close>

definition window_frame :: "share_window list \<Rightarrow> int \<Rightarrow> 'z pool_db_scheme \<Rightarrow> bool" where
  "window_frame W k s \<longleftrightarrow> windows s = W \<and> next_reward s = k"

lemma window_frame_inv [simp]: "db_inv (window_frame W k)" "db_inv (\<lambda>s. next_reward s = k)"
  by (simp_all add: db_inv_def window_frame_def)

lemma preserves_window_frame:
  "preserves (window_frame W k) (finalise_empty iid rid reward)"
  "preserves (window_frame W k) (distribute fee classify iid rid reward ws)"
proof -
  have g: "preserves (window_frame W k) (gate_reward rid)"
    and m: "preserves (window_frame W k) (mark_allocated rid)"
    and a: "preserves (window_frame W k) (audit_append x y z)"
    and i: "preserves (window_frame W k) (insert_batch rid rows)"
    and c: "preserves (window_frame W k) (rebate_accrue w dd)"
    and l: "preserves (window_frame W k) (lookup_wallet_addr w)" for x y z rows w dd
    unfolding gate_reward_def lock_for_allocation_def mark_allocated_def audit_append_def insert_batch_def
      rebate_accrue_def rebate_upsert_def lookup_wallet_addr_def
    by (intro preserves_rules window_frame_inv; simp add: preserves_def window_frame_def Let_def split: option.split)+
  have rg: "preserves (window_frame W k) (run_gated body out)" if "preserves (window_frame W k) body" for body out
    using preserves_transaction[OF window_frame_inv(1) that, of "\<lambda>e. StopErr (AeDb e)"]
    by (auto simp: preserves_def run_gated_def split: prod.splits sum.splits allocation_stop.splits)
  show "preserves (window_frame W k) (finalise_empty iid rid reward)"
    unfolding finalise_empty_def by (intro rg preserves_rules g m a)
  show "preserves (window_frame W k) (distribute fee classify iid rid reward ws)"
    unfolding distribute_def Let_def record_allocation_def accrue_all_def classify_all_def
    by (intro rg preserves_rules g m a i c l)
qed

lemma next_reward_of_frame:
  "(\<And>W. preserves (window_frame W k) m) \<Longrightarrow> preserves (\<lambda>s. next_reward s = k) m"
  by (auto simp: preserves_def window_frame_def)

lemma preserves_next_reward:
  "preserves (\<lambda>s. next_reward s = k) (allocate_coinbase_reward fee classify iid rid reward a b)"
proof -
  have c: "preserves (\<lambda>s. next_reward s = k) (close_window a b t)" "preserves (\<lambda>s. next_reward s = k) (list_for_window a b)" for t
    unfolding close_window_def materialise_def window_totals_def list_for_window_def Let_def
    by (intro preserves_rules window_frame_inv; simp add: preserves_def Let_def)+
  show ?thesis
    unfolding allocate_coinbase_reward_def
    by (intro preserves_rules c) (rule next_reward_of_frame, rule preserves_window_frame)+
qed

lemma allocate_effect:
  assumes "wf_fee fee" and "reward \<le> i64_max"
    and "allocate_coinbase_reward fee classify iid rid reward daa_start daa_end s = (x, t)"
  shows "allocation_effect rid reward (window_wallets daa_start daa_end (windows t)) s x t"
proof (cases "reward < 0")
  case True
  then show ?thesis using assms(3) by (auto simp: allocate_coinbase_reward_def books_def)
next
  case False
  have refl: "same_books s s" by (simp add: books_def)
  obtain c s1 where c: "close_window daa_start daa_end (now s) s = (c, s1)" by fastforce
  then have s1: "same_books s s1" using preservesD[OF preserves_books_reads(1) refl] by (metis snd_conv)
  show ?thesis
  proof (cases c)
    case (Inl e)
    then show ?thesis using assms(3) False c s1
      by (auto simp: allocate_coinbase_reward_def bindE_def map_err_def)
  next
    case (Inr o1)
    obtain l s2 where l: "list_for_window daa_start daa_end s1 = (l, s2)" by fastforce
    have s2: "same_books s s2" using preservesD[OF preserves_books_reads(2) s1] l by (metis snd_conv)
    show ?thesis
    proof (cases l)
      case (Inl e)
      then show ?thesis using assms(3) False c l \<open>c = Inr o1\<close> s2
        by (auto simp: allocate_coinbase_reward_def bindE_def map_err_def)
    next
      case (Inr ws)
      note lw = list_for_window_Inr[OF l[unfolded Inr]]
      have run: "(if ws = [] then finalise_empty iid rid reward else distribute fee classify iid rid reward ws) s2 = (x, t)"
        using assms(3) False c l \<open>c = Inr o1\<close> Inr
        by (simp add: allocate_coinbase_reward_def bindE_def map_err_def)
      have "windows s2 = windows s1" using lw(1) by simp
      then have win: "windows t = windows s1"
        using run preservesD[OF preserves_window_frame(1)[of "windows s1" "next_reward s2" iid rid reward], of s2]
          preservesD[OF preserves_window_frame(2)[of "windows s1" "next_reward s2" fee classify iid rid reward ws], of s2]
        by (cases "ws = []") (simp_all add: window_frame_def)
      have "allocation_effect rid reward (sw_wallet ` set ws) s2 x t"
      proof (cases "ws = []")
        case True
        then show ?thesis using run finalise_empty_effect by simp
      next
        case ne: False
        then show ?thesis using run distribute_effect[OF assms(1) _ assms(2) ne] False by simp
      qed
      then show ?thesis using allocation_effect_start[OF s2] lw(2) win by simp
    qed
  qed
qed

text \<open>
  C4. Allocating a coinbase reward accounts for every sompi of it, once.  If the call reports an
  allocation, then the reward was not stamped before and is now, exactly one row per wallet of
  the closed window was added, every row is balanced with no negative part, the gross shares add
  up to the whole reward whatever the rounding did, the reported totals are the exact column sums
  and add up to the reward, and each wallet's rebate grew by its accrual.  If it reports no
  contributors, only the stamp was written.  If it reports an earlier allocation or any error, a
  lost connection at any statement included, no row of the books changed.
\<close>

theorem allocate_coinbase_reward_correct:
  assumes "wf_fee fee" and "reward \<le> i64_max"
    and "allocate_coinbase_reward fee classify iid rid reward daa_start daa_end s = (x, t)"
  shows "allocation_effect rid reward (window_wallets daa_start daa_end (windows t)) s x t"
  using assms by (rule allocate_effect)

text \<open>Two miners with 3 and 1 units of work share a reward of 1003 sompi.\<close>

definition sample_addr :: "nat \<Rightarrow> string" where
  "sample_addr n = ''zkas:'' @ replicate 61 (if n = 1 then CHR ''q'' else CHR ''p'')"

definition sample_books :: pool_db where
  "sample_books = empty_db\<lparr>wallets := [\<lparr>w_id = 1, w_address = sample_addr 1, w_network = ''mainnet''\<rparr>,
       \<lparr>w_id = 2, w_address = sample_addr 2, w_network = ''mainnet''\<rparr>],
     shares := [\<lparr>sh_wallet = 2, sh_difficulty = Fin 3, sh_daa = 5, sh_credited_at = 0\<rparr>,
       \<lparr>sh_wallet = 1, sh_difficulty = Fin 1, sh_daa = 6, sh_credited_at = 0\<rparr>],
     next_reward := 8,
     rewards := [\<lparr>cr_id = 7, cr_txid = replicate 32 0, cr_index = 0, cr_amount = 1003, cr_block_daa = 10,
       cr_discovered_at = 0, cr_allocated_at = None\<rparr>]\<rparr>"

lemma sample_shares: "pro_rate 1003 (Fin 3) (Fin 4) = 752" "pro_rate 1003 (Fin 1) (Fin 4) = 250"
proof -
  have "f64_round (3 / 4) = Fin (3 / 4)" "f64_round (1 / 4) = Fin (1 / 4)" "f64_round (3009 / 4) = Fin (3009 / 4)"
    "f64_round (1003 / 4) = Fin (1003 / 4)" "f64_of_int 1003 = Fin 1003"
    using f64_round_dyadic[of 3 2] f64_round_dyadic[of 1 2] f64_round_dyadic[of 3009 2] f64_round_dyadic[of 1003 2]
      f64_of_int_exact[of 1003] by simp_all
  moreover have "\<lfloor>3009 / 4 :: rat\<rfloor> = 752" "\<lfloor>1003 / 4 :: rat\<rfloor> = 250" by (simp_all add: floor_eq_iff)
  ultimately show "pro_rate 1003 (Fin 3) (Fin 4) = 752" "pro_rate 1003 (Fin 1) (Fin 4) = 250"
    by (simp_all add: pro_rate_def Let_def f64_eq_def clamp_i64_def trunc_rat_def)
qed

lemma sample_addresses:
  "WalletAddress_new (sample_addr 1) = Inr (sample_addr 1)" "WalletAddress_new (sample_addr 2) = Inr (sample_addr 2)"
  by code_simp+

lemma sample_slot: "residue_slot [2, 1] = 1"
  by code_simp

lemmas sample_eval = sample_books_def empty_db_def sample_shares sample_addresses[simplified] sample_slot f64_round_simps
  close_window_def materialise_def window_totals_def shares_in_def rollup_def upsert_window_def same_window_def
  list_for_window_def weight_desc_def window_checks_def f64_rat_def f64_sum_def f64_is_finite_def f64_lt_def f64_eq_def

lemmas sample_allocation_eval = allocate_coinbase_reward_def distribute_def classify_all_def lookup_wallet_addr_def
  assign_residue_def sat_sub_i64_def sat_add_i64_def clamp_i64_def in_i64_def compute_allocation_eq run_gated_def
  record_allocation_def gate_reward_def lock_for_allocation_def insert_batch_def new_row_def
  new_allocation_is_balanced_def allocation_checks_def bps_to_i16_def accrue_all_def mark_allocated_def
  audit_append_def sum_totals_def update_where_def transaction_def bindE_def map_err_def sql_def Let_def

theorem allocate_coinbase_reward_correct_witness:
  "let r = allocate_coinbase_reward \<lparr>topline_bps = 75\<rparr> (\<lambda>_. Inr Standard) ''acc'' 7 1003 0 10 sample_books
   in fst r = Inr (Allocated 2 997 0 6 1) \<and>
      allocation_effect 7 1003 (window_wallets 0 10 (windows (snd r))) sample_books (fst r) (snd r)"
proof -
  have "fst (allocate_coinbase_reward \<lparr>topline_bps = 75\<rparr> (\<lambda>_. Inr Standard) ''acc'' 7 1003 0 10 sample_books) =
      Inr (Allocated 2 997 0 6 1)"
    by (simp add: sample_eval sample_allocation_eval)
  then show ?thesis
    using allocate_coinbase_reward_correct[of "\<lparr>topline_bps = 75\<rparr>" 1003 "\<lambda>_. Inr Standard" "''acc''" 7 0 10 sample_books,
        OF _ _ prod.collapse[symmetric]]
    by (simp add: Let_def wf_fee_def MAX_TOPLINE_BPS_def)
qed

end
