(* ===== verification/Maturity.thy ===== *)
theory Maturity
  imports Allocation
begin

text \<open>
  The block maturity tracker (\<open>accountant/src/maturity.rs\<close>): each sweep first moves submitted
  blocks to their final state by the colour the node reports, then records the matured coinbase
  outputs of the pool address and hands every unallocated one to the allocation engine.

  The node and the tier service are parameters of a sweep: a record of the answers they give.
  An error on one block or one reward is counted and the sweep goes on; a panic ends the process.

  The lemmas show which outputs are ever recorded, and that over any number of sweeps, restarts
  and outages every recorded reward is distributed in full exactly once, kept by the pool, or
  still open.
\<close>

section \<open>Node answers and configuration\<close>

datatype kaspad_error = KTransport string | KMalformed string

datatype block_color = Blue | Red | NotYetMerged

record coinbase_utxo =
  cu_txid :: bytes
  cu_index :: nat
  cu_amount :: nat
  cu_block_daa :: nat

record kaspad_client =
  kd_virtual_daa :: "kaspad_error + nat"
  kd_block_color :: "bytes \<Rightarrow> kaspad_error + block_color"
  kd_coinbase_utxos :: "kaspad_error + coinbase_utxo list"

definition DEFAULT_COINBASE_MATURITY :: nat where "DEFAULT_COINBASE_MATURITY = 100"
definition DEFAULT_WINDOW_DAA_SPAN :: nat where "DEFAULT_WINDOW_DAA_SPAN = 600"
definition DEFAULT_BATCH_SIZE :: int where "DEFAULT_BATCH_SIZE = 200"

record maturity_config =
  mc_coinbase_maturity :: nat
  mc_window_daa_span :: nat
  mc_batch_size :: int
  mc_min_daa_score :: nat

definition default_maturity_config :: maturity_config where
  "default_maturity_config = \<lparr>mc_coinbase_maturity = DEFAULT_COINBASE_MATURITY,
     mc_window_daa_span = DEFAULT_WINDOW_DAA_SPAN, mc_batch_size = DEFAULT_BATCH_SIZE, mc_min_daa_score = 0\<rparr>"

record sweep_stats =
  st_confirmed_blue :: nat
  st_orphaned :: nat
  st_blocks_waiting :: nat
  st_rewards_discovered :: nat
  st_rewards_allocated :: nat
  st_rewards_empty :: nat
  st_errors :: nat
  st_skipped_below_floor :: nat

definition default_sweep_stats :: sweep_stats where
  "default_sweep_stats = \<lparr>st_confirmed_blue = 0, st_orphaned = 0, st_blocks_waiting = 0,
     st_rewards_discovered = 0, st_rewards_allocated = 0, st_rewards_empty = 0, st_errors = 0,
     st_skipped_below_floor = 0\<rparr>"

datatype tracker_error =
    TkKaspad kaspad_error
  | TkDb db_error
  | TkEngine allocation_engine_error
  | TkMalformed string
  | TkPanic

datatype block_outcome = OcConfirmedBlue | OcOrphaned | OcStillWaiting

record tracker =
  tk_fee :: fee_config
  tk_classify :: classifier
  tk_instance :: string
  tk_cfg :: maturity_config

type_synonym ('z, 'a) tracker_act = "('z pool_db_scheme, tracker_error, 'a) act"

section \<open>Operations\<close>

definition is_mature :: "nat \<Rightarrow> nat \<Rightarrow> nat \<Rightarrow> bool" where
  "is_mature virtual_daa block_daa maturity =
     (if virtual_daa < block_daa then False else maturity \<le> virtual_daa - block_daa)"

definition bytes_to_hash :: "bytes \<Rightarrow> bytes option" where
  "bytes_to_hash bs = (if length bs \<noteq> 32 then None else Some bs)"

definition process_submitted :: "kaspad_client \<Rightarrow> tracker \<Rightarrow> nat \<Rightarrow> block \<Rightarrow> ('z, block_outcome) tracker_act" where
  "process_submitted kd tk virtual_daa blk =
     (case bytes_to_hash (b_hash blk) of
        None \<Rightarrow> raise (TkMalformed ''block.hash is not 32 bytes'')
      | Some hash \<Rightarrow>
         bindE (map_err TkKaspad (lift_sum (kd_block_color kd hash))) (\<lambda>color.
         case color of
           Blue \<Rightarrow> bindE (map_err TkDb (mark_confirmed_blue hash None)) (\<lambda>_. ret OcConfirmedBlue)
         | Red \<Rightarrow> bindE (map_err TkDb (mark_orphaned hash)) (\<lambda>_. ret OcOrphaned)
         | NotYetMerged \<Rightarrow>
             if sat_add_u64 (i64_as_u64 (b_daa blk)) (mc_coinbase_maturity (tk_cfg tk)) \<le> virtual_daa
             then bindE (map_err TkDb (mark_orphaned hash)) (\<lambda>_. ret OcOrphaned)
             else ret OcStillWaiting))"

text \<open>Counting the outcome of one item; its error does not leave the loop.\<close>

definition counting :: "('z, 'a) tracker_act \<Rightarrow> (tracker_error + 'a \<Rightarrow> sweep_stats) \<Rightarrow> ('z, sweep_stats) tracker_act" where
  "counting m f s = (case m s of (r, t) \<Rightarrow> (Inr (f r), t))"

definition count_block :: "sweep_stats \<Rightarrow> tracker_error + block_outcome \<Rightarrow> sweep_stats" where
  "count_block st r =
     (case r of
        Inr OcConfirmedBlue \<Rightarrow> st\<lparr>st_confirmed_blue := st_confirmed_blue st + 1\<rparr>
      | Inr OcOrphaned \<Rightarrow> st\<lparr>st_orphaned := st_orphaned st + 1\<rparr>
      | Inr OcStillWaiting \<Rightarrow> st\<lparr>st_blocks_waiting := st_blocks_waiting st + 1\<rparr>
      | Inl _ \<Rightarrow> st\<lparr>st_errors := st_errors st + 1\<rparr>)"

definition sweep_blocks :: "kaspad_client \<Rightarrow> tracker \<Rightarrow> nat \<Rightarrow> sweep_stats \<Rightarrow> ('z, sweep_stats) tracker_act" where
  "sweep_blocks kd tk virtual_daa st =
     bindE (map_err TkDb (list_by_status [SubmittedToNode] (mc_batch_size (tk_cfg tk)))) (\<lambda>active.
     foldE (\<lambda>st blk. counting (process_submitted kd tk virtual_daa blk) (count_block st)) st active)"

definition record_utxo :: "tracker \<Rightarrow> nat \<Rightarrow> sweep_stats \<Rightarrow> coinbase_utxo \<Rightarrow> ('z, sweep_stats) tracker_act" where
  "record_utxo tk virtual_daa st u =
     (if \<not> is_mature virtual_daa (cu_block_daa u) (mc_coinbase_maturity (tk_cfg tk)) then ret st
      else if cu_block_daa u < mc_min_daa_score (tk_cfg tk)
      then ret (st\<lparr>st_skipped_below_floor := st_skipped_below_floor st + 1\<rparr>)
      else case i64_try_from_u64 (cu_amount u) of
             None \<Rightarrow> ret (st\<lparr>st_errors := st_errors st + 1\<rparr>)
           | Some amount \<Rightarrow>
               counting (map_err TkDb (reward_ensure (cu_txid u) (cu_index u) amount (cu_block_daa u)))
                 (\<lambda>r. case r of
                    Inr (_, Inserted) \<Rightarrow> st\<lparr>st_rewards_discovered := st_rewards_discovered st + 1\<rparr>
                  | Inr (_, AlreadyExisted) \<Rightarrow> st
                  | Inl _ \<Rightarrow> st\<lparr>st_errors := st_errors st + 1\<rparr>))"

definition allocate_reward :: "tracker \<Rightarrow> coinbase_reward \<Rightarrow> ('z, allocation_outcome) tracker_act" where
  "allocate_reward tk r =
     (let daa = i64_as_u64 (cr_block_daa r)
      in map_err TkEngine (allocate_coinbase_reward (tk_fee tk) (tk_classify tk) (tk_instance tk)
           (cr_id r) (cr_amount r) (daa - mc_window_daa_span (tk_cfg tk)) daa))"

definition count_reward :: "sweep_stats \<Rightarrow> tracker_error + allocation_outcome \<Rightarrow> sweep_stats" where
  "count_reward st r =
     (case r of
        Inr (Allocated _ _ _ _ _) \<Rightarrow> st\<lparr>st_rewards_allocated := st_rewards_allocated st + 1\<rparr>
      | Inr (NoContributingWallets _) \<Rightarrow> st\<lparr>st_rewards_empty := st_rewards_empty st + 1\<rparr>
      | Inr AlreadyAllocated \<Rightarrow> st
      | Inl _ \<Rightarrow> st\<lparr>st_errors := st_errors st + 1\<rparr>)"

text \<open>One reward of the sweep; a panic inside the engine ends the process.\<close>

definition sweep_reward :: "tracker \<Rightarrow> sweep_stats \<Rightarrow> coinbase_reward \<Rightarrow> ('z, sweep_stats) tracker_act" where
  "sweep_reward tk st r s =
     (case allocate_reward tk r s of
        (Inl (TkEngine AePanic), t) \<Rightarrow> (Inl TkPanic, t)
      | (x, t) \<Rightarrow> (Inr (count_reward st x), t))"

definition sweep_rewards :: "kaspad_client \<Rightarrow> tracker \<Rightarrow> nat \<Rightarrow> sweep_stats \<Rightarrow> ('z, sweep_stats) tracker_act" where
  "sweep_rewards kd tk virtual_daa st =
     bindE (map_err TkKaspad (lift_sum (kd_coinbase_utxos kd))) (\<lambda>utxos.
     bindE (foldE (record_utxo tk virtual_daa) st utxos) (\<lambda>st.
     bindE (map_err TkDb (list_unallocated (mc_batch_size (tk_cfg tk)))) (\<lambda>pending.
     foldE (sweep_reward tk) st pending)))"

definition run_once :: "kaspad_client \<Rightarrow> tracker \<Rightarrow> ('z, sweep_stats) tracker_act" where
  "run_once kd tk =
     bindE (map_err TkKaspad (lift_sum (kd_virtual_daa kd))) (\<lambda>virtual_daa.
     bindE (sweep_blocks kd tk virtual_daa default_sweep_stats) (\<lambda>st.
     bindE (sweep_rewards kd tk virtual_daa st) (\<lambda>st.
     ret st)))"

section \<open>Each reward is distributed once\<close>

abbreviation rows_of :: "int \<Rightarrow> share_allocation list \<Rightarrow> share_allocation list" where
  "rows_of rid \<equiv> filter (\<lambda>a. sa_reward a = rid)"

text \<open>
  The state of one reward: open, with no rows; or stamped, with either no rows (kept by the pool)
  or rows that pay out exactly its amount.
\<close>

definition reward_settled :: "share_allocation list \<Rightarrow> coinbase_reward \<Rightarrow> bool" where
  "reward_settled rows r \<longleftrightarrow>
     (rows = [] \<or> (cr_allocated_at r \<noteq> None \<and> pays_reward (cr_id r) (cr_amount r) rows))"

definition reward_outpoint :: "coinbase_reward \<Rightarrow> bytes \<times> int" where
  "reward_outpoint r = (cr_txid r, cr_index r)"

definition ledger_ok :: "'z pool_db_scheme \<Rightarrow> bool" where
  "ledger_ok s \<longleftrightarrow> distinct (map cr_id (rewards s)) \<and> distinct (map reward_outpoint (rewards s)) \<and>
     (\<forall>r \<in> set (rewards s). cr_id r < next_reward s \<and> cr_amount r \<le> i64_max \<and>
        reward_settled (rows_of (cr_id r) (allocs s)) r) \<and>
     (\<forall>a \<in> set (allocs s). \<exists>r \<in> set (rewards s). cr_id r = sa_reward a)"

definition ledger_frame :: "coinbase_reward list \<Rightarrow> int \<Rightarrow> share_allocation list \<Rightarrow> 'z pool_db_scheme \<Rightarrow> bool" where
  "ledger_frame R k A s \<longleftrightarrow> rewards s = R \<and> next_reward s = k \<and> allocs s = A"

lemma ledger_inv [simp]: "db_inv ledger_ok" "db_inv (ledger_frame R k A)"
  by (simp_all add: db_inv_def ledger_ok_def ledger_frame_def)

lemma ledger_of_frame:
  "(\<And>R k A. preserves (ledger_frame R k A) m) \<Longrightarrow> preserves ledger_ok m"
  by (auto simp: preserves_def ledger_frame_def ledger_ok_def)

lemma map_stamp [simp]:
  "map cr_id (stamp_reward rid n rows) = map cr_id rows" "map reward_outpoint (stamp_reward rid n rows) = map reward_outpoint rows"
  by (simp_all add: stamp_reward_def map_update_where reward_outpoint_def)

lemma stamp_reward_settled:
  assumes "r' \<in> set (stamp_reward rid n rows)"
  shows "\<exists>r \<in> set rows. cr_id r' = cr_id r \<and> cr_amount r' = cr_amount r \<and>
    (cr_id r = rid \<or> cr_allocated_at r \<noteq> None \<longrightarrow> cr_allocated_at r' \<noteq> None)"
proof -
  obtain r where r: "r \<in> set rows"
    "r' = (if cr_id r = rid then r\<lparr>cr_allocated_at := coalesce (cr_allocated_at r) (Some n)\<rparr> else r)"
    using assms unfolding stamp_reward_def in_update_where by blast
  then show ?thesis by (intro bexI[of _ r]) (cases "cr_allocated_at r"; auto)+
qed

lemma open_reward_no_rows:
  assumes "ledger_ok s" and "open_reward rid (rewards s)"
  shows "rows_of rid (allocs s) = []"
proof -
  obtain r where "List.find (\<lambda>r. cr_id r = rid) (rewards s) = Some r" "cr_allocated_at r = None"
    using assms(2) by (auto simp: open_reward_def split: option.splits)
  then show ?thesis using assms(1) find_Some_iff_in[of "\<lambda>r. cr_id r = rid" "rewards s" r]
    by (auto simp: ledger_ok_def reward_settled_def)
qed

text \<open>Stamping a reward that was open, together with rows that pay it or no rows.\<close>

lemma ledger_stamp:
  assumes ok: "ledger_ok s" and op: "open_reward rid (rewards s)"
    and rw: "rewards t = stamp_reward rid n (rewards s)" and nx: "next_reward t = next_reward s"
    and al: "allocs t = allocs s @ new"
    and new: "new = [] \<or> (pays_reward rid reward new \<and> (\<forall>r \<in> set (rewards s). cr_id r = rid \<longrightarrow> cr_amount r = reward))"
  shows "ledger_ok t"
proof -
  have all: "sa_reward a = rid" if "a \<in> set new" for a
    using new that by (auto simp: pays_reward_def list_all_iff)
  have rows: "rows_of (cr_id r) (allocs t) = (if cr_id r = rid then new else rows_of (cr_id r) (allocs s))" for r :: coinbase_reward
    using all open_reward_no_rows[OF ok op] by (auto simp: al filter_id_conv filter_empty_conv)
  have "cr_id r' < next_reward t \<and> cr_amount r' \<le> i64_max \<and> reward_settled (rows_of (cr_id r') (allocs t)) r'"
    if "r' \<in> set (rewards t)" for r'
  proof -
    obtain r where r: "r \<in> set (rewards s)" "cr_id r' = cr_id r" "cr_amount r' = cr_amount r"
      "cr_id r = rid \<or> cr_allocated_at r \<noteq> None \<longrightarrow> cr_allocated_at r' \<noteq> None"
      using stamp_reward_settled \<open>r' \<in> set (rewards t)\<close> unfolding rw by blast
    then have "cr_id r < next_reward s \<and> cr_amount r \<le> i64_max" "reward_settled (rows_of (cr_id r) (allocs s)) r"
      using ok by (auto simp: ledger_ok_def)
    moreover from this(2) r new have "reward_settled (rows_of (cr_id r') (allocs t)) r'"
      unfolding rows by (auto simp: reward_settled_def)
    ultimately show ?thesis using r nx by simp
  qed
  moreover have "\<exists>r \<in> set (rewards t). cr_id r = sa_reward a" if "a \<in> set (allocs t)" for a
  proof -
    have ids: "cr_id ` set (rewards t) = cr_id ` set (rewards s)" unfolding rw by (metis list.set_map map_stamp(1))
    have "rid \<in> cr_id ` set (rewards s)"
      using op by (force simp: open_reward_def dest!: find_Some_iff_in split: option.splits)
    then have "sa_reward a \<in> cr_id ` set (rewards s)"
      using \<open>a \<in> set (allocs t)\<close> ok all by (force simp: al ledger_ok_def)
    then show ?thesis using ids by (metis imageE)
  qed
  moreover have "distinct (map cr_id (rewards t))" "distinct (map reward_outpoint (rewards t))"
    using ok by (simp_all add: rw ledger_ok_def)
  ultimately show ?thesis by (simp add: ledger_ok_def)
qed

lemma allocation_effect_ledger:
  assumes "ledger_ok s" and "allocation_effect rid reward ws s x t" and "next_reward t = next_reward s"
    and "\<forall>r \<in> set (rewards s). cr_id r = rid \<longrightarrow> cr_amount r = reward"
  shows "ledger_ok t"
proof -
  consider e where "x = Inl e" | n net nacho fee residue where "x = Inr (Allocated n net nacho fee residue)"
    | "x = Inr AlreadyAllocated" | k where "x = Inr (NoContributingWallets k)"
    by (cases x; metis allocation_outcome.exhaust)
  then show ?thesis
  proof cases
    case 2
    then obtain new where "open_reward rid (rewards s)" "rewards t = stamp_reward rid (now s) (rewards s)"
      "allocs t = allocs s @ new" "pays_reward rid reward new"
      using assms(2) by auto
    then show ?thesis using assms by (intro ledger_stamp[of s rid t "now s" new reward]) auto
  next
    case 4
    then show ?thesis using assms by (intro ledger_stamp[of s rid t "now s" "[]"]) auto
  qed (use assms in \<open>auto simp: books_def ledger_ok_def\<close>)
qed

text \<open>The identity of a reward, which no statement changes.\<close>

definition reward_ids :: "'z pool_db_scheme \<Rightarrow> (int \<times> int) list" where
  "reward_ids s = map (\<lambda>r. (cr_id r, cr_amount r)) (rewards s)"

lemma allocation_effect_ids:
  assumes "allocation_effect rid reward ws s x t"
  shows "reward_ids t = reward_ids s"
proof -
  have "map (\<lambda>r. (cr_id r, cr_amount r)) (stamp_reward rid n rows) = map (\<lambda>r. (cr_id r, cr_amount r)) rows" for n rows
    by (simp add: stamp_reward_def map_update_where)
  moreover have "rewards t = rewards s \<or> rewards t = stamp_reward rid (now s) (rewards s)"
    using assms by (cases "(rid, reward, ws, s, x, t)" rule: allocation_effect.cases) (auto simp: books_def)
  ultimately show ?thesis by (auto simp: reward_ids_def)
qed

lemma allocation_effect_grows:
  "allocation_effect rid reward ws s x t \<Longrightarrow> \<exists>new. allocs t = allocs s @ new"
  by (cases "(rid, reward, ws, s, x, t)" rule: allocation_effect.cases) (auto simp: books_def)

lemma allocate_reward_ledger:
  assumes "wf_fee (tk_fee tk)" and "ledger_ok s" and "(cr_id r, cr_amount r) \<in> set (reward_ids s)"
  shows "ledger_ok (snd (allocate_reward tk r s))" and "reward_ids (snd (allocate_reward tk r s)) = reward_ids s"
    and "\<exists>new. allocs (snd (allocate_reward tk r s)) = allocs s @ new"
proof -
  let ?run = "allocate_coinbase_reward (tk_fee tk) (tk_classify tk) (tk_instance tk) (cr_id r) (cr_amount r)
    (i64_as_u64 (cr_block_daa r) - mc_window_daa_span (tk_cfg tk)) (i64_as_u64 (cr_block_daa r)) s"
  obtain x t where run: "?run = (x, t)" by fastforce
  obtain q where q: "q \<in> set (rewards s)" "cr_id q = cr_id r" "cr_amount q = cr_amount r"
    using assms(3) by (auto simp: reward_ids_def)
  have amt: "cr_amount r \<le> i64_max" using assms(2) q by (metis ledger_ok_def)
  have uniq: "\<forall>p \<in> set (rewards s). cr_id p = cr_id r \<longrightarrow> cr_amount p = cr_amount r"
    using assms(2) q by (auto simp: ledger_ok_def distinct_map inj_on_def)
  have "next_reward t = next_reward s"
    using preservesD[OF preserves_next_reward, of s "next_reward s"] run by (metis snd_conv)
  moreover note eff = allocate_effect[OF assms(1) amt run]
  ultimately have "ledger_ok t" using allocation_effect_ledger[OF assms(2) eff _ uniq] by blast
  with allocation_effect_ids[OF eff] allocation_effect_grows[OF eff] run
  show "ledger_ok (snd (allocate_reward tk r s))" "reward_ids (snd (allocate_reward tk r s)) = reward_ids s"
    "\<exists>new. allocs (snd (allocate_reward tk r s)) = allocs s @ new"
    by (simp_all add: allocate_reward_def Let_def)
qed

lemma snd_sweep_reward: "snd (sweep_reward tk st r s) = snd (allocate_reward tk r s)"
  by (simp add: sweep_reward_def split: prod.split sum.split tracker_error.split allocation_engine_error.split)

text \<open>The ledger together with the rows already written, which stay as they are.\<close>

definition ledger_from :: "share_allocation list \<Rightarrow> 'z pool_db_scheme \<Rightarrow> bool" where
  "ledger_from A s \<longleftrightarrow> ledger_ok s \<and> (\<exists>new. allocs s = A @ new)"

lemma ledger_from_inv [simp]: "db_inv (ledger_from A)"
  by (simp add: db_inv_def ledger_from_def ledger_ok_def)

lemma ledger_from_frame:
  "preserves ledger_ok m \<Longrightarrow> (\<And>B. preserves (\<lambda>s. allocs s = B) m) \<Longrightarrow> preserves (ledger_from A) m"
  by (auto simp: preserves_def ledger_from_def)

lemma sweep_pending_ledger:
  assumes "wf_fee (tk_fee tk)" and "ledger_from A s" and "\<forall>p \<in> set ps. (cr_id p, cr_amount p) \<in> set (reward_ids s)"
  shows "ledger_from A (snd (foldE (sweep_reward tk) st ps s))"
  using assms(2,3)
proof (induction ps arbitrary: st s)
  case (Cons p ps)
  let ?t = "snd (sweep_reward tk st p s)"
  have ok: "ledger_ok s" using Cons.prems(1) by (simp add: ledger_from_def)
  have t: "ledger_from A ?t" "reward_ids ?t = reward_ids s"
    using allocate_reward_ledger[OF assms(1) ok, of p] Cons.prems by (auto simp: snd_sweep_reward ledger_from_def)
  have "ledger_from A (snd (foldE (sweep_reward tk) b ps ?t))" for b
    using Cons.IH[OF t(1)] Cons.prems(2) t(2) by simp
  with t(1) show ?case by (auto split: prod.split sum.split)
qed simp

lemma preserves_counting [preserves_rules]: "preserves I m \<Longrightarrow> preserves I (counting m f)"
  by (auto simp: preserves_def counting_def split: prod.split)

lemma sweep_blocks_frame: "preserves (ledger_frame R k A) (sweep_blocks kd tk v st)"
proof -
  have "preserves (ledger_frame R k A) (mark_confirmed_blue h b)" "preserves (ledger_frame R k A) (mark_orphaned h)" for h b
    unfolding mark_confirmed_blue_def mark_orphaned_def update_block_def
    by (intro preserves_sql ledger_inv preservesI; simp add: ledger_frame_def Let_def)+
  then have "preserves (ledger_frame R k A) (process_submitted kd tk v b)" for b
    unfolding process_submitted_def
    by (intro preserves_rules) (auto intro!: preserves_rules split: block_color.split)
  then show ?thesis
    unfolding sweep_blocks_def list_by_status_def by (intro preserves_rules ledger_inv)
qed

lemma ledger_skip_id: "ledger_ok s \<Longrightarrow> ledger_ok (s\<lparr>next_reward := next_reward s + 1\<rparr>)"
  by (force simp: ledger_ok_def)

lemma ledger_new_reward:
  assumes "ledger_ok s" and "cr_id r = next_reward s" and "cr_amount r \<le> i64_max"
    and "List.find (same_outpoint (cr_txid r) (cr_index r)) (rewards s) = None"
  shows "ledger_ok (s\<lparr>next_reward := next_reward s + 1, rewards := rewards s @ [r]\<rparr>)"
proof -
  have "rows_of (next_reward s) (allocs s) = []"
    using assms(1) by (force simp: ledger_ok_def filter_empty_conv)
  moreover have "next_reward s \<notin> cr_id ` set (rewards s)" using assms(1) by (auto simp: ledger_ok_def)
  moreover have "reward_outpoint r \<notin> reward_outpoint ` set (rewards s)"
    using assms(4) by (auto simp: find_None_iff same_outpoint_def reward_outpoint_def)
  ultimately show ?thesis using assms by (force simp: ledger_ok_def reward_settled_def)
qed

lemma reward_ensure_ledger:
  "amount \<le> i64_max \<Longrightarrow> preserves ledger_ok (reward_ensure txid i amount daa)"
  unfolding reward_ensure_def
  by (intro preserves_sql ledger_inv preservesI) (simp add: Let_def ledger_skip_id ledger_new_reward split: option.split)

lemma record_utxo_ledger: "preserves ledger_ok (record_utxo tk v st u)"
  unfolding record_utxo_def
  by (intro preserves_rules) (auto simp: i64_try_from_u64_def intro!: preserves_rules reward_ensure_ledger split: if_splits)

lemma record_utxo_allocs: "preserves (\<lambda>s. allocs s = B) (record_utxo tk v st u)"
proof -
  have "db_inv (\<lambda>s. allocs s = B)" by (simp add: db_inv_def)
  then show ?thesis
    unfolding record_utxo_def reward_ensure_def
    by (intro preserves_rules) (auto simp: preserves_def Let_def split: option.split)
qed

lemma sweep_blocks_keeps:
  "ledger_frame (rewards s) (next_reward s) (allocs s) (snd (sweep_blocks kd tk v st s))"
  by (rule preservesD[OF sweep_blocks_frame]) (simp add: ledger_frame_def)

lemma sweep_blocks_ledger: "preserves (ledger_from A) (sweep_blocks kd tk v st)"
  by (intro preservesI) (simp add: sweep_blocks_keeps[unfolded ledger_frame_def] ledger_from_def ledger_ok_def)

lemma run_once_ledger:
  assumes "wf_fee (tk_fee tk)"
  shows "preserves (ledger_from A) (run_once kd tk)"
proof -
  have pend: "preserves (ledger_from A) (bindE (map_err TkDb (list_unallocated n)) (foldE (sweep_reward tk) st))" for n st
  proof (rule preservesI)
    fix s :: "'z pool_db_scheme" assume ok: "ledger_from A s"
    show "ledger_from A (snd (bindE (map_err TkDb (list_unallocated n)) (foldE (sweep_reward tk) st) s))"
    proof (rule bindE_post)
      fix e t assume "map_err TkDb (list_unallocated n) s = (Inl e, t)"
      then show "ledger_from A t"
        using ok preservesD[OF preserves_map_err[OF preserves_sql[OF ledger_from_inv preserves_gets]]]
        unfolding list_unallocated_def by (metis snd_conv)
    next
      fix ps t assume "map_err TkDb (list_unallocated n) s = (Inr ps, t)"
      then have "t = s\<lparr>calls := Suc (calls s)\<rparr>" "set ps \<subseteq> set (rewards s)"
        by (auto simp: list_unallocated_def dest!: sql_Inr in_set_takeD)
      with ok show "ledger_from A (snd (foldE (sweep_reward tk) st ps t))"
        by (intro sweep_pending_ledger[OF assms]) (auto simp: ledger_from_def ledger_ok_def reward_ids_def)
    qed
  qed
  show ?thesis
    unfolding run_once_def sweep_rewards_def
    by (intro preserves_rules pend sweep_blocks_ledger ledger_from_frame[OF record_utxo_ledger record_utxo_allocs])
qed

text \<open>
  The life of the tracker: sweeps with any configuration and any answers, each of which may fail
  or be cut off at any statement, interleaved with anything the rest of the pool does, which
  never writes rewards or allocations.
\<close>

inductive tracker_run :: "pool_db \<Rightarrow> pool_db \<Rightarrow> bool" where
  stay: "tracker_run s s"
| sweep: "tracker_run s t \<Longrightarrow> wf_fee (tk_fee tk) \<Longrightarrow> tracker_run s (snd (run_once kd tk t))"
| outside: "tracker_run s t \<Longrightarrow> ledger_frame (rewards t) (next_reward t) (allocs t) u \<Longrightarrow> tracker_run s u"

lemma tracker_run_ledger: "tracker_run s t \<Longrightarrow> ledger_from A s \<Longrightarrow> ledger_from A t"
proof (induction rule: tracker_run.induct)
  case (sweep s t tk kd)
  then show ?case using preservesD[OF run_once_ledger] by blast
next
  case (outside s t u)
  then show ?case by (auto simp: ledger_frame_def ledger_from_def ledger_ok_def)
qed

text \<open>
  C31. Every matured coinbase output is paid out at most once, and then completely: over any
  sequence of sweeps, whatever the node, the tier service and the connection do, and whatever
  the rest of the pool does in between, each recorded output has its own reward row, a reward
  without a stamp has no allocation rows, a stamped one has either none (kept by the pool) or
  balanced rows for distinct wallets whose gross shares add up to exactly its amount, and rows
  once written are never changed.
\<close>

theorem rewards_distributed_once:
  assumes "tracker_run s t" and "ledger_ok s"
  shows "distinct (map reward_outpoint (rewards t)) \<and> (\<exists>new. allocs t = allocs s @ new) \<and>
    (\<forall>r \<in> set (rewards t). rows_of (cr_id r) (allocs t) = [] \<or>
       cr_allocated_at r \<noteq> None \<and> pays_reward (cr_id r) (cr_amount r) (rows_of (cr_id r) (allocs t)))"
  using tracker_run_ledger[OF assms(1), of "allocs s"] assms(2)
  by (auto simp: ledger_from_def ledger_ok_def reward_settled_def)

lemma sample_ledger: "ledger_ok sample_books"
  by (simp add: ledger_ok_def sample_books_def empty_db_def reward_settled_def)

text \<open>A loop whose body keeps an invariant for the elements of its list.\<close>

lemma preserves_foldE_in:
  assumes "\<And>b x. x \<in> set xs \<Longrightarrow> preserves I (f b x)"
  shows "preserves I (foldE f b xs)"
proof (rule preservesI)
  fix s show "I s \<Longrightarrow> I (snd (foldE f b xs s))"
    using assms
  proof (induction xs arbitrary: b s)
    case (Cons x xs)
    have "I (snd (f b x s))" using preservesD[OF Cons.prems(2) Cons.prems(1)] by simp
    moreover from this have "I (snd (foldE f c xs (snd (f b x s))))" for c
      using Cons.IH Cons.prems(2) by simp
    ultimately show ?case by (auto split: prod.split sum.split)
  qed simp
qed

section \<open>Only matured outputs are recorded\<close>

text \<open>Where a reward row comes from: it was there before, or from a matured output at or above the floor.\<close>

definition known_reward :: "coinbase_reward list \<Rightarrow> coinbase_reward \<Rightarrow> bool" where
  "known_reward R r \<longleftrightarrow> (\<exists>q \<in> set R. reward_outpoint q = reward_outpoint r \<and> cr_id q = cr_id r \<and> cr_amount q = cr_amount r \<and>
     cr_block_daa q = cr_block_daa r)"

definition matured_output :: "tracker \<Rightarrow> nat \<Rightarrow> coinbase_utxo list \<Rightarrow> coinbase_reward \<Rightarrow> bool" where
  "matured_output tk v us r \<longleftrightarrow> (\<exists>u \<in> set us. reward_outpoint r = (cu_txid u, u32_as_i32 (cu_index u)) \<and>
     cr_amount r = int (cu_amount u) \<and> cr_block_daa r = u64_as_i64 (cu_block_daa u) \<and>
     cu_block_daa u + mc_coinbase_maturity (tk_cfg tk) \<le> v \<and> mc_min_daa_score (tk_cfg tk) \<le> cu_block_daa u)"

lemma is_mature_iff: "is_mature v d m \<longleftrightarrow> d + m \<le> v"
  by (auto simp: is_mature_def)

text \<open>A property of the reward table that stamps keep is kept by an allocation.\<close>

lemma allocate_keeps_rewards:
  assumes P: "\<And>rid n rows. P rows \<Longrightarrow> P (stamp_reward rid n rows)"
  shows "preserves (\<lambda>s. P (rewards s)) (allocate_coinbase_reward fee c iid rid reward a b)"
proof -
  have inv: "db_inv (\<lambda>s. P (rewards s))" by (simp add: db_inv_def)
  have m: "preserves (\<lambda>s. P (rewards s)) (mark_allocated rid)"
    unfolding mark_allocated_def stamp_reward_def[symmetric]
    by (intro preserves_sql inv preservesI) (simp add: P)
  have rg: "preserves (\<lambda>s. P (rewards s)) (run_gated body out)" if "preserves (\<lambda>s. P (rewards s)) body" for body out
    using preserves_transaction[OF inv that, of "\<lambda>e. StopErr (AeDb e)"]
    by (auto simp: preserves_def run_gated_def split: prod.splits sum.splits allocation_stop.splits)
  have close: "preserves (\<lambda>s. P (rewards s)) (close_window a b t)" "preserves (\<lambda>s. P (rewards s)) (list_for_window a b)" for t
    unfolding close_window_def materialise_def window_totals_def list_for_window_def Let_def
    by (intro preserves_rules inv; simp add: preserves_def Let_def)+
  have reads:
    "preserves (\<lambda>s. P (rewards s)) (gate_reward rid)" "preserves (\<lambda>s. P (rewards s)) (audit_append x y z)"
    "preserves (\<lambda>s. P (rewards s)) (insert_batch rid rows)" "preserves (\<lambda>s. P (rewards s)) (rebate_accrue w dd)"
    "preserves (\<lambda>s. P (rewards s)) (lookup_wallet_addr w)" for x y z rows w dd
    unfolding gate_reward_def lock_for_allocation_def audit_append_def insert_batch_def rebate_accrue_def rebate_upsert_def lookup_wallet_addr_def
    by (intro preserves_rules inv; simp add: preserves_def Let_def split: option.split)+
  show ?thesis
    unfolding allocate_coinbase_reward_def finalise_empty_def distribute_def Let_def record_allocation_def
      accrue_all_def classify_all_def
    by (intro preserves_rules rg m reads close)
qed

lemma known_reward_stamp:
  "\<forall>r \<in> set rows. known_reward R r \<or> matured_output tk v us r \<Longrightarrow>
   \<forall>r \<in> set (stamp_reward rid n rows). known_reward R r \<or> matured_output tk v us r"
  by (force simp: stamp_reward_def in_update_where known_reward_def matured_output_def reward_outpoint_def)

lemma reward_ensure_origin:
  assumes "\<And>i n. P \<lparr>cr_id = i, cr_txid = txid, cr_index = u32_as_i32 idx, cr_amount = amount,
    cr_block_daa = u64_as_i64 daa, cr_discovered_at = n, cr_allocated_at = None\<rparr>"
  shows "preserves (\<lambda>s. \<forall>r \<in> set (rewards s). P r) (reward_ensure txid idx amount daa)"
  unfolding reward_ensure_def
  by (intro preserves_sql preservesI) (simp_all add: db_inv_def Let_def assms ball_Un split: option.split)

lemma record_utxo_origin:
  assumes "u \<in> set us"
  shows "preserves (\<lambda>s. \<forall>r \<in> set (rewards s). known_reward R r \<or> matured_output tk v us r) (record_utxo tk v st u)"
proof -
  let ?P = "\<lambda>r. known_reward R r \<or> matured_output tk v us r"
  have new: "?P \<lparr>cr_id = i, cr_txid = cu_txid u, cr_index = u32_as_i32 (cu_index u), cr_amount = int (cu_amount u),
      cr_block_daa = u64_as_i64 (cu_block_daa u), cr_discovered_at = n, cr_allocated_at = None\<rparr>"
    if "is_mature v (cu_block_daa u) (mc_coinbase_maturity (tk_cfg tk))" "\<not> cu_block_daa u < mc_min_daa_score (tk_cfg tk)"
    for i n
    unfolding matured_output_def reward_outpoint_def coinbase_reward.select_convs
    by (intro disjI2 bexI[OF _ assms] conjI refl) (use that in \<open>simp_all only: is_mature_iff not_less\<close>)
  show ?thesis
    unfolding record_utxo_def
  proof (intro preserves_if preserves_ret preserves_case_option preserves_counting preserves_map_err)
    fix amount
    assume "\<not> \<not> is_mature v (cu_block_daa u) (mc_coinbase_maturity (tk_cfg tk))"
      "\<not> cu_block_daa u < mc_min_daa_score (tk_cfg tk)" "i64_try_from_u64 (cu_amount u) = Some amount"
    then show "preserves (\<lambda>s. \<forall>r \<in> set (rewards s). ?P r) (reward_ensure (cu_txid u) (cu_index u) amount (cu_block_daa u))"
      using reward_ensure_origin[where P = ?P, OF new] by (simp add: i64_try_from_u64_def split: if_splits)
  qed
qed

lemma sweep_rewards_origin:
  assumes "kd_coinbase_utxos kd = Inr us"
  shows "preserves (\<lambda>s. \<forall>r \<in> set (rewards s). known_reward R r \<or> matured_output tk v us r) (sweep_rewards kd tk v st)"
proof -
  let ?I = "\<lambda>s. \<forall>r \<in> set (rewards s). known_reward R r \<or> matured_output tk v us r"
  have inv: "db_inv ?I" by (simp add: db_inv_def)
  have "preserves ?I (allocate_reward tk r)" for r
    unfolding allocate_reward_def Let_def
    by (intro preserves_rules allocate_keeps_rewards[where P = "\<lambda>rows. \<forall>r \<in> set rows. known_reward R r \<or> matured_output tk v us r"]
        known_reward_stamp)
  then have sw: "preserves ?I (sweep_reward tk st r)" for st r
    by (simp add: preserves_def snd_sweep_reward)
  have rec: "preserves ?I (foldE (record_utxo tk v) st us)" for st
    by (rule preserves_foldE_in) (rule record_utxo_origin)
  have answer: "bindE (map_err TkKaspad (lift_sum (Inr us))) f = f us" for f :: "_ \<Rightarrow> ('a, 'b) tracker_act"
    by (rule ext) (simp add: bindE_def map_err_def)
  show ?thesis
    unfolding sweep_rewards_def list_unallocated_def assms answer
    by (intro preserves_bindE rec preserves_map_err preserves_sql inv preserves_gets preserves_foldE sw)
qed

lemma run_once_origin:
  assumes "run_once kd tk s = (x, t)" and "r \<in> set (rewards t)"
  shows "known_reward (rewards s) r \<or>
    (\<exists>v us. kd_virtual_daa kd = Inr v \<and> kd_coinbase_utxos kd = Inr us \<and> matured_output tk v us r)"
proof -
  have same: "known_reward (rewards s) r" if "rewards t = rewards s"
    using that assms(2) by (auto simp: known_reward_def)
  show ?thesis
  proof (cases "kd_virtual_daa kd")
    case (Inl e)
    then show ?thesis using assms(1) same by (auto simp: run_once_def bindE_def map_err_def)
  next
    case v: (Inr v)
    obtain st s1 where b: "sweep_blocks kd tk v default_sweep_stats s = (st, s1)" by fastforce
    have "ledger_frame (rewards s) (next_reward s) (allocs s) s1"
      using sweep_blocks_keeps[of s kd tk v default_sweep_stats] b by simp
    then have s1: "rewards s1 = rewards s" by (simp add: ledger_frame_def)
    show ?thesis
    proof (cases st)
      case (Inl e)
      then show ?thesis using assms(1) v b s1 same by (auto simp: run_once_def bindE_def map_err_def)
    next
      case st: (Inr st1)
      have t: "t = snd (sweep_rewards kd tk v st1 s1)"
        using assms(1) v b st by (auto simp: run_once_def bindE_def map_err_def split: prod.splits sum.splits)
      show ?thesis
      proof (cases "kd_coinbase_utxos kd")
        case (Inl e)
        then have "t = s1" using t by (simp add: sweep_rewards_def bindE_def map_err_def)
        then show ?thesis using same s1 by simp
      next
        case us: (Inr us)
        have "\<forall>r \<in> set (rewards s1). known_reward (rewards s) r \<or> matured_output tk v us r"
          using s1 by (auto simp: known_reward_def)
        then show ?thesis using preservesD[OF sweep_rewards_origin[OF us]] assms(2) v us unfolding t by blast
      qed
    qed
  qed
qed

text \<open>
  C36. A sweep never records an immature or pre-cutover coinbase: every reward row after the sweep
  was there before with the same outpoint, amount and score, or comes from an output of the
  node's answer that lies at least the coinbase maturity below the virtual score and not below
  the cutover floor, with that output's amount and score.
\<close>

theorem only_matured_rewards_recorded:
  assumes "run_once kd tk s = (x, t)" and "r \<in> set (rewards t)"
  shows "known_reward (rewards s) r \<or>
    (\<exists>v us. kd_virtual_daa kd = Inr v \<and> kd_coinbase_utxos kd = Inr us \<and> matured_output tk v us r)"
  using assms by (rule run_once_origin)

text \<open>
  A node at score 150 with two outputs of the pool: one created at score 40 and one at score 120,
  which is too young.
\<close>

definition sample_node :: kaspad_client where
  "sample_node = \<lparr>kd_virtual_daa = Inr 150, kd_block_color = (\<lambda>_. Inr NotYetMerged),
     kd_coinbase_utxos = Inr [\<lparr>cu_txid = replicate 32 1, cu_index = 0, cu_amount = 700, cu_block_daa = 40\<rparr>,
       \<lparr>cu_txid = replicate 32 2, cu_index = 0, cu_amount = 900, cu_block_daa = 120\<rparr>]\<rparr>"

definition sample_tracker :: tracker where
  "sample_tracker = \<lparr>tk_fee = \<lparr>topline_bps = 75\<rparr>, tk_classify = (\<lambda>_. Inr Standard), tk_instance = ''acc'',
     tk_cfg = default_maturity_config\<rparr>"

theorem rewards_distributed_once_witness:
  "let t = snd (run_once sample_node sample_tracker sample_books)
   in distinct (map reward_outpoint (rewards t)) \<and> (\<exists>new. allocs t = allocs sample_books @ new) \<and>
      (\<forall>r \<in> set (rewards t). rows_of (cr_id r) (allocs t) = [] \<or>
         cr_allocated_at r \<noteq> None \<and> pays_reward (cr_id r) (cr_amount r) (rows_of (cr_id r) (allocs t)))"
proof -
  have "tracker_run sample_books (snd (run_once sample_node sample_tracker sample_books))"
    by (intro tracker_run.sweep tracker_run.stay) (simp add: sample_tracker_def wf_fee_def MAX_TOPLINE_BPS_def)
  from rewards_distributed_once[OF this sample_ledger] show ?thesis by (simp add: Let_def)
qed

theorem only_matured_rewards_recorded_witness:
  "let t = snd (run_once sample_node sample_tracker empty_db); r = last (rewards t)
   in length (rewards t) = 1 \<and> (known_reward [] r \<or>
     (\<exists>v us. kd_virtual_daa sample_node = Inr v \<and> kd_coinbase_utxos sample_node = Inr us \<and>
        matured_output sample_tracker v us r))"
proof -
  let ?t = "snd (run_once sample_node sample_tracker empty_db)"
  have one: "length (rewards ?t) = 1"
    by (simp add: run_once_def sweep_blocks_def sweep_rewards_def list_by_status_def list_unallocated_def sample_node_def
        sample_tracker_def default_maturity_config_def DEFAULT_COINBASE_MATURITY_def DEFAULT_BATCH_SIZE_def
        DEFAULT_WINDOW_DAA_SPAN_def empty_db_def bindE_def map_err_def sql_def Let_def record_utxo_def is_mature_def
        counting_def reward_ensure_def reward_checks_def i64_try_from_u64_def u32_as_i32_def sweep_reward_def
        allocate_reward_def allocate_coinbase_reward_def close_window_def transaction_def materialise_def
        window_totals_def shares_in_def f64_sum_def list_for_window_def weight_desc_def finalise_empty_def
        run_gated_def gate_reward_def lock_for_allocation_def mark_allocated_def audit_append_def update_where_def)
  then have "last (rewards ?t) \<in> set (rewards ?t)" by (intro last_in_set) auto
  from only_matured_rewards_recorded[OF prod.collapse[symmetric] this] one show ?thesis
    by (simp add: Let_def) (simp add: empty_db_def)
qed

end
