(* ===== verification/Storagemass.thy ===== *)
theory Storagemass
  imports F64 Pool_Db
begin

text \<open>
  The transaction planner \<open>crates/katpool-storagemass\<close>: mass limits (\<open>evaluator.rs\<close>), the fee
  policy (\<open>fee.rs\<close>), the shape of an unsigned transaction (\<open>tx_build.rs\<close>), the greedy payout
  planner (\<open>planner.rs\<close>) and the treasury consolidation planner (\<open>consolidation.rs\<close>).

  The consensus library's mass calculator and output size are parameters (\<open>consensus\<close>).  Scripts
  are byte strings.  A \<open>u64\<close> sum that overflows is a panic, the error value of the planners.

  The lemmas show that both planners terminate, spend every coin at most once, pay every
  recipient at most once and in full, balance every transaction including its fee, and respect
  the mass limits; and what the greedy planner fails to do.
\<close>

section \<open>Types and limits\<close>

record outpoint =
  op_txid :: bytes
  op_index :: nat

record utxo_entry =
  ue_amount :: nat
  ue_script :: bytes
  ue_block_daa :: nat
  ue_is_coinbase :: bool

record treasury_utxo =
  tu_outpoint :: outpoint
  tu_entry :: utxo_entry

record payout_recipient =
  pr_id :: string
  pr_amount :: nat
  pr_script :: bytes

record tx_mass =
  compute_mass :: nat
  storage_mass :: nat
  transient_mass :: nat

record planned_batch =
  pb_inputs :: "treasury_utxo list"
  pb_payouts :: "payout_recipient list"
  pb_change :: nat
  pb_mass :: tx_mass

record plan_batches_result =
  br_batches :: "planned_batch list"
  br_deferred :: "payout_recipient list"
  br_unpaid :: "payout_recipient list"

definition PLANNING_VIRTUAL_TXID_BYTES :: bytes where
  "PLANNING_VIRTUAL_TXID_BYTES = replicate 31 0 @ [1]"

definition is_planning_virtual :: "treasury_utxo \<Rightarrow> bool" where
  "is_planning_virtual u \<longleftrightarrow> op_txid (tu_outpoint u) = PLANNING_VIRTUAL_TXID_BYTES"

definition MAX_STANDARD_TX_MASS :: nat where "MAX_STANDARD_TX_MASS = 100000"
definition MIN_PAYOUT_OUTPUT_SOMPI :: nat where "MIN_PAYOUT_OUTPUT_SOMPI = 1900000"

definition effective :: "tx_mass \<Rightarrow> nat" where
  "effective m = max (max (compute_mass m) (storage_mass m)) (transient_mass m)"

definition fits_independently :: "tx_mass \<Rightarrow> nat \<Rightarrow> bool" where
  "fits_independently m bound \<longleftrightarrow> compute_mass m \<le> bound \<and> storage_mass m \<le> bound \<and> transient_mass m \<le> bound"

section \<open>Transactions and their masses\<close>

record tx_input =
  ti_outpoint :: outpoint
  ti_sig_script :: bytes
  ti_sequence :: nat
  ti_sig_ops :: nat

record transaction =
  tx_inputs :: "tx_input list"
  tx_outputs :: "(nat \<times> bytes) list"

text \<open>What the planners ask of the consensus library.\<close>

record consensus =
  cs_non_contextual :: "transaction \<Rightarrow> nat \<times> nat"
  cs_contextual :: "transaction \<Rightarrow> utxo_entry list \<Rightarrow> nat option"
  cs_output_size :: "nat \<Rightarrow> bytes \<Rightarrow> nat"
  cs_block_mass_limit :: nat

datatype mass_evaluation_error = InputCountMismatch nat nat | StorageMassIncomputable

definition SIGNED_P2PK_SIG_SCRIPT_LEN :: nat where "SIGNED_P2PK_SIG_SCRIPT_LEN = 66"

definition evaluate_populated ::
  "consensus \<Rightarrow> transaction \<Rightarrow> utxo_entry list \<Rightarrow> mass_evaluation_error + tx_mass" where
  "evaluate_populated cs tx entries =
     (if length (tx_inputs tx) \<noteq> length entries
      then Inl (InputCountMismatch (length (tx_inputs tx)) (length entries))
      else case cs_contextual cs tx entries of
             None \<Rightarrow> Inl StorageMassIncomputable
           | Some st \<Rightarrow> Inr \<lparr>compute_mass = fst (cs_non_contextual cs tx), storage_mass = st,
                            transient_mass = snd (cs_non_contextual cs tx)\<rparr>)"

definition fits_block :: "consensus \<Rightarrow> transaction \<Rightarrow> utxo_entry list \<Rightarrow> bool" where
  "fits_block cs tx entries =
     (case evaluate_populated cs tx entries of Inl _ \<Rightarrow> False | Inr m \<Rightarrow> fits_independently m (cs_block_mass_limit cs))"

definition build_populated ::
  "treasury_utxo list \<Rightarrow> payout_recipient list \<Rightarrow> bytes \<Rightarrow> nat \<Rightarrow> transaction \<times> utxo_entry list" where
  "build_populated inputs outs change_script change =
     (\<lparr>tx_inputs = map (\<lambda>u. \<lparr>ti_outpoint = tu_outpoint u, ti_sig_script = replicate SIGNED_P2PK_SIG_SCRIPT_LEN 0,
                              ti_sequence = 0, ti_sig_ops = 1\<rparr>) inputs,
       tx_outputs = map (\<lambda>p. (pr_amount p, pr_script p)) outs @
         (if change > 0 then [(change, change_script)] else [])\<rparr>,
      map tu_entry inputs)"

section \<open>Fees\<close>

definition MIN_RELAY_TX_FEE_SOMPI_PER_KG :: nat where "MIN_RELAY_TX_FEE_SOMPI_PER_KG = 100000"
definition DUST_INPUT_SERIALIZED_SIZE :: nat where "DUST_INPUT_SERIALIZED_SIZE = 148"

record fee_rate =
  fr_sompi_per_gram :: f64
  fr_min_relay_per_kg :: nat

definition FeeRate_ZERO :: fee_rate where
  "FeeRate_ZERO = \<lparr>fr_sompi_per_gram = Fin 0, fr_min_relay_per_kg = 0\<rparr>"

definition from_feerate :: "f64 \<Rightarrow> fee_rate" where
  "from_feerate r = \<lparr>fr_sompi_per_gram = (if f64_is_finite r \<and> f64_lt (Fin 0) r then r else Fin 0),
     fr_min_relay_per_kg = MIN_RELAY_TX_FEE_SOMPI_PER_KG\<rparr>"

definition reserves_fee :: "fee_rate \<Rightarrow> bool" where
  "reserves_fee fr \<longleftrightarrow> f64_lt (Fin 0) (fr_sompi_per_gram fr) \<or> 0 < fr_min_relay_per_kg fr"

definition minimum_relay_fee :: "fee_rate \<Rightarrow> nat \<Rightarrow> nat" where
  "minimum_relay_fee fr mass =
     (let fee = sat_mul_u64 mass (fr_min_relay_per_kg fr) div 1000
      in if fee = 0 then fr_min_relay_per_kg fr else fee)"

text \<open>\<open>f64::min\<close>, and \<open>u64::MAX as f64\<close>, which is \<open>2 ^ 64\<close>.\<close>

definition f64_min :: "f64 \<Rightarrow> f64 \<Rightarrow> f64" where
  "f64_min a b = (if a = NaN then b else if b = NaN then a else if f64_le a b then a else b)"

definition fee_for :: "fee_rate \<Rightarrow> tx_mass \<Rightarrow> nat" where
  "fee_for fr m =
     (let scaled = f64_mul (fr_sompi_per_gram fr) (f64_of_int (int (effective m)));
          estimate = (if f64_is_finite scaled \<and> f64_lt (Fin 0) scaled
                      then f64_as_u64 (f64_min (f64_ceil scaled) (Fin (2 ^ 64))) else 0)
      in max estimate (minimum_relay_fee fr (compute_mass m)))"

definition is_change_dust :: "consensus \<Rightarrow> nat \<Rightarrow> bytes \<Rightarrow> bool" where
  "is_change_dust cs v script =
     (let serialized = sat_add_u64 (cs_output_size cs v script) DUST_INPUT_SERIALIZED_SIZE
      in v * 1000 div (3 * serialized) < MIN_RELAY_TX_FEE_SOMPI_PER_KG)"

section \<open>The payout planner\<close>

datatype panic = Panic

definition MAX_OUTPUTS_PER_INPUT :: nat where "MAX_OUTPUTS_PER_INPUT = 10"

definition partition_by_floor :: "payout_recipient list \<Rightarrow> payout_recipient list \<times> payout_recipient list" where
  "partition_by_floor rs = (filter (\<lambda>r. MIN_PAYOUT_OUTPUT_SOMPI \<le> pr_amount r) rs,
     filter (\<lambda>r. \<not> MIN_PAYOUT_OUTPUT_SOMPI \<le> pr_amount r) rs)"

definition sort_utxos_desc :: "treasury_utxo list \<Rightarrow> treasury_utxo list" where
  "sort_utxos_desc us = sort_key (\<lambda>u. - int (ue_amount (tu_entry u))) us"

definition sort_recipients_desc :: "payout_recipient list \<Rightarrow> payout_recipient list" where
  "sort_recipients_desc rs = sort_key (\<lambda>r. - int (pr_amount r)) rs"

abbreviation utxo_sum :: "treasury_utxo list \<Rightarrow> nat" where
  "utxo_sum us \<equiv> sum_list (map (\<lambda>u. ue_amount (tu_entry u)) us)"

abbreviation payout_sum :: "payout_recipient list \<Rightarrow> nat" where
  "payout_sum rs \<equiv> sum_list (map pr_amount rs)"

definition evaluate_shape ::
  "consensus \<Rightarrow> treasury_utxo list \<Rightarrow> payout_recipient list \<Rightarrow> bytes \<Rightarrow> nat \<Rightarrow> tx_mass option" where
  "evaluate_shape cs inputs outs change_script change =
     (case build_populated inputs outs change_script change of (tx, entries) \<Rightarrow>
        case evaluate_populated cs tx entries of
          Inl _ \<Rightarrow> None
        | Inr m \<Rightarrow> if fits_independently m (cs_block_mass_limit cs) then Some m else None)"

text \<open>The recipients at a list of indices (\<open>filter_map\<close> over \<open>get\<close>).\<close>

definition pick :: "payout_recipient list \<Rightarrow> nat list \<Rightarrow> payout_recipient list" where
  "pick rs sel = map (\<lambda>i. rs ! i) (filter (\<lambda>i. i < length rs) sel)"

definition reserved_fee :: "fee_rate \<Rightarrow> tx_mass \<Rightarrow> nat" where
  "reserved_fee fr m = (if reserves_fee fr then fee_for fr m else 0)"

definition greedy_step ::
  "consensus \<Rightarrow> treasury_utxo list \<Rightarrow> nat \<Rightarrow> payout_recipient list \<Rightarrow> bytes \<Rightarrow> fee_rate \<Rightarrow>
   nat \<Rightarrow> payout_recipient \<Rightarrow> nat list \<Rightarrow> nat list" where
  "greedy_step cs inputs input_sum rs change_script fr idx rec selected =
     (let candidate_sum = sat_add_u64 (payout_sum (pick rs selected)) (pr_amount rec);
          candidate = selected @ [idx];
          refs = pick rs candidate
      in if input_sum < candidate_sum then selected
         else if length refs \<noteq> length candidate then selected
         else case evaluate_shape cs inputs refs change_script (input_sum - candidate_sum) of
                None \<Rightarrow> selected
              | Some m \<Rightarrow>
                  if sat_add_u64 candidate_sum (reserved_fee fr m) \<le> input_sum then candidate else selected)"

fun greedy_loop ::
  "consensus \<Rightarrow> treasury_utxo list \<Rightarrow> nat \<Rightarrow> payout_recipient list \<Rightarrow> bytes \<Rightarrow> fee_rate \<Rightarrow>
   nat \<Rightarrow> nat \<Rightarrow> payout_recipient list \<Rightarrow> nat list \<Rightarrow> nat list" where
  "greedy_loop cs inputs input_sum rs change_script fr max_outputs idx [] selected = selected"
| "greedy_loop cs inputs input_sum rs change_script fr max_outputs idx (rec # rest) selected =
     (if max_outputs \<le> length selected then selected
      else greedy_loop cs inputs input_sum rs change_script fr max_outputs (Suc idx) rest
             (greedy_step cs inputs input_sum rs change_script fr idx rec selected))"

definition greedy_recipients_for_inputs ::
  "consensus \<Rightarrow> treasury_utxo list \<Rightarrow> nat \<Rightarrow> payout_recipient list \<Rightarrow> bytes \<Rightarrow> fee_rate \<Rightarrow> nat list option" where
  "greedy_recipients_for_inputs cs inputs input_sum rs change_script fr =
     (let max_outputs = max (length inputs * MAX_OUTPUTS_PER_INPUT) 1;
          selected = greedy_loop cs inputs input_sum rs change_script fr max_outputs 0 rs []
      in if selected = [] then None else Some selected)"

text \<open>
  One candidate input count of \<open>build_one_batch\<close>: leave the function without a batch (the \<open>?\<close>
  on the greedy selection), widen the inputs (\<open>continue\<close>), return a batch, or underflow.
\<close>

datatype attempt = NoBatch | Widen | Batch planned_batch | Crash

definition try_inputs ::
  "consensus \<Rightarrow> treasury_utxo list \<Rightarrow> payout_recipient list \<Rightarrow> bytes \<Rightarrow> fee_rate \<Rightarrow> attempt" where
  "try_inputs cs inputs rs change_script fr =
     (let input_sum = utxo_sum inputs
      in case greedy_recipients_for_inputs cs inputs input_sum rs change_script fr of
           None \<Rightarrow> NoBatch
         | Some selected \<Rightarrow>
             let outs = pick rs selected; paid = payout_sum outs
             in if selected = [] then Widen
                else if input_sum < paid then Widen
                else if length outs \<noteq> length selected then Widen
                else case evaluate_shape cs inputs outs change_script (input_sum - paid) of
                       None \<Rightarrow> Widen
                     | Some gross_mass \<Rightarrow>
                         let fee = reserved_fee fr gross_mass
                         in if input_sum < sat_add_u64 paid fee then Widen
                            else if input_sum < paid + fee then Crash
                            else
                              let change = input_sum - paid - fee;
                                  drop_change = (reserves_fee fr \<and> (change = 0 \<or> is_change_dust cs change change_script))
                              in if drop_change
                                 then case evaluate_shape cs inputs outs change_script 0 of
                                        None \<Rightarrow> Widen
                                      | Some m \<Rightarrow> Batch \<lparr>pb_inputs = inputs, pb_payouts = outs, pb_change = 0, pb_mass = m\<rparr>
                                 else Batch \<lparr>pb_inputs = inputs, pb_payouts = outs, pb_change = change, pb_mass = gross_mass\<rparr>)"

function build_loop ::
  "consensus \<Rightarrow> treasury_utxo list \<Rightarrow> payout_recipient list \<Rightarrow> bytes \<Rightarrow> fee_rate \<Rightarrow> nat \<Rightarrow>
   panic + planned_batch option" where
  "build_loop cs us rs change_script fr n =
     (if length us < n then Inr None
      else if u64_max < utxo_sum (take n us) then Inl Panic
      else case try_inputs cs (take n us) rs change_script fr of
             NoBatch \<Rightarrow> Inr None
           | Widen \<Rightarrow> build_loop cs us rs change_script fr (Suc n)
           | Batch b \<Rightarrow> Inr (Some b)
           | Crash \<Rightarrow> Inl Panic)"
  by pat_completeness auto
termination by (relation "measure (\<lambda>(cs, us, rs, sc, fr, n). Suc (length us) - n)") auto

declare build_loop.simps [simp del]

definition build_one_batch ::
  "consensus \<Rightarrow> treasury_utxo list \<Rightarrow> payout_recipient list \<Rightarrow> bytes \<Rightarrow> fee_rate \<Rightarrow> panic + planned_batch option" where
  "build_one_batch cs us rs change_script fr = build_loop cs us rs change_script fr 1"

definition planning_change_utxo :: "nat \<Rightarrow> nat \<Rightarrow> bytes \<Rightarrow> treasury_utxo" where
  "planning_change_utxo i amount script =
     \<lparr>tu_outpoint = \<lparr>op_txid = PLANNING_VIRTUAL_TXID_BYTES, op_index = i\<rparr>,
      tu_entry = \<lparr>ue_amount = amount, ue_script = script, ue_block_daa = 0, ue_is_coinbase = False\<rparr>\<rparr>"

definition remove_consumed :: "treasury_utxo list \<Rightarrow> treasury_utxo list \<Rightarrow> treasury_utxo list" where
  "remove_consumed us consumed = filter (\<lambda>u. \<not> list_ex (\<lambda>c. tu_outpoint c = tu_outpoint u) consumed) us"

definition remove_paid :: "payout_recipient list \<Rightarrow> payout_recipient list \<Rightarrow> payout_recipient list" where
  "remove_paid rs paid = filter (\<lambda>r. \<not> list_ex (\<lambda>p. pr_id p = pr_id r) paid) rs"

text \<open>The funding set after a batch: its inputs gone, its change put back as a virtual coin.\<close>

definition after_batch :: "nat \<Rightarrow> bytes \<Rightarrow> treasury_utxo list \<Rightarrow> planned_batch \<Rightarrow> treasury_utxo list" where
  "after_batch k change_script us b =
     (let left = remove_consumed us (pb_inputs b)
      in if 0 < pb_change b \<and> k \<le> u32_max
         then sort_utxos_desc (left @ [planning_change_utxo k (pb_change b) change_script])
         else left)"

text \<open>
  The indices a greedy selection holds are increasing and in range, so the picked recipients are
  a subsequence of the list.
\<close>

lemma greedy_step_cases:
  "greedy_step cs ins isum rs sc fr idx rec sel = sel \<or> greedy_step cs ins isum rs sc fr idx rec sel = sel @ [idx]"
  by (simp add: greedy_step_def Let_def split: option.split)

lemma greedy_loop_indices:
  assumes "sorted_wrt (<) sel" and "\<forall>i \<in> set sel. i < idx" and "idx + length rest = length rs"
  shows "sorted_wrt (<) (greedy_loop cs ins isum rs sc fr mx idx rest sel) \<and>
    (\<forall>i \<in> set (greedy_loop cs ins isum rs sc fr mx idx rest sel). i < length rs)"
  using assms
proof (induction rest arbitrary: idx sel)
  case (Cons rec rest)
  let ?sel = "greedy_step cs ins isum rs sc fr idx rec sel"
  have "sorted_wrt (<) ?sel" "\<forall>i \<in> set ?sel. i < Suc idx"
    using Cons.prems greedy_step_cases[of cs ins isum rs sc fr idx rec sel] by (auto simp: sorted_wrt_append less_Suc_eq)
  then show ?case using Cons by auto
qed auto

lemma greedy_SomeD:
  assumes "greedy_recipients_for_inputs cs ins isum rs sc fr = Some sel"
  shows "sel \<noteq> []" and "sorted_wrt (<) sel" and "\<forall>i \<in> set sel. i < length rs"
    and "length (pick rs sel) = length sel"
proof -
  show "sel \<noteq> []" using assms by (auto simp: greedy_recipients_for_inputs_def Let_def split: if_splits)
  show "sorted_wrt (<) sel" and *: "\<forall>i \<in> set sel. i < length rs"
    using assms greedy_loop_indices[of "[]" 0 rs rs]
    by (auto simp: greedy_recipients_for_inputs_def Let_def split: if_splits)
  from * show "length (pick rs sel) = length sel" by (simp add: pick_def)
qed

lemma try_inputs_Batch:
  assumes "try_inputs cs ins rs sc fr = Batch b"
  shows "pb_inputs b = ins" and "\<exists>sel. greedy_recipients_for_inputs cs ins (utxo_sum ins) rs sc fr = Some sel \<and> pb_payouts b = pick rs sel"
  using assms by (auto simp: try_inputs_def Let_def split: option.splits if_splits)

lemma build_loop_Some:
  "build_loop cs us rs sc fr n = Inr (Some b) \<Longrightarrow>
   \<exists>k. n \<le> k \<and> k \<le> length us \<and> utxo_sum (take k us) \<le> u64_max \<and> try_inputs cs (take k us) rs sc fr = Batch b"
proof (induction cs us rs sc fr n rule: build_loop.induct)
  case (1 cs us rs sc fr n)
  have unf: "(if length us < n then Inr None else if u64_max < utxo_sum (take n us) then Inl Panic
      else case try_inputs cs (take n us) rs sc fr of NoBatch \<Rightarrow> Inr None
        | Widen \<Rightarrow> build_loop cs us rs sc fr (Suc n) | Batch b \<Rightarrow> Inr (Some b) | Crash \<Rightarrow> Inl Panic) = Inr (Some b)"
    using "1.prems" by (subst (asm) build_loop.simps)
  have le: "n \<le> length us" "utxo_sum (take n us) \<le> u64_max"
    using unf by (auto split: if_splits)
  show ?case
  proof (cases "try_inputs cs (take n us) rs sc fr")
    case Widen
    with unf le obtain k where "Suc n \<le> k" "k \<le> length us" "utxo_sum (take k us) \<le> u64_max"
      "try_inputs cs (take k us) rs sc fr = Batch b"
      using "1.IH" by (auto simp: not_less)
    then show ?thesis by (meson Suc_leD)
  qed (use unf le in auto)
qed

lemma set_pick: "set (pick rs sel) \<subseteq> set rs"
  by (auto simp: pick_def)

lemma build_one_batch_Some:
  assumes "build_one_batch cs us rs sc fr = Inr (Some b)"
  shows "pb_payouts b \<noteq> []" and "set (pb_payouts b) \<subseteq> set rs"
proof -
  obtain k sel where "try_inputs cs (take k us) rs sc fr = Batch b"
    and sel: "greedy_recipients_for_inputs cs (take k us) (utxo_sum (take k us)) rs sc fr = Some sel" "pb_payouts b = pick rs sel"
    using assms build_loop_Some try_inputs_Batch unfolding build_one_batch_def by metis
  with greedy_SomeD[OF sel(1)] show "pb_payouts b \<noteq> []" by auto
  show "set (pb_payouts b) \<subseteq> set rs" using sel set_pick by simp
qed

lemma remove_paid_shorter:
  assumes "p \<in> set paid" and "p \<in> set rs"
  shows "length (remove_paid rs paid) < length rs"
proof -
  have "\<not> \<not> list_ex (\<lambda>q. pr_id q = pr_id p) paid" using assms(1) by (auto simp: list_ex_iff)
  then show ?thesis unfolding remove_paid_def using assms(2)
    by (metis (mono_tags, lifting) length_filter_less)
qed

text \<open>The \<open>while\<close> loop: every batch pays somebody, so the payable list shrinks.\<close>

function plan_loop ::
  "consensus \<Rightarrow> bytes \<Rightarrow> fee_rate \<Rightarrow> treasury_utxo list \<Rightarrow> payout_recipient list \<Rightarrow> planned_batch list \<Rightarrow>
   panic + (planned_batch list \<times> payout_recipient list)" where
  "plan_loop cs change_script fr us payable batches =
     (if payable = [] \<or> us = [] then Inr (batches, payable)
      else case build_one_batch cs us payable change_script fr of
             Inl e \<Rightarrow> Inl e
           | Inr None \<Rightarrow> Inr (batches, payable)
           | Inr (Some b) \<Rightarrow>
               plan_loop cs change_script fr (after_batch (length batches) change_script us b)
                 (remove_paid payable (pb_payouts b)) (batches @ [b]))"
  by pat_completeness auto
termination
proof (relation "measure (\<lambda>(cs, sc, fr, us, payable, batches). length payable)", goal_cases)
  case (2 cs change_script fr us payable batches x2 b)
  then have "build_one_batch cs us payable change_script fr = Inr (Some b)" by simp
  from build_one_batch_Some[OF this] have "length (remove_paid payable (pb_payouts b)) < length payable"
    by (cases "pb_payouts b") (auto intro: remove_paid_shorter)
  then show ?case by simp
qed simp

declare plan_loop.simps [simp del]

definition plan_batches ::
  "consensus \<Rightarrow> treasury_utxo list \<Rightarrow> payout_recipient list \<Rightarrow> bytes \<Rightarrow> fee_rate \<Rightarrow> panic + plan_batches_result" where
  "plan_batches cs us rs change_script fr =
     (case partition_by_floor rs of (payable, deferred) \<Rightarrow>
        case plan_loop cs change_script fr (sort_utxos_desc us) (sort_recipients_desc payable) [] of
          Inl e \<Rightarrow> Inl e
        | Inr (batches, unpaid) \<Rightarrow> Inr \<lparr>br_batches = batches, br_deferred = deferred, br_unpaid = unpaid\<rparr>)"

section \<open>The consolidation planner\<close>

definition MIN_CONSOLIDATION_INPUTS :: nat where "MIN_CONSOLIDATION_INPUTS = 2"

definition sort_utxos_asc :: "treasury_utxo list \<Rightarrow> treasury_utxo list" where
  "sort_utxos_asc us = sort_key (\<lambda>u. ue_amount (tu_entry u)) us"

text \<open>\<open>iter().sum::<u64>()\<close>.\<close>

definition checked_sum :: "treasury_utxo list \<Rightarrow> panic + nat" where
  "checked_sum us = (if utxo_sum us \<le> u64_max then Inr (utxo_sum us) else Inl Panic)"

definition evaluate_self_send :: "consensus \<Rightarrow> treasury_utxo list \<Rightarrow> bytes \<Rightarrow> nat \<Rightarrow> tx_mass option" where
  "evaluate_self_send cs inputs script change =
     (case build_populated inputs [] script change of (tx, entries) \<Rightarrow>
        case evaluate_populated cs tx entries of
          Inl _ \<Rightarrow> None
        | Inr m \<Rightarrow> if fits_independently m MAX_STANDARD_TX_MASS then Some m else None)"

definition fits_prefix :: "consensus \<Rightarrow> treasury_utxo list \<Rightarrow> bytes \<Rightarrow> nat \<Rightarrow> panic + tx_mass option" where
  "fits_prefix cs us script n =
     (if length us < n then Inr None
      else case checked_sum (take n us) of
             Inl e \<Rightarrow> Inl e
           | Inr input_sum \<Rightarrow> Inr (evaluate_self_send cs (take n us) script input_sum))"

function search_cap :: "consensus \<Rightarrow> treasury_utxo list \<Rightarrow> bytes \<Rightarrow> nat \<Rightarrow> nat \<Rightarrow> panic + nat" where
  "search_cap cs us script lo hi =
     (if lo < hi then
        let mid = lo + (hi - lo + 1) div 2
        in case fits_prefix cs us script mid of
             Inl e \<Rightarrow> Inl e
           | Inr (Some _) \<Rightarrow> search_cap cs us script mid hi
           | Inr None \<Rightarrow> search_cap cs us script lo (mid - 1)
      else Inr lo)"
  by pat_completeness auto
termination by (relation "measure (\<lambda>(cs, us, sc, lo, hi). hi - lo)") (auto simp: diff_less_mono2)

declare search_cap.simps [simp del]

definition max_inputs_that_fit :: "consensus \<Rightarrow> treasury_utxo list \<Rightarrow> bytes \<Rightarrow> nat \<Rightarrow> panic + nat" where
  "max_inputs_that_fit cs us script max_inputs =
     (let hi = min max_inputs (length us)
      in if hi = 0 then Inr 0
         else case fits_prefix cs us script 1 of
                Inl e \<Rightarrow> Inl e
              | Inr None \<Rightarrow> Inr 0
              | Inr (Some _) \<Rightarrow> search_cap cs us script 1 hi)"

function chunks :: "nat \<Rightarrow> 'a list \<Rightarrow> 'a list list" where
  "chunks n xs = (if xs = [] \<or> n = 0 then [] else take n xs # chunks n (drop n xs))"
  by pat_completeness auto
termination by (relation "measure (\<lambda>(n, xs). length xs)") auto

declare chunks.simps [simp del]

fun consolidate_loop ::
  "consensus \<Rightarrow> bytes \<Rightarrow> fee_rate \<Rightarrow> nat \<Rightarrow> treasury_utxo list list \<Rightarrow> planned_batch list \<Rightarrow> panic + planned_batch list" where
  "consolidate_loop cs script fr max_txs [] batches = Inr batches"
| "consolidate_loop cs script fr max_txs (chunk # rest) batches =
     (if max_txs \<le> length batches then Inr batches
      else if length chunk < MIN_CONSOLIDATION_INPUTS then Inr batches
      else case checked_sum chunk of
             Inl e \<Rightarrow> Inl e
           | Inr input_sum \<Rightarrow>
              (case evaluate_self_send cs chunk script input_sum of
                 None \<Rightarrow> consolidate_loop cs script fr max_txs rest batches
               | Some m \<Rightarrow>
                   if reserves_fee fr \<and> input_sum \<le> fee_for fr m
                   then consolidate_loop cs script fr max_txs rest batches
                   else consolidate_loop cs script fr max_txs rest (batches @
                     [\<lparr>pb_inputs = chunk, pb_payouts = [], pb_change = input_sum, pb_mass = m\<rparr>])))"

definition plan_consolidation ::
  "consensus \<Rightarrow> treasury_utxo list \<Rightarrow> bytes \<Rightarrow> fee_rate \<Rightarrow> nat \<Rightarrow> nat \<Rightarrow> panic + planned_batch list" where
  "plan_consolidation cs us0 script fr max_inputs max_txs =
     (let us = filter (\<lambda>u. \<not> is_planning_virtual u) us0
      in if max_txs = 0 \<or> max_inputs < MIN_CONSOLIDATION_INPUTS \<or> length us < MIN_CONSOLIDATION_INPUTS then Inr []
         else
           let us = sort_utxos_asc us
           in case max_inputs_that_fit cs us script max_inputs of
                Inl e \<Rightarrow> Inl e
              | Inr cap \<Rightarrow>
                  if cap < MIN_CONSOLIDATION_INPUTS then Inr []
                  else consolidate_loop cs script fr max_txs (chunks cap us) [])"

section \<open>Every planned transaction is balanced and relayable\<close>

text \<open>
  One batch: it pays somebody; its inputs cover the payments, the fee of the measured shape and the
  change, and what is left over beyond the fee is nothing or dust.  The measured shape has the change
  before the fee is taken out.  The mass recorded with the batch fits the block limit; it is that of the measured
  shape, or of the shape without change when the change is dropped.
\<close>

definition batch_ok :: "consensus \<Rightarrow> bytes \<Rightarrow> fee_rate \<Rightarrow> planned_batch \<Rightarrow> bool" where
  "batch_ok cs sc fr b \<longleftrightarrow> pb_payouts b \<noteq> [] \<and> fits_independently (pb_mass b) (cs_block_mass_limit cs) \<and>
     evaluate_shape cs (pb_inputs b) (pb_payouts b) sc
       (if pb_change b = 0 then 0 else utxo_sum (pb_inputs b) - payout_sum (pb_payouts b)) = Some (pb_mass b) \<and>
     (\<exists>gm extra. evaluate_shape cs (pb_inputs b) (pb_payouts b) sc (utxo_sum (pb_inputs b) - payout_sum (pb_payouts b)) = Some gm \<and>
        utxo_sum (pb_inputs b) = payout_sum (pb_payouts b) + pb_change b + reserved_fee fr gm + extra \<and>
        (extra = 0 \<or> reserves_fee fr \<and> pb_change b = 0 \<and> is_change_dust cs extra sc) \<and>
        (0 < pb_change b \<and> reserves_fee fr \<longrightarrow> \<not> is_change_dust cs (pb_change b) sc))"

text \<open>What the comments of the planner assume: the mass depends on the presence of a change output, not on its value.\<close>

definition change_blind :: "consensus \<Rightarrow> bytes \<Rightarrow> planned_batch \<Rightarrow> bool" where
  "change_blind cs sc b \<longleftrightarrow>
     (\<forall>c c'. 0 < c \<longrightarrow> 0 < c' \<longrightarrow> evaluate_shape cs (pb_inputs b) (pb_payouts b) sc c = evaluate_shape cs (pb_inputs b) (pb_payouts b) sc c')"

lemma batch_own_shape:
  assumes "batch_ok cs sc fr b" and "pb_change b = 0 \<or> \<not> reserves_fee fr \<or> change_blind cs sc b"
  shows "evaluate_shape cs (pb_inputs b) (pb_payouts b) sc (pb_change b) = Some (pb_mass b)"
proof (cases "pb_change b = 0")
  case False
  let ?gross = "utxo_sum (pb_inputs b) - payout_sum (pb_payouts b)"
  have gross: "evaluate_shape cs (pb_inputs b) (pb_payouts b) sc ?gross = Some (pb_mass b)" "0 < ?gross"
    and kept: "\<not> reserves_fee fr \<Longrightarrow> pb_change b = ?gross"
    using assms(1) False by (auto simp: batch_ok_def reserved_fee_def)
  show ?thesis
  proof (cases "reserves_fee fr")
    case True
    then show ?thesis using assms(2) False gross unfolding change_blind_def by (metis neq0_conv)
  qed (use kept gross in simp)
qed (use assms(1) in \<open>simp add: batch_ok_def\<close>)

lemma evaluate_shape_fits:
  "evaluate_shape cs ins outs sc ch = Some m \<Longrightarrow> fits_independently m (cs_block_mass_limit cs)"
  by (auto simp: evaluate_shape_def split: prod.splits sum.splits if_splits)

lemma try_inputs_ok:
  assumes "try_inputs cs ins rs sc fr = Batch b"
  shows "batch_ok cs sc fr b"
proof -
  obtain sel where sel: "greedy_recipients_for_inputs cs ins (utxo_sum ins) rs sc fr = Some sel" and p: "pb_payouts b = pick rs sel"
    using try_inputs_Batch[OF assms] by blast
  have ins: "pb_inputs b = ins" using try_inputs_Batch[OF assms] by blast
  have ne: "pb_payouts b \<noteq> []" using greedy_SomeD[OF sel] p by auto
  let ?paid = "payout_sum (pick rs sel)"
  obtain gm where gm: "evaluate_shape cs ins (pick rs sel) sc (utxo_sum ins - ?paid) = Some gm"
    and cov: "?paid + reserved_fee fr gm \<le> utxo_sum ins"
    and b: "b = (let change = utxo_sum ins - ?paid - reserved_fee fr gm in
        if reserves_fee fr \<and> (change = 0 \<or> is_change_dust cs change sc)
        then \<lparr>pb_inputs = ins, pb_payouts = pick rs sel, pb_change = 0,
               pb_mass = the (evaluate_shape cs ins (pick rs sel) sc 0)\<rparr>
        else \<lparr>pb_inputs = ins, pb_payouts = pick rs sel, pb_change = change, pb_mass = gm\<rparr>)"
    and m0: "reserves_fee fr \<and> (utxo_sum ins - ?paid - reserved_fee fr gm = 0 \<or>
        is_change_dust cs (utxo_sum ins - ?paid - reserved_fee fr gm) sc) \<longrightarrow>
        evaluate_shape cs ins (pick rs sel) sc 0 \<noteq> None"
    using assms sel unfolding try_inputs_def Let_def
    by (auto simp: not_less split: option.splits if_splits)
  define change where "change = utxo_sum ins - ?paid - reserved_fee fr gm"
  show ?thesis
  proof (cases "reserves_fee fr \<and> (change = 0 \<or> is_change_dust cs change sc)")
    case True
    then have b': "b = \<lparr>pb_inputs = ins, pb_payouts = pick rs sel, pb_change = 0,
               pb_mass = the (evaluate_shape cs ins (pick rs sel) sc 0)\<rparr>"
      using b by (simp add: change_def Let_def)
    have "evaluate_shape cs ins (pick rs sel) sc 0 = Some (pb_mass b)"
      using m0 True b' by (auto simp: change_def)
    moreover from this have "fits_independently (pb_mass b) (cs_block_mass_limit cs)" by (rule evaluate_shape_fits)
    moreover have "pb_payouts b = pick rs sel" "pb_change b = 0" by (subst b', simp)+
    ultimately show ?thesis
      using ne gm cov True ins unfolding batch_ok_def
      by (intro conjI exI[of _ gm] exI[of _ change]) (auto simp: change_def)
  next
    case False
    then have b': "b = \<lparr>pb_inputs = ins, pb_payouts = pick rs sel, pb_change = change, pb_mass = gm\<rparr>"
      using b by (auto simp: change_def Let_def)
    then show ?thesis
      using ne gm cov False evaluate_shape_fits[OF gm] unfolding batch_ok_def by (auto simp: change_def reserved_fee_def intro!: exI[of _ gm])
  qed
qed

section \<open>Recipients and coins are used at most once\<close>

lemma build_one_batch_shape:
  assumes "build_one_batch cs us rs sc fr = Inr (Some b)"
  obtains k sel where "k \<le> length us" "pb_inputs b = take k us" "pb_payouts b = pick rs sel"
    "sorted_wrt (<) sel" "\<forall>i \<in> set sel. i < length rs"
proof -
  obtain k where k: "k \<le> length us" "try_inputs cs (take k us) rs sc fr = Batch b"
    using assms build_loop_Some unfolding build_one_batch_def by blast
  then obtain sel where "greedy_recipients_for_inputs cs (take k us) (utxo_sum (take k us)) rs sc fr = Some sel" "pb_payouts b = pick rs sel"
    using try_inputs_Batch by blast
  then show thesis using greedy_SomeD(2,3) by (intro that[of k sel] k(1) try_inputs_Batch(1)[OF k(2)]) auto
qed

lemma mset_pick_remove:
  assumes d: "distinct (map pr_id rs)" and sel: "sorted_wrt (<) sel" "\<forall>i \<in> set sel. i < length rs"
  shows "mset (pick rs sel) + mset (remove_paid rs (pick rs sel)) = mset rs"
proof -
  have dr: "distinct rs" using d distinct_map by blast
  have ds: "distinct sel" using sel(1) by (simp add: strict_sorted_iff)
  have "pick rs sel = map ((!) rs) sel" using sel(2) by (simp add: pick_def)
  then have dp: "distinct (pick rs sel)" using ds dr sel(2)
    by (simp add: distinct_map inj_on_def nth_eq_iff_index_eq)
  let ?P = "\<lambda>r. list_ex (\<lambda>p. pr_id p = pr_id r) (pick rs sel)"
  have "set (filter ?P rs) = set (pick rs sel)"
    using d set_pick[of rs sel] by (auto simp: list_ex_iff distinct_map inj_on_def)
  then have "mset (filter ?P rs) = mset (pick rs sel)"
    using dr dp by (metis distinct_filter set_eq_iff_mset_eq_distinct)
  then show ?thesis unfolding remove_paid_def
    by (metis mset_filter multiset_partition)
qed

lemma remove_consumed_take:
  "distinct (map tu_outpoint us) \<Longrightarrow> remove_consumed us (take k us) = drop k us"
proof (induction us arbitrary: k)
  case (Cons u us)
  show ?case
  proof (cases k)
    case 0
    then show ?thesis by (simp add: remove_consumed_def)
  next
    case (Suc j)
    have "\<forall>v \<in> set us. tu_outpoint u \<noteq> tu_outpoint v" using Cons.prems by force
    then have "filter (\<lambda>v. \<not> (tu_outpoint u = tu_outpoint v \<or> list_ex (\<lambda>c. tu_outpoint c = tu_outpoint v) (take j us))) us =
        filter (\<lambda>v. \<not> list_ex (\<lambda>c. tu_outpoint c = tu_outpoint v) (take j us)) us"
      by (intro filter_cong) auto
    then show ?thesis using Suc Cons by (simp add: remove_consumed_def)
  qed
qed (simp add: remove_consumed_def)

text \<open>
  The invariant of the planning loop: payments made and still due make up the initial list, no
  coin occurs twice among the spent and the available ones, and virtual coins carry the index of
  the batch that made them.
\<close>

definition plan_inv :: "payout_recipient multiset \<Rightarrow> treasury_utxo list \<Rightarrow> payout_recipient list \<Rightarrow> planned_batch list \<Rightarrow> bool" where
  "plan_inv M us payable batches \<longleftrightarrow>
     mset (concat (map pb_payouts batches)) + mset payable = M \<and>
     distinct (map tu_outpoint (concat (map pb_inputs batches) @ us)) \<and>
     (\<forall>u \<in> set (concat (map pb_inputs batches) @ us). is_planning_virtual u \<longrightarrow> op_index (tu_outpoint u) < length batches)"

lemma set_after_batch:
  "set (after_batch k sc us b) \<subseteq> set (remove_consumed us (pb_inputs b)) \<union> {planning_change_utxo k (pb_change b) sc}"
  by (auto simp: after_batch_def Let_def sort_utxos_desc_def)

lemma plan_inv_step:
  assumes inv: "plan_inv M us payable batches" and d: "distinct (map pr_id payable)"
    and b: "build_one_batch cs us payable sc fr = Inr (Some b)"
  shows "plan_inv M (after_batch (length batches) sc us b) (remove_paid payable (pb_payouts b)) (batches @ [b])"
proof -
  obtain k sel where k: "pb_inputs b = take k us" and sel: "pb_payouts b = pick payable sel"
    "sorted_wrt (<) sel" "\<forall>i \<in> set sel. i < length payable"
    using build_one_batch_shape[OF b] by metis
  have M: "mset (concat (map pb_payouts (batches @ [b]))) + mset (remove_paid payable (pb_payouts b)) = M"
    using inv mset_pick_remove[OF d sel(2,3)] sel(1) by (simp add: plan_inv_def add.assoc)
  let ?spent = "concat (map pb_inputs batches)" and ?v = "planning_change_utxo (length batches) (pb_change b) sc"
  have du: "distinct (map tu_outpoint us)" using inv by (simp add: plan_inv_def)
  have left: "remove_consumed us (pb_inputs b) = drop k us" using remove_consumed_take[OF du] k by simp
  have fresh: "tu_outpoint ?v \<notin> tu_outpoint ` set (?spent @ us)"
  proof
    assume "tu_outpoint ?v \<in> tu_outpoint ` set (?spent @ us)"
    then obtain u where u: "u \<in> set (?spent @ us)" "tu_outpoint u = tu_outpoint ?v" by force
    then have "is_planning_virtual u" "op_index (tu_outpoint u) = length batches"
      by (simp_all add: planning_change_utxo_def is_planning_virtual_def)
    moreover have "\<forall>u \<in> set (?spent @ us). is_planning_virtual u \<longrightarrow> op_index (tu_outpoint u) < length batches"
      using inv by (simp add: plan_inv_def)
    ultimately show False using u(1) by auto
  qed
  let ?vs = "if 0 < pb_change b \<and> length batches \<le> u32_max then [?v] else []"
  have "distinct (map tu_outpoint (?spent @ us @ ?vs))"
    using inv fresh by (simp add: plan_inv_def) auto
  moreover have "us @ ?vs = take k us @ drop k us @ ?vs" by simp
  ultimately have dst: "distinct (map tu_outpoint (?spent @ take k us @ drop k us @ ?vs))" by (simp only:)
  have "mset (after_batch (length batches) sc us b) = mset (drop k us @ ?vs)"
    by (simp add: after_batch_def Let_def left sort_utxos_desc_def)
  then have "mset (map tu_outpoint (concat (map pb_inputs (batches @ [b])) @ after_batch (length batches) sc us b)) =
      mset (map tu_outpoint (?spent @ take k us @ drop k us @ ?vs))"
    by (simp add: k)
  then have D: "distinct (map tu_outpoint (concat (map pb_inputs (batches @ [b])) @ after_batch (length batches) sc us b))"
    using dst mset_eq_imp_distinct_iff by blast
  have V: "is_planning_virtual u \<longrightarrow> op_index (tu_outpoint u) < length (batches @ [b])"
    if "u \<in> set (concat (map pb_inputs (batches @ [b])) @ after_batch (length batches) sc us b)" for u
  proof -
    have "u \<in> set (?spent @ us) \<or> u = ?v"
      using that set_after_batch[of "length batches" sc us b] k left
      by (auto dest: in_set_takeD in_set_dropD)
    then show ?thesis using inv by (auto simp: plan_inv_def planning_change_utxo_def less_Suc_eq)
  qed
  show ?thesis unfolding plan_inv_def using M D V by blast
qed

lemma distinct_remove_paid: "distinct (map pr_id rs) \<Longrightarrow> distinct (map pr_id (remove_paid rs ps))"
  by (simp add: remove_paid_def distinct_map_filter)

lemma try_inputs_no_crash: "utxo_sum ins < u64_max \<Longrightarrow> try_inputs cs ins rs sc fr \<noteq> Crash"
  by (auto simp: try_inputs_def Let_def sat_add_u64_def min_def split: option.splits if_splits)

lemma utxo_sum_take_le: "utxo_sum (take k us) \<le> utxo_sum us"
  by (metis append_take_drop_id le_add1 map_append sum_list_append)

lemma build_loop_no_panic:
  assumes "utxo_sum us < u64_max"
  shows "build_loop cs us rs sc fr n \<noteq> Inl e"
  using assms
proof (induction cs us rs sc fr n rule: build_loop.induct)
  case (1 cs us rs sc fr n)
  have small: "utxo_sum (take n us) < u64_max" using utxo_sum_take_le[of n us] "1.prems" by simp
  show ?case
    by (subst build_loop.simps) (use 1 small try_inputs_no_crash[OF small] in \<open>auto split: attempt.split\<close>)
qed

lemma utxo_sum_mset: "mset xs = mset ys \<Longrightarrow> utxo_sum xs = utxo_sum ys"
  by (metis mset_map sum_mset_sum_list)

lemma utxo_sum_after_batch:
  assumes "plan_inv M us payable batches" and "build_one_batch cs us payable sc fr = Inr (Some b)"
  shows "utxo_sum (after_batch k sc us b) \<le> utxo_sum us"
proof -
  obtain n where ti: "try_inputs cs (take n us) payable sc fr = Batch b"
    using assms(2) build_loop_Some unfolding build_one_batch_def by blast
  then have n: "pb_inputs b = take n us" by (rule try_inputs_Batch)
  have ch: "pb_change b \<le> utxo_sum (take n us)" using try_inputs_ok[OF ti] n by (auto simp: batch_ok_def)
  have left: "remove_consumed us (pb_inputs b) = drop n us"
    using remove_consumed_take assms(1) n by (simp add: plan_inv_def)
  have us: "utxo_sum us = utxo_sum (take n us) + utxo_sum (drop n us)"
    by (metis append_take_drop_id map_append sum_list_append)
  have "utxo_sum (after_batch k sc us b) \<le> utxo_sum (drop n us @ [planning_change_utxo k (pb_change b) sc])"
    using utxo_sum_mset[of "sort_utxos_desc (drop n us @ [planning_change_utxo k (pb_change b) sc])"
        "drop n us @ [planning_change_utxo k (pb_change b) sc]"]
    by (simp add: after_batch_def Let_def left sort_utxos_desc_def)
  also have "\<dots> = utxo_sum (drop n us) + pb_change b" by (simp add: planning_change_utxo_def)
  finally show ?thesis using us ch by simp
qed

lemma plan_loop_correct:
  assumes "plan_inv M us payable batches" and "distinct (map pr_id payable)"
    and "\<forall>b \<in> set batches. batch_ok cs sc fr b" and "utxo_sum us < u64_max"
  shows "\<exists>bs unpaid us'. plan_loop cs sc fr us payable batches = Inr (bs, unpaid) \<and> plan_inv M us' unpaid bs \<and>
    (\<forall>b \<in> set bs. batch_ok cs sc fr b)"
  using assms
proof (induction cs sc fr us payable batches rule: plan_loop.induct)
  case (1 cs sc fr us payable batches)
  show ?case
  proof (cases "payable = [] \<or> us = []")
    case True
    with 1 show ?thesis by (subst plan_loop.simps) auto
  next
    case False
    consider e where "build_one_batch cs us payable sc fr = Inl e" | "build_one_batch cs us payable sc fr = Inr None"
      | b where "build_one_batch cs us payable sc fr = Inr (Some b)"
      by (metis obj_sumE option.exhaust)
    then show ?thesis
    proof cases
      case 1
      then show ?thesis using build_loop_no_panic[OF "1.prems"(4)] by (simp add: build_one_batch_def)
    next
      case 2
      with False "1.prems" show ?thesis by (subst plan_loop.simps) auto
    next
      case (3 b)
      then obtain k where "try_inputs cs (take k us) payable sc fr = Batch b"
        using build_loop_Some unfolding build_one_batch_def by blast
      then have "batch_ok cs sc fr b" by (rule try_inputs_ok)
      moreover have "plan_loop cs sc fr us payable batches =
          plan_loop cs sc fr (after_batch (length batches) sc us b) (remove_paid payable (pb_payouts b)) (batches @ [b])"
        using False 3 by (subst plan_loop.simps) simp
      moreover have "utxo_sum (after_batch (length batches) sc us b) < u64_max"
        using utxo_sum_after_batch[OF "1.prems"(1) 3, of "length batches"] "1.prems"(4) by (rule le_less_trans)
      ultimately show ?thesis
        using "1.IH"[OF False 3 refl] plan_inv_step[OF "1.prems"(1,2) 3] distinct_remove_paid[OF "1.prems"(2)]
          "1.prems"(3) by simp
    qed
  qed
qed

text \<open>Whatever the coins are: a plan pays every recipient once, from those coins or planned change.\<close>

lemma plan_loop_partial:
  assumes "plan_loop cs sc fr us payable batches = Inr (bs, unpaid)" and "distinct (map pr_id payable)"
    and "\<forall>u \<in> set us. u \<in> A \<or> is_planning_virtual u"
  shows "\<exists>new. bs = batches @ new \<and> mset (concat (map pb_payouts new)) + mset unpaid = mset payable \<and>
    (\<forall>b \<in> set new. \<forall>u \<in> set (pb_inputs b). u \<in> A \<or> is_planning_virtual u)"
  using assms
proof (induction cs sc fr us payable batches rule: plan_loop.induct)
  case (1 cs sc fr us payable batches)
  show ?case
  proof (cases "(payable = [] \<or> us = []) \<or> build_one_batch cs us payable sc fr = Inr None")
    case True
    then have "plan_loop cs sc fr us payable batches = Inr (batches, payable)" by (subst plan_loop.simps) auto
    with "1.prems"(1) show ?thesis by simp
  next
    case False
    moreover have "build_one_batch cs us payable sc fr \<noteq> Inl e" for e
      using False "1.prems"(1) by (subst (asm) plan_loop.simps) (auto split: sum.splits)
    ultimately obtain b where b: "build_one_batch cs us payable sc fr = Inr (Some b)"
      by (metis obj_sumE option.exhaust)
    obtain k sel where k: "pb_inputs b = take k us" and sel: "pb_payouts b = pick payable sel"
      "sorted_wrt (<) sel" "\<forall>i \<in> set sel. i < length payable"
      using build_one_batch_shape[OF b] by metis
    have run: "plan_loop cs sc fr (after_batch (length batches) sc us b) (remove_paid payable (pb_payouts b)) (batches @ [b]) = Inr (bs, unpaid)"
      using "1.prems"(1) False b by (subst (asm) plan_loop.simps) simp
    have "\<forall>u \<in> set (after_batch (length batches) sc us b). u \<in> A \<or> is_planning_virtual u"
      using set_after_batch[of "length batches" sc us b] "1.prems"(3)
      by (auto simp: remove_consumed_def planning_change_utxo_def is_planning_virtual_def dest!: subsetD)
    with "1.IH"[OF _ b refl run distinct_remove_paid[OF "1.prems"(2)]] False obtain new where
      new: "bs = (batches @ [b]) @ new" "mset (concat (map pb_payouts new)) + mset unpaid = mset (remove_paid payable (pb_payouts b))"
      "\<forall>b \<in> set new. \<forall>u \<in> set (pb_inputs b). u \<in> A \<or> is_planning_virtual u" by auto
    have "\<forall>u \<in> set (pb_inputs b). u \<in> A \<or> is_planning_virtual u" using k "1.prems"(3) by (auto dest: in_set_takeD)
    moreover have "mset (pb_payouts b) + mset (remove_paid payable (pb_payouts b)) = mset payable"
      using mset_pick_remove[OF "1.prems"(2) sel(2,3)] sel(1) by simp
    ultimately show ?thesis using new by (intro exI[of _ "b # new"]) (simp add: add.assoc)
  qed
qed

lemma plan_batches_partial:
  assumes "plan_batches cs us rs sc fr = Inr plan" and "distinct (map pr_id rs)"
  shows "mset (concat (map pb_payouts (br_batches plan))) \<subseteq># mset rs"
    and "\<forall>b \<in> set (br_batches plan). \<forall>u \<in> set (pb_inputs b). u \<in> set us \<or> is_planning_virtual u"
proof -
  let ?pay = "filter (\<lambda>r. MIN_PAYOUT_OUTPUT_SOMPI \<le> pr_amount r) rs"
  obtain unpaid where run: "plan_loop cs sc fr (sort_utxos_desc us) (sort_recipients_desc ?pay) [] = Inr (br_batches plan, unpaid)"
    using assms(1) by (auto simp: plan_batches_def partition_by_floor_def split: sum.splits prod.splits)
  have "distinct (map pr_id (sort_recipients_desc ?pay))"
    using assms(2) mset_eq_imp_distinct_iff[of "map pr_id (sort_recipients_desc ?pay)" "map pr_id ?pay"]
    by (simp add: sort_recipients_desc_def distinct_map_filter)
  from plan_loop_partial[OF run this, of "set us"] have
    sum: "mset (concat (map pb_payouts (br_batches plan))) + mset unpaid = mset ?pay"
    and ins: "\<forall>b \<in> set (br_batches plan). \<forall>u \<in> set (pb_inputs b). u \<in> set us \<or> is_planning_virtual u"
    by (simp_all add: sort_utxos_desc_def sort_recipients_desc_def)
  show "\<forall>b \<in> set (br_batches plan). \<forall>u \<in> set (pb_inputs b). u \<in> set us \<or> is_planning_virtual u" by (rule ins)
  have "mset (concat (map pb_payouts (br_batches plan))) \<subseteq># mset ?pay" using sum by (metis mset_subset_eq_add_left)
  also have "mset ?pay \<subseteq># mset rs" by (simp add: multiset_filter_subset)
  finally show "mset (concat (map pb_payouts (br_batches plan))) \<subseteq># mset rs" .
qed

text \<open>
  C32. The payout planner, for recipients with distinct ids and distinct coins of the chain whose
  sum fits: it always returns; every recipient is in exactly one of the deferred list, the unpaid
  list and one batch, with its full amount, and exactly those below the output floor are deferred;
  every batch balances (inputs are payments, change, fee and at most a dust remainder) and pays
  somebody; and no coin, planned change included, is spent twice.  The mass recorded with a batch
  fits the block limit; it is the mass of the batch with its change before the fee is taken out, or without change
  output if the change is dropped.  It is the mass of the batch itself if there is no change, if no fee is
  reserved, or if mass does not depend on the value of the change, as the planner's comments assume; under a
  storage mass that does, the batch itself can exceed the limit.
\<close>

theorem plan_batches_correct:
  assumes "distinct (map pr_id rs)" and "distinct (map tu_outpoint us)"
    and "\<forall>u \<in> set us. \<not> is_planning_virtual u" and "utxo_sum us < u64_max"
  shows "\<exists>res. plan_batches cs us rs sc fr = Inr res \<and>
    mset (concat (map pb_payouts (br_batches res))) + mset (br_unpaid res) + mset (br_deferred res) = mset rs \<and>
    br_deferred res = filter (\<lambda>r. pr_amount r < MIN_PAYOUT_OUTPUT_SOMPI) rs \<and>
    (\<forall>b \<in> set (br_batches res). batch_ok cs sc fr b \<and>
       (pb_change b = 0 \<or> \<not> reserves_fee fr \<or> change_blind cs sc b \<longrightarrow>
          evaluate_shape cs (pb_inputs b) (pb_payouts b) sc (pb_change b) = Some (pb_mass b))) \<and>
    distinct (map tu_outpoint (concat (map pb_inputs (br_batches res))))"
proof -
  let ?pay = "filter (\<lambda>r. MIN_PAYOUT_OUTPUT_SOMPI \<le> pr_amount r) rs"
  have us: "mset (sort_utxos_desc us) = mset us" by (simp add: sort_utxos_desc_def)
  then have "distinct (map tu_outpoint (sort_utxos_desc us))"
    using assms(2) by (metis mset_map mset_eq_imp_distinct_iff)
  then have inv: "plan_inv (mset ?pay) (sort_utxos_desc us) (sort_recipients_desc ?pay) []"
    using assms(3) mset_eq_setD[OF us] by (simp add: plan_inv_def sort_recipients_desc_def)
  have "utxo_sum (sort_utxos_desc us) = utxo_sum us" using us by (metis mset_map sum_mset_sum_list)
  moreover have "distinct (map pr_id (sort_recipients_desc ?pay))"
    using assms(1) mset_eq_imp_distinct_iff[of "map pr_id (sort_recipients_desc ?pay)" "map pr_id ?pay"]
    by (simp add: sort_recipients_desc_def distinct_map_filter)
  ultimately obtain bs unpaid us' where
    run: "plan_loop cs sc fr (sort_utxos_desc us) (sort_recipients_desc ?pay) [] = Inr (bs, unpaid)"
    and fin: "plan_inv (mset ?pay) us' unpaid bs" "\<forall>b \<in> set bs. batch_ok cs sc fr b"
    using plan_loop_correct[OF inv, of cs sc fr] assms(4) by auto
  have "mset ?pay + mset (filter (\<lambda>r. \<not> MIN_PAYOUT_OUTPUT_SOMPI \<le> pr_amount r) rs) = mset rs"
    by (metis mset_filter multiset_partition)
  moreover have "\<forall>b \<in> set bs. batch_ok cs sc fr b \<and> (pb_change b = 0 \<or> \<not> reserves_fee fr \<or> change_blind cs sc b \<longrightarrow>
      evaluate_shape cs (pb_inputs b) (pb_payouts b) sc (pb_change b) = Some (pb_mass b))"
    using fin(2) batch_own_shape by blast
  ultimately show ?thesis using run fin(1)
    by (simp add: plan_batches_def partition_by_floor_def plan_inv_def not_le)
qed

text \<open>A stand-in for the consensus library: the compute mass counts inputs and outputs.\<close>

definition sample_consensus :: consensus where
  "sample_consensus = \<lparr>cs_non_contextual = (\<lambda>tx. (1000 * length (tx_inputs tx) + 500 * length (tx_outputs tx), 0)),
     cs_contextual = (\<lambda>_ _. Some 0), cs_output_size = (\<lambda>_ _. 50), cs_block_mass_limit = 500000\<rparr>"

definition sample_coin :: "nat \<Rightarrow> nat \<Rightarrow> treasury_utxo" where
  "sample_coin k amount = \<lparr>tu_outpoint = \<lparr>op_txid = replicate 32 9, op_index = k\<rparr>,
     tu_entry = \<lparr>ue_amount = amount, ue_script = [], ue_block_daa = 0, ue_is_coinbase = True\<rparr>\<rparr>"

definition sample_recipient :: "string \<Rightarrow> nat \<Rightarrow> payout_recipient" where
  "sample_recipient i amount = \<lparr>pr_id = i, pr_amount = amount, pr_script = []\<rparr>"

theorem plan_batches_correct_witness:
  "\<exists>res. plan_batches sample_consensus [sample_coin 0 5000000000, sample_coin 1 3000000000]
     [sample_recipient ''1'' 2000000000, sample_recipient ''2'' 1000] [] (from_feerate (Fin 0)) = Inr res \<and>
     mset (concat (map pb_payouts (br_batches res))) + mset (br_unpaid res) + mset (br_deferred res) =
       mset [sample_recipient ''1'' 2000000000, sample_recipient ''2'' 1000] \<and>
     br_deferred res = [sample_recipient ''2'' 1000] \<and>
     (\<forall>b \<in> set (br_batches res). batch_ok sample_consensus [] (from_feerate (Fin 0)) b) \<and>
     distinct (map tu_outpoint (concat (map pb_inputs (br_batches res))))"
proof -
  have d: "filter (\<lambda>r. pr_amount r < MIN_PAYOUT_OUTPUT_SOMPI)
      [sample_recipient ''1'' 2000000000, sample_recipient ''2'' 1000] = [sample_recipient ''2'' 1000]"
    by (simp add: sample_recipient_def MIN_PAYOUT_OUTPUT_SOMPI_def)
  have nv: "replicate 32 (9 :: nat) \<noteq> replicate 31 0 @ [1]" by code_simp
  let ?rs = "[sample_recipient ''1'' 2000000000, sample_recipient ''2'' 1000]"
    and ?us = "[sample_coin 0 5000000000, sample_coin 1 3000000000]"
  have pre: "distinct (map pr_id ?rs)" "distinct (map tu_outpoint ?us)" "\<forall>u \<in> set ?us. \<not> is_planning_virtual u" "utxo_sum ?us < u64_max"
    using nv by (simp_all add: sample_recipient_def sample_coin_def is_planning_virtual_def PLANNING_VIRTUAL_TXID_BYTES_def)
  from plan_batches_correct[OF pre, of sample_consensus "[]" "from_feerate (Fin 0)", unfolded d] show ?thesis by fast
qed

section \<open>What the planner does not do\<close>

text \<open>
  Two coins of 50 KAS each do not pay one recipient of 60 KAS: an empty selection for the
  largest coin leaves \<open>build_one_batch\<close> through its \<open>?\<close> instead of widening the inputs, so
  planning stops with everything unpaid.
\<close>

theorem planner_never_widens:
  "plan_batches sample_consensus [sample_coin 0 5000000000, sample_coin 1 5000000000]
     [sample_recipient ''1'' 6000000000] [] (from_feerate (Fin 0)) =
   Inr \<lparr>br_batches = [], br_deferred = [], br_unpaid = [sample_recipient ''1'' 6000000000]\<rparr>"
  by (simp add: plan_batches_def partition_by_floor_def MIN_PAYOUT_OUTPUT_SOMPI_def sample_recipient_def sample_coin_def
      sort_utxos_desc_def sort_recipients_desc_def plan_loop.simps build_one_batch_def build_loop.simps try_inputs_def
      greedy_recipients_for_inputs_def greedy_step_def sat_add_u64_def pick_def Let_def MAX_OUTPUTS_PER_INPUT_def)

text \<open>
  Mass does depend on the value of the change.  With the storage mass of an output of \<open>v\<close> sompi at \<open>10 ^ 12 / v\<close>, a
  coin that leaves a change of about a tenth of a KAS owes almost all of it as fee; what is kept of it is
  a thousandth of a KAS, and the planned batch itself is over the block limit.
\<close>

definition kip9_consensus :: consensus where
  "kip9_consensus = \<lparr>cs_non_contextual = (\<lambda>_. (2000, 3000)),
     cs_contextual = (\<lambda>tx _. Some (sum_list (map (\<lambda>(v, _). 1000000000000 div v) (tx_outputs tx)))),
     cs_output_size = (\<lambda>_ _. 50), cs_block_mass_limit = 500000\<rparr>"

theorem planned_batch_over_limit:
  "\<exists>b. plan_batches kip9_consensus [sample_coin 0 2010080000] [sample_recipient ''1'' 2000000000] [] (from_feerate (Fin 100)) =
       Inr \<lparr>br_batches = [b], br_deferred = [], br_unpaid = []\<rparr> \<and>
     pb_change b = 109400 \<and> evaluate_shape kip9_consensus (pb_inputs b) (pb_payouts b) [] (pb_change b) = None"
proof -
  have fee: "fee_for (from_feerate (Fin 100)) \<lparr>compute_mass = 2000, storage_mass = 99706, transient_mass = 3000\<rparr> = 9970600"
    by (simp add: fee_for_def from_feerate_def effective_def f64_of_int_def f64_round_simps Let_def f64_min_def
        minimum_relay_fee_def MIN_RELAY_TX_FEE_SOMPI_PER_KG_def sat_mul_u64_def f64_is_finite_def f64_lt_def
        f64_eq_def trunc_rat_def)
  have fr: "reserves_fee (from_feerate (Fin 100))" by (simp add: reserves_fee_def from_feerate_def MIN_RELAY_TX_FEE_SOMPI_PER_KG_def)
  show ?thesis
    by (simp add: plan_batches_def partition_by_floor_def MIN_PAYOUT_OUTPUT_SOMPI_def sample_recipient_def sample_coin_def
        sort_utxos_desc_def sort_recipients_desc_def plan_loop.simps build_one_batch_def build_loop.simps try_inputs_def
        greedy_recipients_for_inputs_def greedy_step_def sat_add_u64_def pick_def Let_def MAX_OUTPUTS_PER_INPUT_def
        evaluate_shape_def build_populated_def evaluate_populated_def kip9_consensus_def fits_independently_def reserved_fee_def fee fr
        is_change_dust_def MIN_RELAY_TX_FEE_SOMPI_PER_KG_def DUST_INPUT_SERIALIZED_SIZE_def planning_change_utxo_def remove_consumed_def remove_paid_def)
qed

section \<open>Consolidation\<close>

abbreviation prefix_fits :: "consensus \<Rightarrow> treasury_utxo list \<Rightarrow> bytes \<Rightarrow> nat \<Rightarrow> bool" where
  "prefix_fits cs us sc n \<equiv> \<exists>m. fits_prefix cs us sc n = Inr (Some m)"

lemma fits_prefix_total: "utxo_sum us \<le> u64_max \<Longrightarrow> fits_prefix cs us sc n \<noteq> Inl e"
  using utxo_sum_take_le[of n us] by (auto simp: fits_prefix_def checked_sum_def split: if_splits)

text \<open>A longer prefix of the coins never fits where a shorter one does not.\<close>

definition fits_downward :: "consensus \<Rightarrow> treasury_utxo list \<Rightarrow> bytes \<Rightarrow> nat \<Rightarrow> bool" where
  "fits_downward cs us sc hi \<longleftrightarrow>
     (\<forall>m n. 0 < m \<and> m \<le> n \<and> n \<le> hi \<and> prefix_fits cs us sc n \<longrightarrow> prefix_fits cs us sc m)"

definition none_above :: "consensus \<Rightarrow> treasury_utxo list \<Rightarrow> bytes \<Rightarrow> nat \<Rightarrow> nat \<Rightarrow> bool" where
  "none_above cs us sc c hi \<longleftrightarrow> (\<forall>n. c < n \<and> n \<le> hi \<longrightarrow> \<not> prefix_fits cs us sc n)"

lemma none_above_misfit:
  assumes "fits_downward cs us sc hi" and "\<not> prefix_fits cs us sc mid" and "0 < mid" and "none_above cs us sc c (mid - 1)"
  shows "none_above cs us sc c hi"
  unfolding none_above_def
proof (intro allI impI)
  fix n
  assume n: "c < n \<and> n \<le> hi"
  show "\<not> prefix_fits cs us sc n"
  proof (cases "n \<le> mid - 1")
    case True
    with n assms(4) show ?thesis unfolding none_above_def by blast
  next
    case False
    then have "mid \<le> n" by simp
    with n assms(1,2,3) show ?thesis unfolding fits_downward_def by blast
  qed
qed

lemma fits_downward_le: "fits_downward cs us sc hi \<Longrightarrow> k \<le> hi \<Longrightarrow> fits_downward cs us sc k"
  unfolding fits_downward_def by (meson le_trans)

lemma search_cap_correct:
  assumes "utxo_sum us \<le> u64_max" and "lo \<le> hi" and "prefix_fits cs us sc lo"
  shows "\<exists>c. search_cap cs us sc lo hi = Inr c \<and> lo \<le> c \<and> c \<le> hi \<and> prefix_fits cs us sc c \<and>
    (fits_downward cs us sc hi \<longrightarrow> none_above cs us sc c hi)"
  using assms
proof (induction cs us sc lo hi rule: search_cap.induct)
  case (1 cs us sc lo hi)
  show ?case
  proof (cases "lo < hi")
    case False
    then have "search_cap cs us sc lo hi = Inr lo" by (subst search_cap.simps) simp
    moreover have "none_above cs us sc lo hi" using False by (auto simp: none_above_def)
    ultimately show ?thesis using "1.prems" by blast
  next
    case True
    define mid where "mid = lo + (hi - lo + 1) div 2"
    have mid: "lo < mid" "mid \<le> hi" "lo \<le> mid - 1" "mid - 1 \<le> hi" using True by (auto simp: mid_def)
    obtain f where f: "fits_prefix cs us sc mid = Inr f"
      using fits_prefix_total[OF "1.prems"(1)] by (metis obj_sumE)
    have step: "search_cap cs us sc lo hi =
        (case f of Some _ \<Rightarrow> search_cap cs us sc mid hi | None \<Rightarrow> search_cap cs us sc lo (mid - 1))"
      using True f by (subst search_cap.simps, unfold Let_def mid_def[symmetric]) (simp split: option.split)
    show ?thesis
    proof (cases f)
      case (Some m)
      have "prefix_fits cs us sc mid" using f Some by blast
      from "1.IH"(2)[OF True mid_def f Some "1.prems"(1) mid(2) this]
      obtain c where "search_cap cs us sc mid hi = Inr c" "mid \<le> c" "c \<le> hi" "prefix_fits cs us sc c"
        "fits_downward cs us sc hi \<longrightarrow> none_above cs us sc c hi" by blast
      moreover have "search_cap cs us sc lo hi = search_cap cs us sc mid hi" using step Some by simp
      ultimately show ?thesis using mid(1) by (metis less_or_eq_imp_le le_trans)
    next
      case None
      from "1.IH"(1)[OF True mid_def f None "1.prems"(1) mid(3) "1.prems"(3)]
      obtain c where c: "search_cap cs us sc lo (mid - 1) = Inr c" "lo \<le> c" "c \<le> mid - 1" "prefix_fits cs us sc c"
        and none: "fits_downward cs us sc (mid - 1) \<longrightarrow> none_above cs us sc c (mid - 1)" by blast
      have no: "\<not> prefix_fits cs us sc mid" and pos: "0 < mid" using f None mid(1) by simp_all
      have "fits_downward cs us sc hi \<longrightarrow> none_above cs us sc c hi"
        using none none_above_misfit[OF _ no pos] fits_downward_le[OF _ mid(4)] by blast
      moreover have "search_cap cs us sc lo hi = Inr c" using step None c(1) by simp
      moreover have "c \<le> hi" using c(3) mid(4) by (rule le_trans)
      ultimately show ?thesis using c(2,4) by blast
    qed
  qed
qed

lemma max_inputs_correct:
  assumes "utxo_sum us \<le> u64_max" and bnd: "bnd = min mx (length us)"
  shows "\<exists>c. max_inputs_that_fit cs us sc mx = Inr c \<and> c \<le> bnd \<and> (0 < c \<longrightarrow> prefix_fits cs us sc c) \<and>
    (fits_downward cs us sc bnd \<longrightarrow> none_above cs us sc c bnd)"
proof -
  obtain f where f: "fits_prefix cs us sc 1 = Inr f" using fits_prefix_total[OF assms(1)] by (metis obj_sumE)
  have unf: "max_inputs_that_fit cs us sc mx =
      (if bnd = 0 then Inr 0 else case f of None \<Rightarrow> Inr 0 | Some _ \<Rightarrow> search_cap cs us sc 1 bnd)"
    unfolding max_inputs_that_fit_def Let_def bnd[symmetric] f by (simp split: option.split)
  show ?thesis
  proof (cases "bnd = 0 \<or> f = None")
    case True
    then have "max_inputs_that_fit cs us sc mx = Inr 0" unfolding unf by auto
    moreover have "fits_downward cs us sc bnd \<longrightarrow> none_above cs us sc 0 bnd"
    proof (cases "bnd = 0")
      case True
      then show ?thesis by (simp add: none_above_def)
    next
      case False
      with True f have "\<not> prefix_fits cs us sc 1" by simp
      moreover have "none_above cs us sc 0 (1 - 1)" by (simp add: none_above_def)
      ultimately show ?thesis using none_above_misfit by (metis less_one)
    qed
    ultimately show ?thesis by blast
  next
    case False
    then obtain m where m: "f = Some m" by blast
    have "1 \<le> bnd" and "prefix_fits cs us sc 1" and "max_inputs_that_fit cs us sc mx = search_cap cs us sc 1 bnd"
      using False f m unf by auto
    with search_cap_correct[OF assms(1), of 1 bnd cs sc] show ?thesis by metis
  qed
qed

lemma concat_chunks: "0 < n \<Longrightarrow> concat (chunks n xs) = xs"
proof (induction n xs rule: chunks.induct)
  case (1 n xs)
  then show ?case by (subst chunks.simps) auto
qed

lemma chunks_length: "c \<in> set (chunks n xs) \<Longrightarrow> length c \<le> n"
proof (induction n xs rule: chunks.induct)
  case (1 n xs)
  have "c = take n xs \<or> c \<in> set (chunks n (drop n xs))" and "\<not> (xs = [] \<or> n = 0)"
    using "1.prems" by (subst (asm) chunks.simps, simp split: if_splits)+
  then show ?case using "1.IH" by auto
qed

text \<open>One self-send: a sweep of at least two coins into one, within the relay limit and above its fee.\<close>

definition self_send_ok :: "fee_rate \<Rightarrow> nat \<Rightarrow> planned_batch \<Rightarrow> bool" where
  "self_send_ok fr max_inputs b \<longleftrightarrow> MIN_CONSOLIDATION_INPUTS \<le> length (pb_inputs b) \<and> length (pb_inputs b) \<le> max_inputs \<and>
     pb_payouts b = [] \<and> pb_change b = utxo_sum (pb_inputs b) \<and> fits_independently (pb_mass b) MAX_STANDARD_TX_MASS \<and>
     (reserves_fee fr \<longrightarrow> fee_for fr (pb_mass b) < pb_change b)"

lemma consolidate_loop_correct:
  assumes "utxo_sum (concat cks) \<le> u64_max" and "\<forall>c \<in> set cks. length c \<le> mx"
    and "\<forall>b \<in> set batches. self_send_ok fr mx b" and "length batches \<le> max_txs"
  shows "\<exists>bs. consolidate_loop cs sc fr max_txs cks batches = Inr (batches @ bs) \<and> length (batches @ bs) \<le> max_txs \<and>
    (\<forall>b \<in> set (batches @ bs). self_send_ok fr mx b) \<and> mset (concat (map pb_inputs bs)) \<subseteq># mset (concat cks)"
  using assms
proof (induction cks arbitrary: batches)
  case (Cons c cks)
  have skip: "\<exists>bs. consolidate_loop cs sc fr max_txs cks batches = Inr (batches @ bs) \<and> length (batches @ bs) \<le> max_txs \<and>
      (\<forall>b \<in> set (batches @ bs). self_send_ok fr mx b) \<and> mset (concat (map pb_inputs bs)) \<subseteq># mset (concat (c # cks))"
  proof -
    from Cons.IH[of batches] Cons.prems obtain bs where
      "consolidate_loop cs sc fr max_txs cks batches = Inr (batches @ bs)" "length (batches @ bs) \<le> max_txs"
      "\<forall>b \<in> set (batches @ bs). self_send_ok fr mx b" and sub: "mset (concat (map pb_inputs bs)) \<subseteq># mset (concat cks)"
      by auto
    moreover from sub have "mset (concat (map pb_inputs bs)) \<subseteq># mset (concat (c # cks))"
      by (simp add: subset_mset.add_increasing)
    ultimately show ?thesis by blast
  qed
  show ?case
  proof (cases "max_txs \<le> length batches \<or> length c < MIN_CONSOLIDATION_INPUTS")
    case True
    then show ?thesis using Cons.prems by (intro exI[of _ "[]"]) auto
  next
    case False
    have sum: "checked_sum c = Inr (utxo_sum c)" using Cons.prems(1) by (simp add: checked_sum_def)
    show ?thesis
    proof (cases "\<exists>m. evaluate_self_send cs c sc (utxo_sum c) = Some m \<and> \<not> (reserves_fee fr \<and> utxo_sum c \<le> fee_for fr m)")
      case True
      then obtain m where m: "evaluate_self_send cs c sc (utxo_sum c) = Some m"
        and fee: "\<not> (reserves_fee fr \<and> utxo_sum c \<le> fee_for fr m)" by blast
      let ?b = "\<lparr>pb_inputs = c, pb_payouts = [], pb_change = utxo_sum c, pb_mass = m\<rparr>"
      have "fits_independently m MAX_STANDARD_TX_MASS"
        using m by (auto simp: evaluate_self_send_def split: prod.splits sum.splits if_splits)
      then have "self_send_ok fr mx ?b" using False fee Cons.prems(2) by (auto simp: self_send_ok_def)
      with Cons.IH[of "batches @ [?b]"] Cons.prems False obtain bs where
        run: "consolidate_loop cs sc fr max_txs cks (batches @ [?b]) = Inr (batches @ [?b] @ bs)"
          "length (batches @ [?b] @ bs) \<le> max_txs" "\<forall>b \<in> set (batches @ [?b] @ bs). self_send_ok fr mx b"
        and sub: "mset (concat (map pb_inputs bs)) \<subseteq># mset (concat cks)" by auto
      have "consolidate_loop cs sc fr max_txs (c # cks) batches = consolidate_loop cs sc fr max_txs cks (batches @ [?b])"
        using False sum m fee by auto
      then show ?thesis using run sub by (intro exI[of _ "?b # bs"]) auto
    next
      case skipped: False
      then have "consolidate_loop cs sc fr max_txs (c # cks) batches = consolidate_loop cs sc fr max_txs cks batches"
        using False sum by (auto split: option.split)
      with skip show ?thesis by simp
    qed
  qed
qed auto

lemma distinct_submset:
  assumes "mset xs \<subseteq># mset ys" and "distinct (map f ys)"
  shows "distinct (map f xs)"
proof -
  have "mset (map f xs) \<subseteq># mset (map f ys)" using assms(1) by (simp add: image_mset_subseteq_mono)
  then show ?thesis using assms(2) by (metis distinct_append ex_mset mset_append mset_eq_imp_distinct_iff subset_mset.add_diff_inverse)
qed

lemma utxo_sum_submset: "mset xs \<subseteq># mset ys \<Longrightarrow> utxo_sum xs \<le> utxo_sum ys"
proof -
  assume "mset xs \<subseteq># mset ys"
  then obtain D where "mset ys = mset xs + D" by (auto simp: mset_subset_eq_exists_conv)
  then have "mset (map (\<lambda>u. ue_amount (tu_entry u)) ys) = mset (map (\<lambda>u. ue_amount (tu_entry u)) xs) + image_mset (\<lambda>u. ue_amount (tu_entry u)) D"
    by simp
  from arg_cong[OF this, of sum_mset] show ?thesis by (simp flip: sum_mset_sum_list)
qed

lemma plan_consolidation_sweeps:
  assumes "utxo_sum us \<le> u64_max"
  shows "\<exists>bs. plan_consolidation cs us sc fr mx max_txs = Inr bs \<and> length bs \<le> max_txs \<and>
    (\<forall>b \<in> set bs. self_send_ok fr mx b) \<and>
    mset (concat (map pb_inputs bs)) \<subseteq># filter_mset (\<lambda>u. \<not> is_planning_virtual u) (mset us)"
proof -
  define real where "real = sort_utxos_asc (filter (\<lambda>u. \<not> is_planning_virtual u) us)"
  have mreal: "mset real = filter_mset (\<lambda>u. \<not> is_planning_virtual u) (mset us)"
    by (simp add: real_def sort_utxos_asc_def)
  then have sub: "mset real \<subseteq># mset us" by (simp add: multiset_filter_subset)
  have small: "utxo_sum real \<le> u64_max" using utxo_sum_submset[OF sub] assms by simp
  obtain cap where cap: "max_inputs_that_fit cs real sc mx = Inr cap" "cap \<le> mx"
    using max_inputs_correct[OF small refl] by (metis min.boundedE)
  show ?thesis
  proof (cases "max_txs = 0 \<or> mx < MIN_CONSOLIDATION_INPUTS \<or> length (filter (\<lambda>u. \<not> is_planning_virtual u) us) < MIN_CONSOLIDATION_INPUTS
      \<or> cap < MIN_CONSOLIDATION_INPUTS")
    case True
    then show ?thesis using cap by (auto simp: plan_consolidation_def Let_def real_def)
  next
    case False
    then have pos: "0 < cap" by (auto simp: MIN_CONSOLIDATION_INPUTS_def)
    have len: "\<forall>c \<in> set (chunks cap real). length c \<le> mx" using chunks_length cap(2) le_trans by blast
    from consolidate_loop_correct[of "chunks cap real" mx "[]" fr max_txs cs sc] small len
    obtain bs where bs: "consolidate_loop cs sc fr max_txs (chunks cap real) [] = Inr bs" "length bs \<le> max_txs"
      "\<forall>b \<in> set bs. self_send_ok fr mx b" "mset (concat (map pb_inputs bs)) \<subseteq># mset real"
      by (auto simp: concat_chunks[OF pos])
    moreover have "plan_consolidation cs us sc fr mx max_txs = Inr bs"
      using False cap bs by (simp add: plan_consolidation_def Let_def real_def)
    ultimately show ?thesis using mreal by auto
  qed
qed

text \<open>
  Consolidation, for distinct coins whose sum fits: it always returns at most the allowed
  number of transactions; each merges at least two and at most the allowed number of real coins
  into one output of their whole sum, fits the mempool's standard mass limit and is worth more
  than its fee; and no coin is spent by two of them.
\<close>

theorem plan_consolidation_correct:
  assumes "distinct (map tu_outpoint us)" and "utxo_sum us \<le> u64_max"
  shows "\<exists>bs. plan_consolidation cs us sc fr mx max_txs = Inr bs \<and> length bs \<le> max_txs \<and>
    (\<forall>b \<in> set bs. self_send_ok fr mx b) \<and>
    (\<forall>u \<in> set (concat (map pb_inputs bs)). u \<in> set us \<and> \<not> is_planning_virtual u) \<and>
    distinct (map tu_outpoint (concat (map pb_inputs bs)))"
proof -
  from plan_consolidation_sweeps[OF assms(2)] obtain bs where bs: "plan_consolidation cs us sc fr mx max_txs = Inr bs"
    "length bs \<le> max_txs" "\<forall>b \<in> set bs. self_send_ok fr mx b"
    and sub: "mset (concat (map pb_inputs bs)) \<subseteq># filter_mset (\<lambda>u. \<not> is_planning_virtual u) (mset us)" by blast
  have "\<forall>u \<in> set (concat (map pb_inputs bs)). u \<in> set us \<and> \<not> is_planning_virtual u" using set_mset_mono[OF sub] by auto
  moreover have "distinct (map tu_outpoint (concat (map pb_inputs bs)))"
    using distinct_submset[OF subset_mset.trans[OF sub multiset_filter_subset] assms(1)] .
  ultimately show ?thesis using bs by blast
qed

theorem plan_consolidation_correct_witness:
  "\<exists>bs. plan_consolidation sample_consensus [sample_coin 0 50, sample_coin 1 30, sample_coin 2 40] [] (from_feerate (Fin 0)) 2 5 =
       Inr bs \<and> length bs \<le> 5 \<and> (\<forall>b \<in> set bs. self_send_ok (from_feerate (Fin 0)) 2 b) \<and>
     distinct (map tu_outpoint (concat (map pb_inputs bs)))"
proof -
  have "distinct (map tu_outpoint [sample_coin 0 50, sample_coin 1 30, sample_coin 2 40])"
    and "utxo_sum [sample_coin 0 50, sample_coin 1 30, sample_coin 2 40] \<le> u64_max"
    by (simp_all add: sample_coin_def)
  from plan_consolidation_correct[OF this] show ?thesis by blast
qed

end
