(* ===== verification/Kas_Execute.thy ===== *)
theory Kas_Execute
  imports Db_View Storagemass
begin

text \<open>
  The KAS payout executor and engine: assembling and signing a batch
  (\<open>payout-kas/src/signer.rs\<close>), broadcasting and confirming a cycle (\<open>payout-kas/src/execute.rs\<close>)
  and the leader's tick (\<open>payout-kas/src/engine.rs\<close>).

  The node, the key library and the address codec are parameters.  A node answers the \<open>n\<close>-th
  call with whatever the oracle of the world says, so every theorem covers lost connections,
  rejected transactions and contradictory answers.  The world records each broadcast with the
  payout rows it was made for; the rows are kept for the proofs, the code does not store them.

  What the executor guarantees is proved in \<open>Kas_Safety\<close>.
\<close>

section \<open>The node and the key library\<close>

datatype kas_rpc_error = Rpc string

record kas_node =
  kn_virtual_daa_score :: "nat \<Rightarrow> kas_rpc_error + nat"
  kn_treasury_utxos :: "nat \<Rightarrow> kas_rpc_error + treasury_utxo list"
  kn_submit_transaction :: "nat \<Rightarrow> transaction \<Rightarrow> kas_rpc_error + bytes"
  kn_fee_estimate :: "nat \<Rightarrow> kas_rpc_error + f64"
  kn_transaction_in_mempool :: "nat \<Rightarrow> bytes \<Rightarrow> kas_rpc_error + bool"

text \<open>
  What is asked of the libraries: a key pair from the secret, signing, the transaction id, the
  script engine on one input, and the script of an address.
\<close>

record signer =
  sg_keypair :: "bytes \<Rightarrow> string + bytes"
  sg_sign :: "bytes \<Rightarrow> transaction \<Rightarrow> utxo_entry list \<Rightarrow> transaction"
  sg_txid :: "transaction \<Rightarrow> bytes"
  sg_execute :: "transaction \<Rightarrow> utxo_entry list \<Rightarrow> nat \<Rightarrow> string + unit"
  sg_script :: "string \<Rightarrow> string + bytes"

record kas_broadcast =
  kb_rows :: "int list"
  kb_tx :: transaction
  kb_txid :: bytes
  kb_result :: "kas_rpc_error + bytes"

record treasury_snapshot =
  sn_balance :: int
  sn_utxo_count :: int
  sn_daa :: int
  sn_note :: string

record kas_world = pool_db +
  node :: kas_node
  rpcs :: nat
  broadcasts :: "kas_broadcast list"
  snapshots :: "treasury_snapshot list"
  campaign_active :: bool

section \<open>Signing\<close>

datatype sign_error = VirtualInput | EmptyInputs | Key string | Verify nat string

record signed_batch =
  sb_tx :: transaction
  sb_entries :: "utxo_entry list"

definition build_unsigned :: "planned_batch \<Rightarrow> bytes \<Rightarrow> sign_error + (transaction \<times> utxo_entry list)" where
  "build_unsigned batch treasury_script =
     (if pb_inputs batch = [] then Inl EmptyInputs
      else if list_ex is_planning_virtual (pb_inputs batch) then Inl VirtualInput
      else Inr
        (\<lparr>tx_inputs = map (\<lambda>u. \<lparr>ti_outpoint = tu_outpoint u, ti_sig_script = [], ti_sequence = 0, ti_sig_ops = 1\<rparr>)
            (pb_inputs batch),
          tx_outputs = map (\<lambda>p. (pr_amount p, pr_script p)) (pb_payouts batch) @
            (if 0 < pb_change batch then [(pb_change batch, treasury_script)] else [])\<rparr>,
         map tu_entry (pb_inputs batch)))"

definition batch_txid :: "signer \<Rightarrow> planned_batch \<Rightarrow> bytes \<Rightarrow> sign_error + bytes" where
  "batch_txid sg batch treasury_script = map_sum id (\<lambda>(tx, _). sg_txid sg tx) (build_unsigned batch treasury_script)"

definition verify_signed :: "signer \<Rightarrow> signed_batch \<Rightarrow> sign_error + unit" where
  "verify_signed sg signed =
     (let run = sg_execute sg (sb_tx signed) (sb_entries signed)
      in case List.find (\<lambda>i. isl (run i)) [0..<length (tx_inputs (sb_tx signed))] of
           None \<Rightarrow> Inr ()
         | Some i \<Rightarrow> Inl (Verify i (projl (run i))))"

definition sign_batch :: "signer \<Rightarrow> planned_batch \<Rightarrow> bytes \<Rightarrow> bytes \<Rightarrow> sign_error + signed_batch" where
  "sign_batch sg batch treasury_script secret =
     (case build_unsigned batch treasury_script of
        Inl e \<Rightarrow> Inl e
      | Inr (unsigned, entries) \<Rightarrow>
          (case sg_keypair sg secret of
             Inl e \<Rightarrow> Inl (Key e)
           | Inr keypair \<Rightarrow>
               let signed = \<lparr>sb_tx = sg_sign sg keypair unsigned entries, sb_entries = entries\<rparr>
               in case verify_signed sg signed of Inl e \<Rightarrow> Inl e | Inr _ \<Rightarrow> Inr signed))"

section \<open>Executing a cycle\<close>

datatype execute_error =
    ExDb db_error
  | ExKaspad kas_rpc_error
  | ExSign sign_error
  | ExMass mass_evaluation_error
  | ExRecipientAddress int string
  | ExAmount int int
  | ExUnknownRecipient string
  | ExPanic

datatype kas_execution_mode = KasLive | KasDryRun

record execution_report =
  er_planned_batches :: nat
  er_spendable_utxos :: nat
  er_submitted_txids :: "bytes list"
  er_submitted_payouts :: nat
  er_deferred :: nat
  er_unpaid :: nat
  er_submit_errors :: "(bytes \<times> kas_rpc_error) list"

definition default_execution_report :: execution_report where
  "default_execution_report = \<lparr>er_planned_batches = 0, er_spendable_utxos = 0, er_submitted_txids = [],
     er_submitted_payouts = 0, er_deferred = 0, er_unpaid = 0, er_submit_errors = []\<rparr>"

record confirm_report =
  cf_accepted :: nat
  cf_confirmed :: nat
  cf_pending :: nat
  cf_unknown :: nat

definition default_confirm_report :: confirm_report where
  "default_confirm_report = \<lparr>cf_accepted = 0, cf_confirmed = 0, cf_pending = 0, cf_unknown = 0\<rparr>"

type_synonym 'a kas_act = "(kas_world, execute_error, 'a) act"

abbreviation kdb :: "(kas_world, db_error, 'a) act \<Rightarrow> 'a kas_act" where
  "kdb m \<equiv> map_err ExDb m"

text \<open>One call to the node: its answer as a value, and as a \<open>?\<close>.\<close>

definition rpc_result :: "(kas_node \<Rightarrow> nat \<Rightarrow> kas_rpc_error + 'a) \<Rightarrow> (kas_rpc_error + 'a) kas_act" where
  "rpc_result q s = (Inr (q (node s) (rpcs s)), s\<lparr>rpcs := Suc (rpcs s)\<rparr>)"

definition rpc :: "(kas_node \<Rightarrow> nat \<Rightarrow> kas_rpc_error + 'a) \<Rightarrow> 'a kas_act" where
  "rpc q = bindE (rpc_result q) (\<lambda>r. map_err ExKaspad (lift_sum r))"

definition submit_transaction :: "int list \<Rightarrow> transaction \<Rightarrow> bytes \<Rightarrow> (kas_rpc_error + bytes) kas_act" where
  "submit_transaction rows tx txid s =
     (let r = kn_submit_transaction (node s) (rpcs s) tx
      in (Inr r, s\<lparr>rpcs := Suc (rpcs s),
            broadcasts := broadcasts s @ [\<lparr>kb_rows = rows, kb_tx = tx, kb_txid = txid, kb_result = r\<rparr>]\<rparr>))"

definition payout_checked_sum :: "payout_recipient list \<Rightarrow> panic + nat" where
  "payout_checked_sum ps = (if payout_sum ps \<le> u64_max then Inr (payout_sum ps) else Inl Panic)"

definition sign_batch_with_exact_fee ::
  "signer \<Rightarrow> consensus \<Rightarrow> planned_batch \<Rightarrow> bytes \<Rightarrow> bytes \<Rightarrow> fee_rate \<Rightarrow> execute_error + signed_batch" where
  "sign_batch_with_exact_fee sg cs batch treasury_script secret fr =
     (case sign_batch sg batch treasury_script secret of
        Inl e \<Rightarrow> Inl (ExSign e)
      | Inr provisional \<Rightarrow>
          if \<not> reserves_fee fr then Inr provisional
          else case evaluate_populated cs (sb_tx provisional) (sb_entries provisional) of
            Inl e \<Rightarrow> Inl (ExMass e)
          | Inr mass \<Rightarrow>
              let fee = fee_for fr mass
              in case (checked_sum (pb_inputs batch), payout_checked_sum (pb_payouts batch)) of
                   (Inr input_sum, Inr paid) \<Rightarrow>
                     if input_sum < paid \<or> input_sum - paid < fee then Inr provisional
                     else
                       let rem = input_sum - paid - fee;
                           change = (if rem \<noteq> 0 \<and> is_change_dust cs rem treasury_script then 0 else rem)
                       in if change = pb_change batch then Inr provisional
                          else map_sum ExSign id (sign_batch sg (batch\<lparr>pb_change := change\<rparr>) treasury_script secret)
                 | _ \<Rightarrow> Inl ExPanic)"

definition resolve_recipient ::
  "signer \<Rightarrow> (string \<rightharpoonup> payout) \<times> payout_recipient list \<Rightarrow> payout \<Rightarrow> ((string \<rightharpoonup> payout) \<times> payout_recipient list) kas_act" where
  "resolve_recipient sg acc p =
     (case u64_try_from_i64 (po_amount p) of
        None \<Rightarrow> raise (ExAmount (po_id p) (po_amount p))
      | Some amount \<Rightarrow>
          bindE (kdb (wallet_get_by_id (po_wallet p))) (\<lambda>w.
          case sg_script sg (w_address w) of
            Inl reason \<Rightarrow> raise (ExRecipientAddress (po_wallet p) reason)
          | Inr script \<Rightarrow>
              let i = show_int (po_id p)
              in ret ((fst acc)(i \<mapsto> p), snd acc @ [\<lparr>pr_id = i, pr_amount = amount, pr_script = script\<rparr>])))"

definition protected_hashes :: "bytes list \<Rightarrow> bytes set" where
  "protected_hashes hs = set (filter (\<lambda>h. length h = 32) hs)"

definition spendable_coins :: "nat \<Rightarrow> bytes set \<Rightarrow> treasury_utxo list \<Rightarrow> treasury_utxo list" where
  "spendable_coins virtual_daa protected us =
     filter (\<lambda>u. op_txid (tu_outpoint u) \<notin> protected)
       (filter (\<lambda>u. is_spendable (ue_block_daa (tu_entry u)) (ue_is_coinbase (tu_entry u)) virtual_daa) us)"

definition batch_payout_ids :: "(string \<rightharpoonup> payout) \<Rightarrow> payout_recipient list \<Rightarrow> int list kas_act" where
  "batch_payout_ids by_id rs = foldE (\<lambda>ids r. case by_id (pr_id r) of
       None \<Rightarrow> raise (ExUnknownRecipient (pr_id r))
     | Some row \<Rightarrow> ret (ids @ [po_id row])) [] rs"

text \<open>The intent of a batch, in one transaction.\<close>

definition record_intent :: "int list \<Rightarrow> bytes \<Rightarrow> unit kas_act" where
  "record_intent ids txid =
     transaction (foldE (\<lambda>_ pid. bindE (kdb (mark_payout_submitted pid txid)) (\<lambda>_. ret ())) () ids) ExDb"

record kas_engine_config =
  kc_cycle_span_daa :: nat
  kc_threshold :: int
  kc_max_payout_per_cycle :: "int option"
  kc_mode :: kas_execution_mode

text \<open>What an engine is built from: libraries, treasury key and script, configuration.\<close>

record kas_env =
  ke_signer :: signer
  ke_consensus :: consensus
  ke_secret :: bytes
  ke_script :: bytes
  ke_config :: kas_engine_config

definition broadcast_batch ::
  "kas_env \<Rightarrow> (string \<rightharpoonup> payout) \<Rightarrow> fee_rate \<Rightarrow> execution_report \<Rightarrow> planned_batch \<Rightarrow> execution_report kas_act" where
  "broadcast_batch env by_id fr report batch =
     bindE (batch_payout_ids by_id (pb_payouts batch)) (\<lambda>ids.
     bindE (lift_sum (sign_batch_with_exact_fee (ke_signer env) (ke_consensus env) batch (ke_script env) (ke_secret env) fr)) (\<lambda>signed.
     let txid = sg_txid (ke_signer env) (sb_tx signed)
     in if kc_mode (ke_config env) = KasDryRun
        then ret (report\<lparr>er_submitted_txids := er_submitted_txids report @ [txid]\<rparr>)
        else
          bindE (record_intent ids txid) (\<lambda>_.
          let report = report\<lparr>er_submitted_payouts := er_submitted_payouts report + length ids\<rparr>
          in bindE (submit_transaction ids (sb_tx signed) txid) (\<lambda>res.
             case res of
               Inr _ \<Rightarrow> ret (report\<lparr>er_submitted_txids := er_submitted_txids report @ [txid]\<rparr>)
             | Inl e \<Rightarrow> ret (report\<lparr>er_submit_errors := er_submit_errors report @ [(txid, e)]\<rparr>)))))"

definition fee_rate_or_floor :: "fee_rate kas_act" where
  "fee_rate_or_floor = bindE (rpc_result kn_fee_estimate) (\<lambda>r.
     case r of Inr feerate \<Rightarrow> ret (from_feerate feerate) | Inl _ \<Rightarrow> ret (from_feerate (Fin 0)))"

definition broadcast_plan ::
  "kas_env \<Rightarrow> int \<Rightarrow> (string \<rightharpoonup> payout) \<Rightarrow> fee_rate \<Rightarrow> execution_report \<Rightarrow> plan_batches_result \<Rightarrow> execution_report kas_act" where
  "broadcast_plan env cid by_id fr report plan =
     (let report = report\<lparr>er_planned_batches := length (br_batches plan), er_deferred := length (br_deferred plan),
            er_unpaid := length (br_unpaid plan)\<rparr>
      in bindE (if kc_mode (ke_config env) = KasLive \<and> br_batches plan \<noteq> [] then kdb (mark_cycle_broadcasting cid) else ret ())
         (\<lambda>_. foldE (broadcast_batch env by_id fr) report (br_batches plan)))"

definition broadcast_cycle :: "kas_env \<Rightarrow> cycle_state \<Rightarrow> execution_report kas_act" where
  "broadcast_cycle env cycle =
     (let pending = pending_payouts cycle
      in if pending = [] then ret default_execution_report
         else
           bindE (foldE (resolve_recipient (ke_signer env)) (Map.empty, []) pending) (\<lambda>(by_id, recipients).
           bindE (rpc kn_virtual_daa_score) (\<lambda>virtual_daa.
           bindE (kdb in_flight_spend_tx_hashes) (\<lambda>hashes.
           bindE (rpc kn_treasury_utxos) (\<lambda>coins.
           let utxos = spendable_coins virtual_daa (protected_hashes hashes) coins;
               report = default_execution_report\<lparr>er_spendable_utxos := length utxos\<rparr>
           in bindE fee_rate_or_floor (\<lambda>fr.
              case plan_batches (ke_consensus env) utxos recipients (ke_script env) fr of
                Inl _ \<Rightarrow> raise ExPanic
              | Inr plan \<Rightarrow> broadcast_plan env (pc_id (cs_cycle cycle)) by_id fr report plan))))))"

section \<open>Confirming a cycle\<close>

definition in_flight_rows :: "cycle_state \<Rightarrow> payout list" where
  "in_flight_rows cycle = filter (\<lambda>p. po_status p \<in> {Submitted, Accepted} \<and> po_tx_hash p \<noteq> None) (cs_payouts cycle)"

text \<open>Collecting into a \<open>HashMap\<close>: the last coin of a transaction wins.\<close>

definition change_daa_map :: "treasury_utxo list \<Rightarrow> bytes \<rightharpoonup> nat" where
  "change_daa_map coins = map_of (rev (map (\<lambda>u. (op_txid (tu_outpoint u), ue_block_daa (tu_entry u))) coins))"

definition confirm_row :: "nat \<Rightarrow> (bytes \<rightharpoonup> nat) \<Rightarrow> confirm_report \<Rightarrow> payout \<Rightarrow> confirm_report kas_act" where
  "confirm_row virtual_daa change_daa report p =
     (case po_tx_hash p of
        None \<Rightarrow> ret report
      | Some h \<Rightarrow>
          if length h \<noteq> 32 then ret report
          else
            let on_chain = change_daa h;
                recorded = (case po_accepted_daa p of None \<Rightarrow> None | Some v \<Rightarrow> u64_try_from_i64 v)
            in bindE (if on_chain \<noteq> None \<or> recorded \<noteq> None then ret False
                      else rpc (\<lambda>n i. kn_transaction_in_mempool n i h)) (\<lambda>in_mempool.
               case kas_classify_confirmation \<lparr>ki_virtual_daa_score = virtual_daa, ki_in_mempool = in_mempool,
                      ki_change_block_daa_score = on_chain, ki_recorded_accept_daa = recorded\<rparr> of
                 CsAccepted \<Rightarrow>
                   let accept_daa = (case coalesce on_chain recorded of
                         None \<Rightarrow> 0 | Some v \<Rightarrow> (case i64_try_from_u64 v of None \<Rightarrow> 0 | Some d \<Rightarrow> d))
                   in bindE (kdb (mark_payout_accepted (po_id p) accept_daa))
                        (\<lambda>_. ret (report\<lparr>cf_accepted := cf_accepted report + 1\<rparr>))
               | CsConfirmed \<Rightarrow>
                   bindE (kdb (mark_payout_confirmed (po_id p)))
                     (\<lambda>_. ret (report\<lparr>cf_confirmed := cf_confirmed report + 1\<rparr>))
               | CsPending \<Rightarrow> ret (report\<lparr>cf_pending := cf_pending report + 1\<rparr>)
               | CsUnknown \<Rightarrow> ret (report\<lparr>cf_unknown := cf_unknown report + 1\<rparr>)))"

definition confirm_cycle :: "cycle_state \<Rightarrow> confirm_report kas_act" where
  "confirm_cycle cycle =
     (let in_flight = in_flight_rows cycle
      in if in_flight = [] then ret default_confirm_report
         else
           bindE (rpc kn_virtual_daa_score) (\<lambda>virtual_daa.
           bindE (rpc kn_treasury_utxos) (\<lambda>coins.
           foldE (confirm_row virtual_daa (change_daa_map coins)) default_confirm_report in_flight)))"

section \<open>The engine\<close>

definition kas_over_spend_cap :: "int \<Rightarrow> int option \<Rightarrow> bool" where
  "kas_over_spend_cap t cap = (case cap of Some c \<Rightarrow> c < t | None \<Rightarrow> False)"

datatype kas_engine_error =
    KeDb db_error
  | KePayout db_error
  | KeExecute execute_error
  | KeKaspad kas_rpc_error
  | KeSpanTooSmall nat nat
  | KeSpendCapExceeded int int

record tick_report =
  tr_cycle :: int
  tr_virtual_daa :: nat
  tr_daa_start :: nat
  tr_daa_end :: nat
  tr_broadcast :: execution_report
  tr_confirm :: confirm_report
  tr_status :: payout_cycle_status

datatype tick_outcome = SkippedNotLeader | Ran tick_report

type_synonym 'a keng_act = "(kas_world, kas_engine_error, 'a) act"

definition kas_engine_new :: "kas_engine_config \<Rightarrow> kas_engine_error + kas_engine_config" where
  "kas_engine_new cfg =
     (if kc_cycle_span_daa cfg \<le> KAS_PAYOUT_CONFIRMATION_DAA
      then Inl (KeSpanTooSmall (kc_cycle_span_daa cfg) KAS_PAYOUT_CONFIRMATION_DAA) else Inr cfg)"

definition outbound_sompi :: "payout list \<Rightarrow> int" where
  "outbound_sompi ps = foldl sat_add_i64 0 (map po_amount (filter (\<lambda>p. po_status p \<noteq> Failed) ps))"

text \<open>\<open>rpc\<close> with the engine's error conversion.\<close>

definition engine_rpc :: "(kas_node \<Rightarrow> nat \<Rightarrow> kas_rpc_error + 'a) \<Rightarrow> 'a keng_act" where
  "engine_rpc q s = (map_sum KeKaspad id (q (node s) (rpcs s)), s\<lparr>rpcs := Suc (rpcs s)\<rparr>)"

text \<open>The second half of a tick: reload the rows, confirm, reconcile and report.\<close>

definition finish_tick :: "int \<Rightarrow> nat \<Rightarrow> nat \<Rightarrow> nat \<Rightarrow> execution_report \<Rightarrow> tick_outcome keng_act" where
  "finish_tick cid virtual_daa daa_start daa_end broadcast =
     bindE (map_err KeDb (get_cycle cid)) (\<lambda>cycle.
     bindE (map_err KeDb (list_for_cycle cid)) (\<lambda>rows.
     bindE (map_err KeExecute (confirm_cycle \<lparr>cs_cycle = cycle, cs_payouts = rows\<rparr>)) (\<lambda>confirm.
     bindE (map_err KePayout (reconcile_cycle_status cid)) (\<lambda>status.
     ret (Ran \<lparr>tr_cycle = cid, tr_virtual_daa = virtual_daa, tr_daa_start = daa_start, tr_daa_end = daa_end,
               tr_broadcast = broadcast, tr_confirm = confirm, tr_status = status\<rparr>)))))"

definition drive_cycle :: "kas_env \<Rightarrow> nat \<Rightarrow> nat \<Rightarrow> nat \<Rightarrow> cycle_state \<Rightarrow> tick_outcome keng_act" where
  "drive_cycle env virtual_daa daa_start daa_end state =
     (let cid = pc_id (cs_cycle state);
          outbound = outbound_sompi (cs_payouts state);
          cap = kc_max_payout_per_cycle (ke_config env)
      in if kas_over_spend_cap outbound cap
         then raise (KeSpendCapExceeded outbound (case cap of Some c \<Rightarrow> c | None \<Rightarrow> 0))
         else bindE (map_err KeExecute (broadcast_cycle env state)) (finish_tick cid virtual_daa daa_start daa_end))"

definition kas_run_locked :: "kas_env \<Rightarrow> tick_outcome keng_act" where
  "kas_run_locked env =
     bindE (engine_rpc kn_virtual_daa_score) (\<lambda>virtual_daa.
     case cycle_window virtual_daa (kc_cycle_span_daa (ke_config env)) of (daa_start, daa_end) \<Rightarrow>
       bindE (map_err KePayout (resume_or_plan_kas_cycle
         \<lparr>kp_daa_start = daa_start, kp_daa_end = daa_end, kp_threshold = kc_threshold (ke_config env)\<rparr>))
       (drive_cycle env virtual_daa daa_start daa_end))"

text \<open>The work of a leader, and the release of the lock whatever came of it (an error there is only logged).\<close>

definition with_lock :: "(kas_world, 'e, 'a) act \<Rightarrow> (kas_world, 'e, 'a) act" where
  "with_lock m s = (case m s of (r, t) \<Rightarrow> (r, snd (sql (ret ()) t)))"

definition kas_run_once :: "kas_env \<Rightarrow> bool \<Rightarrow> tick_outcome keng_act" where
  "kas_run_once env lock_free =
     bindE (map_err KeDb (sql (ret lock_free))) (\<lambda>acquired.
     if \<not> acquired then ret SkippedNotLeader else with_lock (kas_run_locked env))"

end
