(* ===== verification/Kas_Safety.thy ===== *)
theory Kas_Safety
  imports Kas_Execute
begin

text \<open>
  Safety of the KAS payout engine: over any sequence of ticks a payout row goes out in at most
  one transaction, recorded with its hash before it is sent and paying exactly the row's amount
  to the row's wallet; a tick respects the spend cap; only mature coins that no pending payout
  depends on are spent; and confirmation needs positive evidence.
\<close>

section \<open>What has been broadcast\<close>

text \<open>
  A row moves forward, and once it has left \<open>planned\<close> its transaction hash is final.
\<close>

definition kas_le :: "payout \<Rightarrow> payout \<Rightarrow> bool" where
  "kas_le p q \<longleftrightarrow> payout_le p q \<and> (po_status p \<noteq> Planned \<longrightarrow> po_tx_hash q = po_tx_hash p)"

interpretation kas_view: db_view kas_le "\<lambda>s :: kas_world. (broadcasts s, wallets s)"
  by unfold_locales (auto simp: kas_le_def payout_le_def)

text \<open>The documented behaviour of signing: it fills in signature scripts and nothing else.\<close>

definition signer_ok :: "signer \<Rightarrow> bool" where
  "signer_ok sg \<longleftrightarrow> (\<forall>k tx es. tx_outputs (sg_sign sg k tx es) = tx_outputs tx \<and>
     map ti_outpoint (tx_inputs (sg_sign sg k tx es)) = map ti_outpoint (tx_inputs tx))"

text \<open>The output pays the row: its amount, to the script of its wallet's address.\<close>

definition row_output :: "signer \<Rightarrow> kas_world \<Rightarrow> int \<Rightarrow> nat \<times> bytes \<Rightarrow> bool" where
  "row_output sg s r out \<longleftrightarrow> (\<exists>p \<in> set (payouts s). \<exists>w \<in> set (wallets s). po_id p = r \<and>
     po_amount p = int (fst out) \<and> w_id w = po_wallet p \<and> sg_script sg (w_address w) = Inr (snd out))"

definition recorded :: "kas_world \<Rightarrow> int \<Rightarrow> bytes \<Rightarrow> bool" where
  "recorded s r h \<longleftrightarrow> (\<exists>p \<in> set (payouts s). po_id p = r \<and> po_status p \<noteq> Planned \<and> po_tx_hash p = Some h)"

definition sent_ok :: "signer \<Rightarrow> bytes \<Rightarrow> kas_world \<Rightarrow> kas_broadcast \<Rightarrow> bool" where
  "sent_ok sg sc s b \<longleftrightarrow> kb_txid b = sg_txid sg (kb_tx b) \<and>
     (\<exists>outs ch. tx_outputs (kb_tx b) = outs @ ch \<and> list_all2 (row_output sg s) (kb_rows b) outs \<and>
        (ch = [] \<or> (\<exists>c. ch = [(c, sc)]))) \<and>
     (\<forall>r \<in> set (kb_rows b). recorded s r (kb_txid b))"

definition kas_inv :: "signer \<Rightarrow> bytes \<Rightarrow> kas_world \<Rightarrow> bool" where
  "kas_inv sg sc s \<longleftrightarrow> payout_db_ok s \<and> (\<forall>b \<in> set (broadcasts s). sent_ok sg sc s b) \<and>
     distinct (concat (map kb_rows (broadcasts s)))"

lemma kas_inv_frame:
  assumes inv: "kas_inv sg sc s" and ok: "payout_db_ok t" and log: "broadcasts t = broadcasts s"
    and w: "set (wallets s) \<subseteq> set (wallets t)" and ext: "kas_view.extends (payouts s) (payouts t)"
  shows "kas_inv sg sc t"
proof -
  have ro: "row_output sg t r out" if "row_output sg s r out" for r out
  proof -
    from that obtain p v where p: "p \<in> set (payouts s)" "v \<in> set (wallets s)" "po_id p = r" "po_amount p = int (fst out)"
      "w_id v = po_wallet p" "sg_script sg (w_address v) = Inr (snd out)" unfolding row_output_def by blast
    with ext obtain q where "q \<in> set (payouts t)" "kas_le p q" unfolding kas_view.extends_def by blast
    with p w show ?thesis unfolding row_output_def
      by (intro bexI[of _ q] bexI[of _ v]) (auto simp: kas_le_def payout_le_def)
  qed
  have re: "recorded t r h" if rec: "recorded s r h" for r h
  proof -
    from rec obtain p where p: "p \<in> set (payouts s)" "po_id p = r" "po_status p \<noteq> Planned" "po_tx_hash p = Some h"
      unfolding recorded_def by blast
    with ext obtain q where "q \<in> set (payouts t)" "kas_le p q" unfolding kas_view.extends_def by blast
    with p show ?thesis unfolding recorded_def kas_le_def payout_le_def by (intro bexI[of _ q]) auto
  qed
  have "sent_ok sg sc t b" if sent: "sent_ok sg sc s b" for b
  proof -
    from sent obtain outs ch where "tx_outputs (kb_tx b) = outs @ ch" "list_all2 (row_output sg s) (kb_rows b) outs"
      "ch = [] \<or> (\<exists>c. ch = [(c, sc)])" unfolding sent_ok_def by blast
    moreover from this(2) have "list_all2 (row_output sg t) (kb_rows b) outs" by (rule list_all2_mono) (rule ro)
    ultimately show ?thesis using sent re unfolding sent_ok_def by blast
  qed
  then show ?thesis using inv ok log unfolding kas_inv_def by simp
qed

lemma calm_kas_inv: "kas_view.calm m \<Longrightarrow> kas_inv sg sc s \<Longrightarrow> kas_inv sg sc (snd (m s))"
proof -
  assume calm: "kas_view.calm m" and inv: "kas_inv sg sc s"
  show ?thesis
  proof (rule kas_inv_frame[OF inv])
    show "payout_db_ok (snd (m s))" using kas_view.calm_keeps(1)[OF calm] inv by (simp add: kas_inv_def preservesD)
    show "broadcasts (snd (m s)) = broadcasts s" "set (wallets s) \<subseteq> set (wallets (snd (m s)))"
      using kas_view.calm_keeps(2)[OF calm, of s] by simp_all
    show "kas_view.extends (payouts s) (payouts (snd (m s)))" by (rule kas_view.calm_keeps(3)[OF calm])
  qed
qed

section \<open>Steps that broadcast nothing\<close>

lemma calm_rpc_result: "kas_view.calm (rpc_result q)"
  by (rule kas_view.calmI, rule preservesI)
    (simp_all add: rpc_result_def payout_db_ok_def kas_view.advances_def kas_view.extends_refl)

lemma calm_rpc: "kas_view.calm (rpc q)"
  unfolding rpc_def by (intro kas_view.calm_control calm_rpc_result)

lemma calm_engine_rpc: "kas_view.calm (engine_rpc q)"
  by (rule kas_view.calmI, rule preservesI)
    (simp_all add: engine_rpc_def payout_db_ok_def kas_view.advances_def kas_view.extends_refl)

lemma calm_mark_accepted: "kas_view.calm (mark_payout_accepted pid d)" "kas_view.calm (mark_payout_confirmed pid)"
  unfolding mark_payout_accepted_def mark_payout_confirmed_def
  by (intro kas_view.calm_update_payout; auto simp: kas_le_def payout_le_def coalesce_def split: option.splits)+

lemma calm_confirm_row: "kas_view.calm (confirm_row v m rep p)"
  unfolding confirm_row_def Let_def
  by (intro kas_view.calm_control; (intro calm_rpc kas_view.calm_pure)?)
    (auto intro!: kas_view.calm_control calm_mark_accepted split: confirmation_state.split)

lemma calm_confirm_cycle: "kas_view.calm (confirm_cycle cyc)"
  unfolding confirm_cycle_def Let_def by (intro kas_view.calm_control calm_rpc calm_confirm_row)

lemma calm_fee: "kas_view.calm fee_rate_or_floor"
  unfolding fee_rate_or_floor_def
  by (intro kas_view.calm_control calm_rpc_result) (auto intro!: kas_view.calm_pure split: sum.split)

section \<open>Resolving recipients\<close>

lemma show_int_inject: "show_int i = show_int j \<Longrightarrow> i = j"
proof -
  have d: "show_nat n \<noteq> CHR ''-'' # x" for n x using show_nat_no_dash[of n] by (metis list.set_intros(1))
  assume "show_int i = show_int j"
  then have "(i < 0) = (j < 0) \<and> (if i < 0 then nat (- i) = nat (- j) else nat i = nat j)"
    using d d[symmetric] arg_cong[where f = read_nat] read_show_nat
    by (auto simp: show_int_def split: if_splits) (metis read_show_nat)+
  then show "i = j" by (auto split: if_splits)
qed

text \<open>A recipient of the planner stands for a row that is still planned.\<close>

definition recipient_row :: "signer \<Rightarrow> wallet_row list \<Rightarrow> payout \<Rightarrow> payout_recipient \<Rightarrow> bool" where
  "recipient_row sg ws p r \<longleftrightarrow> pr_id r = show_int (po_id p) \<and> po_amount p = int (pr_amount r) \<and>
     (\<exists>w \<in> set ws. w_id w = po_wallet p \<and> sg_script sg (w_address w) = Inr (pr_script r))"

definition due :: "signer \<Rightarrow> kas_world \<Rightarrow> payout_recipient \<Rightarrow> bool" where
  "due sg s r \<longleftrightarrow> (\<exists>p \<in> set (payouts s). po_status p = Planned \<and> recipient_row sg (wallets s) p r)"

definition ids_ok :: "(string \<rightharpoonup> payout) \<Rightarrow> bool" where
  "ids_ok by_id \<longleftrightarrow> (\<forall>i p. by_id i = Some p \<longrightarrow> i = show_int (po_id p))"

abbreviation same_books :: "kas_world \<Rightarrow> kas_world \<Rightarrow> bool" where
  "same_books s t \<equiv> payouts t = payouts s \<and> wallets t = wallets s \<and> cycles t = cycles s \<and>
     next_payout t = next_payout s \<and> next_cycle t = next_cycle s \<and> broadcasts t = broadcasts s \<and> node t = node s"

lemma wallet_get_Inr:
  "wallet_get_by_id w s = (Inr r, t) \<Longrightarrow> r \<in> set (wallets s) \<and> w_id r = w \<and> same_books s t"
  by (auto simp: wallet_get_by_id_def dest!: sql_Inr find_Some_iff_in split: option.splits)

lemma resolve_one:
  assumes "resolve_recipient sg (m, rs) p s = (Inr (m', rs'), t)"
  shows "\<exists>r. recipient_row sg (wallets s) p r \<and> rs' = rs @ [r] \<and> m' = m(show_int (po_id p) \<mapsto> p) \<and> same_books s t"
  using assms
  by (auto simp: resolve_recipient_def Let_def recipient_row_def u64_try_from_i64_def elim!: bindE_InrE
      dest!: wallet_get_Inr split: option.splits sum.splits if_splits) blast

lemma resolve_all:
  assumes "foldE (resolve_recipient sg) (m, rs) ps s = (Inr (m', rs'), t)" and "ids_ok m"
  shows "\<exists>new. rs' = rs @ new \<and> list_all2 (recipient_row sg (wallets s)) ps new \<and> ids_ok m' \<and> same_books s t"
  using assms
proof (induction ps arbitrary: m rs s)
  case Nil
  then show ?case by simp
next
  case (Cons p ps)
  from Cons.prems(1) obtain acc u where one: "resolve_recipient sg (m, rs) p s = (Inr acc, u)"
    and rest: "foldE (resolve_recipient sg) acc ps u = (Inr (m', rs'), t)" by (rule foldE_ConsE)
  obtain m1 rs1 where acc: "acc = (m1, rs1)" by fastforce
  from resolve_one[OF one[unfolded acc]] obtain r where r: "recipient_row sg (wallets s) p r" "rs1 = rs @ [r]"
    "m1 = m(show_int (po_id p) \<mapsto> p)" "same_books s u" by blast
  have "ids_ok m1" using Cons.prems(2) r(3) by (auto simp: ids_ok_def)
  from Cons.IH[OF rest[unfolded acc] this] r show ?case by auto
qed

lemma batch_payout_ids_Inr:
  assumes "batch_payout_ids by_id rs s = (Inr ids, t)" and "ids_ok by_id"
  shows "list_all2 (\<lambda>r i. pr_id r = show_int i) rs ids \<and> t = s"
proof -
  have "foldE (\<lambda>ids r. case by_id (pr_id r) of None \<Rightarrow> raise (ExUnknownRecipient (pr_id r)) | Some row \<Rightarrow> ret (ids @ [po_id row])) pre rs s = (Inr ids, t) \<Longrightarrow>
     \<exists>new. ids = pre @ new \<and> list_all2 (\<lambda>r i. pr_id r = show_int i) rs new \<and> t = s" for pre
  proof (induction rs arbitrary: pre)
    case (Cons r rs)
    then show ?case using assms(2) by (fastforce simp: ids_ok_def split: option.splits)
  qed simp
  from this[of "[]"] assms(1) show ?thesis by (auto simp: batch_payout_ids_def)
qed

section \<open>Broadcasting a batch\<close>

definition marked :: "bytes \<Rightarrow> timestamp \<Rightarrow> payout \<Rightarrow> payout" where
  "marked h t p = p\<lparr>po_status := Submitted, po_tx_hash := Some h, po_submitted_at := coalesce (po_submitted_at p) (Some t)\<rparr>"

lemma marked_twice: "marked h t (marked h t p) = marked h t p"
  by (simp add: marked_def coalesce_def split: option.split)

definition open_row :: "payout \<Rightarrow> bool" where
  "open_row p \<longleftrightarrow> po_status p \<in> {Planned, Submitted}"

lemma mark_submitted_Inr:
  assumes "mark_payout_submitted pid h s = (Inr n, t)"
  shows "payouts t = map (\<lambda>p. if po_id p = pid \<and> open_row p then marked h (now s) p else p) (payouts s)"
    and "now t = now s \<and> wallets t = wallets s \<and> broadcasts t = broadcasts (s :: kas_world) \<and> node t = node s"
  using assms
  by (auto simp: mark_payout_submitted_def update_payout_def update_where_def sql_def Let_def marked_def open_row_def split: if_splits)

lemma mark_all_Inr:
  assumes "foldE (\<lambda>_ pid. bindE (kdb (mark_payout_submitted pid h)) (\<lambda>_. ret ())) () ids s = (Inr u, t)"
  shows "payouts t = map (\<lambda>p. if po_id p \<in> set ids \<and> open_row p then marked h (now s) p else p) (payouts s) \<and>
    now t = now s \<and> wallets t = wallets s \<and> broadcasts t = broadcasts s \<and> node t = node s"
  using assms
proof (induction ids arbitrary: s)
  case (Cons i ids)
  from Cons.prems obtain x v where "bindE (kdb (mark_payout_submitted i h)) (\<lambda>_. ret ()) s = (Inr x, v)"
    and rest: "foldE (\<lambda>_ pid. bindE (kdb (mark_payout_submitted pid h)) (\<lambda>_. ret ())) () ids v = (Inr u, t)"
    by (auto elim!: foldE_ConsE simp del: ret_apply foldE.simps)
  then obtain n where v: "mark_payout_submitted i h s = (Inr n, v)" by (auto elim!: bindE_InrE)
  note one = mark_submitted_Inr[OF v]
  from Cons.IH[OF rest] one have pay: "payouts t = map (\<lambda>p. if po_id p \<in> set ids \<and> open_row p then marked h (now s) p else p)
      (map (\<lambda>p. if po_id p = i \<and> open_row p then marked h (now s) p else p) (payouts s))" by simp
  have "(\<lambda>p. if po_id p \<in> set ids \<and> open_row p then marked h (now s) p else p) \<circ>
      (\<lambda>p. if po_id p = i \<and> open_row p then marked h (now s) p else p) =
      (\<lambda>p. if po_id p \<in> set (i # ids) \<and> open_row p then marked h (now s) p else p)"
    by (rule ext) (auto simp: marked_twice)
  with pay Cons.IH[OF rest] one(2) show ?case by simp
qed simp

lemma record_intent_cases:
  assumes "record_intent ids h s = (res, t)" and "payout_db_ok s"
  shows "payout_db_ok t \<and> broadcasts t = broadcasts s \<and> wallets t = wallets s \<and> node t = node s \<and>
    payouts t = (case res of Inl _ \<Rightarrow> payouts s
      | Inr _ \<Rightarrow> map (\<lambda>p. if po_id p \<in> set ids \<and> open_row p then marked h (now s) p else p) (payouts s))"
proof -
  have "preserves payout_db_ok (record_intent ids h)"
    unfolding record_intent_def by (intro preserves_rules payout_db_ok_inv)
  then have ok: "payout_db_ok t" using assms preservesD by fastforce
  show ?thesis
  proof (cases res)
    case (Inl e)
    then show ?thesis using assms(1) ok transaction_Inl[OF assms(1)[unfolded record_intent_def Inl]] by (cases t) auto
  next
    case (Inr u)
    from assms(1)[unfolded record_intent_def Inr] obtain v where
      v: "foldE (\<lambda>_ pid. bindE (kdb (mark_payout_submitted pid h)) (\<lambda>_. ret ())) () ids (s\<lparr>calls := Suc (calls s)\<rparr>) = (Inr u, v)"
      and t: "t = v\<lparr>calls := Suc (calls v)\<rparr>" by (rule transaction_Inr)
    from mark_all_Inr[OF v] t ok Inr show ?thesis by simp
  qed
qed

lemma due_unique:
  assumes "payout_db_ok s" and "due sg s r" and "p \<in> set (payouts s)" and "pr_id r = show_int (po_id p)"
  shows "po_status p = Planned" and "recipient_row sg (wallets s) p r"
proof -
  from assms(2) obtain q where q: "q \<in> set (payouts s)" "po_status q = Planned" "recipient_row sg (wallets s) q r"
    unfolding due_def by blast
  have "po_id q = po_id p" using q(3) assms(4) by (metis recipient_row_def show_int_inject)
  moreover have "inj_on po_id (set (payouts s))" using assms(1) unfolding payout_db_ok_def distinct_map by blast
  ultimately have "q = p" using q(1) assms(3) by (meson inj_onD)
  with q show "po_status p = Planned" "recipient_row sg (wallets s) p r" by simp_all
qed

lemma sign_batch_Inr:
  assumes "sign_batch sg b sc secret = Inr signed" and "signer_ok sg"
  shows "tx_outputs (sb_tx signed) = map (\<lambda>p. (pr_amount p, pr_script p)) (pb_payouts b) @
      (if 0 < pb_change b then [(pb_change b, sc)] else [])"
    and "map ti_outpoint (tx_inputs (sb_tx signed)) = map tu_outpoint (pb_inputs b)"
    and "\<forall>u \<in> set (pb_inputs b). \<not> is_planning_virtual u"
  using assms
  by (auto simp: sign_batch_def build_unsigned_def signer_ok_def Let_def list_ex_iff split: sum.splits if_splits)

lemma sign_exact_Inr:
  assumes "sign_batch_with_exact_fee sg cs b sc secret fr = Inr signed"
  shows "\<exists>c. sign_batch sg (b\<lparr>pb_change := c\<rparr>) sc secret = Inr signed"
proof -
  have same: ?thesis if "sign_batch sg b sc secret = Inr signed" using that by (intro exI[of _ "pb_change b"]) simp
  have err: "map_sum ExSign id x = Inr signed \<longleftrightarrow> x = Inr signed" for x by (cases x) auto
  show ?thesis using assms
    by (auto simp: sign_batch_with_exact_fee_def Let_def err intro: same split: sum.splits prod.splits if_splits)
qed

text \<open>The transaction of a batch: the batch's payments, at most one change output, real inputs.\<close>

lemma sign_exact_shape:
  assumes "sign_batch_with_exact_fee sg cs b sc secret fr = Inr signed" and "signer_ok sg"
  shows "\<exists>ch. tx_outputs (sb_tx signed) = map (\<lambda>p. (pr_amount p, pr_script p)) (pb_payouts b) @ ch \<and>
      (ch = [] \<or> (\<exists>c. ch = [(c, sc)]))"
    and "map ti_outpoint (tx_inputs (sb_tx signed)) = map tu_outpoint (pb_inputs b)"
    and "\<forall>u \<in> set (pb_inputs b). \<not> is_planning_virtual u"
proof -
  from sign_exact_Inr[OF assms(1)] obtain c where c: "sign_batch sg (b\<lparr>pb_change := c\<rparr>) sc secret = Inr signed" by blast
  from sign_batch_Inr[OF c assms(2)] show
    "\<exists>ch. tx_outputs (sb_tx signed) = map (\<lambda>p. (pr_amount p, pr_script p)) (pb_payouts b) @ ch \<and> (ch = [] \<or> (\<exists>c. ch = [(c, sc)]))"
    "map ti_outpoint (tx_inputs (sb_tx signed)) = map tu_outpoint (pb_inputs b)"
    "\<forall>u \<in> set (pb_inputs b). \<not> is_planning_virtual u" by auto
qed

text \<open>A broadcast made for a batch, and what it pays out to rows.\<close>

definition paid_out :: "kas_broadcast \<Rightarrow> nat" where
  "paid_out b = sum_list (map fst (take (length (kb_rows b)) (tx_outputs (kb_tx b))))"

definition from_batch :: "planned_batch \<Rightarrow> kas_broadcast \<Rightarrow> bool" where
  "from_batch b e \<longleftrightarrow> map ti_outpoint (tx_inputs (kb_tx e)) = map tu_outpoint (pb_inputs b) \<and>
     (\<forall>u \<in> set (pb_inputs b). \<not> is_planning_virtual u) \<and> paid_out e = payout_sum (pb_payouts b)"

lemma intent_inv:
  assumes inv: "kas_inv sg sc s" and int: "record_intent ids h s = (res, t)"
    and rows: "\<forall>r \<in> set rs. due sg s r" and ids: "list_all2 (\<lambda>r i. pr_id r = show_int i) rs ids"
  shows "kas_inv sg sc t" and "broadcasts t = broadcasts s" and "node t = node s"
    and "res = Inr u \<Longrightarrow> list_all2 (\<lambda>r i. recorded t i h \<and> row_output sg t i (pr_amount r, pr_script r)) rs ids"
    and "\<forall>r. due sg s r \<and> pr_id r \<notin> pr_id ` set rs \<longrightarrow> due sg t r"
proof -
  have ok: "payout_db_ok s" using inv by (simp add: kas_inv_def)
  note T = record_intent_cases[OF int ok]
  show "broadcasts t = broadcasts s" "node t = node s" using T by simp_all
  have planned: "po_status p = Planned \<and> (\<exists>r \<in> set rs. pr_id r = show_int (po_id p) \<and> recipient_row sg (wallets s) p r)"
    if p: "p \<in> set (payouts s)" "po_id p \<in> set ids" for p
  proof -
    obtain k where k: "k < length ids" "ids ! k = po_id p" using p(2) by (metis in_set_conv_nth)
    then have "rs ! k \<in> set rs" "pr_id (rs ! k) = show_int (po_id p)"
      using ids by (auto simp: list_all2_conv_all_nth)
    with due_unique[OF ok _ p(1)] rows show ?thesis by blast
  qed
  have ext: "kas_view.extends (payouts s) (payouts t)"
    unfolding kas_view.extends_def
  proof
    fix p assume p: "p \<in> set (payouts s)"
    have "kas_le p (marked h (now s) p)" if "po_status p = Planned"
      using that by (auto simp: kas_le_def payout_le_def marked_def coalesce_def split: option.split)
    moreover have "kas_le p p" by (rule kas_view.le_refl)
    moreover have "p \<in> set (payouts t) \<or> po_id p \<in> set ids \<and> marked h (now s) p \<in> set (payouts t)"
      using T p by (cases res) force+
    ultimately show "\<exists>q \<in> set (payouts t). kas_le p q" using planned[OF p] by blast
  qed
  show inv_t: "kas_inv sg sc t" by (rule kas_inv_frame[OF inv _ _ _ ext]) (use T in auto)
  show "list_all2 (\<lambda>r i. recorded t i h \<and> row_output sg t i (pr_amount r, pr_script r)) rs ids" if res: "res = Inr u"
    unfolding list_all2_conv_all_nth
  proof (intro conjI allI impI)
    show "length rs = length ids" using ids by (rule list_all2_lengthD)
    fix k assume k: "k < length rs"
    have r: "rs ! k \<in> set rs" "pr_id (rs ! k) = show_int (ids ! k)" using k ids by (auto simp: list_all2_conv_all_nth)
    with rows obtain p where p: "p \<in> set (payouts s)" "po_status p = Planned" "recipient_row sg (wallets s) p (rs ! k)"
      unfolding due_def by blast
    then have i: "po_id p = ids ! k" using r(2) by (metis recipient_row_def show_int_inject)
    have "ids ! k \<in> set ids" using k ids by (simp add: list_all2_lengthD)
    then have "marked h (now s) p \<in> set (payouts t)" using T res p(1,2) i by (force simp: open_row_def)
    moreover have "po_id (marked h (now s) p) = ids ! k" "po_status (marked h (now s) p) \<noteq> Planned" "po_tx_hash (marked h (now s) p) = Some h"
      "po_amount (marked h (now s) p) = po_amount p" "po_wallet (marked h (now s) p) = po_wallet p"
      using i by (simp_all add: marked_def)
    ultimately show "recorded t (ids ! k) h" "row_output sg t (ids ! k) (pr_amount (rs ! k), pr_script (rs ! k))"
      using p(3) T unfolding recorded_def row_output_def recipient_row_def by force+
  qed
  show "\<forall>r. due sg s r \<and> pr_id r \<notin> pr_id ` set rs \<longrightarrow> due sg t r"
  proof (intro allI impI)
    fix r assume r: "due sg s r \<and> pr_id r \<notin> pr_id ` set rs"
    then obtain p where p: "p \<in> set (payouts s)" "po_status p = Planned" "recipient_row sg (wallets s) p r"
      unfolding due_def by blast
    have "po_id p \<notin> set ids"
    proof
      assume "po_id p \<in> set ids"
      then obtain q where "q \<in> set rs" "pr_id q = show_int (po_id p)" using planned[OF p(1)] by blast
      moreover have "pr_id r = show_int (po_id p)" using p(3) by (simp add: recipient_row_def)
      ultimately show False using r by (metis imageI)
    qed
    then have "p \<in> set (payouts t)" using T p(1) by (cases res) force+
    then show "due sg t r" using p T unfolding due_def by force
  qed
qed

lemma submit_Inr:
  "submit_transaction rows tx h s = (res, t) \<Longrightarrow>
   (\<exists>r. res = Inr r \<and> broadcasts t = broadcasts s @ [\<lparr>kb_rows = rows, kb_tx = tx, kb_txid = h, kb_result = r\<rparr>]) \<and>
   payouts t = payouts s \<and> wallets t = wallets s \<and> cycles t = cycles s \<and> next_payout t = next_payout s \<and>
   next_cycle t = next_cycle s \<and> node t = node s"
  by (auto simp: submit_transaction_def Let_def)

lemma sent_ok_same_books:
  "payouts t = payouts s \<Longrightarrow> wallets t = wallets s \<Longrightarrow> sent_ok sg sc t b = sent_ok sg sc s b"
proof -
  assume "payouts t = payouts s" "wallets t = wallets s"
  then have "row_output sg t = row_output sg s" "recorded t = recorded s"
    by (auto simp: row_output_def recorded_def fun_eq_iff)
  then show ?thesis by (simp add: sent_ok_def)
qed

lemma due_same_books: "payouts t = payouts s \<Longrightarrow> wallets t = wallets s \<Longrightarrow> due sg t r = due sg s r"
  by (simp add: due_def)

text \<open>The ways through one batch: nothing done, the intent not recorded, or one broadcast.\<close>

lemma broadcast_batch_cases:
  assumes run: "broadcast_batch env by_id fr rep b s = (res, t)" and ids: "ids_ok by_id"
  obtains (none) "t = s"
  | (failed) pids h e where "list_all2 (\<lambda>r i. pr_id r = show_int i) (pb_payouts b) pids" "record_intent pids h s = (Inl e, t)"
  | (sent) pids signed u v r where "list_all2 (\<lambda>r i. pr_id r = show_int i) (pb_payouts b) pids"
      "sign_batch_with_exact_fee (ke_signer env) (ke_consensus env) b (ke_script env) (ke_secret env) fr = Inr signed"
      "record_intent pids (sg_txid (ke_signer env) (sb_tx signed)) s = (Inr u, v)"
      "submit_transaction pids (sb_tx signed) (sg_txid (ke_signer env) (sb_tx signed)) v = (Inr r, t)"
proof -
  obtain x s' where x: "batch_payout_ids by_id (pb_payouts b) s = (x, s')" by fastforce
  have "preserves (\<lambda>v. v = s) (batch_payout_ids by_id (pb_payouts b))"
    unfolding batch_payout_ids_def by (intro preserves_rules)
  with x have s': "s' = s" using preservesD by fastforce
  show thesis
  proof (cases x)
    case (Inl e)
    then show thesis using run x s' none by (simp add: broadcast_batch_def bindE_def)
  next
    case (Inr pids)
    then have la: "list_all2 (\<lambda>r i. pr_id r = show_int i) (pb_payouts b) pids" using batch_payout_ids_Inr x ids by blast
    show thesis
    proof (cases "sign_batch_with_exact_fee (ke_signer env) (ke_consensus env) b (ke_script env) (ke_secret env) fr")
      case (Inl e)
      then show thesis using run x s' \<open>x = Inr pids\<close> none by (simp add: broadcast_batch_def bindE_def)
    next
      case signed: (Inr signed)
      let ?h = "sg_txid (ke_signer env) (sb_tx signed)"
      obtain y v where int: "record_intent pids ?h s = (y, v)" by fastforce
      obtain r w where sub: "submit_transaction pids (sb_tx signed) ?h v = (Inr r, w)"
        by (simp add: submit_transaction_def Let_def)
      have "t = s \<or> (\<exists>e. y = Inl e \<and> t = v) \<or> (\<exists>u. y = Inr u \<and> t = w)"
        using run x s' Inr signed int sub
        by (cases y; cases r) (auto simp: broadcast_batch_def bindE_def Let_def split: if_splits)
      then show thesis using none failed[OF la] sent[OF la signed] int sub by blast
    qed
  qed
qed

lemma sent_batch:
  assumes inv: "kas_inv sg sc s" and sg: "signer_ok sg" and rows: "\<forall>r \<in> set (pb_payouts b). due sg s r"
    and d: "distinct (map pr_id (pb_payouts b))" and la: "list_all2 (\<lambda>r i. pr_id r = show_int i) (pb_payouts b) pids"
    and signed: "sign_batch_with_exact_fee sg cs b sc secret fr = Inr signed"
    and int: "record_intent pids (sg_txid sg (sb_tx signed)) s = (Inr u, v)"
    and sub: "submit_transaction pids (sb_tx signed) (sg_txid sg (sb_tx signed)) v = (Inr r, t)"
  shows "kas_inv sg sc t" and "\<exists>e. broadcasts t = broadcasts s @ [e] \<and> from_batch b e"
proof -
  define h where "h = sg_txid sg (sb_tx signed)"
  let ?e = "\<lparr>kb_rows = pids, kb_tx = sb_tx signed, kb_txid = h, kb_result = r\<rparr>"
  note I = intent_inv[OF inv int rows la] and W = submit_Inr[OF sub]
  have log: "broadcasts t = broadcasts s @ [?e]" using W I(2) by (simp add: h_def)
  obtain ch where ch: "tx_outputs (sb_tx signed) = map (\<lambda>p. (pr_amount p, pr_script p)) (pb_payouts b) @ ch"
    "ch = [] \<or> (\<exists>c. ch = [(c, sc)])" using sign_exact_shape(1)[OF signed sg] by blast
  have len: "length pids = length (pb_payouts b)" using la by (metis list_all2_lengthD)
  have rec: "list_all2 (\<lambda>r i. recorded v i h \<and> row_output sg v i (pr_amount r, pr_script r)) (pb_payouts b) pids"
    using I(4)[OF refl] by (simp add: h_def)
  then have "list_all2 (row_output sg v) pids (map (\<lambda>p. (pr_amount p, pr_script p)) (pb_payouts b))"
    "\<forall>i \<in> set pids. recorded v i h" by (auto simp: list_all2_conv_all_nth in_set_conv_nth)
  then have new_ok: "sent_ok sg sc v ?e" using ch unfolding sent_ok_def by (auto simp: h_def)
  have "map show_int pids = map pr_id (pb_payouts b)"
    using la by (auto simp: list_all2_conv_all_nth intro!: nth_equalityI)
  then have "distinct (map show_int pids)" using d by simp
  then have dis: "distinct pids" by (simp add: distinct_map)
  have fresh: "i \<notin> set (kb_rows e)" if i: "i \<in> set pids" and e: "e \<in> set (broadcasts s)" for i e
  proof
    assume "i \<in> set (kb_rows e)"
    then obtain p where p: "p \<in> set (payouts s)" "po_id p = i" "po_status p \<noteq> Planned"
      using inv e by (auto simp: kas_inv_def sent_ok_def recorded_def)
    from i obtain k where k: "k < length pids" "pids ! k = i" by (auto simp: in_set_conv_nth)
    with la p(2) len have "pb_payouts b ! k \<in> set (pb_payouts b)" "pr_id (pb_payouts b ! k) = show_int (po_id p)"
      by (simp_all add: list_all2_conv_all_nth)
    with due_unique(1)[OF _ _ p(1)] rows p(3) inv show False unfolding kas_inv_def by blast
  qed
  have "payouts t = payouts v" "wallets t = wallets v" "cycles t = cycles v" "next_payout t = next_payout v" "next_cycle t = next_cycle v"
    using W by simp_all
  then show "kas_inv sg sc t"
    using I(1,2) new_ok dis fresh log sent_ok_same_books[of t v] unfolding kas_inv_def payout_db_ok_def by auto
  have "from_batch b ?e"
    using sign_exact_shape(2,3)[OF signed sg] ch(1) len by (simp add: from_batch_def paid_out_def comp_def)
  then show "\<exists>e. broadcasts t = broadcasts s @ [e] \<and> from_batch b e" using log by blast
qed

text \<open>The postcondition of one batch: at most one broadcast, made for this batch.\<close>

lemma broadcast_batch_step:
  assumes inv: "kas_inv (ke_signer env) (ke_script env) s" and sg: "signer_ok (ke_signer env)" and ids: "ids_ok by_id"
    and rows: "\<forall>r \<in> set (pb_payouts b). due (ke_signer env) s r" and d: "distinct (map pr_id (pb_payouts b))"
    and run: "broadcast_batch env by_id fr rep b s = (res, t)"
  shows "kas_inv (ke_signer env) (ke_script env) t \<and>
    (\<exists>new. broadcasts t = broadcasts s @ new \<and> (new = [] \<or> (\<exists>e. new = [e] \<and> from_batch b e))) \<and>
    (\<forall>r. due (ke_signer env) s r \<and> pr_id r \<notin> pr_id ` set (pb_payouts b) \<longrightarrow> due (ke_signer env) t r)"
  using run ids
proof (cases rule: broadcast_batch_cases)
  case none
  then show ?thesis using inv by simp
next
  case (failed pids h e)
  then show ?thesis using intent_inv[OF inv failed(2) rows failed(1)] by auto
next
  case (sent pids signed u v r)
  have "\<forall>r. due (ke_signer env) s r \<and> pr_id r \<notin> pr_id ` set (pb_payouts b) \<longrightarrow> due (ke_signer env) t r"
    using intent_inv(5)[OF inv sent(3) rows sent(1)] submit_Inr[OF sent(4)] due_same_books[of t v] by blast
  then show ?thesis using sent_batch[OF inv sg rows d sent] by blast
qed

section \<open>Broadcasting a cycle\<close>

lemma due_rest:
  assumes "\<forall>r \<in> set (xs @ ys). due sg s r" and "distinct (map pr_id (xs @ ys))"
    and "\<forall>r. due sg s r \<and> pr_id r \<notin> pr_id ` set xs \<longrightarrow> due sg t r"
  shows "\<forall>r \<in> set ys. due sg t r"
proof
  fix r assume r: "r \<in> set ys"
  with assms(2) have "pr_id r \<notin> pr_id ` set xs" by (auto simp: disjoint_iff)
  with r assms(1,3) show "due sg t r" by simp
qed

lemma broadcast_loop_kas:
  assumes "kas_inv (ke_signer env) (ke_script env) s" and "signer_ok (ke_signer env)" and "ids_ok by_id"
    and "\<forall>r \<in> set (concat (map pb_payouts bs)). due (ke_signer env) s r"
    and "distinct (map pr_id (concat (map pb_payouts bs)))"
    and "foldE (broadcast_batch env by_id fr) rep bs s = (res, t)"
  shows "kas_inv (ke_signer env) (ke_script env) t \<and>
    (\<exists>new. broadcasts t = broadcasts s @ new \<and> (\<forall>e \<in> set new. \<exists>b \<in> set bs. from_batch b e) \<and>
       sum_list (map paid_out new) \<le> payout_sum (concat (map pb_payouts bs)))"
  using assms
proof (induction bs arbitrary: rep s)
  case (Cons b bs)
  obtain x u where x: "broadcast_batch env by_id fr rep b s = (x, u)" by fastforce
  have "\<forall>r \<in> set (pb_payouts b). due (ke_signer env) s r" "distinct (map pr_id (pb_payouts b))"
    using Cons.prems(4,5) by simp_all
  note S = broadcast_batch_step[OF Cons.prems(1,2,3) this x]
  obtain n1 where n1: "broadcasts u = broadcasts s @ n1" "n1 = [] \<or> (\<exists>e. n1 = [e] \<and> from_batch b e)" using S by blast
  have paid1: "sum_list (map paid_out n1) \<le> payout_sum (pb_payouts b)" "\<forall>e \<in> set n1. from_batch b e"
    using n1(2) by (auto simp: from_batch_def)
  show ?case
  proof (cases x)
    case (Inl e)
    then have "t = u" using Cons.prems(6) x by simp
    then show ?thesis using S n1(1) paid1 by (intro conjI exI[of _ n1]) auto
  next
    case (Inr rep')
    then have rest: "foldE (broadcast_batch env by_id fr) rep' bs u = (res, t)" using Cons.prems(6) x by simp
    have "\<forall>r \<in> set (concat (map pb_payouts bs)). due (ke_signer env) u r"
      by (rule due_rest[of "pb_payouts b"]) (use Cons.prems(4,5) S in auto)
    from Cons.IH[OF conjunct1[OF S] Cons.prems(2,3) this _ rest] Cons.prems(5)
    obtain n2 where "kas_inv (ke_signer env) (ke_script env) t" "broadcasts t = broadcasts u @ n2"
      "\<forall>e \<in> set n2. \<exists>b \<in> set bs. from_batch b e" "sum_list (map paid_out n2) \<le> payout_sum (concat (map pb_payouts bs))"
      by auto
    then show ?thesis using n1(1) paid1 by (intro conjI exI[of _ "n1 @ n2"]) auto
  qed
qed simp

text \<open>
  The coins a run may spend: reported by the node, mature at the score it reported, and not the
  change of a payout that is still in flight.
\<close>

definition free_coin :: "kas_world \<Rightarrow> outpoint \<Rightarrow> bool" where
  "free_coin s o1 \<longleftrightarrow> (\<exists>i j v coins u. kn_virtual_daa_score (node s) i = Inr v \<and> kn_treasury_utxos (node s) j = Inr coins \<and>
     u \<in> set coins \<and> tu_outpoint u = o1 \<and>
     is_spendable (ue_block_daa (tu_entry u)) (ue_is_coinbase (tu_entry u)) v) \<and>
     (\<forall>p \<in> set (payouts s). po_status p \<notin> {Confirmed, Failed} \<and> length (op_txid o1) = 32 \<longrightarrow>
        Some (op_txid o1) \<notin> {po_tx_hash p, po_commit_hash p, po_reveal_hash p})"

lemma rpc_Inr: "rpc q s = (Inr a, t) \<Longrightarrow> q (node s) (rpcs s) = Inr a \<and> t = s\<lparr>rpcs := Suc (rpcs s)\<rparr>"
  by (auto simp: rpc_def rpc_result_def bindE_def map_err_def split: sum.splits)

lemma in_flight_Inr:
  assumes "in_flight_spend_tx_hashes s = (Inr hs, t)"
  shows "same_books s t" and "p \<in> set (payouts s) \<Longrightarrow> po_status p \<notin> {Confirmed, Failed} \<Longrightarrow>
      Some h \<in> {po_tx_hash p, po_commit_hash p, po_reveal_hash p} \<Longrightarrow> h \<in> set hs"
proof -
  let ?hs = "\<lambda>p. List.map_filter id [po_tx_hash p, po_commit_hash p, po_reveal_hash p]"
  have hs: "hs = concat (map ?hs (filter (\<lambda>p. po_status p \<notin> {Confirmed, Failed}) (payouts s)))" and t: "same_books s t"
    using sql_Inr[OF assms[unfolded in_flight_spend_tx_hashes_def]] by auto
  show "same_books s t" by (rule t)
  assume p: "p \<in> set (payouts s)" "po_status p \<notin> {Confirmed, Failed}" and h: "Some h \<in> {po_tx_hash p, po_commit_hash p, po_reveal_hash p}"
  have "Some h \<in> set xs \<Longrightarrow> h \<in> set (List.map_filter id xs)" for xs by (force simp: List.map_filter_def)
  from this[of "[po_tx_hash p, po_commit_hash p, po_reveal_hash p]"] h have "h \<in> set (?hs p)" by (simp only: list.set)
  with p show "h \<in> set hs" unfolding hs set_concat set_map set_filter by blast
qed

lemma fee_same_books: "fee_rate_or_floor s = (res, t) \<Longrightarrow> (\<exists>fr. res = Inr fr) \<and> same_books s t"
  by (auto simp: fee_rate_or_floor_def rpc_result_def bindE_def split: sum.splits)

lemma spendable_free:
  assumes "kn_virtual_daa_score (node s) i = Inr v" and "kn_treasury_utxos (node s) j = Inr coins"
    and "in_flight_spend_tx_hashes (u :: kas_world) = (Inr hs, u')" and "payouts u = payouts s"
    and "c \<in> set (spendable_coins v (protected_hashes hs) coins)"
  shows "free_coin s (tu_outpoint c)"
  using assms in_flight_Inr(2)[OF assms(3)] unfolding free_coin_def spendable_coins_def protected_hashes_def
  by (auto simp del: insert_iff) (metis insert_iff)+

definition cycle_rows_ok :: "kas_world \<Rightarrow> cycle_state \<Rightarrow> bool" where
  "cycle_rows_ok s cyc \<longleftrightarrow> set (cs_payouts cyc) \<subseteq> set (payouts s) \<and> distinct (map po_id (cs_payouts cyc))"

lemma pending_due:
  assumes "list_all2 (recipient_row sg ws) ps rs" and "distinct (map po_id ps)"
  shows "distinct (map pr_id rs)" and "int (payout_sum rs) = sum_list (map po_amount ps)"
    and "r \<in> set rs \<Longrightarrow> \<exists>p \<in> set ps. recipient_row sg ws p r"
proof -
  have "map pr_id rs = map (\<lambda>p. show_int (po_id p)) ps"
    using assms(1) by (induction rule: list_all2_induct) (simp_all add: recipient_row_def)
  moreover have "distinct (map (\<lambda>p. show_int (po_id p)) ps)"
    using assms(2) by (auto simp: distinct_map inj_on_def dest: show_int_inject)
  ultimately show "distinct (map pr_id rs)" by simp
  show "int (payout_sum rs) = sum_list (map po_amount ps)"
    using assms(1) by (induction rule: list_all2_induct) (simp_all add: recipient_row_def)
  show "r \<in> set rs \<Longrightarrow> \<exists>p \<in> set ps. recipient_row sg ws p r"
    using assms(1) by (metis in_set_conv_nth list_all2_conv_all_nth)
qed

lemma payout_sum_submset: "mset xs \<subseteq># mset ys \<Longrightarrow> payout_sum xs \<le> payout_sum ys"
proof -
  assume "mset xs \<subseteq># mset ys"
  then obtain D where "mset ys = mset xs + D" by (auto simp: mset_subset_eq_exists_conv)
  then have "mset (map pr_amount ys) = mset (map pr_amount xs) + image_mset pr_amount D" by simp
  from arg_cong[OF this, of sum_mset] show ?thesis by (simp flip: sum_mset_sum_list)
qed

lemma broadcast_plan_step:
  assumes inv: "kas_inv (ke_signer env) (ke_script env) s" and sg: "signer_ok (ke_signer env)" and ids: "ids_ok by_id"
    and rows: "\<forall>r \<in> set rs. due (ke_signer env) s r" and d: "distinct (map pr_id rs)"
    and plan: "plan_batches cs us rs sc fr = Inr plan"
    and run: "broadcast_plan env cid by_id fr rep plan s = (res, t)"
  shows "kas_inv (ke_signer env) (ke_script env) t \<and>
    (\<exists>new. broadcasts t = broadcasts s @ new \<and>
       (\<forall>e \<in> set new. \<forall>i \<in> set (tx_inputs (kb_tx e)). ti_outpoint i \<in> tu_outpoint ` set us) \<and>
       sum_list (map paid_out new) \<le> payout_sum rs)"
proof -
  let ?mark = "if kc_mode (ke_config env) = KasLive \<and> br_batches plan \<noteq> [] then kdb (mark_cycle_broadcasting cid) else ret ()"
  note P = plan_batches_partial[OF plan d]
  obtain x u where x: "?mark s = (x, u)" by fastforce
  have calm: "kas_view.calm ?mark" by (intro kas_view.calm_control kas_view.calm_statements)
  have u: "kas_inv (ke_signer env) (ke_script env) u" "broadcasts u = broadcasts s" "wallets u = wallets s" "payouts u = payouts s"
    using calm_kas_inv[OF calm inv] kas_view.calm_keeps(2)[OF calm, of s] x
    by (auto simp: mark_cycle_broadcasting_def update_cycle_def sql_def Let_def map_err_def split: if_splits)
  show ?thesis
  proof (cases x)
    case (Inl e)
    then have "t = u" using run x by (simp add: broadcast_plan_def bindE_def Let_def)
    then show ?thesis using u by (intro conjI exI[of _ "[]"]) simp_all
  next
    case (Inr y)
    then obtain rep' where loop: "foldE (broadcast_batch env by_id fr) rep' (br_batches plan) u = (res, t)"
      using run x by (auto simp: broadcast_plan_def bindE_def Let_def)
    have "\<forall>r \<in> set (concat (map pb_payouts (br_batches plan))). due (ke_signer env) u r"
      using rows set_mset_mono[OF P(1)] due_same_books[OF u(4,3)] by auto
    moreover have "distinct (map pr_id (concat (map pb_payouts (br_batches plan))))" by (rule distinct_submset[OF P(1) d])
    ultimately obtain new where new: "kas_inv (ke_signer env) (ke_script env) t" "broadcasts t = broadcasts u @ new"
      "\<forall>e \<in> set new. \<exists>b \<in> set (br_batches plan). from_batch b e"
      "sum_list (map paid_out new) \<le> payout_sum (concat (map pb_payouts (br_batches plan)))"
      using broadcast_loop_kas[OF u(1) sg ids _ _ loop] by blast
    have "ti_outpoint i \<in> tu_outpoint ` set us" if "e \<in> set new" "i \<in> set (tx_inputs (kb_tx e))" for e i
    proof -
      obtain b where b: "b \<in> set (br_batches plan)" "from_batch b e" using new(3) \<open>e \<in> set new\<close> by blast
      have "ti_outpoint i \<in> set (map ti_outpoint (tx_inputs (kb_tx e)))" using that(2) by simp
      then have "ti_outpoint i \<in> set (map tu_outpoint (pb_inputs b))" using b(2) by (simp only: from_batch_def)
      then obtain c where "c \<in> set (pb_inputs b)" "tu_outpoint c = ti_outpoint i" by auto
      with P(2) b show ?thesis unfolding from_batch_def by (metis image_eqI)
    qed
    moreover have "sum_list (map paid_out new) \<le> payout_sum rs"
      using new(4) payout_sum_submset[OF P(1)] by (rule le_trans)
    ultimately show ?thesis using new(1,2) u(2) by (intro conjI exI[of _ new]) auto
  qed
qed

lemma rpc_books: "rpc q s = (x, t) \<Longrightarrow> same_books s t"
  by (auto simp: rpc_def rpc_result_def bindE_def map_err_def split: sum.splits)

lemma in_flight_books: "in_flight_spend_tx_hashes s = (x, t) \<Longrightarrow> same_books s t"
  by (auto simp: in_flight_spend_tx_hashes_def sql_def Let_def split: if_splits)

lemma resolve_books:
  assumes "foldE (resolve_recipient sg) acc ps s = (x, t)"
  shows "same_books s t"
proof -
  have "preserves (same_books s) (foldE (resolve_recipient sg) acc ps)"
    unfolding resolve_recipient_def wallet_get_by_id_def Let_def
    by (intro preserves_rules) (auto simp: db_inv_def preserves_def split: option.split)
  from preservesD[OF this, of s] assms show ?thesis by simp
qed

text \<open>The ways through \<open>broadcast_cycle\<close>: the books untouched, or a plan broadcast.\<close>

lemma broadcast_cycle_cases:
  assumes "broadcast_cycle env cyc s = (res, t)"
  obtains (idle) "same_books s t"
  | (plan) by_id rs i v j coins hs u u1 u2 w fr plan rep where
      "foldE (resolve_recipient (ke_signer env)) (Map.empty, []) (pending_payouts cyc) s = (Inr (by_id, rs), u)"
      "kn_virtual_daa_score (node s) i = Inr v" "kn_treasury_utxos (node s) j = Inr coins"
      "in_flight_spend_tx_hashes (u1 :: kas_world) = (Inr hs, u2)" "payouts u1 = payouts s" "same_books s w"
      "plan_batches (ke_consensus env) (spendable_coins v (protected_hashes hs) coins) rs (ke_script env) fr = Inr plan"
      "broadcast_plan env (pc_id (cs_cycle cyc)) by_id fr rep plan w = (res, t)"
proof (cases "pending_payouts cyc = []")
  case True
  then show thesis using assms idle by (simp add: broadcast_cycle_def Let_def)
next
  case False
  note run = assms[unfolded broadcast_cycle_def Let_def if_not_P[OF False]]
  from run show thesis
  proof (cases rule: bindE_cases)
    case (err e)
    then show thesis using resolve_books idle by blast
  next
    case (ok acc u)
    obtain by_id rs where acc: "acc = (by_id, rs)" by fastforce
    have bu: "same_books s u" using resolve_books ok(1) by blast
    from ok(2)[unfolded acc prod.case] show thesis
    proof (cases rule: bindE_cases)
      case (err e)
      then show thesis using rpc_books[OF err(1)] bu idle by simp
    next
      case v: (ok v u1)
      have b1: "same_books s u1" and daa: "kn_virtual_daa_score (node s) (rpcs u) = Inr v"
        using rpc_books[OF v(1)] rpc_Inr[OF v(1)] bu by simp_all
      from v(2) show thesis
      proof (cases rule: bindE_cases)
        case (err e)
        from map_err_Inl[OF err(1)] obtain e' where "in_flight_spend_tx_hashes u1 = (Inl e', t)" by blast
        then show thesis using in_flight_books b1 idle by fastforce
      next
        case hs: (ok hs u2)
        have h: "in_flight_spend_tx_hashes u1 = (Inr hs, u2)" using hs(1) by simp
        have b2: "same_books s u2" using in_flight_books[OF h] b1 by simp
        from hs(2) show thesis
        proof (cases rule: bindE_cases)
          case (err e)
          then show thesis using rpc_books[OF err(1)] b2 idle by simp
        next
          case coins: (ok coins u3)
          have b3: "same_books s u3" and us: "kn_treasury_utxos (node s) (rpcs u2) = Inr coins"
            using rpc_books[OF coins(1)] rpc_Inr[OF coins(1)] b2 by simp_all
          from coins(2) obtain fr w where fee: "fee_rate_or_floor u3 = (Inr fr, w)"
            and rest: "(case plan_batches (ke_consensus env) (spendable_coins v (protected_hashes hs) coins) rs (ke_script env) fr of
                Inl _ \<Rightarrow> raise ExPanic
              | Inr plan \<Rightarrow> broadcast_plan env (pc_id (cs_cycle cyc)) by_id fr
                  (default_execution_report\<lparr>er_spendable_utxos := length (spendable_coins v (protected_hashes hs) coins)\<rparr>) plan) w = (res, t)"
            using fee_same_books by (elim bindE_cases) blast+
          have bw: "same_books s w" using fee_same_books[OF fee] b3 by simp
          show thesis
          proof (cases "plan_batches (ke_consensus env) (spendable_coins v (protected_hashes hs) coins) rs (ke_script env) fr")
            case (Inl e)
            then show thesis using rest bw idle by simp
          next
            case (Inr pl)
            then show thesis using plan[OF ok(1)[unfolded acc] daa us h _ bw Inr] rest b1 by simp
          qed
        qed
      qed
    qed
  qed
qed

lemma broadcast_cycle_step:
  assumes inv: "kas_inv (ke_signer env) (ke_script env) s" and sg: "signer_ok (ke_signer env)" and cyc: "cycle_rows_ok s cyc"
    and run: "broadcast_cycle env cyc s = (res, t)"
  shows "kas_inv (ke_signer env) (ke_script env) t \<and>
    (\<exists>new. broadcasts t = broadcasts s @ new \<and>
       (\<forall>e \<in> set new. \<forall>i \<in> set (tx_inputs (kb_tx e)). free_coin s (ti_outpoint i)) \<and>
       int (sum_list (map paid_out new)) \<le> sum_list (map po_amount (pending_payouts cyc)))"
  using run
proof (cases rule: broadcast_cycle_cases)
  case idle
  have "0 \<le> sum_list (map po_amount (pending_payouts cyc))"
    using inv cyc by (intro sum_list_nonneg)
      (auto simp: kas_inv_def payout_db_ok_def cycle_rows_ok_def pending_payouts_def payout_checks_def dest!: subsetD bspec)
  moreover have "kas_inv (ke_signer env) (ke_script env) t"
    by (rule kas_inv_frame[OF inv]) (use inv idle in \<open>auto simp: kas_inv_def payout_db_ok_def kas_view.extends_refl\<close>)
  ultimately show ?thesis using idle by simp
next
  case (plan by_id rs i v j coins hs u u1 u2 w fr plan rep)
  have dd: "distinct (map po_id (pending_payouts cyc))"
    using cyc by (simp add: cycle_rows_ok_def pending_payouts_def distinct_map_filter)
  have "\<exists>new. rs = [] @ new \<and> list_all2 (recipient_row (ke_signer env) (wallets s)) (pending_payouts cyc) new \<and> ids_ok by_id \<and> same_books s u"
    by (rule resolve_all[OF plan(1)]) (simp add: ids_ok_def)
  then have la: "list_all2 (recipient_row (ke_signer env) (wallets s)) (pending_payouts cyc) rs" and ids: "ids_ok by_id" by auto
  note D = pending_due(1)[OF la dd] and S = pending_due(2)[OF la dd] and R = pending_due(3)[OF la dd]
  have "\<forall>r \<in> set rs. due (ke_signer env) w r"
    using R cyc plan(6) unfolding due_def cycle_rows_ok_def pending_payouts_def by fastforce
  moreover have "kas_inv (ke_signer env) (ke_script env) w"
    by (rule kas_inv_frame[OF inv]) (use inv plan(6) in \<open>auto simp: kas_inv_def payout_db_ok_def kas_view.extends_refl\<close>)
  ultimately obtain new where new: "kas_inv (ke_signer env) (ke_script env) t" "broadcasts t = broadcasts w @ new"
    "\<forall>e \<in> set new. \<forall>i \<in> set (tx_inputs (kb_tx e)). ti_outpoint i \<in> tu_outpoint ` set (spendable_coins v (protected_hashes hs) coins)"
    "sum_list (map paid_out new) \<le> payout_sum rs"
    using broadcast_plan_step[OF _ sg ids _ D plan(7,8)] by blast
  have "free_coin s (ti_outpoint i)" if "e \<in> set new" "i \<in> set (tx_inputs (kb_tx e))" for e i
    using new(3) that spendable_free[OF plan(2,3,4,5)] by fastforce
  then show ?thesis using new S plan(6) by (intro conjI exI[of _ new]) auto
qed

section \<open>The tick\<close>

text \<open>What a tick adds to the log, with \<open>cap\<close> the spend cap if there is one.\<close>

definition tick_adds :: "kas_env \<Rightarrow> kas_world \<Rightarrow> kas_world \<Rightarrow> bool" where
  "tick_adds env s t \<longleftrightarrow> (\<exists>new. broadcasts t = broadcasts s @ new \<and>
     (\<forall>cap. kc_max_payout_per_cycle (ke_config env) = Some cap \<and> cap < i64_max \<longrightarrow>
        new = [] \<or> int (sum_list (map paid_out new)) \<le> cap))"

lemma sat_sum_lower:
  assumes "\<forall>x \<in> set xs. 0 \<le> (x :: int)" and "0 \<le> a" and "a \<le> i64_max"
  shows "min i64_max (a + sum_list xs) \<le> foldl sat_add_i64 a xs"
  using assms
proof (induction xs arbitrary: a)
  case (Cons x xs)
  have s: "0 \<le> sat_add_i64 a x" "sat_add_i64 a x \<le> i64_max" "min i64_max (a + x) \<le> sat_add_i64 a x"
    using Cons.prems by (auto simp: sat_add_i64_def clamp_i64_def)
  have "0 \<le> sum_list xs" using Cons.prems(1) by (intro sum_list_nonneg) simp
  then have "min i64_max (a + sum_list (x # xs)) \<le> min i64_max (sat_add_i64 a x + sum_list xs)" using s by simp
  also have "\<dots> \<le> foldl sat_add_i64 (sat_add_i64 a x) xs" using Cons s by simp
  finally show ?case by simp
qed simp

lemma pending_le_outbound:
  assumes "payout_db_ok s" and "cycle_rows_ok s cyc" and "outbound_sompi (cs_payouts cyc) < i64_max"
  shows "sum_list (map po_amount (pending_payouts cyc)) \<le> outbound_sompi (cs_payouts cyc)"
proof -
  let ?open = "filter (\<lambda>p. po_status p \<noteq> Failed) (cs_payouts cyc)"
  have pos: "0 \<le> po_amount p" if "p \<in> set (cs_payouts cyc)" for p
    using assms(1,2) that by (auto simp: payout_db_ok_def cycle_rows_ok_def payout_checks_def dest!: subsetD bspec)
  have "min i64_max (0 + sum_list (map po_amount ?open)) \<le> outbound_sompi (cs_payouts cyc)"
    unfolding outbound_sompi_def by (rule sat_sum_lower) (use pos in auto)
  then have "sum_list (map po_amount ?open) \<le> outbound_sompi (cs_payouts cyc)" using assms(3) by simp
  moreover have "sum_list (map po_amount (filter (\<lambda>p. po_status p = Planned) xs)) \<le> sum_list (map po_amount (filter (\<lambda>p. po_status p \<noteq> Failed) xs))"
    if "set xs \<subseteq> set (cs_payouts cyc)" for xs
    using that pos by (induction xs) (auto simp: add_increasing)
  ultimately show ?thesis unfolding pending_payouts_def by fastforce
qed

lemma calm_tick_adds: "kas_view.calm m \<Longrightarrow> tick_adds env s t \<Longrightarrow> tick_adds env s (snd (m t))"
  using kas_view.calm_keeps(2)[of m t] unfolding tick_adds_def by simp

text \<open>A calm continuation keeps what has been established.\<close>

lemma calm_after:
  assumes "kas_view.calm m" and "kas_inv (ke_signer env) (ke_script env) u \<and> tick_adds env s u"
  shows "kas_inv (ke_signer env) (ke_script env) (snd (m u)) \<and> tick_adds env s (snd (m u))"
  using assms calm_kas_inv calm_tick_adds by blast

lemma calm_finish_tick: "kas_view.calm (finish_tick cid v a b rep)"
  unfolding finish_tick_def
  by (intro kas_view.calm_control kas_view.calm_statements calm_confirm_cycle kas_view.calm_reconcile)

lemma drive_cycle_step:
  assumes inv: "kas_inv (ke_signer env) (ke_script env) s" and sg: "signer_ok (ke_signer env)" and cyc: "cycle_rows_ok s cyc"
  shows "kas_inv (ke_signer env) (ke_script env) (snd (drive_cycle env v a b cyc s)) \<and> tick_adds env s (snd (drive_cycle env v a b cyc s))"
proof (cases "kas_over_spend_cap (outbound_sompi (cs_payouts cyc)) (kc_max_payout_per_cycle (ke_config env))")
  case True
  then show ?thesis using inv by (simp add: drive_cycle_def Let_def tick_adds_def)
next
  case False
  obtain x u where x: "broadcast_cycle env cyc s = (x, u)" by fastforce
  from broadcast_cycle_step[OF inv sg cyc x] obtain new where new: "kas_inv (ke_signer env) (ke_script env) u"
    "broadcasts u = broadcasts s @ new" "int (sum_list (map paid_out new)) \<le> sum_list (map po_amount (pending_payouts cyc))" by blast
  have "int (sum_list (map paid_out new)) \<le> cap" if "kc_max_payout_per_cycle (ke_config env) = Some cap" "cap < i64_max" for cap
  proof -
    have "outbound_sompi (cs_payouts cyc) \<le> cap" using False that by (simp add: kas_over_spend_cap_def)
    with pending_le_outbound[OF _ cyc] inv that new(3) show ?thesis by (force simp: kas_inv_def)
  qed
  then have "kas_inv (ke_signer env) (ke_script env) u \<and> tick_adds env s u" using new(1,2) unfolding tick_adds_def by blast
  moreover have "kas_inv (ke_signer env) (ke_script env) (snd (finish_tick cid v a b r u)) \<and> tick_adds env s (snd (finish_tick cid v a b r u))"
    if "kas_inv (ke_signer env) (ke_script env) u \<and> tick_adds env s u" for cid r
    using calm_after[OF calm_finish_tick that] .
  ultimately show ?thesis
    using False x unfolding drive_cycle_def Let_def bindE_def[of "map_err KeExecute (broadcast_cycle env cyc)"]
    by (cases x) (simp_all add: map_err_def)
qed

lemma list_for_cycle_rows:
  assumes "list_for_cycle cid s = (Inr rows, t)" and "payout_db_ok s"
  shows "set rows \<subseteq> set (payouts s) \<and> distinct (map po_id rows) \<and> payouts t = payouts s"
  using sql_Inr[OF assms(1)[unfolded list_for_cycle_def]] assms(2)
  by (auto simp: payout_db_ok_def distinct_map_filter)

lemma audit_payouts: "audit_append a b c s = (x, t) \<Longrightarrow> payouts t = payouts s"
  by (auto simp: audit_append_def sql_def Let_def split: if_splits)

lemma get_cycle_payouts: "get_cycle cid s = (x, t) \<Longrightarrow> payouts t = payouts s"
  by (auto simp: get_cycle_def sql_def Let_def split: if_splits option.splits)

lemma resume_rows:
  assumes run: "resume_or_plan_kas_cycle p (s :: kas_world) = (Inr cyc, t)" and ok: "payout_db_ok s"
  shows "cycle_rows_ok t cyc"
proof -
  from run[unfolded resume_or_plan_kas_cycle_def Let_def] obtain found u where
    f: "find_cycle_by_idempotency_key (idempotency_key Kas (kp_daa_start p) (kp_daa_end p)) s = (Inr found, u)"
    and rest: "(case found of
           Some cycle \<Rightarrow>
             bindE (list_for_cycle (pc_id cycle)) (\<lambda>payouts.
             bindE (audit_append ''payout-kas'' ''cycle.resume'' (''payout_cycle'', pc_id cycle)) (\<lambda>_.
             ret \<lparr>cs_cycle = cycle, cs_payouts = payouts\<rparr>))
         | None \<Rightarrow>
             bindE (plan_kas_cycle p) (\<lambda>planned.
             bindE (audit_append ''payout-kas'' ''cycle.plan'' (''payout_cycle'', pc_id (cs_cycle planned))) (\<lambda>_.
             ret planned))) u = (Inr cyc, t)" by (rule bindE_InrE)
  have u: "payout_db_ok u" using kas_view.calm_keeps(1)[OF kas_view.calm_reads(1)] ok f preservesD by (metis snd_conv)
  show ?thesis
  proof (cases found)
    case (Some cycle)
    with rest obtain rows u1 u2 x where "list_for_cycle (pc_id cycle) u = (Inr rows, u1)"
      "audit_append ''payout-kas'' ''cycle.resume'' (''payout_cycle'', pc_id cycle) u1 = (x, u2)" "cs_payouts cyc = rows" "t = u2"
      by (auto elim!: bindE_InrE)
    then show ?thesis using list_for_cycle_rows[OF _ u] audit_payouts unfolding cycle_rows_ok_def by metis
  next
    case None
    with rest obtain u1 x where pl: "plan_kas_cycle p u = (Inr cyc, u1)"
      and "audit_append ''payout-kas'' ''cycle.plan'' (''payout_cycle'', pc_id (cs_cycle cyc)) u1 = (x, t)"
      by (auto elim!: bindE_InrE)
    then have t: "payouts t = payouts u1" using audit_payouts by blast
    from pl obtain y u2 c rows u3 c' where tr: "transaction (plan_body Kas ew_payable (kp_threshold p) (kp_daa_start p) (kp_daa_end p)) id u = (Inr y, u2)"
      and rows: "list_for_cycle (pc_id (c :: payout_cycle)) u2 = (Inr rows, u3)" "cs_payouts cyc = rows" "get_cycle (pc_id c) u3 = (Inr c', u1)"
      unfolding plan_kas_cycle_def by (auto elim!: bindE_InrE split: prod.splits)
    have calm: "kas_view.calm (transaction (plan_body Kas ew_payable (kp_threshold p) (kp_daa_start p) (kp_daa_end p)) id)"
      unfolding plan_body_def ensure_recipients_def by (intro kas_view.calm_control kas_view.calm_statements)
    have "payout_db_ok u2" using preservesD[OF kas_view.calm_keeps(1)[OF calm] u] tr by simp
    from list_for_cycle_rows[OF rows(1) this] rows(2) get_cycle_payouts[OF rows(3)] t show ?thesis by (simp add: cycle_rows_ok_def)
  qed
qed

lemma calm_sql_ret: "kas_view.calm (sql (ret a))"
  by (rule kas_view.calm_read) simp

lemma tick_adds_calm: "broadcasts u = broadcasts s \<Longrightarrow> tick_adds env u t \<Longrightarrow> tick_adds env s t"
  by (simp add: tick_adds_def)

lemma kas_run_once_step:
  assumes inv: "kas_inv (ke_signer env) (ke_script env) s" and sg: "signer_ok (ke_signer env)"
  shows "kas_inv (ke_signer env) (ke_script env) (snd (kas_run_once env lock s)) \<and> tick_adds env s (snd (kas_run_once env lock s))"
proof -
  let ?Q = "\<lambda>t. kas_inv (ke_signer env) (ke_script env) t \<and> tick_adds env s t"
  have Qs: "?Q s" using inv by (simp add: tick_adds_def)
  have locked: "?Q (snd (kas_run_locked env u))" if u: "?Q u" "broadcasts u = broadcasts s" for u
    unfolding kas_run_locked_def
  proof (rule bindE_post)
    show "?Q t" if "engine_rpc kn_virtual_daa_score u = (Inl e, t)" for e t
      using calm_after[OF calm_engine_rpc u(1), of kn_virtual_daa_score] that by simp
    fix v t assume "engine_rpc kn_virtual_daa_score u = (Inr v, t)"
    then have t: "?Q t" "broadcasts t = broadcasts s"
      using calm_after[OF calm_engine_rpc u(1), of kn_virtual_daa_score] kas_view.calm_keeps(2)[OF calm_engine_rpc, of kn_virtual_daa_score u] u(2)
      by simp_all
    obtain a b where w: "cycle_window v (kc_cycle_span_daa (ke_config env)) = (a, b)" by fastforce
    let ?p = "\<lparr>kp_daa_start = a, kp_daa_end = b, kp_threshold = kc_threshold (ke_config env)\<rparr>"
    note rc = calm_after[OF kas_view.calm_map_err[OF kas_view.calm_resume_kas] t(1), of KePayout ?p]
    have "?Q (snd (bindE (map_err KePayout (resume_or_plan_kas_cycle ?p)) (drive_cycle env v a b) t))"
    proof (rule bindE_post)
      show "?Q r" if "map_err KePayout (resume_or_plan_kas_cycle ?p) t = (Inl e, r)" for e r using rc that by simp
      fix cyc r assume r: "map_err KePayout (resume_or_plan_kas_cycle ?p) t = (Inr cyc, r)"
      then have "?Q r" "broadcasts r = broadcasts s"
        using rc kas_view.calm_keeps(2)[OF kas_view.calm_map_err[OF kas_view.calm_resume_kas], of KePayout ?p t] t(2) by simp_all
      moreover have "cycle_rows_ok r cyc" using resume_rows r t(1) by (simp add: kas_inv_def)
      ultimately show "?Q (snd (drive_cycle env v a b cyc r))"
        using drive_cycle_step[OF _ sg] tick_adds_calm by blast
    qed
    then show "?Q (snd ((case cycle_window v (kc_cycle_span_daa (ke_config env)) of (a, b) \<Rightarrow>
        bindE (map_err KePayout (resume_or_plan_kas_cycle \<lparr>kp_daa_start = a, kp_daa_end = b, kp_threshold = kc_threshold (ke_config env)\<rparr>))
         (drive_cycle env v a b)) t))" using w by simp
  qed
  show ?thesis
    unfolding kas_run_once_def
  proof (rule bindE_post)
    have c: "kas_view.calm (map_err KeDb (sql (ret lock)))" by (intro kas_view.calm_map_err calm_sql_ret)
    show "?Q t" if "map_err KeDb (sql (ret lock)) s = (Inl e, t)" for e t using calm_after[OF c Qs] that by simp
    fix acquired t assume a: "map_err KeDb (sql (ret lock)) s = (Inr acquired, t)"
    then have t: "?Q t" "broadcasts t = broadcasts s" using calm_after[OF c Qs] kas_view.calm_keeps(2)[OF c, of s] by simp_all
    have "?Q (snd (with_lock (kas_run_locked env) t))"
      using calm_after[OF calm_sql_ret locked[OF t], of "()"] by (cases "kas_run_locked env t") (simp add: with_lock_def)
    then show "?Q (snd ((if \<not> acquired then ret SkippedNotLeader else with_lock (kas_run_locked env)) t))" using t by simp
  qed
qed

section \<open>The engine's guarantees\<close>

text \<open>A sample world: no payouts yet, a node that is out of reach.\<close>

definition offline_node :: kas_node where
  "offline_node = \<lparr>kn_virtual_daa_score = (\<lambda>_. Inl (Rpc ''offline'')), kn_treasury_utxos = (\<lambda>_. Inl (Rpc ''offline'')),
     kn_submit_transaction = (\<lambda>_ _. Inl (Rpc ''offline'')), kn_fee_estimate = (\<lambda>_. Inl (Rpc ''offline'')),
     kn_transaction_in_mempool = (\<lambda>_ _. Inr False)\<rparr>"

definition sample_world :: kas_world where
  "sample_world = pool_db.extend empty_db \<lparr>node = offline_node\<lparr>kn_virtual_daa_score := \<lambda>_. Inr 7300\<rparr>, rpcs = 0,
     broadcasts = [], snapshots = [], campaign_active = False\<rparr>"

definition sample_signer :: signer where
  "sample_signer = \<lparr>sg_keypair = Inr, sg_sign = (\<lambda>k tx es. tx), sg_txid = (\<lambda>tx. map fst (tx_outputs tx)),
     sg_execute = (\<lambda>tx es i. Inr ()), sg_script = (\<lambda>a. Inr (map of_char a))\<rparr>"

definition sample_env :: kas_env where
  "sample_env = \<lparr>ke_signer = sample_signer, ke_consensus = sample_consensus, ke_secret = [7], ke_script = [1, 2, 3],
     ke_config = \<lparr>kc_cycle_span_daa = 3600, kc_threshold = 500000000, kc_max_payout_per_cycle = Some 100000000000,
       kc_mode = KasLive\<rparr>\<rparr>"

lemma sample_signer_ok: "signer_ok sample_signer"
  by (simp add: signer_ok_def sample_signer_def)

lemma sample_world_ok: "kas_inv sg sc sample_world"
  by (simp add: kas_inv_def payout_db_ok_def sample_world_def pool_db.extend_def empty_db_def)

text \<open>
  C7. With a per-cycle spend cap (below the largest \<open>i64\<close>, at which the saturating total stops
  telling), a tick of the KAS engine broadcasts nothing, or transactions that together pay out at
  most the cap, whatever the database and the node do.
\<close>

theorem kas_tick_within_cap:
  assumes "kas_inv (ke_signer env) (ke_script env) s" and "signer_ok (ke_signer env)"
    and "kc_max_payout_per_cycle (ke_config env) = Some cap" and "cap < i64_max"
  shows "\<exists>new. broadcasts (snd (kas_run_once env lock s)) = broadcasts s @ new \<and>
    (new = [] \<or> int (sum_list (map paid_out new)) \<le> cap)"
proof -
  have "tick_adds env s (snd (kas_run_once env lock s))" using kas_run_once_step[OF assms(1,2)] by blast
  then show ?thesis using assms(3,4) unfolding tick_adds_def by blast
qed

theorem kas_tick_within_cap_witness:
  "\<exists>new. broadcasts (snd (kas_run_once sample_env True sample_world)) = broadcasts sample_world @ new \<and>
    (new = [] \<or> int (sum_list (map paid_out new)) \<le> 100000000000)"
  by (rule kas_tick_within_cap) (simp_all add: sample_world_ok sample_env_def sample_signer_ok)

text \<open>
  C8. Broadcasting a cycle spends only coins the node reported for the treasury, mature at the
  score the node reported, and never an output of a transaction that a payout still in flight is
  recorded with: the coin by which that payout will be confirmed stays unspent.
\<close>

theorem broadcast_cycle_spends_free_coins:
  assumes "kas_inv (ke_signer env) (ke_script env) s" and "signer_ok (ke_signer env)" and "cycle_rows_ok s cyc"
  shows "\<exists>new. broadcasts (snd (broadcast_cycle env cyc s)) = broadcasts s @ new \<and>
    (\<forall>e \<in> set new. \<forall>i \<in> set (tx_inputs (kb_tx e)). free_coin s (ti_outpoint i))"
proof -
  obtain res t where "broadcast_cycle env cyc s = (res, t)" by fastforce
  with broadcast_cycle_step[OF assms this] show ?thesis by auto
qed

definition sample_cycle :: cycle_state where
  "sample_cycle = \<lparr>cs_cycle = \<lparr>pc_id = 1, pc_kind = Kas, pc_status = CyPlanned, pc_daa_start = 7200, pc_daa_end = 10800,
     pc_planned_at = 0, pc_broadcast_at = None, pc_settled_at = None, pc_total_sompi = 0, pc_total_recipients = 0,
     pc_key = ''kas-7200-10800''\<rparr>, cs_payouts = []\<rparr>"

theorem broadcast_cycle_spends_free_coins_witness:
  "\<exists>new. broadcasts (snd (broadcast_cycle sample_env sample_cycle sample_world)) = broadcasts sample_world @ new \<and>
    (\<forall>e \<in> set new. \<forall>i \<in> set (tx_inputs (kb_tx e)). free_coin sample_world (ti_outpoint i))"
  by (rule broadcast_cycle_spends_free_coins)
    (simp_all add: sample_world_ok sample_env_def sample_signer_ok cycle_rows_ok_def sample_cycle_def)

section \<open>The exact fee\<close>

abbreviation output_sum :: "transaction \<Rightarrow> nat" where
  "output_sum tx \<equiv> sum_list (map fst (tx_outputs tx))"

text \<open>
  C10. Signing with the exact fee.  The batch is signed provisionally with the planner's change, and the
  fee is the one for the mass of that provisional transaction.  If the inputs cover the payments and this
  fee, the transaction returned is the batch signed with some change that leaves exactly the fee to the network: what the inputs
  hold beyond payments, change and fee is nothing, or a remainder that would have been a dust
  output.  The fee is the one for the mass of the returned transaction if the change is the planned one; otherwise
  that mass is not measured again, although the comments say fee and signed mass cannot diverge.
\<close>

theorem exact_fee_balances:
  assumes "sign_batch_with_exact_fee sg cs b sc secret fr = Inr signed" and "signer_ok sg" and "reserves_fee fr"
    and "sign_batch sg b sc secret = Inr prov" and "evaluate_populated cs (sb_tx prov) (sb_entries prov) = Inr mass"
    and "payout_sum (pb_payouts b) + fee_for fr mass \<le> utxo_sum (pb_inputs b)"
  shows "\<exists>change extra. sign_batch sg (b\<lparr>pb_change := change\<rparr>) sc secret = Inr signed \<and>
    output_sum (sb_tx signed) = payout_sum (pb_payouts b) + change \<and>
    utxo_sum (pb_inputs b) = output_sum (sb_tx signed) + fee_for fr mass + extra \<and>
    (extra = 0 \<or> change = 0 \<and> is_change_dust cs extra sc) \<and>
    (change = pb_change b \<longrightarrow> evaluate_populated cs (sb_tx signed) (sb_entries signed) = Inr mass)"
proof -
  let ?in = "utxo_sum (pb_inputs b)" and ?paid = "payout_sum (pb_payouts b)" and ?fee = "fee_for fr mass"
  have fits: "?in \<le> u64_max" "?paid \<le> u64_max"
    using assms(1,3,4,5) by (auto simp: sign_batch_with_exact_fee_def checked_sum_def payout_checked_sum_def Let_def split: if_splits)
  define rem where "rem = ?in - ?paid - ?fee"
  define change where "change = (if rem \<noteq> 0 \<and> is_change_dust cs rem sc then 0 else rem)"
  have "\<not> (?in < ?paid \<or> ?in - ?paid < ?fee)" using assms(6) by auto
  then have "sign_batch_with_exact_fee sg cs b sc secret fr =
      (if change = pb_change b then Inr prov else map_sum ExSign id (sign_batch sg (b\<lparr>pb_change := change\<rparr>) sc secret))"
    using assms(3,4,5) fits
    by (auto simp: sign_batch_with_exact_fee_def checked_sum_def payout_checked_sum_def Let_def rem_def change_def)
  moreover have "map_sum ExSign id x = Inr signed \<longleftrightarrow> x = Inr signed" for x by (cases x) auto
  ultimately have signed: "sign_batch sg (b\<lparr>pb_change := change\<rparr>) sc secret = Inr signed" "change = pb_change b \<Longrightarrow> signed = prov"
    using assms(1,4) by (cases "change = pb_change b"; auto)+
  from sign_batch_Inr(1)[OF signed(1) assms(2)] have out: "output_sum (sb_tx signed) = ?paid + change" by (simp add: comp_def)
  moreover have "?in = output_sum (sb_tx signed) + ?fee + (rem - change)"
    using assms(6) unfolding out by (auto simp: rem_def change_def)
  moreover have "rem - change = 0 \<or> change = 0 \<and> is_change_dust cs (rem - change) sc" by (simp add: change_def)
  moreover have "change = pb_change b \<longrightarrow> evaluate_populated cs (sb_tx signed) (sb_entries signed) = Inr mass" using signed(2) assms(5) by simp
  ultimately show ?thesis using signed(1) by blast
qed

definition sample_batch :: planned_batch where
  "sample_batch = \<lparr>pb_inputs = [sample_coin 0 5000000000], pb_payouts = [sample_recipient ''1'' 2000000000],
     pb_change = 3000000000, pb_mass = \<lparr>compute_mass = 2000, storage_mass = 0, transient_mass = 0\<rparr>\<rparr>"

theorem exact_fee_balances_witness:
  "\<exists>signed. sign_batch_with_exact_fee sample_signer sample_consensus sample_batch [] [7] (from_feerate (Fin 0)) = Inr signed \<and>
    (\<exists>extra. 5000000000 = output_sum (sb_tx signed) + 200000 + extra \<and> (extra = 0 \<or> is_change_dust sample_consensus extra []))"
proof -
  have nv: "replicate 32 (9 :: nat) \<noteq> replicate 31 0 @ [1]" by code_simp
  let ?tx = "\<lambda>c. \<lparr>tx_inputs = [\<lparr>ti_outpoint = \<lparr>op_txid = replicate 32 9, op_index = 0\<rparr>, ti_sig_script = [], ti_sequence = 0, ti_sig_ops = 1\<rparr>],
     tx_outputs = [(2000000000, []), (c, [])]\<rparr>"
  let ?prov = "\<lambda>c. \<lparr>sb_tx = ?tx c, sb_entries = [\<lparr>ue_amount = 5000000000, ue_script = [], ue_block_daa = 0, ue_is_coinbase = True\<rparr>]\<rparr>"
  have sign: "sign_batch sample_signer (sample_batch\<lparr>pb_change := c\<rparr>) [] [7] = Inr (?prov c)" if "0 < c" for c
    using that nv by (simp add: sign_batch_def build_unsigned_def sample_batch_def sample_coin_def sample_recipient_def
        is_planning_virtual_def PLANNING_VIRTUAL_TXID_BYTES_def sample_signer_def verify_signed_def Let_def)
  have same: "sample_batch\<lparr>pb_change := 3000000000\<rparr> = sample_batch" by (simp add: sample_batch_def)
  have prov: "sign_batch sample_signer sample_batch [] [7] = Inr (?prov 3000000000)"
    using sign[of 3000000000] unfolding same by simp
  have mass: "evaluate_populated sample_consensus (sb_tx (?prov 3000000000)) (sb_entries (?prov 3000000000)) =
      Inr \<lparr>compute_mass = 2000, storage_mass = 0, transient_mass = 0\<rparr>"
    by (simp add: evaluate_populated_def sample_consensus_def)
  have fee: "fee_for (from_feerate (Fin 0)) \<lparr>compute_mass = 2000, storage_mass = 0, transient_mass = 0\<rparr> = 200000"
    by (simp add: fee_for_def from_feerate_def effective_def f64_of_int_def f64_round_simps f64_lt_def f64_eq_def
        f64_is_finite_def minimum_relay_fee_def sat_mul_u64_def Let_def MIN_RELAY_TX_FEE_SOMPI_PER_KG_def)
  have fr: "reserves_fee (from_feerate (Fin 0))" by (simp add: reserves_fee_def from_feerate_def MIN_RELAY_TX_FEE_SOMPI_PER_KG_def)
  have sums: "utxo_sum (pb_inputs sample_batch) = 5000000000" "payout_sum (pb_payouts sample_batch) = 2000000000" "pb_change sample_batch = 3000000000"
    by (simp_all add: sample_batch_def sample_coin_def sample_recipient_def)
  have nodust: "\<not> is_change_dust sample_consensus 2999800000 []"
    by (simp add: is_change_dust_def sample_consensus_def DUST_INPUT_SERIALIZED_SIZE_def sat_add_u64_def Let_def MIN_RELAY_TX_FEE_SOMPI_PER_KG_def)
  have exact: "sign_batch_with_exact_fee sample_signer sample_consensus sample_batch [] [7] (from_feerate (Fin 0)) = Inr (?prov 2999800000)"
    using prov mass fee fr sums nodust sign[of 2999800000]
    by (simp add: sign_batch_with_exact_fee_def checked_sum_def payout_checked_sum_def Let_def)
  from exact_fee_balances[OF exact sample_signer_ok fr prov mass] fee sums exact show ?thesis by auto
qed

text \<open>
  Fee and signed mass do diverge where mass depends on the value of the change.  A batch with the change the planner
  leaves at 100 sompi per gram is signed with a smaller change, so with a larger storage mass, and pays less than that rate
  for the mass of the transaction that is broadcast.
\<close>

theorem exact_fee_underprices:
  "\<exists>signed mass. sign_batch_with_exact_fee sample_signer kip9_consensus
       \<lparr>pb_inputs = [sample_coin 0 2030000000], pb_payouts = [sample_recipient ''1'' 2000000000], pb_change = 26616700,
        pb_mass = \<lparr>compute_mass = 2000, storage_mass = 33833, transient_mass = 3000\<rparr>\<rparr> [] [7] (from_feerate (Fin 100)) = Inr signed \<and>
     evaluate_populated kip9_consensus (sb_tx signed) (sb_entries signed) = Inr mass \<and>
     2030000000 - output_sum (sb_tx signed) < fee_for (from_feerate (Fin 100)) mass"
proof -
  have nv: "replicate 32 (9 :: nat) \<noteq> replicate 31 0 @ [1]" by code_simp
  have fees: "fee_for (from_feerate (Fin 100)) \<lparr>compute_mass = 2000, storage_mass = 38070, transient_mass = 3000\<rparr> = 3807000"
    "fee_for (from_feerate (Fin 100)) \<lparr>compute_mass = 2000, storage_mass = 38678, transient_mass = 3000\<rparr> = 3867800"
    by (simp_all add: fee_for_def from_feerate_def effective_def f64_of_int_def f64_round_simps Let_def f64_min_def
        minimum_relay_fee_def MIN_RELAY_TX_FEE_SOMPI_PER_KG_def sat_mul_u64_def f64_is_finite_def f64_lt_def f64_eq_def trunc_rat_def)
  have fr: "reserves_fee (from_feerate (Fin 100))" by (simp add: reserves_fee_def from_feerate_def MIN_RELAY_TX_FEE_SOMPI_PER_KG_def)
  show ?thesis
    using nv by (simp add: sign_batch_with_exact_fee_def sign_batch_def build_unsigned_def sample_coin_def sample_recipient_def
        is_planning_virtual_def PLANNING_VIRTUAL_TXID_BYTES_def sample_signer_def verify_signed_def evaluate_populated_def
        kip9_consensus_def fees fr checked_sum_def payout_checked_sum_def is_change_dust_def DUST_INPUT_SERIALIZED_SIZE_def
        sat_add_u64_def MIN_RELAY_TX_FEE_SOMPI_PER_KG_def Let_def)
qed

end
