(* ===== verification/Consolidation.thy ===== *)
theory Consolidation
  imports Kas_Safety
begin

text \<open>
  The treasury consolidation engine (\<open>payout-kas/src/consolidate/engine.rs\<close>) and the shared lock
  key (\<open>crates/katpool-idempotency/src/lock.rs\<close>): a tick snapshots the treasury, starts or stops
  a campaign by the number of spendable coins, and merges small coins into one.

  A tick runs under a timeout: \<open>hang i\<close> says that the \<open>i\<close>-th call to the node never returns, which
  ends the tick with the timeout error (a transaction that was being submitted counts as sent).

  The lemmas show that a tick only sends treasury coins back to the treasury, never a coin a
  pending payout depends on, and that payout and consolidation ticks in any order keep every
  payout row in at most one transaction.
\<close>

section \<open>The lock key\<close>

text \<open>FNV-1a over the namespace's bytes, the result read as a signed 64-bit number.\<close>

definition fnv_step :: "nat \<Rightarrow> nat \<Rightarrow> nat" where
  "fnv_step hash b = (xor hash b * 1099511628211) mod 2 ^ 64"

definition advisory_key :: "string \<Rightarrow> int" where
  "advisory_key namespace = u64_as_i64 (foldl fnv_step 14695981039346656037 (map of_char namespace))"

definition TREASURY_SPEND_LOCK_NAMESPACE :: string where
  "TREASURY_SPEND_LOCK_NAMESPACE = ''treasury:spend-leader''"

section \<open>The engine\<close>

record consolidation_config =
  cc_mode :: kas_execution_mode
  cc_trigger_utxo_count :: nat
  cc_target_utxo_count :: nat
  cc_max_inputs_per_tx :: nat
  cc_max_txs_per_tick :: nat

datatype consolidation_error =
    CoDb db_error
  | CoExecute execute_error
  | CoKaspad kas_rpc_error
  | CoTimeout
  | CoPanic

record consolidation_report =
  co_virtual_daa :: nat
  co_spendable_utxos :: nat
  co_spendable_balance :: int
  co_snapshot_id :: nat
  co_below_ceiling :: bool
  co_campaign_active :: bool
  co_planned_batches :: nat
  co_submitted_txids :: "bytes list"
  co_submit_errors :: "(bytes \<times> kas_rpc_error) list"

datatype consolidation_outcome = CoSkippedNotLeader | CoRan consolidation_report

record consolidation_env =
  cn_signer :: signer
  cn_consensus :: consensus
  cn_secret :: bytes
  cn_script :: bytes
  cn_config :: consolidation_config

type_synonym 'a co_act = "(kas_world, consolidation_error, 'a) act"

abbreviation codb :: "(kas_world, db_error, 'a) act \<Rightarrow> 'a co_act" where
  "codb m \<equiv> map_err CoDb m"

text \<open>A call to the node under the tick's timeout.\<close>

definition co_rpc_result :: "(nat \<Rightarrow> bool) \<Rightarrow> (kas_node \<Rightarrow> nat \<Rightarrow> kas_rpc_error + 'a) \<Rightarrow> (kas_rpc_error + 'a) co_act" where
  "co_rpc_result hang q s =
     (if hang (rpcs s) then Inl CoTimeout else Inr (q (node s) (rpcs s)), s\<lparr>rpcs := Suc (rpcs s)\<rparr>)"

definition co_rpc :: "(nat \<Rightarrow> bool) \<Rightarrow> (kas_node \<Rightarrow> nat \<Rightarrow> kas_rpc_error + 'a) \<Rightarrow> 'a co_act" where
  "co_rpc hang q = bindE (co_rpc_result hang q) (\<lambda>r. map_err CoKaspad (lift_sum r))"

definition co_submit :: "(nat \<Rightarrow> bool) \<Rightarrow> transaction \<Rightarrow> bytes \<Rightarrow> (kas_rpc_error + bytes) co_act" where
  "co_submit hang tx txid s =
     (case submit_transaction [] tx txid s of
        (Inr r, t) \<Rightarrow> (if hang (rpcs s) then Inl CoTimeout else Inr r, t)
      | (Inl e, t) \<Rightarrow> (Inl (CoExecute e), t))"

text \<open>\<open>clamp_i64\<close> on a \<open>u64\<close> and \<open>clamp_i32\<close> on a \<open>usize\<close>.\<close>

definition clamp_u64 :: "nat \<Rightarrow> int" where
  "clamp_u64 v = (case i64_try_from_u64 v of Some i \<Rightarrow> i | None \<Rightarrow> i64_max)"

definition clamp_i32 :: "nat \<Rightarrow> int" where
  "clamp_i32 v = (if int v \<le> i32_max then int v else i32_max)"

definition insert_snapshot :: "int \<Rightarrow> int \<Rightarrow> int \<Rightarrow> string \<Rightarrow> (kas_world, db_error, nat) act" where
  "insert_snapshot balance utxo_count daa note = sql (\<lambda>s.
     (Inr (Suc (length (snapshots s))),
      s\<lparr>snapshots := snapshots s @ [\<lparr>sn_balance = balance, sn_utxo_count = utxo_count, sn_daa = daa, sn_note = note\<rparr>]\<rparr>))"

text \<open>The hysteresis latch.\<close>

definition update_campaign :: "consolidation_config \<Rightarrow> nat \<Rightarrow> bool co_act" where
  "update_campaign cfg n s =
     (let t = (if cc_trigger_utxo_count cfg < n then s\<lparr>campaign_active := True\<rparr>
               else if n \<le> cc_target_utxo_count cfg then s\<lparr>campaign_active := False\<rparr> else s)
      in (Inr (campaign_active t), t))"

text \<open>An action whose error is only logged.\<close>

definition best_effort :: "(kas_world, 'e, 'a) act \<Rightarrow> unit co_act" where
  "best_effort m s = (Inr (), snd (m s))"

definition consolidate_batch ::
  "consolidation_env \<Rightarrow> (nat \<Rightarrow> bool) \<Rightarrow> fee_rate \<Rightarrow> consolidation_report \<Rightarrow> planned_batch \<Rightarrow> consolidation_report co_act" where
  "consolidate_batch env hang fr report batch =
     bindE (map_err CoExecute (lift_sum
       (sign_batch_with_exact_fee (cn_signer env) (cn_consensus env) batch (cn_script env) (cn_secret env) fr))) (\<lambda>signed.
     let txid = sg_txid (cn_signer env) (sb_tx signed)
     in if cc_mode (cn_config env) = KasDryRun
        then ret (report\<lparr>co_submitted_txids := co_submitted_txids report @ [txid]\<rparr>)
        else bindE (co_submit hang (sb_tx signed) txid) (\<lambda>res.
          case res of
            Inr _ \<Rightarrow>
              bindE (best_effort (audit_append ''treasury-consolidation'' ''treasury.consolidate''
                (''treasury_snapshot'', int (co_snapshot_id report))))
              (\<lambda>_. ret (report\<lparr>co_submitted_txids := co_submitted_txids report @ [txid]\<rparr>))
          | Inl e \<Rightarrow> ret (report\<lparr>co_submit_errors := co_submit_errors report @ [(txid, e)]\<rparr>)))"

definition co_fee_rate :: "(nat \<Rightarrow> bool) \<Rightarrow> fee_rate co_act" where
  "co_fee_rate hang = bindE (co_rpc_result hang kn_fee_estimate) (\<lambda>r.
     case r of Inr feerate \<Rightarrow> ret (from_feerate feerate) | Inl _ \<Rightarrow> ret (from_feerate (Fin 0)))"

definition sweep_treasury ::
  "consolidation_env \<Rightarrow> (nat \<Rightarrow> bool) \<Rightarrow> treasury_utxo list \<Rightarrow> consolidation_report \<Rightarrow> consolidation_outcome co_act" where
  "sweep_treasury env hang utxos report =
     bindE (co_fee_rate hang) (\<lambda>fr.
     case plan_consolidation (cn_consensus env) utxos (cn_script env) fr
            (cc_max_inputs_per_tx (cn_config env)) (cc_max_txs_per_tick (cn_config env)) of
       Inl _ \<Rightarrow> raise CoPanic
     | Inr batches \<Rightarrow>
         bindE (foldE (consolidate_batch env hang fr) (report\<lparr>co_planned_batches := length batches\<rparr>) batches)
           (\<lambda>report. ret (CoRan report)))"

text \<open>The tick from the spendable coins on: snapshot, hysteresis, sweep.\<close>

definition evaluate_treasury :: "consolidation_env \<Rightarrow> (nat \<Rightarrow> bool) \<Rightarrow> nat \<Rightarrow> treasury_utxo list \<Rightarrow> consolidation_outcome co_act" where
  "evaluate_treasury env hang virtual_daa utxos =
     (case checked_sum utxos of
        Inl _ \<Rightarrow> raise CoPanic
      | Inr balance \<Rightarrow>
          bindE (codb (insert_snapshot (clamp_u64 balance) (clamp_i32 (length utxos)) (clamp_u64 virtual_daa)
            (if cc_mode (cn_config env) = KasDryRun then ''consolidation tick (dry-run)'' else ''consolidation tick''))) (\<lambda>snapshot_id.
          bindE (update_campaign (cn_config env) (length utxos)) (\<lambda>active.
          let report = \<lparr>co_virtual_daa = virtual_daa, co_spendable_utxos = length utxos,
                co_spendable_balance = clamp_u64 balance, co_snapshot_id = snapshot_id, co_below_ceiling = False,
                co_campaign_active = active, co_planned_batches = 0, co_submitted_txids = [], co_submit_errors = []\<rparr>
          in if \<not> active then ret (CoRan (report\<lparr>co_below_ceiling := True\<rparr>))
             else sweep_treasury env hang utxos report)))"

definition consolidate_locked :: "consolidation_env \<Rightarrow> (nat \<Rightarrow> bool) \<Rightarrow> consolidation_outcome co_act" where
  "consolidate_locked env hang =
     bindE (co_rpc hang kn_virtual_daa_score) (\<lambda>virtual_daa.
     bindE (codb in_flight_spend_tx_hashes) (\<lambda>hashes.
     bindE (co_rpc hang kn_treasury_utxos) (\<lambda>coins.
     evaluate_treasury env hang virtual_daa (spendable_coins virtual_daa (protected_hashes hashes) coins))))"

text \<open>The answers of \<open>try_acquire\<close> until the lock is ours or the deadline has passed.\<close>

fun acquire_treasury_lock :: "bool list \<Rightarrow> bool co_act" where
  "acquire_treasury_lock [] = ret False"
| "acquire_treasury_lock (free # rest) = bindE (codb (sql (ret free))) (\<lambda>acquired.
     if acquired then ret True else acquire_treasury_lock rest)"

definition consolidate_once :: "consolidation_env \<Rightarrow> (nat \<Rightarrow> bool) \<Rightarrow> bool list \<Rightarrow> consolidation_outcome co_act" where
  "consolidate_once env hang tries =
     bindE (acquire_treasury_lock tries) (\<lambda>acquired.
     if \<not> acquired then ret CoSkippedNotLeader else with_lock (consolidate_locked env hang))"

section \<open>All treasury spenders agree on the lock\<close>

lemma treasury_lock_key: "advisory_key TREASURY_SPEND_LOCK_NAMESPACE = - 2937957302732196380"
  by (simp add: advisory_key_def TREASURY_SPEND_LOCK_NAMESPACE_def fnv_step_def u64_as_i64_def Let_def)

section \<open>A consolidation tick\<close>

text \<open>A sweep of free treasury coins back to the treasury, made for no payout row.\<close>

definition sweep_ok :: "consolidation_env \<Rightarrow> kas_world \<Rightarrow> kas_broadcast \<Rightarrow> bool" where
  "sweep_ok env s e \<longleftrightarrow> kb_rows e = [] \<and> kb_txid e = sg_txid (cn_signer env) (kb_tx e) \<and>
     (tx_outputs (kb_tx e) = [] \<or> (\<exists>c. tx_outputs (kb_tx e) = [(c, cn_script env)])) \<and>
     (\<forall>i \<in> set (tx_inputs (kb_tx e)). free_coin s (ti_outpoint i))"

definition only_sweeps :: "consolidation_env \<Rightarrow> kas_world \<Rightarrow> nat \<Rightarrow> kas_world \<Rightarrow> bool" where
  "only_sweeps env s n t \<longleftrightarrow> payouts t = payouts s \<and> wallets t = wallets s \<and> cycles t = cycles s \<and>
     next_payout t = next_payout s \<and> next_cycle t = next_cycle s \<and> node t = node s \<and>
     (\<exists>new. broadcasts t = broadcasts s @ new \<and> length new \<le> n \<and> (\<forall>e \<in> set new. sweep_ok env s e) \<and>
        (new \<noteq> [] \<longrightarrow> campaign_active t))"

lemma only_sweeps_refl: "only_sweeps env s n s"
  by (simp add: only_sweeps_def)

text \<open>Steps that leave the books, the log and the latch alone.\<close>

definition idle_step :: "(kas_world, 'e, 'a) act \<Rightarrow> bool" where
  "idle_step m \<longleftrightarrow> (\<forall>s. same_books s (snd (m s)) \<and> campaign_active (snd (m s)) = campaign_active s)"

lemma idle_only_sweeps: "idle_step m \<Longrightarrow> only_sweeps env s n t \<Longrightarrow> only_sweeps env s n (snd (m t))"
  unfolding idle_step_def only_sweeps_def by metis

lemma idle_rpc: "idle_step (co_rpc_result hang q)"
  by (auto simp: idle_step_def co_rpc_result_def)

lemma idle_pure: "idle_step (ret a)" "idle_step (raise e)" "idle_step (lift_sum r)"
  by (simp_all add: idle_step_def)

lemma idle_bindE: "idle_step m \<Longrightarrow> (\<And>a. idle_step (f a)) \<Longrightarrow> idle_step (bindE m f)"
  unfolding idle_step_def bindE_def by (auto split: prod.split sum.split) (metis snd_conv)+

lemma idle_map_err: "idle_step m \<Longrightarrow> idle_step (map_err g m)"
  by (simp add: idle_step_def)

lemma idle_sql: "idle_step m \<Longrightarrow> idle_step (sql m)"
  by (auto simp: idle_step_def sql_def Let_def)

lemma idle_audit: "idle_step (best_effort (audit_append a b c))"
  by (simp add: idle_step_def best_effort_def audit_append_def sql_def Let_def)

lemma idle_co_rpc: "idle_step (co_rpc hang q)"
  unfolding co_rpc_def by (intro idle_bindE idle_rpc idle_map_err idle_pure)

lemma idle_in_flight: "idle_step (codb in_flight_spend_tx_hashes)"
  unfolding in_flight_spend_tx_hashes_def by (intro idle_map_err idle_sql) (simp add: idle_step_def)

lemma idle_snapshot: "idle_step (codb (insert_snapshot a b c d))"
  unfolding insert_snapshot_def by (intro idle_map_err idle_sql) (simp add: idle_step_def)

lemma idle_fee: "idle_step (co_fee_rate hang)"
  unfolding co_fee_rate_def by (intro idle_bindE idle_rpc) (auto simp: idle_pure split: sum.split)

lemma idle_lock: "idle_step (acquire_treasury_lock tries)"
proof (induction tries)
  case (Cons a tries)
  show ?case unfolding acquire_treasury_lock.simps
    by (intro idle_bindE idle_map_err idle_sql idle_pure) (simp add: Cons.IH idle_pure del: ret_apply)
qed (simp add: idle_step_def)

lemma campaign_kept: "idle_step m \<Longrightarrow> campaign_active (snd (m s)) = campaign_active s" "idle_step m \<Longrightarrow> same_books s (snd (m s))"
  by (simp_all add: idle_step_def)

lemma consolidate_batch_step:
  assumes old: "only_sweeps env s n t" and active: "campaign_active t" and sg: "signer_ok (cn_signer env)"
    and b: "pb_payouts b = []" "\<forall>u \<in> set (pb_inputs b). free_coin s (tu_outpoint u)"
  shows "only_sweeps env s (Suc n) (snd (consolidate_batch env hang fr rep b t)) \<and>
    campaign_active (snd (consolidate_batch env hang fr rep b t))"
proof (cases "sign_batch_with_exact_fee (cn_signer env) (cn_consensus env) b (cn_script env) (cn_secret env) fr")
  case (Inl e)
  then show ?thesis using old active by (auto simp: consolidate_batch_def bindE_def map_err_def only_sweeps_def)
next
  case (Inr signed)
  let ?tx = "sb_tx signed" and ?h = "sg_txid (cn_signer env) (sb_tx signed)"
  note S = sign_exact_shape[OF Inr sg]
  let ?e = "\<lambda>r. \<lparr>kb_rows = [], kb_tx = ?tx, kb_txid = ?h, kb_result = r\<rparr>"
  have ok: "sweep_ok env s (?e r)" for r
  proof -
    have "ti_outpoint i \<in> tu_outpoint ` set (pb_inputs b)" if "i \<in> set (tx_inputs ?tx)" for i
      using that arg_cong[OF S(2), of set] by auto
    then have "\<forall>i \<in> set (tx_inputs ?tx). free_coin s (ti_outpoint i)" using b(2) by (metis imageE)
    then show ?thesis using S(1) b(1) unfolding sweep_ok_def by auto
  qed
  obtain x u where sub: "co_submit hang ?tx ?h t = (x, u)" by fastforce
  then obtain r where u: "u = t\<lparr>rpcs := Suc (rpcs t), broadcasts := broadcasts t @ [?e r]\<rparr>"
    by (auto simp: co_submit_def submit_transaction_def Let_def)
  have new: "only_sweeps env s (Suc n) u \<and> campaign_active u"
  proof -
    obtain l where "broadcasts t = broadcasts s @ l" "length l \<le> n" "\<forall>e \<in> set l. sweep_ok env s e"
      using old unfolding only_sweeps_def by blast
    then show ?thesis using old active ok u unfolding only_sweeps_def by (auto intro!: exI[of _ "l @ [?e r]"])
  qed
  have stay: "only_sweeps env s (Suc n) t \<and> campaign_active t" using old active by (auto simp: only_sweeps_def)
  have "snd (consolidate_batch env hang fr rep b t) = t \<or> snd (consolidate_batch env hang fr rep b t) = u \<or>
      (\<exists>x y z. snd (consolidate_batch env hang fr rep b t) = snd (best_effort (audit_append x y z) u))"
    using Inr sub by (cases x) (auto simp: consolidate_batch_def bindE_def map_err_def Let_def best_effort_def split: sum.split)
  then show ?thesis using stay new idle_only_sweeps[OF idle_audit] campaign_kept(1)[OF idle_audit] by metis
qed

lemma consolidate_loop_step:
  assumes "only_sweeps env s n t" and "campaign_active t" and "signer_ok (cn_signer env)"
    and "\<forall>b \<in> set bs. pb_payouts b = [] \<and> (\<forall>u \<in> set (pb_inputs b). free_coin s (tu_outpoint u))"
  shows "only_sweeps env s (n + length bs) (snd (foldE (consolidate_batch env hang fr) rep bs t))"
  using assms
proof (induction bs arbitrary: rep t n)
  case (Cons b bs)
  obtain x u where x: "consolidate_batch env hang fr rep b t = (x, u)" by fastforce
  have u: "only_sweeps env s (Suc n) u" "campaign_active u"
    using consolidate_batch_step[OF Cons.prems(1,2,3), of b hang fr rep] Cons.prems(4) x by simp_all
  show ?case
  proof (cases x)
    case (Inl e)
    then show ?thesis using x u by (auto simp: only_sweeps_def)
  next
    case (Inr rep')
    with Cons.IH[OF u Cons.prems(3), of rep'] Cons.prems(4) x show ?thesis by simp
  qed
qed simp

lemma self_sends:
  assumes "plan_consolidation cs us sc fr mx n = Inr bs" and "utxo_sum us \<le> u64_max"
  shows "length bs \<le> n" and "\<forall>b \<in> set bs. pb_payouts b = [] \<and> set (pb_inputs b) \<subseteq> set us"
proof -
  from plan_consolidation_sweeps[OF assms(2), of cs sc fr mx n] assms(1) have
    L: "length bs \<le> n" and ok: "\<forall>b \<in> set bs. self_send_ok fr mx b"
    and sub: "mset (concat (map pb_inputs bs)) \<subseteq># filter_mset (\<lambda>u. \<not> is_planning_virtual u) (mset us)" by auto
  show "length bs \<le> n" by (rule L)
  show "\<forall>b \<in> set bs. pb_payouts b = [] \<and> set (pb_inputs b) \<subseteq> set us"
    using ok set_mset_mono[OF sub] by (auto simp: self_send_ok_def)
qed

lemma sweep_step:
  assumes old: "only_sweeps env s 0 t" and active: "campaign_active t" and sg: "signer_ok (cn_signer env)"
    and us: "utxo_sum us \<le> u64_max" "\<forall>u \<in> set us. free_coin s (tu_outpoint u)"
  shows "only_sweeps env s (cc_max_txs_per_tick (cn_config env)) (snd (sweep_treasury env hang us rep t))"
  unfolding sweep_treasury_def
proof (rule bindE_post)
  have weak: "only_sweeps env s 0 u \<Longrightarrow> only_sweeps env s (cc_max_txs_per_tick (cn_config env)) u" for u
    by (auto simp: only_sweeps_def)
  have fee: "only_sweeps env s 0 (snd (co_fee_rate hang t))" "campaign_active (snd (co_fee_rate hang t))"
    using idle_only_sweeps[OF idle_fee old] campaign_kept(1)[OF idle_fee] active by auto
  show "only_sweeps env s (cc_max_txs_per_tick (cn_config env)) u" if "co_fee_rate hang t = (Inl e, u)" for e u
    using fee weak that by simp
  fix fr u assume "co_fee_rate hang t = (Inr fr, u)"
  then have u: "only_sweeps env s 0 u" "campaign_active u" using fee by simp_all
  let ?n = "cc_max_txs_per_tick (cn_config env)"
  show "only_sweeps env s ?n (snd ((case plan_consolidation (cn_consensus env) us (cn_script env) fr
            (cc_max_inputs_per_tx (cn_config env)) ?n of
       Inl _ \<Rightarrow> raise CoPanic
     | Inr batches \<Rightarrow> bindE (foldE (consolidate_batch env hang fr) (rep\<lparr>co_planned_batches := length batches\<rparr>) batches)
           (\<lambda>report. ret (CoRan report))) u))"
  proof (cases "plan_consolidation (cn_consensus env) us (cn_script env) fr (cc_max_inputs_per_tx (cn_config env)) ?n")
    case (Inl e)
    then show ?thesis using u weak by simp
  next
    case (Inr bs)
    note B = self_sends[OF Inr us(1)]
    then have "\<forall>b \<in> set bs. pb_payouts b = [] \<and> (\<forall>u \<in> set (pb_inputs b). free_coin s (tu_outpoint u))" using us(2) by blast
    from consolidate_loop_step[OF u sg this, of hang fr "rep\<lparr>co_planned_batches := length bs\<rparr>"] B(1)
    have "only_sweeps env s ?n (snd (foldE (consolidate_batch env hang fr) (rep\<lparr>co_planned_batches := length bs\<rparr>) bs u))"
      by (auto simp: only_sweeps_def)
    then show ?thesis using Inr by (auto simp: bindE_def split: prod.split sum.split)
  qed
qed

lemma co_rpc_Inr: "co_rpc hang q s = (Inr a, t) \<Longrightarrow> q (node s) (rpcs s) = Inr a"
  by (auto simp: co_rpc_def co_rpc_result_def bindE_def map_err_def split: sum.splits if_splits)

lemma campaign_step:
  "update_campaign cfg n s = (Inr active, t) \<Longrightarrow> same_books s t \<and> (active \<longrightarrow> campaign_active t)"
  by (auto simp: update_campaign_def Let_def split: if_splits)

lemma idle_books: "idle_step m \<Longrightarrow> m s = (x, t) \<Longrightarrow> same_books s t"
  using campaign_kept(2)[of m s] by simp

lemma books_only_sweeps: "same_books s t \<Longrightarrow> only_sweeps env s n t"
  by (simp add: only_sweeps_def)

lemma evaluate_treasury_step:
  assumes t: "same_books s t" and sg: "signer_ok (cn_signer env)" and us: "\<forall>u \<in> set us. free_coin s (tu_outpoint u)"
    and run: "evaluate_treasury env hang v us t = (res, r)"
  shows "only_sweeps env s (cc_max_txs_per_tick (cn_config env)) r"
proof (cases "utxo_sum us \<le> u64_max")
  case False
  then show ?thesis using run t by (simp add: evaluate_treasury_def checked_sum_def books_only_sweeps)
next
  case True
  then have sum: "checked_sum us = Inr (utxo_sum us)" by (simp add: checked_sum_def)
  note body = run[unfolded evaluate_treasury_def sum sum.case]
  from body show ?thesis
  proof (cases rule: bindE_cases)
    case (err e)
    then show ?thesis using idle_books[OF idle_snapshot err(1)] t by (simp add: books_only_sweeps)
  next
    case (ok i u)
    have u: "same_books s u" using idle_books[OF idle_snapshot ok(1)] t by simp
    from ok(2) show ?thesis
    proof (cases rule: bindE_cases)
      case (err e)
      then show ?thesis by (simp add: update_campaign_def Let_def)
    next
      case a: (ok active w)
      have w: "same_books s w" "active \<Longrightarrow> campaign_active w" using campaign_step[OF a(1)] u by simp_all
      show ?thesis
      proof (cases active)
        case False
        then show ?thesis using a(2) w(1) by (simp add: Let_def books_only_sweeps)
      next
        case active: True
        from a(2)[unfolded Let_def] active obtain rep where swp: "sweep_treasury env hang us rep w = (res, r)" by (auto split: if_splits)
        from sweep_step[OF books_only_sweeps[OF w(1)] w(2)[OF active] sg True us, of hang rep] swp show ?thesis by simp
      qed
    qed
  qed
qed

lemma consolidate_locked_step:
  assumes sg: "signer_ok (cn_signer env)" and run: "consolidate_locked env hang s = (res, t)"
  shows "only_sweeps env s (cc_max_txs_per_tick (cn_config env)) t"
  using run[unfolded consolidate_locked_def]
proof (cases rule: bindE_cases)
  case (err e)
  then show ?thesis using idle_books[OF idle_co_rpc err(1)] by (simp add: books_only_sweeps)
next
  case v: (ok v t1)
  have b1: "same_books s t1" using idle_books[OF idle_co_rpc v(1)] .
  from v(2) show ?thesis
  proof (cases rule: bindE_cases)
    case (err e)
    then show ?thesis using idle_books[OF idle_in_flight err(1)] b1 by (simp add: books_only_sweeps)
  next
    case hs: (ok hs t2)
    have b2: "same_books s t2" using idle_books[OF idle_in_flight hs(1)] b1 by simp
    from hs(2) show ?thesis
    proof (cases rule: bindE_cases)
      case (err e)
      then show ?thesis using idle_books[OF idle_co_rpc err(1)] b2 by (simp add: books_only_sweeps)
    next
      case coins: (ok coins t3)
      have b3: "same_books s t3" using idle_books[OF idle_co_rpc coins(1)] b2 by simp
      have h: "in_flight_spend_tx_hashes t1 = (Inr hs, t2)" using hs(1) by simp
      have "kn_virtual_daa_score (node s) (rpcs s) = Inr v" "kn_treasury_utxos (node s) (rpcs t2) = Inr coins"
        using co_rpc_Inr[OF v(1)] co_rpc_Inr[OF coins(1)] b2 by simp_all
      from spendable_free[OF this h] b1
      have "\<forall>u \<in> set (spendable_coins v (protected_hashes hs) coins). free_coin s (tu_outpoint u)" by simp
      from evaluate_treasury_step[OF b3 sg this coins(2)] show ?thesis .
    qed
  qed
qed

lemma consolidate_once_step:
  assumes sg: "signer_ok (cn_signer env)" and run: "consolidate_once env hang tries s = (res, t)"
  shows "only_sweeps env s (cc_max_txs_per_tick (cn_config env)) t"
  using run[unfolded consolidate_once_def]
proof (cases rule: bindE_cases)
  case (err e)
  then show ?thesis using idle_books[OF idle_lock err(1)] by (simp add: books_only_sweeps)
next
  case (ok acquired u)
  have u: "same_books s u" using idle_books[OF idle_lock ok(1)] .
  obtain x w where w: "consolidate_locked env hang u = (x, w)" by fastforce
  have "only_sweeps env u (cc_max_txs_per_tick (cn_config env)) w" by (rule consolidate_locked_step[OF sg w])
  moreover have "sweep_ok env u = sweep_ok env s" using u by (auto simp: sweep_ok_def free_coin_def fun_eq_iff)
  ultimately have ws: "only_sweeps env s (cc_max_txs_per_tick (cn_config env)) w" using u unfolding only_sweeps_def by simp
  have "idle_step (sql (ret ()) :: (kas_world, db_error, unit) act)" by (intro idle_sql idle_pure)
  from idle_only_sweeps[OF this ws] show ?thesis
    using ok(2) w u by (cases acquired) (auto simp: with_lock_def books_only_sweeps sql_def Let_def)
qed

text \<open>
  C9. A consolidation tick changes no payout, cycle or wallet row and broadcasts at most the
  configured number of transactions, only while a campaign is active.  Each spends mature treasury
  coins that no pending payout depends on and pays nobody but the treasury.
\<close>

theorem consolidation_tick_safe:
  assumes "signer_ok (cn_signer env)"
  shows "only_sweeps env s (cc_max_txs_per_tick (cn_config env)) (snd (consolidate_once env hang tries s))"
proof -
  obtain res t where "consolidate_once env hang tries s = (res, t)" by fastforce
  with consolidate_once_step[OF assms this] show ?thesis by simp
qed

definition sample_consolidation :: consolidation_env where
  "sample_consolidation = \<lparr>cn_signer = sample_signer, cn_consensus = sample_consensus, cn_secret = [7], cn_script = [1, 2, 3],
     cn_config = \<lparr>cc_mode = KasLive, cc_trigger_utxo_count = 500, cc_target_utxo_count = 50, cc_max_inputs_per_tx = 80,
       cc_max_txs_per_tick = 5\<rparr>\<rparr>"

theorem consolidation_tick_safe_witness:
  "only_sweeps sample_consolidation sample_world 5 (snd (consolidate_once sample_consolidation (\<lambda>_. False) [False, True] sample_world))"
  using consolidation_tick_safe[of sample_consolidation sample_world "\<lambda>_. False" "[False, True]"]
  by (simp add: sample_consolidation_def sample_signer_ok)

section \<open>All spenders of the treasury together\<close>

text \<open>
  Everything else that happens between two ticks: time passes, the connection and the node change
  their minds, the process restarts, other components add rows and move payouts forward without
  touching the hash of a row that has left \<open>planned\<close>.
\<close>

definition elsewhere :: "kas_world \<Rightarrow> kas_world \<Rightarrow> bool" where
  "elsewhere s t \<longleftrightarrow> payout_db_ok t \<and> broadcasts t = broadcasts s \<and> set (wallets s) \<subseteq> set (wallets t) \<and>
     kas_view.extends (payouts s) (payouts t)"

inductive treasury_run :: "signer \<Rightarrow> bytes \<Rightarrow> kas_world \<Rightarrow> kas_world \<Rightarrow> bool" for sg sc where
  start: "treasury_run sg sc s s"
| kas_tick: "treasury_run sg sc s t \<Longrightarrow> ke_signer env = sg \<Longrightarrow> ke_script env = sc \<Longrightarrow>
    treasury_run sg sc s (snd (kas_run_once env lock t))"
| consolidation_tick: "treasury_run sg sc s t \<Longrightarrow> cn_signer cenv = sg \<Longrightarrow> cn_script cenv = sc \<Longrightarrow>
    treasury_run sg sc s (snd (consolidate_once cenv hang tries t))"
| elsewhere: "treasury_run sg sc s t \<Longrightarrow> elsewhere t u \<Longrightarrow> treasury_run sg sc s u"

lemma sweep_kas_inv:
  assumes inv: "kas_inv sg sc s" and env: "cn_signer env = sg" "cn_script env = sc" and sw: "only_sweeps env s n t"
  shows "kas_inv sg sc t"
proof -
  obtain new where new: "broadcasts t = broadcasts s @ new" "\<forall>e \<in> set new. sweep_ok env s e"
    and same: "payouts t = payouts s" "wallets t = wallets s" "cycles t = cycles s" "next_payout t = next_payout s" "next_cycle t = next_cycle s"
    using sw unfolding only_sweeps_def by blast
  have ok: "\<forall>e \<in> set (broadcasts t). sent_ok sg sc t e"
    using inv new env sent_ok_same_books[OF same(1,2)] unfolding kas_inv_def by (auto simp: sweep_ok_def sent_ok_def)
  have "concat (map kb_rows new) = []" using new(2) by (auto simp: sweep_ok_def)
  then have log: "concat (map kb_rows (broadcasts t)) = concat (map kb_rows (broadcasts s))" using new(1) by simp
  have "payout_db_ok t" using inv same by (simp add: kas_inv_def payout_db_ok_def)
  then show ?thesis using ok inv unfolding kas_inv_def log by simp
qed

lemma treasury_run_inv:
  "treasury_run sg sc s t \<Longrightarrow> signer_ok sg \<Longrightarrow> kas_inv sg sc s \<Longrightarrow> kas_inv sg sc t"
proof (induction rule: treasury_run.induct)
  case (kas_tick s t env lock)
  then show ?case using kas_run_once_step[of env t lock] by simp
next
  case (consolidation_tick s t cenv hang tries)
  obtain res u where "consolidate_once cenv hang tries t = (res, u)" by fastforce
  with consolidation_tick consolidate_once_step[of cenv hang tries t res u] show ?case
    by (simp add: sweep_kas_inv)
next
  case (elsewhere s t u)
  then show ?case unfolding elsewhere_def by (blast intro: kas_inv_frame)
qed

text \<open>
  C1. However payout and consolidation ticks follow each other, whatever fails and wherever the
  process stops, a payout row is in at most one broadcast transaction.  Every broadcast
  transaction pays exactly the amounts of its rows to the scripts of their wallets, in order, the
  rest going back to the treasury in at most one output; and each of its rows is recorded, no
  longer planned, with the hash of that transaction.
\<close>

theorem treasury_rows_paid_once:
  assumes "treasury_run sg sc s t" and "signer_ok sg" and "payout_db_ok s" and "broadcasts s = []"
  shows "distinct (concat (map kb_rows (broadcasts t))) \<and> (\<forall>b \<in> set (broadcasts t). sent_ok sg sc t b)"
proof -
  have "kas_inv sg sc s" using assms(3,4) by (simp add: kas_inv_def)
  from treasury_run_inv[OF assms(1,2) this] show ?thesis by (simp add: kas_inv_def)
qed

theorem treasury_rows_paid_once_witness:
  "\<exists>t. treasury_run sample_signer [1, 2, 3] sample_world t \<and> distinct (concat (map kb_rows (broadcasts t))) \<and>
     (\<forall>b \<in> set (broadcasts t). sent_ok sample_signer [1, 2, 3] t b)"
proof -
  let ?t = "snd (consolidate_once sample_consolidation (\<lambda>_. False) [True] (snd (kas_run_once sample_env True sample_world)))"
  have run: "treasury_run sample_signer [1, 2, 3] sample_world ?t"
    by (rule treasury_run.intros(3), rule treasury_run.intros(2), rule treasury_run.intros(1))
      (simp_all add: sample_env_def sample_consolidation_def)
  have "payout_db_ok sample_world" "broadcasts sample_world = []"
    using sample_world_ok[of sample_signer "[]"] by (simp_all add: kas_inv_def sample_world_def pool_db.extend_def)
  from treasury_rows_paid_once[OF run sample_signer_ok this] run show ?thesis by blast
qed

end
