(* ===== verification/Krc20_Plan.thy ===== *)
theory Krc20_Plan
  imports Storagemass Payout_Repo Domain
begin

text \<open>
  The pure half of the NACHO payouts (\<open>payout-krc20/src\<close>): the conversion of a rebate to token
  units (\<open>rebate.rs\<close>), the derivation of the floor price and its circuit breaker
  (\<open>quote.rs\<close>), the inscription envelope (\<open>inscription.rs\<close>), the commit/reveal planner
  (\<open>plan.rs\<close>) and the assembly of both transactions (\<open>sign.rs\<close>).

  The JSON and decimal libraries, the script builder and the key library are parameters.
  A \<open>u128\<close> is a natural number with its bound written out.

  The lemmas show that the conversion never overflows and rounds against the miner, in which
  direction the derived price rounds, that the breaker fails closed and recovers, that both
  transactions of a plan balance and fit the mass limits, and when a replay with frozen fees
  rebuilds the plan it was frozen from.
\<close>

section \<open>Rebate conversion\<close>

abbreviation u128_max :: nat where "u128_max \<equiv> 340282366920938463463374607431768211455"

definition DEFAULT_MIN_PENDING_SOMPI :: int where "DEFAULT_MIN_PENDING_SOMPI = 1000000000"
definition DEFAULT_MIN_NACHO_BASE_UNITS :: nat where "DEFAULT_MIN_NACHO_BASE_UNITS = 100000000"
definition MAX_FLOOR_PRICE_SCALE :: nat where "MAX_FLOOR_PRICE_SCALE = 18"

datatype rebate_error = PriceParse string string | NegativePending int | Overflow

record floor_price =
  fp_mantissa :: nat
  fp_scale :: nat

definition from_mantissa_scale :: "nat \<Rightarrow> nat \<Rightarrow> rebate_error + floor_price" where
  "from_mantissa_scale mantissa scale =
     (let input = show_nat mantissa @ ''e-'' @ show_nat scale
      in if mantissa = 0 then Inl (PriceParse input ''price is zero'')
         else if MAX_FLOOR_PRICE_SCALE < scale then Inl (PriceParse input ''scale exceeds maximum'')
         else Inr \<lparr>fp_mantissa = mantissa, fp_scale = scale\<rparr>)"

text \<open>\<open>str::split\<close> on a character: always at least one part.\<close>

fun split_char :: "char \<Rightarrow> string \<Rightarrow> string list" where
  "split_char c [] = [[]]"
| "split_char c (x # xs) =
     (if x = c then [] # split_char c xs
      else case split_char c xs of [] \<Rightarrow> [[x]] | y # ys \<Rightarrow> (x # y) # ys)"

definition from_decimal_str :: "string \<Rightarrow> rebate_error + floor_price" where
  "from_decimal_str input =
     (let err = (\<lambda>reason. Inl (PriceParse input reason));
          parts = split_char (CHR ''.'') input;
          int_part = hd parts;
          frac_part = (case tl parts of [] \<Rightarrow> [] | f # _ \<Rightarrow> f)
      in if input = [] then err ''empty''
         else if 2 < length parts then err ''multiple decimal points''
         else if int_part = [] \<and> frac_part = [] then err ''no digits''
         else if \<not> list_all is_ascii_digit (int_part @ frac_part) then err ''non-digit character''
         else if u32_max < length frac_part then err ''scale exceeds maximum''
         else if MAX_FLOOR_PRICE_SCALE < length frac_part then err ''scale exceeds maximum''
         else
           let mantissa = read_nat (int_part @ frac_part)
           in if u128_max < mantissa then err ''value out of range''
              else if mantissa = 0 then err ''price is zero''
              else Inr \<lparr>fp_mantissa = mantissa, fp_scale = length frac_part\<rparr>)"

definition checked_u128 :: "nat \<Rightarrow> nat option" where
  "checked_u128 n = (if n \<le> u128_max then Some n else None)"

definition nacho_base_units :: "int \<Rightarrow> floor_price \<Rightarrow> rebate_error + nat" where
  "nacho_base_units pending price =
     (if pending < 0 then Inl (NegativePending pending)
      else case checked_u128 (10 ^ fp_scale price) of
             None \<Rightarrow> Inl Overflow
           | Some factor \<Rightarrow>
               (case checked_u128 (nat pending * factor) of
                  None \<Rightarrow> Inl Overflow
                | Some scaled \<Rightarrow> Inr (scaled div fp_mantissa price)))"

definition is_payable :: "nat \<Rightarrow> nat \<Rightarrow> bool" where
  "is_payable n min_units \<longleftrightarrow> min_units \<le> n"

section \<open>The quote\<close>

datatype quote_error =
    Upstream string
  | Status nat
  | Malformed string
  | Price rebate_error
  | CircuitOpen

text \<open>
  The libraries behind a quote: the JSON body as two nested maps from names to the verbatim
  number text, the decimal parser, and the mantissa of a quotient rounded down to a scale.
\<close>

record quote_lib =
  ql_json :: "bytes \<Rightarrow> string + (string \<rightharpoonup> (string \<rightharpoonup> string))"
  ql_decimal :: "string \<Rightarrow> string + rat"
  ql_ratio_down :: "rat \<Rightarrow> rat \<Rightarrow> nat \<Rightarrow> int"

definition usd_quote :: "(string \<rightharpoonup> (string \<rightharpoonup> string)) \<Rightarrow> string \<Rightarrow> quote_error + string" where
  "usd_quote parsed coin_id =
     (case Option.bind (parsed coin_id) (\<lambda>legs. legs ''usd'') of
        Some raw \<Rightarrow> Inr raw
      | None \<Rightarrow> Inl (Malformed (''missing '' @ coin_id @ ''/usd in quote'')))"

text \<open>\<open>str::trim\<close> on ASCII text.\<close>

definition is_whitespace :: "char \<Rightarrow> bool" where
  "is_whitespace c = (let n = of_char c :: nat in 9 \<le> n \<and> n \<le> 13 \<or> n = 32)"

definition str_trim :: "string \<Rightarrow> string" where
  "str_trim s = rev (dropWhile is_whitespace (rev (dropWhile is_whitespace s)))"

definition parse_quote :: "quote_lib \<Rightarrow> string \<Rightarrow> string \<Rightarrow> quote_error + rat" where
  "parse_quote q label s = (case ql_decimal q (str_trim s) of
     Inr x \<Rightarrow> Inr x | Inl e \<Rightarrow> Inl (Malformed (label @ '' quote `'' @ s @ ''`: '' @ e)))"

definition derive_floor_price :: "quote_lib \<Rightarrow> string \<Rightarrow> string \<Rightarrow> quote_error + floor_price" where
  "derive_floor_price q nacho_usd kaspa_usd =
     (case parse_quote q ''nacho'' nacho_usd of Inl e \<Rightarrow> Inl e | Inr nacho \<Rightarrow>
      (case parse_quote q ''kaspa'' kaspa_usd of Inl e \<Rightarrow> Inl e | Inr kaspa \<Rightarrow>
         if nacho < 0 \<or> kaspa < 0 then Inl (Malformed ''negative quote'')
         else if nacho = 0 then Inl (Malformed ''nacho quote is zero'')
         else if kaspa = 0 then Inl (Malformed ''kaspa quote is zero (division undefined)'')
         else
           let mantissa = ql_ratio_down q nacho kaspa MAX_FLOOR_PRICE_SCALE
           in if mantissa < 0 \<or> int u128_max < mantissa then Inl (Malformed ''derived price overflows u128'')
              else map_sum Price id (from_mantissa_scale (nat mantissa) MAX_FLOOR_PRICE_SCALE)))"

definition parse_simple_price_response :: "quote_lib \<Rightarrow> bytes \<Rightarrow> string \<Rightarrow> string \<Rightarrow> quote_error + floor_price" where
  "parse_simple_price_response q body nacho_id kaspa_id =
     (case ql_json q body of Inl e \<Rightarrow> Inl (Malformed (''json: '' @ e)) | Inr parsed \<Rightarrow>
      (case usd_quote parsed nacho_id of Inl e \<Rightarrow> Inl e | Inr nacho_usd \<Rightarrow>
       (case usd_quote parsed kaspa_id of Inl e \<Rightarrow> Inl e | Inr kaspa_usd \<Rightarrow>
          derive_floor_price q nacho_usd kaspa_usd)))"

section \<open>The circuit breaker\<close>

datatype circuit_state = Closed | Open | HalfOpen

record circuit_breaker =
  cb_state :: circuit_state
  cb_failures :: nat
  cb_threshold :: nat
  cb_cooldown :: nat
  cb_opened_at :: "nat option"

definition breaker_new :: "nat \<Rightarrow> nat \<Rightarrow> circuit_breaker" where
  "breaker_new failure_threshold cooldown =
     \<lparr>cb_state = Closed, cb_failures = 0, cb_threshold = failure_threshold, cb_cooldown = cooldown,
      cb_opened_at = None\<rparr>"

text \<open>\<open>Instant::duration_since\<close> saturates at zero, as does the subtraction of naturals.\<close>

definition breaker_state :: "circuit_breaker \<Rightarrow> nat \<Rightarrow> circuit_state" where
  "breaker_state b t =
     (case (cb_state b, cb_opened_at b) of
        (Open, Some opened) \<Rightarrow> if cb_cooldown b \<le> t - opened then HalfOpen else Open
      | (st, _) \<Rightarrow> st)"

definition allows_request :: "circuit_breaker \<Rightarrow> nat \<Rightarrow> bool" where
  "allows_request b t \<longleftrightarrow> breaker_state b t \<noteq> Open"

definition on_success :: "circuit_breaker \<Rightarrow> circuit_breaker" where
  "on_success b = b\<lparr>cb_state := Closed, cb_failures := 0, cb_opened_at := None\<rparr>"

definition sat_add_u32 :: "nat \<Rightarrow> nat \<Rightarrow> nat" where
  "sat_add_u32 a b = min (a + b) u32_max"

definition on_failure :: "circuit_breaker \<Rightarrow> nat \<Rightarrow> circuit_breaker" where
  "on_failure b t =
     (if breaker_state b t = HalfOpen then b\<lparr>cb_state := Open, cb_opened_at := Some t\<rparr>
      else
        let b = b\<lparr>cb_failures := sat_add_u32 (cb_failures b) 1\<rparr>
        in if cb_threshold b \<le> cb_failures b then b\<lparr>cb_state := Open, cb_opened_at := Some t\<rparr> else b)"

text \<open>
  One guarded request at time \<open>t0\<close> whose upstream answer \<open>r\<close> arrives at \<open>t1\<close>.  The flag says whether the
  upstream was called.
\<close>

definition breakered_floor_price ::
  "circuit_breaker \<Rightarrow> nat \<Rightarrow> nat \<Rightarrow> quote_error + floor_price \<Rightarrow>
   bool \<times> (quote_error + floor_price) \<times> circuit_breaker" where
  "breakered_floor_price b t0 t1 r =
     (if \<not> allows_request b t0 then (False, Inl CircuitOpen, b)
      else (True, r, case r of Inr _ \<Rightarrow> on_success b | Inl _ \<Rightarrow> on_failure b t1))"

section \<open>The inscription envelope\<close>

record krc20_op =
  ko_p :: string
  ko_op :: string
  ko_tick :: string
  ko_amt :: string
  ko_to :: string

definition Krc20Transfer_new :: "string \<Rightarrow> string \<Rightarrow> string \<Rightarrow> krc20_op" where
  "Krc20Transfer_new tick amt recipient =
     \<lparr>ko_p = ''krc-20'', ko_op = ''transfer'', ko_tick = tick, ko_amt = amt, ko_to = recipient\<rparr>"

datatype inscription_error = ScriptBuilder string | Address string | Json string

text \<open>
  The script library: the builder's pushes, the pay-to-script-hash scripts and the address codec;
  and the JSON encoder.
\<close>

record script_lib =
  sl_add_data :: "bytes \<Rightarrow> bytes \<Rightarrow> string + bytes"
  sl_add_op :: "nat \<Rightarrow> bytes \<Rightarrow> string + bytes"
  sl_add_i64 :: "int \<Rightarrow> bytes \<Rightarrow> string + bytes"
  sl_p2sh :: "bytes \<Rightarrow> bytes"
  sl_p2sh_address :: "bytes \<Rightarrow> string \<Rightarrow> string + string"
  sl_p2sh_sig_script :: "bytes \<Rightarrow> bytes \<Rightarrow> string + bytes"
  sl_json :: "krc20_op \<Rightarrow> string + bytes"

definition KASPLEX_TAG :: bytes where "KASPLEX_TAG = [107, 97, 115, 112, 108, 101, 120]"
definition OpCheckSig :: nat where "OpCheckSig = 0xac"
definition OpFalse :: nat where "OpFalse = 0x00"
definition OpIf :: nat where "OpIf = 0x63"
definition OpEndIf :: nat where "OpEndIf = 0x68"

text \<open>A chain of builder calls, each of which may refuse.\<close>

fun build_script :: "(bytes \<Rightarrow> string + bytes) list \<Rightarrow> bytes \<Rightarrow> string + bytes" where
  "build_script [] script = Inr script"
| "build_script (f # fs) script = (case f script of Inl e \<Rightarrow> Inl e | Inr script' \<Rightarrow> build_script fs script')"

definition build_transfer_inscription :: "script_lib \<Rightarrow> bytes \<Rightarrow> krc20_op \<Rightarrow> inscription_error + bytes" where
  "build_transfer_inscription sl xonly_pubkey transfer =
     (case sl_json sl transfer of
        Inl e \<Rightarrow> Inl (Json e)
      | Inr json \<Rightarrow> map_sum ScriptBuilder id (build_script
          [sl_add_data sl xonly_pubkey, sl_add_op sl OpCheckSig, sl_add_op sl OpFalse, sl_add_op sl OpIf,
           sl_add_data sl KASPLEX_TAG, sl_add_i64 sl 0, sl_add_data sl json, sl_add_op sl OpEndIf] []))"

definition commit_script_public_key :: "script_lib \<Rightarrow> bytes \<Rightarrow> bytes" where
  "commit_script_public_key sl redeem_script = sl_p2sh sl redeem_script"

definition commit_address :: "script_lib \<Rightarrow> bytes \<Rightarrow> string \<Rightarrow> inscription_error + string" where
  "commit_address sl redeem_script prefix =
     map_sum Address id (sl_p2sh_address sl (commit_script_public_key sl redeem_script) prefix)"

definition reveal_signature_script :: "script_lib \<Rightarrow> bytes \<Rightarrow> bytes \<Rightarrow> inscription_error + bytes" where
  "reveal_signature_script sl redeem_script signature =
     map_sum ScriptBuilder id (sl_p2sh_sig_script sl redeem_script signature)"

section \<open>The commit/reveal planner\<close>

definition STANDARD_SIGNATURE_SCRIPT_LEN :: nat where "STANDARD_SIGNATURE_SCRIPT_LEN = 66"
definition DEFAULT_COMMIT_AMOUNT_SOMPI :: nat where "DEFAULT_COMMIT_AMOUNT_SOMPI = 20000000"

datatype krc20_fee_policy = Adaptive fee_rate | Frozen nat nat

fun policy_reveal_fee :: "krc20_fee_policy \<Rightarrow> tx_mass \<Rightarrow> nat" where
  "policy_reveal_fee (Adaptive rate) m = fee_for rate m"
| "policy_reveal_fee (Frozen commit_fee reveal_fee) m = reveal_fee"

fun policy_commit_fee :: "krc20_fee_policy \<Rightarrow> tx_mass \<Rightarrow> nat" where
  "policy_commit_fee (Adaptive rate) m = fee_for rate m"
| "policy_commit_fee (Frozen commit_fee reveal_fee) m = commit_fee"

record commit_reveal_config =
  rc_commit_amount :: nat
  rc_fee_policy :: krc20_fee_policy

record planned_commit_reveal =
  cr_redeem_script :: bytes
  cr_commit_spk :: bytes
  cr_commit_amount :: nat
  cr_commit_inputs :: "treasury_utxo list"
  cr_commit_change :: nat
  cr_commit_fee :: nat
  cr_commit_mass :: tx_mass
  cr_reveal_return :: nat
  cr_reveal_fee :: nat
  cr_reveal_mass :: tx_mass

datatype plan_error =
    PlanInscription inscription_error
  | InsufficientFunds nat nat
  | RevealBelowFloor nat nat
  | CommitMassExceeded tx_mass nat
  | RevealMassExceeded tx_mass nat
  | MassEval mass_evaluation_error
  | PlanPanic

definition reveal_return :: "nat \<Rightarrow> nat \<Rightarrow> plan_error + nat" where
  "reveal_return commit_amount reveal_fee =
     (if reveal_fee \<le> commit_amount \<and> MIN_PAYOUT_OUTPUT_SOMPI \<le> commit_amount - reveal_fee
      then Inr (commit_amount - reveal_fee)
      else Inl (RevealBelowFloor (commit_amount - reveal_fee) MIN_PAYOUT_OUTPUT_SOMPI))"

definition zero_mass :: tx_mass where
  "zero_mass = \<lparr>compute_mass = 0, storage_mass = 0, transient_mass = 0\<rparr>"

definition reveal_only :: "script_lib \<Rightarrow> bytes \<Rightarrow> krc20_op \<Rightarrow> nat \<Rightarrow> nat \<Rightarrow> plan_error + planned_commit_reveal" where
  "reveal_only sl xonly_pubkey transfer commit_amount reveal_fee =
     (case reveal_return commit_amount reveal_fee of Inl e \<Rightarrow> Inl e | Inr return_sompi \<Rightarrow>
      (case build_transfer_inscription sl xonly_pubkey transfer of Inl e \<Rightarrow> Inl (PlanInscription e) | Inr redeem \<Rightarrow>
         Inr \<lparr>cr_redeem_script = redeem, cr_commit_spk = commit_script_public_key sl redeem,
              cr_commit_amount = commit_amount, cr_commit_inputs = [], cr_commit_change = 0, cr_commit_fee = 0,
              cr_commit_mass = zero_mass, cr_reveal_return = return_sompi, cr_reveal_fee = reveal_fee,
              cr_reveal_mass = zero_mass\<rparr>))"

definition plan_tx :: "(outpoint \<times> bytes) list \<Rightarrow> (nat \<times> bytes) list \<Rightarrow> transaction" where
  "plan_tx inputs outputs =
     \<lparr>tx_inputs = map (\<lambda>(coin, sig). \<lparr>ti_outpoint = coin, ti_sig_script = sig, ti_sequence = 0, ti_sig_ops = 1\<rparr>) inputs,
      tx_outputs = outputs\<rparr>"

definition commit_mass ::
  "consensus \<Rightarrow> treasury_utxo list \<Rightarrow> bytes \<Rightarrow> nat \<Rightarrow> bytes \<Rightarrow> nat \<Rightarrow> mass_evaluation_error + tx_mass" where
  "commit_mass cs inputs commit_spk commit_amount treasury_script change =
     evaluate_populated cs
       (plan_tx (map (\<lambda>u. (tu_outpoint u, replicate STANDARD_SIGNATURE_SCRIPT_LEN 0)) inputs)
          ((commit_amount, commit_spk) # (if 0 < change then [(change, treasury_script)] else [])))
       (map tu_entry inputs)"

record funded_commit =
  fc_inputs :: "treasury_utxo list"
  fc_change :: nat
  fc_fee :: nat
  fc_mass :: tx_mass

text \<open>
  The funding loop at \<open>n\<close> inputs.  The arithmetic on \<open>u64\<close> amounts is checked: an overflow panics.
\<close>

datatype fund_attempt = FundWiden | FundStop "plan_error + funded_commit"

definition fund_attempt_at ::
  "consensus \<Rightarrow> treasury_utxo list \<Rightarrow> bytes \<Rightarrow> bytes \<Rightarrow> nat \<Rightarrow> krc20_fee_policy \<Rightarrow> fund_attempt" where
  "fund_attempt_at cs inputs commit_spk treasury_script commit_amount policy =
     (let input_sum = utxo_sum inputs
      in if input_sum \<le> commit_amount then FundWiden
         else
           let gross_change = input_sum - commit_amount
           in case commit_mass cs inputs commit_spk commit_amount treasury_script gross_change of
                Inl e \<Rightarrow> FundStop (Inl (MassEval e))
              | Inr gross_mass \<Rightarrow>
                  let fee = policy_commit_fee policy gross_mass
                  in if input_sum < sat_add_u64 commit_amount fee then FundWiden
                     else if gross_change < fee then FundStop (Inl PlanPanic)
                     else
                       let change = input_sum - commit_amount - fee
                       in if change = 0 \<or> is_change_dust cs change treasury_script
                          then (case commit_mass cs inputs commit_spk commit_amount treasury_script 0 of
                                  Inl e \<Rightarrow> FundStop (Inl (MassEval e))
                                | Inr mass \<Rightarrow> FundStop (Inr \<lparr>fc_inputs = inputs, fc_change = 0,
                                     fc_fee = input_sum - commit_amount, fc_mass = mass\<rparr>))
                          else FundStop (Inr \<lparr>fc_inputs = inputs, fc_change = change, fc_fee = fee,
                                 fc_mass = gross_mass\<rparr>))"

function fund_loop ::
  "consensus \<Rightarrow> treasury_utxo list \<Rightarrow> bytes \<Rightarrow> bytes \<Rightarrow> nat \<Rightarrow> krc20_fee_policy \<Rightarrow> nat \<Rightarrow>
   (plan_error + funded_commit) option" where
  "fund_loop cs coins commit_spk treasury_script commit_amount policy n =
     (if n \<le> length coins then
        (case fund_attempt_at cs (take n coins) commit_spk treasury_script commit_amount policy of
           FundStop r \<Rightarrow> Some r
         | FundWiden \<Rightarrow> fund_loop cs coins commit_spk treasury_script commit_amount policy (Suc n))
      else None)"
  by auto
termination
  by (relation "measure (\<lambda>(cs, coins, spk, ts, a, p, n). Suc (length coins) - n)") auto

declare fund_loop.simps [simp del]

definition fund_commit ::
  "consensus \<Rightarrow> treasury_utxo list \<Rightarrow> bytes \<Rightarrow> bytes \<Rightarrow> nat \<Rightarrow> krc20_fee_policy \<Rightarrow> plan_error + funded_commit" where
  "fund_commit cs treasury_utxos commit_spk treasury_script commit_amount policy =
     (let coins = sort_utxos_desc treasury_utxos; available = utxo_sum coins
      in if u64_max < available then Inl PlanPanic
         else case fund_loop cs coins commit_spk treasury_script commit_amount policy 1 of
           Some r \<Rightarrow> r
         | None \<Rightarrow>
             let needed = (if commit_amount \<le> available
                 then (case commit_mass cs coins commit_spk commit_amount treasury_script (available - commit_amount) of
                         Inr m \<Rightarrow> sat_add_u64 commit_amount (policy_commit_fee policy m)
                       | Inl _ \<Rightarrow> commit_amount)
                 else commit_amount)
             in Inl (InsufficientFunds needed available))"

definition reveal_shape_mass ::
  "script_lib \<Rightarrow> consensus \<Rightarrow> bytes \<Rightarrow> bytes \<Rightarrow> bytes \<Rightarrow> nat \<Rightarrow> plan_error + tx_mass" where
  "reveal_shape_mass sl cs redeem commit_spk treasury_script commit_amount =
     (case reveal_signature_script sl redeem (replicate STANDARD_SIGNATURE_SCRIPT_LEN 0) of
        Inl e \<Rightarrow> Inl (PlanInscription e)
      | Inr sig \<Rightarrow> map_sum MassEval id (evaluate_populated cs
          (plan_tx [(\<lparr>op_txid = replicate 32 0, op_index = 0\<rparr>, sig)] [(commit_amount, treasury_script)])
          [\<lparr>ue_amount = commit_amount, ue_script = commit_spk, ue_block_daa = 0, ue_is_coinbase = False\<rparr>]))"

definition plan_commit_reveal ::
  "script_lib \<Rightarrow> consensus \<Rightarrow> treasury_utxo list \<Rightarrow> bytes \<Rightarrow> bytes \<Rightarrow> krc20_op \<Rightarrow> commit_reveal_config \<Rightarrow>
   plan_error + planned_commit_reveal" where
  "plan_commit_reveal sl cs treasury_utxos treasury_script xonly_pubkey transfer cfg =
     (case build_transfer_inscription sl xonly_pubkey transfer of Inl e \<Rightarrow> Inl (PlanInscription e) | Inr redeem \<Rightarrow>
      let spk = commit_script_public_key sl redeem in
      (case reveal_shape_mass sl cs redeem spk treasury_script (rc_commit_amount cfg) of Inl e \<Rightarrow> Inl e | Inr rmass \<Rightarrow>
       if \<not> fits_independently rmass (cs_block_mass_limit cs)
       then Inl (RevealMassExceeded rmass (cs_block_mass_limit cs))
       else
         let rfee = policy_reveal_fee (rc_fee_policy cfg) rmass in
         (case reveal_return (rc_commit_amount cfg) rfee of Inl e \<Rightarrow> Inl e | Inr return_sompi \<Rightarrow>
          (case fund_commit cs treasury_utxos spk treasury_script (rc_commit_amount cfg) (rc_fee_policy cfg) of
             Inl e \<Rightarrow> Inl e
           | Inr commit \<Rightarrow>
               if \<not> fits_independently (fc_mass commit) (cs_block_mass_limit cs)
               then Inl (CommitMassExceeded (fc_mass commit) (cs_block_mass_limit cs))
               else Inr \<lparr>cr_redeem_script = redeem, cr_commit_spk = spk, cr_commit_amount = rc_commit_amount cfg,
                      cr_commit_inputs = fc_inputs commit, cr_commit_change = fc_change commit,
                      cr_commit_fee = fc_fee commit, cr_commit_mass = fc_mass commit,
                      cr_reveal_return = return_sompi, cr_reveal_fee = rfee, cr_reveal_mass = rmass\<rparr>))))"

section \<open>Conversion\<close>

definition price_ok :: "floor_price \<Rightarrow> bool" where
  "price_ok p \<longleftrightarrow> 0 < fp_mantissa p \<and> fp_mantissa p \<le> u128_max \<and> fp_scale p \<le> MAX_FLOOR_PRICE_SCALE"

lemma from_decimal_str_ok: "from_decimal_str s = Inr p \<Longrightarrow> price_ok p"
  by (auto simp: from_decimal_str_def price_ok_def Let_def split: if_splits)

lemma from_mantissa_scale_ok: "m \<le> u128_max \<Longrightarrow> from_mantissa_scale m sc = Inr p \<Longrightarrow> price_ok p"
  by (auto simp: from_mantissa_scale_def price_ok_def Let_def split: if_splits)

lemma derive_floor_price_ok: "derive_floor_price q n k = Inr p \<Longrightarrow> price_ok p"
  by (auto simp: derive_floor_price_def Let_def map_sum_def nat_le_iff split: sum.splits if_splits
      elim!: from_mantissa_scale_ok[rotated])

text \<open>The product never leaves \<open>u128\<close>: 63 bits times less than 60.\<close>

lemma scaled_in_u128:
  assumes "in_i64 pending" and "sc \<le> MAX_FLOOR_PRICE_SCALE"
  shows "10 ^ sc \<le> u128_max" and "nat pending * 10 ^ sc \<le> u128_max"
proof -
  have p: "(10::nat) ^ sc \<le> 10 ^ 18"
    using assms(2) by (intro power_increasing) (simp_all add: MAX_FLOOR_PRICE_SCALE_def)
  then show "(10::nat) ^ sc \<le> u128_max" by (rule order_trans) simp
  have "nat pending * 10 ^ sc \<le> 9223372036854775807 * 10 ^ 18"
    using assms(1) p by (intro mult_le_mono) (auto simp: in_i64_def)
  then show "nat pending * 10 ^ sc \<le> u128_max" by (rule order_trans) simp
qed

lemma nacho_base_units_eq:
  assumes "in_i64 pending" and "price_ok price" and "0 \<le> pending"
  shows "nacho_base_units pending price = Inr (nat pending * 10 ^ fp_scale price div fp_mantissa price)"
  using assms scaled_in_u128[OF assms(1), of "fp_scale price"]
  by (auto simp: nacho_base_units_def checked_u128_def price_ok_def not_less)

text \<open>
  Converting a pending rebate: a negative balance is refused, every other \<open>i64\<close> balance
  converts without overflow at any price the constructors admit, and the result is the largest
  number of token units whose value at that price does not exceed the balance.
\<close>

theorem nacho_base_units_correct:
  assumes "in_i64 pending" and "price_ok price"
  shows "case nacho_base_units pending price of
      Inl e \<Rightarrow> pending < 0 \<and> e = NegativePending pending
    | Inr n \<Rightarrow> 0 \<le> pending \<and> int (n * fp_mantissa price) \<le> pending * 10 ^ fp_scale price \<and>
        pending * 10 ^ fp_scale price < int ((n + 1) * fp_mantissa price)"
proof (cases "pending < 0")
  case False
  let ?m = "fp_mantissa price" and ?x = "nat pending * 10 ^ fp_scale price"
  have "0 < ?m" using assms(2) by (simp add: price_ok_def)
  then have "?x div ?m * ?m \<le> ?x" and "?x < (?x div ?m + 1) * ?m"
    by (simp, metis Suc_eq_plus1 dividend_less_div_times mult.commute add.commute mult_Suc)
  then have "int (?x div ?m * ?m) \<le> int ?x" and "int ?x < int ((?x div ?m + 1) * ?m)"
    by (metis of_nat_le_iff, metis of_nat_less_iff)
  then show ?thesis using False nacho_base_units_eq[OF assms] by simp
qed (simp add: nacho_base_units_def)

theorem nacho_base_units_correct_witness:
  "price_ok \<lparr>fp_mantissa = 365, fp_scale = 6\<rparr> \<and>
   nacho_base_units 1000000000 \<lparr>fp_mantissa = 365, fp_scale = 6\<rparr> = Inr 2739726027397"
  using nacho_base_units_correct[of 1000000000 "\<lparr>fp_mantissa = 365, fp_scale = 6\<rparr>"]
  by (simp add: price_ok_def MAX_FLOOR_PRICE_SCALE_def in_i64_def nacho_base_units_def checked_u128_def)

section \<open>Prices as text\<close>

text \<open>The decimal text of a price: at least one digit before the point.\<close>

definition decimal_text :: "floor_price \<Rightarrow> string" where
  "decimal_text p =
     (let digits = show_nat (fp_mantissa p);
          padded = replicate (Suc (fp_scale p) - length digits) (CHR ''0'') @ digits;
          k = length padded - fp_scale p
      in take k padded @ (if fp_scale p = 0 then [] else CHR ''.'' # drop k padded))"

lemma split_char_none: "c \<notin> set xs \<Longrightarrow> split_char c xs = [xs]"
  by (induction xs) auto

lemma split_char_once: "c \<notin> set xs \<Longrightarrow> split_char c (xs @ c # ys) = xs # split_char c ys"
  by (induction xs) auto

lemma show_nat_digits: "list_all is_ascii_digit (show_nat n)"
proof (induction n rule: show_nat.induct)
  case (1 n)
  have "is_ascii_digit (digit_char d)" if "d < 10" for d
    using that by (simp add: is_ascii_digit_def Let_def)
  with 1 show ?case by (subst show_nat.simps) auto
qed

lemma read_nat_zeros: "read_nat (replicate n (CHR ''0'') @ xs) = read_nat xs"
  by (induction n) (simp_all add: read_nat_def)

lemma digits_no_point: "list_all is_ascii_digit xs \<Longrightarrow> CHR ''.'' \<notin> set xs"
  by (auto simp: list_all_iff is_ascii_digit_def)

text \<open>What the parser makes of two runs of digits around a point.\<close>

lemma from_decimal_str_digits:
  assumes "list_all is_ascii_digit (xs @ ys)" and "xs \<noteq> []" and "length ys \<le> MAX_FLOOR_PRICE_SCALE"
    and "read_nat (xs @ ys) = m" and "0 < m" and "m \<le> u128_max"
  shows "from_decimal_str (xs @ (if ys = [] then [] else CHR ''.'' # ys)) = Inr \<lparr>fp_mantissa = m, fp_scale = length ys\<rparr>"
proof -
  have nx: "CHR ''.'' \<notin> set xs" and ny: "CHR ''.'' \<notin> set ys"
    using assms(1) digits_no_point[of xs] digits_no_point[of ys] by auto
  have "split_char (CHR ''.'') (xs @ (if ys = [] then [] else CHR ''.'' # ys)) = (if ys = [] then [xs] else [xs, ys])"
    using split_char_none[OF nx] split_char_once[OF nx, of ys] split_char_none[OF ny] by simp
  then show ?thesis
    using assms by (cases "ys = []") (auto simp: from_decimal_str_def Let_def MAX_FLOOR_PRICE_SCALE_def)
qed

text \<open>
  Every admissible price survives printing and parsing: the parser reads the decimal text of
  a price back to exactly that mantissa and scale.
\<close>

theorem from_decimal_str_roundtrip:
  assumes "price_ok p"
  shows "from_decimal_str (decimal_text p) = Inr p"
proof -
  let ?d = "show_nat (fp_mantissa p)" and ?sc = "fp_scale p"
  define padded where "padded = replicate (Suc ?sc - length ?d) (CHR ''0'') @ ?d"
  define k where "k = length padded - ?sc"
  have len: "?sc < length padded" by (simp add: padded_def)
  have digits: "list_all is_ascii_digit padded"
    using show_nat_digits[of "fp_mantissa p"] by (auto simp: padded_def list_all_iff is_ascii_digit_def)
  have mantissa: "read_nat (take k padded @ drop k padded) = fp_mantissa p"
    unfolding append_take_drop_id by (simp add: padded_def read_nat_zeros read_show_nat)
  have "from_decimal_str (take k padded @ (if drop k padded = [] then [] else CHR ''.'' # drop k padded)) =
      Inr \<lparr>fp_mantissa = fp_mantissa p, fp_scale = length (drop k padded)\<rparr>"
    using assms len digits mantissa
    by (intro from_decimal_str_digits) (auto simp: price_ok_def k_def)
  moreover have "length (drop k padded) = ?sc" and "drop k padded = [] \<longleftrightarrow> ?sc = 0"
    using len by (auto simp: k_def)
  moreover have "decimal_text p = take k padded @ (if ?sc = 0 then [] else CHR ''.'' # drop k padded)"
    unfolding decimal_text_def Let_def padded_def k_def ..
  ultimately show ?thesis by simp
qed

theorem from_decimal_str_roundtrip_witness:
  "decimal_text \<lparr>fp_mantissa = 365, fp_scale = 6\<rparr> = ''0.000365'' \<and>
   from_decimal_str ''0.000365'' = Inr \<lparr>fp_mantissa = 365, fp_scale = 6\<rparr>"
proof -
  have t: "decimal_text \<lparr>fp_mantissa = 365, fp_scale = 6\<rparr> = ''0.000365''"
    by code_simp
  have "price_ok \<lparr>fp_mantissa = 365, fp_scale = 6\<rparr>" by (simp add: price_ok_def MAX_FLOOR_PRICE_SCALE_def)
  from from_decimal_str_roundtrip[OF this] t show ?thesis by simp
qed

section \<open>The direction of the derived price\<close>

text \<open>What rounding a quotient down promises.\<close>

definition rounds_down :: "quote_lib \<Rightarrow> bool" where
  "rounds_down q \<longleftrightarrow> (\<forall>a b d. 0 < a \<and> 0 < b \<longrightarrow> of_int (ql_ratio_down q a b d) \<le> a / b * 10 ^ d)"

lemma derive_floor_price_mantissa:
  assumes "derive_floor_price q n k = Inr p" and "parse_quote q ''nacho'' n = Inr a" and "parse_quote q ''kaspa'' k = Inr b"
  shows "0 < a" and "0 < b" and "fp_scale p = MAX_FLOOR_PRICE_SCALE"
    and "int (fp_mantissa p) = ql_ratio_down q a b MAX_FLOOR_PRICE_SCALE" and "0 < fp_mantissa p"
  using assms
  by (auto simp: derive_floor_price_def from_mantissa_scale_def Let_def map_sum_def split: sum.splits if_splits)

text \<open>
  A price derived from the two market quotes is rounded down, so the token amount paid for
  a rebate is never below, and can exceed, what the exact market ratio gives.
\<close>

theorem derived_price_never_underpays:
  assumes "rounds_down q" and "derive_floor_price q n k = Inr p"
    and "parse_quote q ''nacho'' n = Inr a" and "parse_quote q ''kaspa'' k = Inr b"
    and "in_i64 pending" and "0 \<le> pending"
  shows "\<exists>units. nacho_base_units pending p = Inr units \<and> \<lfloor>of_int pending * b / a\<rfloor> \<le> int units"
proof -
  note D = derive_floor_price_mantissa[OF assms(2-4)]
  let ?m = "fp_mantissa p" and ?x = "nat pending * 10 ^ fp_scale p"
  have "(of_nat ?m :: rat) = of_int (ql_ratio_down q a b MAX_FLOOR_PRICE_SCALE)"
    using D(4) by (metis of_int_of_nat_eq)
  also have "\<dots> \<le> a / b * 10 ^ MAX_FLOOR_PRICE_SCALE" using assms(1) D(1,2) by (simp add: rounds_down_def)
  finally have m: "of_nat ?m * b \<le> a * 10 ^ fp_scale p" using D(2,3) by (simp add: field_simps)
  have "of_int pending * b / a \<le> of_nat ?x / (of_nat ?m :: rat)"
  proof -
    have "of_int pending * (of_nat ?m * b) \<le> of_int pending * (a * 10 ^ fp_scale p)"
      using m assms(6) by (intro mult_left_mono) simp_all
    moreover have "(of_nat ?x :: rat) = of_int pending * 10 ^ fp_scale p" using assms(6) by simp
    ultimately show ?thesis using D(1,5) by (simp add: field_simps)
  qed
  then have "\<lfloor>of_int pending * b / a\<rfloor> \<le> \<lfloor>of_nat ?x / (of_nat ?m :: rat)\<rfloor>" by (rule floor_mono)
  also have "\<dots> = int (?x div ?m)" by (simp only: floor_divide_of_nat_eq)
  finally show ?thesis
    using nacho_base_units_eq[OF assms(5) derive_floor_price_ok[OF assms(2)] assms(6)] by auto
qed

text \<open>A library that rounds down, and a token quoted at 1.9 units of the last place.\<close>

definition sample_quotes :: quote_lib where
  "sample_quotes = \<lparr>ql_json = (\<lambda>_. Inl []), ql_decimal = (\<lambda>s. if s = ''n'' then Inr (19 / 10 ^ 19) else Inr 1),
     ql_ratio_down = (\<lambda>a b d. \<lfloor>a / b * 10 ^ d\<rfloor>)\<rparr>"

theorem derived_price_never_underpays_witness:
  "derive_floor_price sample_quotes ''n'' ''k'' = Inr \<lparr>fp_mantissa = 1, fp_scale = 18\<rparr> \<and>
   nacho_base_units 19 \<lparr>fp_mantissa = 1, fp_scale = 18\<rparr> = Inr (19 * 10 ^ 18) \<and>
   \<lfloor>of_int 19 * 1 / (19 / 10 ^ 19 :: rat)\<rfloor> = 10 ^ 19"
proof -
  have q: "rounds_down sample_quotes" by (simp add: rounds_down_def sample_quotes_def)
  have f: "\<lfloor>19 / 10 :: rat\<rfloor> = 1" by (simp add: floor_eq_iff)
  have d: "derive_floor_price sample_quotes ''n'' ''k'' = Inr \<lparr>fp_mantissa = 1, fp_scale = 18\<rparr>"
    "parse_quote sample_quotes ''nacho'' ''n'' = Inr (19 / 10 ^ 19)" "parse_quote sample_quotes ''kaspa'' ''k'' = Inr 1"
    by (simp_all add: derive_floor_price_def parse_quote_def sample_quotes_def str_trim_def is_whitespace_def Let_def
        from_mantissa_scale_def MAX_FLOOR_PRICE_SCALE_def f)
  have "in_i64 19" by (simp add: in_i64_def)
  from derived_price_never_underpays[OF q d this] d(1) show ?thesis
    by (simp add: nacho_base_units_def checked_u128_def)
qed

section \<open>The breaker fails closed and recovers\<close>

fun breaker_failures :: "circuit_breaker \<Rightarrow> (nat \<times> nat \<times> quote_error) list \<Rightarrow> circuit_breaker" where
  "breaker_failures b [] = b"
| "breaker_failures b ((t0, t1, e) # reqs) = breaker_failures (snd (snd (breakered_floor_price b t0 t1 (Inl e)))) reqs"

lemma breaker_counts_failures:
  assumes "j + length reqs < k" and "k \<le> u32_max"
  shows "breaker_failures ((breaker_new k c)\<lparr>cb_failures := j\<rparr>) reqs = (breaker_new k c)\<lparr>cb_failures := j + length reqs\<rparr>"
  using assms
proof (induction reqs arbitrary: j)
  case (Cons r reqs)
  obtain t0 t1 e where r: "r = (t0, t1, e)" by (metis prod_cases3)
  have "snd (snd (breakered_floor_price ((breaker_new k c)\<lparr>cb_failures := j\<rparr>) t0 t1 (Inl e))) =
      (breaker_new k c)\<lparr>cb_failures := Suc j\<rparr>"
    using Cons.prems by (simp add: breakered_floor_price_def allows_request_def on_failure_def breaker_state_def
        breaker_new_def sat_add_u32_def Let_def)
  with Cons show ?case by (simp add: r)
qed simp

lemma breaker_failures_append: "breaker_failures b (xs @ ys) = breaker_failures (breaker_failures b xs) ys"
  by (induction b xs rule: breaker_failures.induct) simp_all

text \<open>
  The quote breaker fails closed and recovers.  After exactly the configured number of
  consecutive failures, every request before the cooldown has elapsed is answered
  \<open>CircuitOpen\<close> without an upstream call and without changing the breaker; the first request
  after the cooldown reaches the upstream again, a success restores the fresh breaker, and a
  failure opens it for another cooldown.
\<close>

theorem breaker_trips_and_recovers:
  assumes "Suc (length reqs) = k" and "k \<le> u32_max"
    and "b = breaker_failures (breaker_new k c) (reqs @ [(t0, t1, e)])"
  shows "(\<forall>t t' r. t1 \<le> t \<and> t < t1 + c \<longrightarrow> breakered_floor_price b t t' r = (False, Inl CircuitOpen, b)) \<and>
    (\<forall>t t' p. t1 + c \<le> t \<longrightarrow> breakered_floor_price b t t' (Inr p) = (True, Inr p, breaker_new k c)) \<and>
    (\<forall>t t' e' b'. t1 + c \<le> t \<and> t \<le> t' \<and> b' = snd (snd (breakered_floor_price b t t' (Inl e'))) \<longrightarrow>
       (\<forall>u v r. t' \<le> u \<and> u < t' + c \<longrightarrow> breakered_floor_price b' u v r = (False, Inl CircuitOpen, b')))"
proof -
  have "breaker_failures (breaker_new k c) reqs = (breaker_new k c)\<lparr>cb_failures := length reqs\<rparr>"
    using breaker_counts_failures[of 0 reqs k c] assms(1,2) by (simp add: breaker_new_def)
  then have b: "b = (breaker_new k c)\<lparr>cb_failures := k, cb_state := Open, cb_opened_at := Some t1\<rparr>"
    using assms by (simp add: breaker_failures_append breakered_floor_price_def allows_request_def on_failure_def
        breaker_state_def breaker_new_def sat_add_u32_def Let_def)
  show ?thesis
    by (auto simp: b breakered_floor_price_def allows_request_def on_failure_def on_success_def breaker_state_def
        breaker_new_def Let_def)
qed

theorem breaker_trips_and_recovers_witness:
  "breakered_floor_price (breaker_failures (breaker_new 2 30) [(0, 5, Upstream ''a''), (10, 15, Upstream ''b'')]) 44 44
     (Inr \<lparr>fp_mantissa = 1, fp_scale = 0\<rparr>) =
   (False, Inl CircuitOpen, breaker_failures (breaker_new 2 30) [(0, 5, Upstream ''a''), (10, 15, Upstream ''b'')])"
  using breaker_trips_and_recovers[of "[(0, 5, Upstream ''a'')]" 2 _ 30 10 15 "Upstream ''b''", OF _ _ refl] by simp

section \<open>Plans balance\<close>

lemma fund_attempt_StopE:
  assumes "fund_attempt_at cs inputs spk ts amount policy = FundStop (Inr fc)"
  obtains gross where
    "amount < utxo_sum inputs"
    "commit_mass cs inputs spk amount ts (utxo_sum inputs - amount) = Inr gross"
    "policy_commit_fee policy gross \<le> utxo_sum inputs - amount"
    "fc_inputs fc = inputs" "utxo_sum inputs = amount + fc_change fc + fc_fee fc"
    "policy_commit_fee policy gross \<le> fc_fee fc"
    "fc_change fc = 0 \<and> commit_mass cs inputs spk amount ts 0 = Inr (fc_mass fc) \<and>
       (utxo_sum inputs - amount = policy_commit_fee policy gross \<or>
        is_change_dust cs (utxo_sum inputs - amount - policy_commit_fee policy gross) ts) \<or>
     0 < fc_change fc \<and> fc_fee fc = policy_commit_fee policy gross \<and> fc_mass fc = gross \<and>
       \<not> is_change_dust cs (fc_change fc) ts"
  using assms
  by (fastforce simp: fund_attempt_at_def Let_def split: if_splits sum.splits)

text \<open>The loop stops at the first prefix that does not ask for more.\<close>

lemma fund_loop_Some_iff:
  "fund_loop cs coins spk ts amount policy n = Some r \<longleftrightarrow>
   (\<exists>m. n \<le> m \<and> m \<le> length coins \<and> fund_attempt_at cs (take m coins) spk ts amount policy = FundStop r \<and>
     (\<forall>i. n \<le> i \<and> i < m \<longrightarrow> fund_attempt_at cs (take i coins) spk ts amount policy = FundWiden))"
proof (induction cs coins spk ts amount policy n rule: fund_loop.induct)
  case (1 cs coins spk ts amount policy n)
  let ?at = "\<lambda>m. fund_attempt_at cs (take m coins) spk ts amount policy"
  show ?case
  proof (cases "n \<le> length coins")
    case True
    show ?thesis
    proof (cases "?at n")
      case FundWiden
      have "fund_loop cs coins spk ts amount policy n = fund_loop cs coins spk ts amount policy (Suc n)"
        using True FundWiden by (subst fund_loop.simps) simp
      also have "(\<dots> = Some r) \<longleftrightarrow> (\<exists>m. Suc n \<le> m \<and> m \<le> length coins \<and> ?at m = FundStop r \<and>
          (\<forall>i. Suc n \<le> i \<and> i < m \<longrightarrow> ?at i = FundWiden))"
        using "1.IH"[OF True FundWiden] .
      also have "\<dots> \<longleftrightarrow> (\<exists>m. n \<le> m \<and> m \<le> length coins \<and> ?at m = FundStop r \<and>
          (\<forall>i. n \<le> i \<and> i < m \<longrightarrow> ?at i = FundWiden))"
        using FundWiden by (metis Suc_leI fund_attempt.distinct(1) le_eq_less_or_eq Suc_leD)
      finally show ?thesis .
    next
      case (FundStop r')
      have "fund_loop cs coins spk ts amount policy n = Some r'"
        using True FundStop by (subst fund_loop.simps) simp
      then show ?thesis
        using FundStop True by (auto simp: le_eq_less_or_eq)
    qed
  qed (subst fund_loop.simps, auto)
qed

lemma fund_commitE:
  assumes "fund_commit cs us spk ts amount policy = Inr fc"
  obtains n where "0 < n" "n \<le> length us" "utxo_sum us \<le> u64_max"
    "fund_attempt_at cs (take n (sort_utxos_desc us)) spk ts amount policy = FundStop (Inr fc)"
    "\<And>i. 0 < i \<Longrightarrow> i < n \<Longrightarrow> fund_attempt_at cs (take i (sort_utxos_desc us)) spk ts amount policy = FundWiden"
proof -
  have len: "length (sort_utxos_desc us) = length us" by (simp add: sort_utxos_desc_def)
  have "mset (map (\<lambda>u. ue_amount (tu_entry u)) (sort_utxos_desc us)) = mset (map (\<lambda>u. ue_amount (tu_entry u)) us)"
    by (simp add: sort_utxos_desc_def)
  then have sum: "utxo_sum (sort_utxos_desc us) = utxo_sum us" by (metis sum_mset_sum_list)
  have cap: "\<not> u64_max < utxo_sum us"
  proof
    assume "u64_max < utxo_sum us"
    with assms show False by (simp add: fund_commit_def Let_def sum)
  qed
  with assms have "fund_loop cs (sort_utxos_desc us) spk ts amount policy 1 = Some (Inr fc)"
    unfolding fund_commit_def Let_def sum by (simp split: option.splits)
  then obtain m where "1 \<le> m" "m \<le> length us"
    "fund_attempt_at cs (take m (sort_utxos_desc us)) spk ts amount policy = FundStop (Inr fc)"
    "\<forall>i. 1 \<le> i \<and> i < m \<longrightarrow> fund_attempt_at cs (take i (sort_utxos_desc us)) spk ts amount policy = FundWiden"
    unfolding fund_loop_Some_iff len by blast
  with cap show thesis by (intro that[of m]) (simp_all add: Suc_le_eq)
qed

lemma plan_commit_revealE:
  assumes "plan_commit_reveal sl cs us ts pk tr cfg = Inr p"
  obtains fc where
    "build_transfer_inscription sl pk tr = Inr (cr_redeem_script p)"
    "cr_commit_spk p = commit_script_public_key sl (cr_redeem_script p)"
    "reveal_shape_mass sl cs (cr_redeem_script p) (cr_commit_spk p) ts (rc_commit_amount cfg) = Inr (cr_reveal_mass p)"
    "fits_independently (cr_reveal_mass p) (cs_block_mass_limit cs)"
    "cr_reveal_fee p = policy_reveal_fee (rc_fee_policy cfg) (cr_reveal_mass p)"
    "reveal_return (rc_commit_amount cfg) (cr_reveal_fee p) = Inr (cr_reveal_return p)"
    "fund_commit cs us (cr_commit_spk p) ts (rc_commit_amount cfg) (rc_fee_policy cfg) = Inr fc"
    "fits_independently (fc_mass fc) (cs_block_mass_limit cs)"
    "cr_commit_amount p = rc_commit_amount cfg" "cr_commit_inputs p = fc_inputs fc"
    "cr_commit_change p = fc_change fc" "cr_commit_fee p = fc_fee fc" "cr_commit_mass p = fc_mass fc"
  using assms
  by (auto simp: plan_commit_reveal_def Let_def split: sum.splits if_splits)

lemma reveal_return_Inr:
  "reveal_return amount fee = Inr r \<Longrightarrow> amount = r + fee \<and> MIN_PAYOUT_OUTPUT_SOMPI \<le> r"
  by (auto simp: reveal_return_def split: if_splits)

text \<open>
  C14. Every commit/reveal pair the planner returns balances to the last sompi: the commit's
  inputs are treasury coins, each used once, and equal the locked amount plus change plus fee;
  the reveal returns the locked amount less its fee and at least the dust floor; a change output
  is never dust.  The masses recorded in the plan fit the block limit, and fees sized from the live rate are
  those for the recorded masses (for the commit, if it has change).  The mass recorded for the reveal is that of a reveal
  that returns the whole locked amount; the one recorded for the commit is that of its inputs with the change before
  the fee is taken out, or without change output if the change is dropped.  The reveal, and a commit with change, are
  not measured again with their final amounts, although the comments say the masses are those of what is signed; the mempool's standard mass
  limit is not checked.
\<close>

theorem plan_commit_reveal_balances:
  assumes "plan_commit_reveal sl cs us ts pk tr cfg = Inr p"
  shows "cr_commit_inputs p \<noteq> [] \<and> mset (cr_commit_inputs p) \<subseteq># mset us \<and>
    utxo_sum (cr_commit_inputs p) = rc_commit_amount cfg + cr_commit_change p + cr_commit_fee p \<and>
    rc_commit_amount cfg = cr_reveal_return p + cr_reveal_fee p \<and> MIN_PAYOUT_OUTPUT_SOMPI \<le> cr_reveal_return p \<and>
    (cr_commit_change p = 0 \<or> \<not> is_change_dust cs (cr_commit_change p) ts) \<and>
    fits_independently (cr_commit_mass p) (cs_block_mass_limit cs) \<and>
    fits_independently (cr_reveal_mass p) (cs_block_mass_limit cs) \<and>
    commit_mass cs (cr_commit_inputs p) (cr_commit_spk p) (rc_commit_amount cfg) ts
      (if cr_commit_change p = 0 then 0 else utxo_sum (cr_commit_inputs p) - rc_commit_amount cfg) = Inr (cr_commit_mass p) \<and>
    reveal_shape_mass sl cs (cr_redeem_script p) (cr_commit_spk p) ts (rc_commit_amount cfg) = Inr (cr_reveal_mass p) \<and>
    (\<forall>rate. rc_fee_policy cfg = Adaptive rate \<longrightarrow>
       cr_reveal_fee p = fee_for rate (cr_reveal_mass p) \<and>
       (0 < cr_commit_change p \<longrightarrow> cr_commit_fee p = fee_for rate (cr_commit_mass p)))"
  using assms
proof (rule plan_commit_revealE)
  fix fc
  assume fund: "fund_commit cs us (cr_commit_spk p) ts (rc_commit_amount cfg) (rc_fee_policy cfg) = Inr fc"
    and ret: "reveal_return (rc_commit_amount cfg) (cr_reveal_fee p) = Inr (cr_reveal_return p)"
    and fits: "fits_independently (cr_reveal_mass p) (cs_block_mass_limit cs)" "fits_independently (fc_mass fc) (cs_block_mass_limit cs)"
    and fee: "cr_reveal_fee p = policy_reveal_fee (rc_fee_policy cfg) (cr_reveal_mass p)"
    and reveal: "reveal_shape_mass sl cs (cr_redeem_script p) (cr_commit_spk p) ts (rc_commit_amount cfg) = Inr (cr_reveal_mass p)"
    and eqs: "cr_commit_inputs p = fc_inputs fc" "cr_commit_change p = fc_change fc" "cr_commit_fee p = fc_fee fc"
      "cr_commit_mass p = fc_mass fc"
  from fund obtain n where n: "0 < n" "n \<le> length us"
    and stop: "fund_attempt_at cs (take n (sort_utxos_desc us)) (cr_commit_spk p) ts (rc_commit_amount cfg) (rc_fee_policy cfg) = FundStop (Inr fc)"
    by (rule fund_commitE)
  have "mset (take n (sort_utxos_desc us)) \<subseteq># mset us"
    by (metis append_take_drop_id mset_append mset_sort mset_subset_eq_add_left sort_utxos_desc_def)
  moreover have "take n (sort_utxos_desc us) \<noteq> []" using n by (simp add: sort_utxos_desc_def) (metis length_0_conv length_sort less_le_trans not_less0)
  moreover from stop have "fc_inputs fc = take n (sort_utxos_desc us)"
      "utxo_sum (fc_inputs fc) = rc_commit_amount cfg + fc_change fc + fc_fee fc"
      "fc_change fc = 0 \<or> \<not> is_change_dust cs (fc_change fc) ts"
      "0 < fc_change fc \<Longrightarrow> fc_fee fc = policy_commit_fee (rc_fee_policy cfg) (fc_mass fc)"
      "commit_mass cs (fc_inputs fc) (cr_commit_spk p) (rc_commit_amount cfg) ts
        (if fc_change fc = 0 then 0 else utxo_sum (fc_inputs fc) - rc_commit_amount cfg) = Inr (fc_mass fc)"
    by (auto elim!: fund_attempt_StopE)
  moreover from this(4) have "rc_fee_policy cfg = Adaptive rate \<longrightarrow> cr_reveal_fee p = fee_for rate (cr_reveal_mass p) \<and>
      (0 < fc_change fc \<longrightarrow> fc_fee fc = fee_for rate (fc_mass fc))" for rate
    using fee by simp
  ultimately show ?thesis using reveal_return_Inr[OF ret] fits reveal unfolding eqs by metis
qed

section \<open>Replaying a plan with its frozen fees\<close>

lemma sat_add_u64_mono: "a \<le> b \<Longrightarrow> sat_add_u64 c a \<le> sat_add_u64 c b"
  by (simp add: sat_add_u64_def)

lemma utxo_sum_take: "utxo_sum (take n us) \<le> utxo_sum us"
  by (metis append_take_drop_id le_add1 map_append sum_list.append)

text \<open>The attempt that succeeded under a live rate succeeds with the fee it settled on.\<close>

lemma fund_attempt_replay:
  assumes "fund_attempt_at cs inputs spk ts amount policy = FundStop (Inr fc)" and "utxo_sum inputs \<le> u64_max"
  shows "fund_attempt_at cs inputs spk ts amount (Frozen (fc_fee fc) rf) = FundStop (Inr fc)"
  using assms(1)
proof (rule fund_attempt_StopE)
  fix gross
  assume A: "amount < utxo_sum inputs" "commit_mass cs inputs spk amount ts (utxo_sum inputs - amount) = Inr gross"
    "fc_inputs fc = inputs" and bal: "utxo_sum inputs = amount + fc_change fc + fc_fee fc"
    and C: "fc_change fc = 0 \<and> commit_mass cs inputs spk amount ts 0 = Inr (fc_mass fc) \<and>
       (utxo_sum inputs - amount = policy_commit_fee policy gross \<or>
        is_change_dust cs (utxo_sum inputs - amount - policy_commit_fee policy gross) ts) \<or>
     0 < fc_change fc \<and> fc_fee fc = policy_commit_fee policy gross \<and> fc_mass fc = gross \<and>
       \<not> is_change_dust cs (fc_change fc) ts"
  have no_widen: "\<not> utxo_sum inputs < sat_add_u64 amount (fc_fee fc)" using bal by (simp add: sat_add_u64_def)
  have change: "utxo_sum inputs - amount - fc_fee fc = fc_change fc" "\<not> utxo_sum inputs - amount < fc_fee fc"
    using bal by auto
  from C show ?thesis
  proof
    assume "fc_change fc = 0 \<and> commit_mass cs inputs spk amount ts 0 = Inr (fc_mass fc) \<and>
       (utxo_sum inputs - amount = policy_commit_fee policy gross \<or>
        is_change_dust cs (utxo_sum inputs - amount - policy_commit_fee policy gross) ts)"
    then show ?thesis using A no_widen change bal by (simp add: fund_attempt_at_def Let_def)
  next
    assume "0 < fc_change fc \<and> fc_fee fc = policy_commit_fee policy gross \<and> fc_mass fc = gross \<and>
       \<not> is_change_dust cs (fc_change fc) ts"
    then show ?thesis using A no_widen change by (simp add: fund_attempt_at_def Let_def)
  qed
qed

text \<open>A prefix that was too small stays too small for a fee at least as high.\<close>

lemma fund_attempt_widen_replay:
  assumes "fund_attempt_at cs inputs spk ts amount (Adaptive rate) = FundWiden"
    and "\<And>m. amount < utxo_sum inputs \<Longrightarrow>
      commit_mass cs inputs spk amount ts (utxo_sum inputs - amount) = Inr m \<Longrightarrow> fee_for rate m \<le> f"
  shows "fund_attempt_at cs inputs spk ts amount (Frozen f rf) = FundWiden"
proof (cases "utxo_sum inputs \<le> amount")
  case False
  with assms(1) obtain m where m: "commit_mass cs inputs spk amount ts (utxo_sum inputs - amount) = Inr m"
    and w: "utxo_sum inputs < sat_add_u64 amount (fee_for rate m)"
    by (auto simp: fund_attempt_at_def Let_def split: sum.splits if_splits)
  have "fee_for rate m \<le> f" using assms(2)[OF _ m] False by simp
  from w sat_add_u64_mono[OF this, of amount] have "utxo_sum inputs < sat_add_u64 amount f" by linarith
  with m False show ?thesis by (simp add: fund_attempt_at_def Let_def)
qed (simp add: fund_attempt_at_def)

text \<open>
  Crash recovery re-plans a transfer with the fees frozen at its first plan.  On the same
  coins the replay rebuilds exactly the plan that was recorded, provided no smaller set of coins
  that was rejected for its fee would have owed more than the frozen fee.
\<close>

theorem frozen_replay_exact:
  assumes "plan_commit_reveal sl cs us ts pk tr \<lparr>rc_commit_amount = amount, rc_fee_policy = Adaptive rate\<rparr> = Inr p"
    and "\<And>n m. 0 < n \<Longrightarrow> n < length (cr_commit_inputs p) \<Longrightarrow> amount < utxo_sum (take n (sort_utxos_desc us)) \<Longrightarrow>
      commit_mass cs (take n (sort_utxos_desc us)) (cr_commit_spk p) amount ts
        (utxo_sum (take n (sort_utxos_desc us)) - amount) = Inr m \<Longrightarrow> fee_for rate m \<le> cr_commit_fee p"
  shows "plan_commit_reveal sl cs us ts pk tr
    \<lparr>rc_commit_amount = amount, rc_fee_policy = Frozen (cr_commit_fee p) (cr_reveal_fee p)\<rparr> = Inr p"
proof -
  from assms(1) obtain fc where P: "build_transfer_inscription sl pk tr = Inr (cr_redeem_script p)"
      "cr_commit_spk p = commit_script_public_key sl (cr_redeem_script p)"
      "reveal_shape_mass sl cs (cr_redeem_script p) (cr_commit_spk p) ts amount = Inr (cr_reveal_mass p)"
      "fits_independently (cr_reveal_mass p) (cs_block_mass_limit cs)"
      "reveal_return amount (cr_reveal_fee p) = Inr (cr_reveal_return p)"
      "fits_independently (fc_mass fc) (cs_block_mass_limit cs)" "cr_commit_amount p = amount"
    and fund: "fund_commit cs us (cr_commit_spk p) ts amount (Adaptive rate) = Inr fc"
    and eqs: "cr_commit_inputs p = fc_inputs fc" "cr_commit_change p = fc_change fc" "cr_commit_fee p = fc_fee fc"
      "cr_commit_mass p = fc_mass fc"
    by (rule plan_commit_revealE) simp
  let ?at = "\<lambda>pol n. fund_attempt_at cs (take n (sort_utxos_desc us)) (cr_commit_spk p) ts amount pol"
  let ?frozen = "Frozen (fc_fee fc) (cr_reveal_fee p)"
  from fund obtain n where n: "0 < n" "n \<le> length us" and cap: "utxo_sum us \<le> u64_max"
    and stop: "?at (Adaptive rate) n = FundStop (Inr fc)"
    and widen: "\<And>i. 0 < i \<Longrightarrow> i < n \<Longrightarrow> ?at (Adaptive rate) i = FundWiden"
    by (rule fund_commitE) auto
  have sorted: "utxo_sum (sort_utxos_desc us) = utxo_sum us" "length (sort_utxos_desc us) = length us"
    by (simp_all add: sort_utxos_desc_def flip: sum_mset_sum_list)
  have len: "length (cr_commit_inputs p) = n" using stop n sorted(2) by (auto simp: eqs elim!: fund_attempt_StopE)
  have "utxo_sum (take n (sort_utxos_desc us)) \<le> u64_max"
    using utxo_sum_take[of n "sort_utxos_desc us"] cap by (simp add: sorted)
  then have "?at ?frozen n = FundStop (Inr fc)" by (intro fund_attempt_replay[OF stop])
  moreover have "?at ?frozen i = FundWiden" if "0 < i" "i < n" for i
    using widen[OF that] assms(2)[of i] that by (intro fund_attempt_widen_replay) (simp_all add: len[unfolded eqs] eqs)
  ultimately have "fund_loop cs (sort_utxos_desc us) (cr_commit_spk p) ts amount ?frozen 1 = Some (Inr fc)"
    unfolding fund_loop_Some_iff using n sorted(2) by (intro exI[of _ n]) (simp add: Suc_le_eq)
  then have "fund_commit cs us (cr_commit_spk p) ts amount ?frozen = Inr fc"
    using cap by (simp add: fund_commit_def sorted)
  with P show ?thesis by (simp add: plan_commit_reveal_def eqs)
qed

text \<open>A script library that concatenates, and a consensus library with a storage mass in the style of KIP-9.\<close>

definition sample_scripts :: script_lib where
  "sample_scripts = \<lparr>sl_add_data = (\<lambda>d s. Inr (s @ d)), sl_add_op = (\<lambda>c s. Inr (s @ [c])), sl_add_i64 = (\<lambda>_ s. Inr (s @ [0])),
     sl_p2sh = (\<lambda>r. 170 # r), sl_p2sh_address = (\<lambda>_ prefix. Inr (prefix @ ''p'')), sl_p2sh_sig_script = (\<lambda>r sig. Inr (sig @ r)),
     sl_json = (\<lambda>_. Inr [123, 125])\<rparr>"

definition sample_op :: krc20_op where
  "sample_op = Krc20Transfer_new ''NACHO'' ''5'' ''kaspa:q''"

lemmas plan_eval = plan_commit_reveal_def build_transfer_inscription_def sample_scripts_def commit_script_public_key_def
  reveal_shape_mass_def reveal_signature_script_def plan_tx_def evaluate_populated_def kip9_consensus_def
  fits_independently_def reveal_return_def MIN_PAYOUT_OUTPUT_SOMPI_def fund_commit_def sort_utxos_desc_def
  fund_attempt_at_def commit_mass_def sample_coin_def sat_add_u64_def is_change_dust_def
  MIN_RELAY_TX_FEE_SOMPI_PER_KG_def DUST_INPUT_SERIALIZED_SIZE_def fund_loop.simps Let_def

definition sample_plan :: "nat \<Rightarrow> krc20_fee_policy \<Rightarrow> plan_error + planned_commit_reveal" where
  "sample_plan small policy = plan_commit_reveal sample_scripts kip9_consensus
     [sample_coin 0 small, sample_coin 1 20000000] [] [] sample_op \<lparr>rc_commit_amount = 20000000, rc_fee_policy = policy\<rparr>"

lemma sample_fees:
  "fee_for (from_feerate (Fin 20)) \<lparr>compute_mass = 2000, storage_mass = 50000, transient_mass = 3000\<rparr> = 1000000"
  "fee_for (from_feerate (Fin 20)) \<lparr>compute_mass = 2000, storage_mass = 300000, transient_mass = 3000\<rparr> = 6000000"
  "fee_for (from_feerate (Fin 20)) \<lparr>compute_mass = 2000, storage_mass = 91666, transient_mass = 3000\<rparr> = 1833320"
  "fee_for (from_feerate (Fin 20)) \<lparr>compute_mass = 2000, storage_mass = 83333, transient_mass = 3000\<rparr> = 1666660"
  by (simp_all add: fee_for_def from_feerate_def effective_def f64_of_int_def f64_round_simps Let_def f64_min_def
      minimum_relay_fee_def MIN_RELAY_TX_FEE_SOMPI_PER_KG_def sat_mul_u64_def f64_is_finite_def f64_lt_def
      f64_eq_def trunc_rat_def)

theorem plan_commit_reveal_balances_witness:
  "\<exists>p. plan_commit_reveal sample_scripts kip9_consensus [sample_coin 0 50000000, sample_coin 1 20000000] [] [] sample_op
       \<lparr>rc_commit_amount = 20000000, rc_fee_policy = Frozen 1000 2000\<rparr> = Inr p \<and>
     cr_commit_inputs p = [sample_coin 0 50000000] \<and> cr_commit_change p = 29999000 \<and>
     utxo_sum (cr_commit_inputs p) = 20000000 + cr_commit_change p + cr_commit_fee p \<and> cr_reveal_return p = 19998000"
proof -
  obtain p where p: "plan_commit_reveal sample_scripts kip9_consensus [sample_coin 0 50000000, sample_coin 1 20000000] [] [] sample_op
       \<lparr>rc_commit_amount = 20000000, rc_fee_policy = Frozen 1000 2000\<rparr> = Inr p"
    and "cr_commit_inputs p = [sample_coin 0 50000000] \<and> cr_commit_change p = 29999000 \<and> cr_reveal_return p = 19998000"
    by (simp add: plan_eval)
  with plan_commit_reveal_balances[OF p] show ?thesis by auto
qed

theorem frozen_replay_exact_witness:
  "\<exists>p. sample_plan 50000000 (Adaptive (from_feerate (Fin 20))) = Inr p \<and> cr_commit_fee p = 1666660 \<and>
     sample_plan 50000000 (Frozen 1666660 (cr_reveal_fee p)) = Inr p"
proof -
  obtain p where p: "sample_plan 50000000 (Adaptive (from_feerate (Fin 20))) = Inr p"
    and fee: "cr_commit_fee p = 1666660" and one: "cr_commit_inputs p = [sample_coin 0 50000000]"
    by (simp add: sample_plan_def plan_eval sample_fees)
  have "sample_plan 50000000 (Frozen (cr_commit_fee p) (cr_reveal_fee p)) = Inr p"
    unfolding sample_plan_def by (rule frozen_replay_exact[OF p[unfolded sample_plan_def]]) (simp add: one)
  with p fee show ?thesis by auto
qed

text \<open>
  The proviso is needed.  A coin whose change would be small owes a high fee for its storage
  mass, so the first plan takes two coins at a low fee; with that fee frozen the first coin alone
  is enough, and on unchanged coins the replay plans a different commit transaction.
\<close>

theorem frozen_replay_drifts:
  "\<exists>p p'. sample_plan 24000000 (Adaptive (from_feerate (Fin 20))) = Inr p \<and>
     cr_commit_inputs p = [sample_coin 0 24000000, sample_coin 1 20000000] \<and>
     sample_plan 24000000 (Frozen (cr_commit_fee p) (cr_reveal_fee p)) = Inr p' \<and>
     cr_commit_inputs p' = [sample_coin 0 24000000]"
proof -
  obtain p where p: "sample_plan 24000000 (Adaptive (from_feerate (Fin 20))) = Inr p"
    and "cr_commit_inputs p = [sample_coin 0 24000000, sample_coin 1 20000000]"
    and "cr_commit_fee p = 1833320" "cr_reveal_fee p = 1000000"
    by (simp add: sample_plan_def plan_eval sample_fees)
  moreover obtain p' where "sample_plan 24000000 (Frozen 1833320 1000000) = Inr p'"
    and "cr_commit_inputs p' = [sample_coin 0 24000000]"
    by (simp add: sample_plan_def plan_eval)
  ultimately show ?thesis by metis
qed

end
