(* ===== verification/Krc20_Cycle.thy ===== *)
theory Krc20_Cycle
  imports Krc20_Plan Payout_Cycle Accounting_Repo
begin

text \<open>
  The database half of the NACHO payouts, \<open>payout-krc20/src/cycle.rs\<close>: planning a cycle from the
  pending rebates, resuming it, crediting completed transfers, giving up on a transfer, and the
  status fold.  The answer of the price source is an argument, fetched before the planning
  transaction opens.

  The books of the rebate scheme are an invariant of all of them: what was credited to a wallet
  is exactly the sum of its confirmed token payouts, and with the open ones it never exceeds what
  the wallet accrued.  From it follow that crediting can neither happen twice nor be refused.
\<close>

section \<open>Model\<close>

datatype krc20_cycle_error =
    KcDb db_error
  | KcQuote quote_error
  | KcRebate rebate_error
  | KcInscription inscription_error
  | KcAmountTooLarge int nat
  | KcCommitAmount nat

definition DEFAULT_CYCLE_LIMIT :: int where "DEFAULT_CYCLE_LIMIT = 1000"

record krc20_cycle_params =
  kq_daa_start :: nat
  kq_daa_end :: nat
  kq_min_pending :: int
  kq_min_nacho :: nat
  kq_ticker :: string
  kq_commit_amount :: nat
  kq_limit :: int

definition Krc20CycleParams_new :: "nat \<Rightarrow> nat \<Rightarrow> krc20_cycle_params" where
  "Krc20CycleParams_new daa_start daa_end =
     \<lparr>kq_daa_start = daa_start, kq_daa_end = daa_end, kq_min_pending = DEFAULT_MIN_PENDING_SOMPI,
      kq_min_nacho = DEFAULT_MIN_NACHO_BASE_UNITS, kq_ticker = ''NACHO'',
      kq_commit_amount = DEFAULT_COMMIT_AMOUNT_SOMPI, kq_limit = DEFAULT_CYCLE_LIMIT\<rparr>"

record krc20_cycle_state =
  ks_cycle :: payout_cycle
  ks_transfers :: "krc20_transfer list"

type_synonym ('z, 'a) kc_act = "('z pool_db_scheme, krc20_cycle_error, 'a) act"

abbreviation kcdb :: "('z, 'a) db_act \<Rightarrow> ('z, 'a) kc_act" where
  "kcdb m \<equiv> map_err KcDb m"

definition count_transfer :: "payout_status_counts \<Rightarrow> krc20_transfer \<Rightarrow> payout_status_counts" where
  "count_transfer c k = (case kt_status k of
      KPending \<Rightarrow> c\<lparr>ct_pending := ct_pending c + 1\<rparr>
    | CommitSubmitted \<Rightarrow> c\<lparr>ct_in_flight := ct_in_flight c + 1\<rparr>
    | RevealSubmitted \<Rightarrow> c\<lparr>ct_in_flight := ct_in_flight c + 1\<rparr>
    | Completed \<Rightarrow> c\<lparr>ct_confirmed := ct_confirmed c + 1\<rparr>
    | KFailed \<Rightarrow> c\<lparr>ct_failed := ct_failed c + 1\<rparr>)"

definition counts_from_transfers :: "krc20_transfer list \<Rightarrow> payout_status_counts" where
  "counts_from_transfers ks = foldl count_transfer
     \<lparr>ct_total = length ks, ct_pending = 0, ct_in_flight = 0, ct_confirmed = 0, ct_failed = 0\<rparr> ks"

definition krc20_derived_status :: "krc20_cycle_state \<Rightarrow> payout_cycle_status" where
  "krc20_derived_status st = derive_cycle_status (counts_from_transfers (ks_transfers st))"

text \<open>One eligible wallet of the planning loop.\<close>

definition plan_recipient ::
  "script_lib \<Rightarrow> bytes \<Rightarrow> string \<Rightarrow> krc20_cycle_params \<Rightarrow> floor_price \<Rightarrow> int \<Rightarrow> int \<Rightarrow>
   int \<times> int \<times> nat \<Rightarrow> krc20_eligible_wallet \<Rightarrow> ('z, int \<times> int \<times> nat) kc_act" where
  "plan_recipient sl xonly prefix params price commit_amount cid acc w =
     (case acc of (total_sompi, recipients, planned) \<Rightarrow>
      bindE (map_err KcRebate (lift_sum (nacho_base_units (ke_pending w) price))) (\<lambda>nacho.
      if \<not> is_payable nacho (kq_min_nacho params) then ret acc
      else if i64_max < int nacho then raise (KcAmountTooLarge (ke_wallet w) nacho)
      else
        bindE (map_err KcInscription (lift_sum (build_transfer_inscription sl xonly
          (Krc20Transfer_new (kq_ticker params) (show_nat nacho) (ke_address w))))) (\<lambda>redeem.
        bindE (map_err KcInscription (lift_sum (commit_address sl redeem prefix))) (\<lambda>p2sh.
        bindE (kcdb (ensure_payout cid (ke_wallet w) (ke_pending w))) (\<lambda>payout.
        bindE (kcdb (ensure_krc20_pending (po_id payout) commit_amount (int nacho) p2sh)) (\<lambda>_.
        ret (sat_add_i64 total_sompi (ke_pending w), sat_add_i32 recipients 1, planned + 1)))))))"

text \<open>The body of the planning transaction.\<close>

definition plan_krc20_body ::
  "script_lib \<Rightarrow> bytes \<Rightarrow> string \<Rightarrow> krc20_cycle_params \<Rightarrow> floor_price \<Rightarrow> int \<Rightarrow> ('z, payout_cycle) kc_act" where
  "plan_krc20_body sl xonly prefix params price commit_amount =
     bindE (kcdb (create_cycle Krc20Nacho (kq_daa_start params) (kq_daa_end params))) (\<lambda>cycle.
     bindE (kcdb (list_krc20_eligible_wallets (kq_min_pending params) (kq_limit params))) (\<lambda>eligible.
     bindE (foldE (plan_recipient sl xonly prefix params price commit_amount (pc_id cycle)) (0, 0, 0) eligible)
       (\<lambda>(total_sompi, recipients, planned).
     bindE (kcdb (set_cycle_totals (pc_id cycle) total_sompi recipients)) (\<lambda>_.
     bindE (kcdb (audit_append ''payout-krc20'' ''krc20_cycle.plan'' (''payout_cycle'', pc_id cycle))) (\<lambda>_.
     ret cycle)))))"

definition plan_krc20_cycle ::
  "quote_error + floor_price \<Rightarrow> script_lib \<Rightarrow> bytes \<Rightarrow> string \<Rightarrow> krc20_cycle_params \<Rightarrow> ('z, krc20_cycle_state) kc_act" where
  "plan_krc20_cycle quote sl xonly prefix params =
     bindE (map_err KcQuote (lift_sum quote)) (\<lambda>price.
     case i64_try_from_u64 (kq_commit_amount params) of
       None \<Rightarrow> raise (KcCommitAmount (kq_commit_amount params))
     | Some commit_amount \<Rightarrow>
         bindE (transaction (plan_krc20_body sl xonly prefix params price commit_amount) KcDb) (\<lambda>cycle.
         bindE (kcdb (get_cycle (pc_id cycle))) (\<lambda>cycle.
         bindE (kcdb (list_krc20_for_cycle (pc_id cycle))) (\<lambda>transfers.
         ret \<lparr>ks_cycle = cycle, ks_transfers = transfers\<rparr>))))"

definition resume_or_plan_krc20_cycle ::
  "quote_error + floor_price \<Rightarrow> script_lib \<Rightarrow> bytes \<Rightarrow> string \<Rightarrow> krc20_cycle_params \<Rightarrow> ('z, krc20_cycle_state) kc_act" where
  "resume_or_plan_krc20_cycle quote sl xonly prefix params =
     bindE (kcdb (find_cycle_by_idempotency_key
       (idempotency_key Krc20Nacho (kq_daa_start params) (kq_daa_end params)))) (\<lambda>found.
     case found of
       Some cycle \<Rightarrow>
         bindE (kcdb (list_krc20_for_cycle (pc_id cycle))) (\<lambda>transfers.
         bindE (kcdb (audit_append ''payout-krc20'' ''krc20_cycle.resume'' (''payout_cycle'', pc_id cycle))) (\<lambda>_.
         ret \<lparr>ks_cycle = cycle, ks_transfers = transfers\<rparr>))
     | None \<Rightarrow> plan_krc20_cycle quote sl xonly prefix params)"

record credit_report =
  rp_credited :: nat
  rp_already_credited :: nat
  rp_paid_sompi :: int

definition default_credit_report :: credit_report where
  "default_credit_report = \<lparr>rp_credited = 0, rp_already_credited = 0, rp_paid_sompi = 0\<rparr>"

text \<open>
  The crediting transaction of one transfer.  A guard that does not fire is rolled back: nothing
  was written, and the statement's answer is \<open>False\<close>.
\<close>

definition credit_body :: "payout \<Rightarrow> int \<Rightarrow> ('z, bool) db_act" where
  "credit_body p pid =
     bindE (confirm_krc20_payout_once pid) (\<lambda>fired.
     if fired then
       bindE (rebate_mark_paid (po_wallet p) (po_amount p)) (\<lambda>_.
       bindE (audit_append ''payout-krc20'' ''krc20.credit'' (''payout'', pid)) (\<lambda>_. ret True))
     else ret False)"

definition credit_transfer :: "credit_report \<Rightarrow> krc20_transfer \<Rightarrow> ('z, credit_report) kc_act" where
  "credit_transfer report k =
     bindE (kcdb (get_payout (kt_payout k))) (\<lambda>p.
     bindE (kcdb (transaction (credit_body p (kt_payout k)) id)) (\<lambda>fired.
     ret (if fired
          then report\<lparr>rp_credited := rp_credited report + 1,
                 rp_paid_sompi := sat_add_i64 (rp_paid_sompi report) (po_amount p)\<rparr>
          else report\<lparr>rp_already_credited := rp_already_credited report + 1\<rparr>)))"

definition credit_completed_transfers :: "int \<Rightarrow> ('z, credit_report) kc_act" where
  "credit_completed_transfers lmt =
     bindE (kcdb (list_krc20_by_status [Completed] lmt)) (\<lambda>completed.
     foldE credit_transfer default_credit_report completed)"

definition fail_krc20_transfer :: "int \<Rightarrow> string \<Rightarrow> ('z, unit) kc_act" where
  "fail_krc20_transfer pid reason =
     kcdb (transaction
       (bindE (mark_krc20_failed pid) (\<lambda>_.
        bindE (mark_payout_failed pid reason) (\<lambda>_.
        bindE (audit_append ''payout-krc20'' ''krc20.fail'' (''payout'', pid)) (\<lambda>_. ret ())))) id)"

definition reconcile_krc20_cycle_status :: "int \<Rightarrow> ('z, payout_cycle_status) kc_act" where
  "reconcile_krc20_cycle_status cid =
     bindE (kcdb (list_krc20_for_cycle cid)) (\<lambda>transfers.
     let derived = derive_cycle_status (counts_from_transfers transfers)
     in bindE (kcdb (transaction
          (seqE (persist_cycle_status cid derived)
                (audit_append ''payout-krc20'' ''krc20_cycle.reconcile'' (''payout_cycle'', cid))) id))
        (\<lambda>_. ret derived))"

section \<open>The books of the rebate scheme\<close>

definition krc20_row :: "'z pool_db_scheme \<Rightarrow> payout \<Rightarrow> bool" where
  "krc20_row s p \<longleftrightarrow> kind_of (cycles s) p = Some Krc20Nacho"

definition wallet_total :: "(payout \<Rightarrow> bool) \<Rightarrow> payout list \<Rightarrow> wallet_id \<Rightarrow> int" where
  "wallet_total Q ps w = sum_list (map po_amount (filter (\<lambda>p. po_wallet p = w \<and> Q p) ps))"

text \<open>What was credited to a wallet, and what is promised to it.\<close>

definition credited_sompi :: "'z pool_db_scheme \<Rightarrow> wallet_id \<Rightarrow> int" where
  "credited_sompi s w = wallet_total (\<lambda>p. krc20_row s p \<and> po_status p = Confirmed) (payouts s) w"

lemma open_krc20_sompi_eq:
  "open_krc20_sompi s w = wallet_total (\<lambda>p. krc20_row s p \<and> po_status p \<notin> {Failed, Confirmed}) (payouts s) w"
  unfolding open_krc20_sompi_def wallet_total_def krc20_row_def kind_of_def
  by (intro arg_cong[of _ _ sum_list] arg_cong[of _ _ "map po_amount"] filter_cong) (auto split: option.splits)

text \<open>A failed payout has given up its transfer; a confirmed one has completed it.\<close>

definition coupled :: "payout \<Rightarrow> krc20_transfer \<Rightarrow> bool" where
  "coupled p k \<longleftrightarrow> (po_status p = Failed \<longrightarrow> kt_status k = KFailed) \<and> (po_status p = Confirmed \<longrightarrow> kt_status k = Completed)"

definition transfers_ok :: "'z pool_db_scheme \<Rightarrow> bool" where
  "transfers_ok s \<longleftrightarrow> distinct (map kt_payout (transfers s)) \<and>
     (\<forall>k \<in> set (transfers s). \<exists>p \<in> set (payouts s). po_id p = kt_payout k \<and> krc20_row s p \<and> coupled p k) \<and>
     (\<forall>p \<in> set (payouts s). krc20_row s p \<longrightarrow>
        po_id p \<in> kt_payout ` set (transfers s) \<and> po_wallet p \<in> nr_wallet ` set (rebates s))"

definition ledger_ok :: "'z pool_db_scheme \<Rightarrow> bool" where
  "ledger_ok s \<longleftrightarrow> (\<forall>r \<in> set (rebates s). nr_paid r = credited_sompi s (nr_wallet r) \<and>
     credited_sompi s (nr_wallet r) + open_krc20_sompi s (nr_wallet r) \<le> nr_accrued r)"

definition krc20_key_ok :: "payout_cycle \<Rightarrow> bool" where
  "krc20_key_ok c \<longleftrightarrow> (\<forall>a b. pc_key c = idempotency_key Krc20Nacho a b \<longrightarrow> pc_kind c = Krc20Nacho)"

definition krc20_keys_ok :: "'z pool_db_scheme \<Rightarrow> bool" where
  "krc20_keys_ok s \<longleftrightarrow> (\<forall>c \<in> set (cycles s). krc20_key_ok c)"

definition krc20_books :: "'z pool_db_scheme \<Rightarrow> bool" where
  "krc20_books s \<longleftrightarrow> payout_db_ok s \<and> rebates_ok s \<and> krc20_keys_ok s \<and> transfers_ok s \<and> ledger_ok s"

lemmas books_defs = krc20_books_def transfers_ok_def ledger_ok_def krc20_keys_ok_def credited_sompi_def
  open_krc20_sompi_eq krc20_row_def

lemma krc20_books_inv [simp]: "db_inv krc20_books"
  by (simp add: db_inv_def books_defs payout_db_ok_def rebates_ok_def)

text \<open>The books look at the tables of payouts, transfers and rebates, and at the kinds of the cycles.\<close>

lemma books_frame:
  assumes "krc20_books s" and "payout_db_ok t" and "krc20_keys_ok t"
    and "payouts t = payouts s" and "transfers t = transfers s" and "rebates t = rebates s"
    and "\<And>p. p \<in> set (payouts s) \<Longrightarrow> kind_of (cycles t) p = kind_of (cycles s) p"
  shows "krc20_books t"
proof -
  have row: "krc20_row t p = krc20_row s p" if "p \<in> set (payouts s)" for p
    using assms(7)[OF that] by (simp add: krc20_row_def)
  have tot: "wallet_total (\<lambda>p. krc20_row t p \<and> Q p) (payouts s) w = wallet_total (\<lambda>p. krc20_row s p \<and> Q p) (payouts s) w" for Q w
    unfolding wallet_total_def using row
    by (intro arg_cong[of _ _ sum_list] arg_cong[of _ _ "map po_amount"] filter_cong) auto
  have "credited_sompi t = credited_sompi s" "open_krc20_sompi t = open_krc20_sompi s"
    by (rule ext, simp add: credited_sompi_def open_krc20_sompi_eq assms(4) tot)+
  then show ?thesis
    using assms(1-3) row by (auto simp: krc20_books_def ledger_ok_def transfers_ok_def rebates_ok_def assms(4-6))
qed

lemma kind_of_update_where:
  "(\<And>c. pc_id (f c) = pc_id c \<and> pc_kind (f c) = pc_kind c) \<Longrightarrow> kind_of (update_where P f cs) p = kind_of cs p"
  by (induction cs) (auto simp: kind_of_def cycle_of_def update_where_def)

lemma kind_of_append: "po_cycle p \<in> pc_id ` set cs \<Longrightarrow> kind_of (cs @ ds) p = kind_of cs p"
  by (induction cs) (auto simp: kind_of_def cycle_of_def)

lemma books_update_cycle:
  assumes "\<And>t c. pc_id (f t c) = pc_id c \<and> pc_key (f t c) = pc_key c \<and> pc_kind (f t c) = pc_kind c"
  shows "preserves krc20_books (update_cycle cid P f :: ('z, unit) db_act)"
proof (rule preservesI)
  fix s :: "'z pool_db_scheme" assume b: "krc20_books s"
  let ?t = "snd (update_cycle cid P f s)"
  have ok: "payout_db_ok ?t"
    using b assms by (intro preservesD[OF preserves_update_cycle]) (auto simp: krc20_books_def)
  have cyc: "cycles ?t = cycles s \<or> (\<exists>R. cycles ?t = update_where R (f (now s)) (cycles s))"
    and same: "payouts ?t = payouts s" "transfers ?t = transfers s" "rebates ?t = rebates s"
    by (auto simp: update_cycle_def sql_def Let_def)
  show "krc20_books ?t"
  proof (rule books_frame[OF b ok _ same])
    have "krc20_key_ok (f (now s) c) = krc20_key_ok c" for c by (simp add: krc20_key_ok_def assms)
    then show "krc20_keys_ok ?t" using b cyc by (auto simp: krc20_books_def krc20_keys_ok_def in_update_where)
    show "kind_of (cycles ?t) p = kind_of (cycles s) p" for p
      using cyc kind_of_update_where[of "f (now s)"] assms by metis
  qed
qed

lemma books_mark_cycle:
  "preserves krc20_books (mark_cycle_broadcasting cid)" "preserves krc20_books (mark_cycle_partially_settled cid)"
  "preserves krc20_books (mark_cycle_settled cid)" "preserves krc20_books (mark_cycle_failed cid)"
  "preserves krc20_books (set_cycle_totals cid a n)"
  unfolding mark_cycle_broadcasting_def mark_cycle_partially_settled_def mark_cycle_settled_def
    mark_cycle_failed_def set_cycle_totals_def
  by (intro books_update_cycle; simp)+

lemma idempotency_key_kind: "idempotency_key k a b = idempotency_key k' a' b' \<Longrightarrow> k = k'"
  using split_at_dash[OF _ kind_prefix_props(1)[of k] kind_prefix_props(1)[of k']]
  by (auto simp: idempotency_key_def kind_prefix_props)

lemma books_create_cycle: "preserves krc20_books (create_cycle kind a b :: ('z, payout_cycle) db_act)"
proof (rule preservesI)
  fix s :: "'z pool_db_scheme" assume bk: "krc20_books s"
  let ?t = "snd (create_cycle kind a b s)"
  have ok: "payout_db_ok ?t" using bk by (intro preservesD[OF preserves_create_cycle]) (simp add: krc20_books_def)
  have cyc: "cycles ?t = cycles s \<or> (\<exists>c. cycles ?t = cycles s @ [c] \<and> pc_key c = idempotency_key kind a b \<and> pc_kind c = kind)"
    and same: "payouts ?t = payouts s" "transfers ?t = transfers s" "rebates ?t = rebates s"
    by (auto simp: create_cycle_def sql_def Let_def split: option.split)
  show "krc20_books ?t"
  proof (rule books_frame[OF bk ok _ same])
    have "krc20_key_ok c" if "pc_key c = idempotency_key kind a b" "pc_kind c = kind" for c
      unfolding krc20_key_ok_def using that idempotency_key_kind by metis
    then show "krc20_keys_ok ?t" using bk cyc by (auto simp: krc20_books_def krc20_keys_ok_def)
    show "kind_of (cycles ?t) p = kind_of (cycles s) p" if "p \<in> set (payouts s)" for p
      using cyc kind_of_append[of p "cycles s"] bk that by (auto simp: krc20_books_def payout_db_ok_def)
  qed
qed

section \<open>Moving one payout\<close>

lemma wallet_total_Cons:
  "wallet_total Q (p # ps) w = (if po_wallet p = w \<and> Q p then po_amount p else 0) + wallet_total Q ps w"
  by (simp add: wallet_total_def)

lemma wallet_total_append: "wallet_total Q (ps @ qs) w = wallet_total Q ps w + wallet_total Q qs w"
  by (simp add: wallet_total_def)

lemma wallet_total_cong:
  "(\<And>p. p \<in> set ps \<Longrightarrow> Q p = R p) \<Longrightarrow> wallet_total Q ps w = wallet_total R ps w"
  unfolding wallet_total_def
  by (intro arg_cong[of _ _ sum_list] arg_cong[of _ _ "map po_amount"] filter_cong) auto

lemma wallet_total_map:
  assumes "\<And>p. p \<in> set ps \<Longrightarrow> po_wallet (g p) = po_wallet p \<and> po_amount (g p) = po_amount p \<and> Q (g p) = R p"
  shows "wallet_total Q (map g ps) w = wallet_total R ps w"
  using assms by (induction ps) (auto simp: wallet_total_def)

lemma wallet_total_update:
  assumes "distinct (map po_id ps)" and "p \<in> set ps"
    and "po_wallet (f p) = po_wallet p" and "po_amount (f p) = po_amount p"
  shows "wallet_total Q (update_where (\<lambda>x. po_id x = po_id p) f ps) w = wallet_total Q ps w +
    (if po_wallet p = w then (if Q (f p) then po_amount p else 0) - (if Q p then po_amount p else 0) else 0)"
  using assms(1,2)
proof (induction ps)
  case (Cons x xs)
  show ?case
  proof (cases "x = p")
    case True
    with Cons.prems have "update_where (\<lambda>x. po_id x = po_id p) f xs = xs"
      by (intro update_where_none) (auto simp: image_iff)
    with True assms(3,4) show ?thesis by (simp add: update_where_def wallet_total_Cons)
  next
    case False
    with Cons.prems have "po_id x \<noteq> po_id p" "p \<in> set xs" by (auto simp: rev_image_eqI)
    with Cons show ?thesis by (simp add: update_where_def wallet_total_Cons)
  qed
qed simp

text \<open>A guarded update of a row that passes the guard, by its primary key.\<close>

lemma update_where_guarded:
  assumes "distinct (map g xs)" and "x \<in> set xs" and "R x"
  shows "update_where (\<lambda>y. g y = g x \<and> R y) f xs = update_where (\<lambda>y. g y = g x) f xs"
  unfolding update_where_def using assms
  by (intro map_cong) (auto simp: distinct_map dest: inj_onD)

lemma same_key: "distinct (map g xs) \<Longrightarrow> x \<in> set xs \<Longrightarrow> y \<in> set xs \<Longrightarrow> g x = g y \<Longrightarrow> x = y"
  by (auto simp: distinct_map dest: inj_onD)

lemma kind_of_same_cycle: "po_cycle q = po_cycle p \<Longrightarrow> kind_of cs q = kind_of cs p"
  by (simp add: kind_of_def cycle_of_def)

text \<open>An update of payouts that changes neither key, owner, amount nor status.\<close>

lemma books_update_payout:
  assumes "\<And>t p. po_id (f t p) = po_id p \<and> po_cycle (f t p) = po_cycle p \<and> po_wallet (f t p) = po_wallet p \<and>
    po_amount (f t p) = po_amount p \<and> po_status (f t p) = po_status p"
  shows "preserves krc20_books (update_payout pid P f :: ('z, nat) db_act)"
proof (rule preservesI)
  fix s :: "'z pool_db_scheme" assume b: "krc20_books s"
  let ?t = "snd (update_payout pid P f s)"
  have ok: "payout_db_ok ?t"
    using b assms by (intro preservesD[OF preserves_update_payout]) (auto simp: krc20_books_def)
  obtain g where g: "payouts ?t = map g (payouts s)"
    and keep: "\<And>p. po_id (g p) = po_id p \<and> po_cycle (g p) = po_cycle p \<and> po_wallet (g p) = po_wallet p \<and>
      po_amount (g p) = po_amount p \<and> po_status (g p) = po_status p"
  proof
    let ?g = "\<lambda>p. if payouts ?t = payouts s then p else if po_id p = pid \<and> P p then f (now s) p else p"
    show "payouts ?t = map ?g (payouts s)"
    proof (cases "payouts ?t = payouts s")
      case False
      then show ?thesis
        by (subst if_not_P[OF False]) (auto simp: update_payout_def sql_def Let_def update_where_def split: if_splits)
    qed simp
  qed (simp add: assms)
  have same: "cycles ?t = cycles s" "transfers ?t = transfers s" "rebates ?t = rebates s"
    by (auto simp: update_payout_def sql_def Let_def)
  have row: "krc20_row ?t (g p) = krc20_row s p" for p
    using keep[of p] by (simp add: krc20_row_def same kind_of_same_cycle[of "g p" p])
  have "credited_sompi ?t = credited_sompi s" "open_krc20_sompi ?t = open_krc20_sompi s"
    unfolding credited_sompi_def open_krc20_sompi_eq g
    by (rule ext, rule wallet_total_map, simp add: keep row)+
  moreover have "coupled (g p) k = coupled p k" for p k using keep[of p] by (simp add: coupled_def)
  ultimately show "krc20_books ?t"
    using b ok keep row
    by (simp add: krc20_books_def ledger_ok_def transfers_ok_def rebates_ok_def krc20_keys_ok_def same g)
qed

lemma books_record_hash:
  "preserves krc20_books (record_krc20_commit_hash pid h)" "preserves krc20_books (record_krc20_reveal_hash pid h)"
  unfolding record_krc20_commit_hash_def record_krc20_reveal_hash_def by (intro books_update_payout; simp)+

text \<open>An update of transfers that keeps them coupled to their payouts.\<close>

lemma books_update_transfer:
  assumes "\<And>k. kt_payout (f k) = kt_payout k" and "\<And>p k u. P k \<Longrightarrow> coupled p k \<Longrightarrow> coupled p ((f k)\<lparr>kt_updated_at := u\<rparr>)"
  shows "preserves krc20_books (update_transfer pid P f :: ('z, nat) db_act)"
proof (rule preservesI)
  fix s :: "'z pool_db_scheme" assume b: "krc20_books s"
  let ?t = "snd (update_transfer pid P f s)"
  have same: "cycles ?t = cycles s" "payouts ?t = payouts s" "rebates ?t = rebates s" "next_payout ?t = next_payout s"
    "next_cycle ?t = next_cycle s"
    by (auto simp: update_transfer_def sql_def Let_def)
  have row: "krc20_row ?t = krc20_row s" by (rule ext) (simp add: krc20_row_def same)
  obtain g where g: "transfers ?t = map g (transfers s)"
    and keep: "\<And>k. kt_payout (g k) = kt_payout k" "\<And>p k. coupled p k \<Longrightarrow> coupled p (g k)"
  proof
    let ?g = "\<lambda>k. if transfers ?t = transfers s then k
      else if kt_payout k = pid \<and> P k then (f k)\<lparr>kt_updated_at := now s\<rparr> else k"
    show "transfers ?t = map ?g (transfers s)"
    proof (cases "transfers ?t = transfers s")
      case False
      then show ?thesis
        by (subst if_not_P[OF False]) (auto simp: update_transfer_def sql_def Let_def update_where_def split: if_splits)
    qed simp
  qed (simp_all add: assms)
  have "credited_sompi ?t = credited_sompi s" "open_krc20_sompi ?t = open_krc20_sompi s"
    by (rule ext, simp add: credited_sompi_def open_krc20_sompi_eq row same)+
  moreover have "kt_payout \<circ> g = kt_payout" by (rule ext) (simp add: keep)
  then have "kt_payout ` g ` set (transfers s) = kt_payout ` set (transfers s)"
      "distinct (map (kt_payout \<circ> g) (transfers s)) = distinct (map kt_payout (transfers s))"
    by (simp_all add: image_comp)
  ultimately show "krc20_books ?t"
    using b keep
    by (simp add: krc20_books_def ledger_ok_def transfers_ok_def rebates_ok_def krc20_keys_ok_def payout_db_ok_def same g row)
      blast
qed

lemma books_mark_krc20:
  "preserves krc20_books (record_krc20_fees pid a b)" "preserves krc20_books (mark_krc20_commit_submitted pid)"
  "preserves krc20_books (mark_krc20_reveal_submitted pid)" "preserves krc20_books (mark_krc20_completed pid)"
  "preserves krc20_books (mark_krc20_failed pid)"
  unfolding record_krc20_fees_def mark_krc20_commit_submitted_def mark_krc20_reveal_submitted_def
    mark_krc20_completed_def mark_krc20_failed_def
  by (intro books_update_transfer; auto simp: coupled_def)+

lemma books_audit: "preserves krc20_books (audit_append a b c :: ('z, nat) db_act)"
proof (rule preservesI)
  fix s :: "'z pool_db_scheme" assume b: "krc20_books s"
  show "krc20_books (snd (audit_append a b c s))"
    by (rule books_frame[OF b])
      (use b in \<open>auto simp: audit_append_def sql_def Let_def krc20_books_def payout_db_ok_def krc20_keys_ok_def\<close>)
qed

section \<open>Crediting and giving up\<close>

lemma settle_totals:
  assumes "distinct (map po_id (payouts s))" and "p \<in> set (payouts s)" and "krc20_row s p"
    and "po_status p \<notin> {Failed, Confirmed}"
    and f: "po_cycle (f p) = po_cycle p" "po_wallet (f p) = po_wallet p" "po_amount (f p) = po_amount p"
      "po_status (f p) \<in> {Failed, Confirmed}"
    and t: "payouts t = update_where (\<lambda>x. po_id x = po_id p) f (payouts s)" "cycles t = cycles s"
  shows "credited_sompi t w = credited_sompi s w + (if po_wallet p = w \<and> po_status (f p) = Confirmed then po_amount p else 0)"
    and "open_krc20_sompi t w = open_krc20_sompi s w - (if po_wallet p = w then po_amount p else 0)"
proof -
  have row: "krc20_row t = krc20_row s" by (rule ext) (simp add: krc20_row_def t)
  have rf: "krc20_row s (f p)" using assms(3) f(1) by (simp add: krc20_row_def kind_of_same_cycle[of "f p" p])
  note W = wallet_total_update[where f = f, OF assms(1,2) f(2,3)]
  show "credited_sompi t w = credited_sompi s w + (if po_wallet p = w \<and> po_status (f p) = Confirmed then po_amount p else 0)"
    unfolding credited_sompi_def row t(1) W using assms(3,4) rf by auto
  show "open_krc20_sompi t w = open_krc20_sompi s w - (if po_wallet p = w then po_amount p else 0)"
    unfolding open_krc20_sompi_eq row t(1) W using assms(3,4) rf f(4) by auto
qed

text \<open>The rows of payouts and transfers after one payout and its transfer moved together.\<close>

lemma transfers_ok_moved:
  assumes ok: "transfers_ok s" and "distinct (map po_id (payouts s))"
    and t: "payouts t = update_where (\<lambda>x. po_id x = po_id p) f (payouts s)" "cycles t = cycles s"
      "map kt_payout (transfers t) = map kt_payout (transfers s)" "map nr_wallet (rebates t) = map nr_wallet (rebates s)"
    and f: "\<And>x. po_id (f x) = po_id x \<and> po_cycle (f x) = po_cycle x \<and> po_wallet (f x) = po_wallet x"
    and others: "\<And>k. k \<in> set (transfers t) \<Longrightarrow> kt_payout k \<noteq> po_id p \<Longrightarrow> k \<in> set (transfers s)"
    and moved: "\<And>k x. k \<in> set (transfers t) \<Longrightarrow> kt_payout k = po_id p \<Longrightarrow> x \<in> set (payouts s) \<Longrightarrow> po_id x = po_id p \<Longrightarrow> coupled (f x) k"
  shows "transfers_ok t"
proof -
  have row: "krc20_row t q = krc20_row s q" for q by (simp add: krc20_row_def t)
  have rowf: "krc20_row s (f x) = krc20_row s x" for x using f[of x] by (simp add: krc20_row_def kind_of_same_cycle[of "f x" x])
  have sets: "kt_payout ` set (transfers t) = kt_payout ` set (transfers s)" "nr_wallet ` set (rebates t) = nr_wallet ` set (rebates s)"
    using t(3,4) by (metis list.set_map)+
  have "\<exists>q \<in> set (payouts t). po_id q = kt_payout k \<and> krc20_row t q \<and> coupled q k" if k: "k \<in> set (transfers t)" for k
  proof -
    have "kt_payout k \<in> kt_payout ` set (transfers s)" using k sets(1) by blast
    then obtain k0 x where k0: "k0 \<in> set (transfers s)" "kt_payout k0 = kt_payout k"
      and x: "x \<in> set (payouts s)" "po_id x = kt_payout k" "krc20_row s x" "coupled x k0"
      using ok unfolding transfers_ok_def by (metis imageE)
    show ?thesis
    proof (cases "kt_payout k = po_id p")
      case True
      with x k have "f x \<in> set (payouts t)" "coupled (f x) k" using moved by (auto simp: t(1) in_update_where)
      with x f show ?thesis by (intro bexI[of _ "f x"]) (simp_all add: row rowf)
    next
      case False
      have "k = k0" using same_key[of kt_payout "transfers s" k k0] others[OF k False] k0 ok by (simp add: transfers_ok_def)
      moreover have "x \<in> set (payouts t)" using x False by (auto simp: t(1) in_update_where intro!: bexI[of _ x])
      ultimately show ?thesis using x by (auto simp: row)
    qed
  qed
  moreover have "po_id q \<in> kt_payout ` set (transfers t) \<and> po_wallet q \<in> nr_wallet ` set (rebates t)"
    if "q \<in> set (payouts t)" "krc20_row t q" for q
  proof -
    from that(1) obtain x where "x \<in> set (payouts s)" "q = x \<or> q = f x" by (auto simp: t(1) in_update_where split: if_splits)
    moreover from this have "po_id q = po_id x" "po_wallet q = po_wallet x" "krc20_row s x" using f that(2) row rowf by auto
    ultimately show ?thesis using ok unfolding transfers_ok_def sets by metis
  qed
  ultimately show ?thesis using ok t(3) by (simp add: transfers_ok_def)
qed

lemma books_credit:
  assumes b: "krc20_books s" and k: "k \<in> set (transfers s)" "kt_status k = Completed"
    and p: "p \<in> set (payouts s)" "po_id p = kt_payout k" "po_status p \<noteq> Confirmed"
    and r: "r \<in> set (rebates s)" "nr_wallet r = po_wallet p"
    and f: "\<And>x. po_id (f x) = po_id x \<and> po_cycle (f x) = po_cycle x \<and> po_wallet (f x) = po_wallet x \<and>
      po_amount (f x) = po_amount x \<and> po_status (f x) = Confirmed"
    and t: "payouts t = update_where (\<lambda>x. po_id x = po_id p) f (payouts s)" "cycles t = cycles s" "transfers t = transfers s"
      "rebates t = update_where (\<lambda>x. nr_wallet x = po_wallet p) (\<lambda>_. r\<lparr>nr_paid := nr_paid r + po_amount p, nr_updated_at := u\<rparr>) (rebates s)"
    and ok: "payout_db_ok t" "rebates_ok t"
  shows "krc20_books t"
proof -
  have ids: "distinct (map po_id (payouts s))" and wal: "distinct (map nr_wallet (rebates s))"
    and tok: "transfers_ok s" and led: "ledger_ok s"
    using b by (simp_all add: krc20_books_def payout_db_ok_def rebates_ok_def)
  obtain q where "q \<in> set (payouts s)" "po_id q = kt_payout k" "krc20_row s q" "coupled q k"
    using tok k(1) by (auto simp: transfers_ok_def)
  then have row: "krc20_row s p" and cpl: "coupled p k" using same_key[OF ids, of q p] p(1,2) by auto
  then have st: "po_status p \<notin> {Failed, Confirmed}" using k(2) p(3) by (auto simp: coupled_def)
  have T: "credited_sompi t w = credited_sompi s w + (if po_wallet p = w then po_amount p else 0)"
    "open_krc20_sompi t w = open_krc20_sompi s w - (if po_wallet p = w then po_amount p else 0)" for w
    using settle_totals[where f = f, OF ids p(1) row st _ _ _ _ t(1,2), of w] f[of p] by auto
  have "transfers_ok t"
  proof (rule transfers_ok_moved[OF tok ids t(1,2)])
    show "map nr_wallet (rebates t) = map nr_wallet (rebates s)" unfolding t(4) by (rule map_update_where) (simp add: r(2))
    show "coupled (f x) k'" if "k' \<in> set (transfers t)" "kt_payout k' = po_id p" for k' x
    proof -
      have "k' = k" using same_key[of kt_payout "transfers s" k' k] that k(1) p(2) tok by (auto simp: t(3) transfers_ok_def)
      then show ?thesis using k(2) f[of x] by (simp add: coupled_def)
    qed
  qed (simp_all add: t(3) f)
  moreover have "ledger_ok t"
    unfolding ledger_ok_def
  proof
    fix x assume "x \<in> set (rebates t)"
    then consider "x = r\<lparr>nr_paid := nr_paid r + po_amount p, nr_updated_at := u\<rparr>"
      | "x \<in> set (rebates s)" "nr_wallet x \<noteq> po_wallet p"
      unfolding t(4) by (auto simp: in_update_where split: if_splits)
    then show "nr_paid x = credited_sompi t (nr_wallet x) \<and>
        credited_sompi t (nr_wallet x) + open_krc20_sompi t (nr_wallet x) \<le> nr_accrued x"
      using led r by cases (auto simp: T ledger_ok_def)
  qed
  ultimately show ?thesis using b ok by (simp add: krc20_books_def krc20_keys_ok_def t(2))
qed

text \<open>A transaction keeps an invariant that holds whenever its body succeeds.\<close>

lemma transaction_keeps:
  assumes "db_inv I" and "I s" and "\<And>a v. body (s\<lparr>calls := Suc (calls s)\<rparr>) = (Inr a, v) \<Longrightarrow> I v"
  shows "I (snd (transaction body conv s))"
proof (cases "transaction body conv s")
  case (Pair r t)
  show ?thesis
  proof (cases r)
    case (Inl e)
    with Pair have "t = s\<lparr>calls := calls t\<rparr>" by (auto dest: transaction_Inl)
    with assms(1,2) Pair show ?thesis by (metis db_inv_def snd_conv)
  next
    case (Inr a)
    with Pair show ?thesis using assms(1,3) by (auto elim!: transaction_Inr simp: db_inv_def)
  qed
qed

lemma books_calls: "krc20_books s \<Longrightarrow> krc20_books (s\<lparr>calls := n\<rparr>)"
  using krc20_books_inv by (metis db_inv_def)

lemma mark_payout_failed_books:
  assumes b: "krc20_books s" and gone: "\<And>k. k \<in> set (transfers s) \<Longrightarrow> kt_payout k = pid \<Longrightarrow> kt_status k = KFailed"
  shows "krc20_books (snd (mark_payout_failed pid reason s))"
proof -
  let ?t = "snd (mark_payout_failed pid reason s)" and ?f = "\<lambda>p. p\<lparr>po_status := Failed, po_failure := Some reason\<rparr>"
  let ?hit = "\<lambda>p. po_id p = pid \<and> po_status p \<noteq> Confirmed"
  have ok: "payout_db_ok ?t" using b by (intro preservesD[OF preserves_mark_payout(4)]) (simp add: krc20_books_def)
  have same: "cycles ?t = cycles s" "transfers ?t = transfers s" "rebates ?t = rebates s"
    and pays: "payouts ?t = payouts s \<or> payouts ?t = update_where ?hit ?f (payouts s)"
    by (auto simp: mark_payout_failed_def update_payout_def sql_def Let_def)
  have ids: "distinct (map po_id (payouts s))" and tok: "transfers_ok s" and keys: "krc20_keys_ok ?t"
    using b by (simp_all add: krc20_books_def payout_db_ok_def krc20_keys_ok_def same)
  show ?thesis
  proof (cases "payouts ?t = payouts s")
    case True
    then show ?thesis by (rule books_frame[OF b ok keys]) (simp_all add: same)
  next
    case False
    then obtain p where p: "p \<in> set (payouts s)" "po_id p = pid" "po_status p \<noteq> Confirmed"
      using pays update_where_none[of "payouts s" ?hit ?f] by auto
    have t: "payouts ?t = update_where (\<lambda>x. po_id x = po_id p) ?f (payouts s)"
      using pays False update_where_guarded[where g = po_id and R = "\<lambda>p. po_status p \<noteq> Confirmed", OF ids p(1,3)] p(2) by simp
    have row: "krc20_row ?t = krc20_row s" by (rule ext) (simp add: krc20_row_def same)
    note W = wallet_total_update[where f = ?f, OF ids p(1)]
    have pos: "0 < po_amount p" using b p(1) by (auto simp: krc20_books_def payout_db_ok_def payout_checks_def)
    have C: "credited_sompi ?t w = credited_sompi s w" for w
      unfolding credited_sompi_def row t using p(3) by (subst W) auto
    have O: "open_krc20_sompi ?t w \<le> open_krc20_sompi s w" for w
      unfolding open_krc20_sompi_eq row t using pos by (subst W) auto
    have "ledger_ok ?t"
      unfolding ledger_ok_def same C
    proof
      fix r assume "r \<in> set (rebates s)"
      with b have "nr_paid r = credited_sompi s (nr_wallet r)"
          "credited_sompi s (nr_wallet r) + open_krc20_sompi s (nr_wallet r) \<le> nr_accrued r"
        by (auto simp: krc20_books_def ledger_ok_def)
      with O[of "nr_wallet r"] show "nr_paid r = credited_sompi s (nr_wallet r) \<and>
          credited_sompi s (nr_wallet r) + open_krc20_sompi ?t (nr_wallet r) \<le> nr_accrued r" by linarith
    qed
    moreover have "transfers_ok ?t"
      by (rule transfers_ok_moved[OF tok ids t same(1)]) (simp_all add: same p(2) gone coupled_def)
    ultimately show ?thesis using b ok keys by (simp add: krc20_books_def rebates_ok_def same(3))
  qed
qed

text \<open>Giving up on a transfer that is not completed.\<close>

lemma fail_krc20_transfer_books:
  assumes b: "krc20_books s" and open_transfer: "\<And>k. k \<in> set (transfers s) \<Longrightarrow> kt_payout k = pid \<Longrightarrow> kt_status k \<noteq> Completed"
  shows "krc20_books (snd (fail_krc20_transfer pid reason s))"
  unfolding fail_krc20_transfer_def snd_map_err
proof (rule transaction_keeps[OF krc20_books_inv b])
  fix a v
  let ?s = "s\<lparr>calls := Suc (calls s)\<rparr>"
  assume "bindE (mark_krc20_failed pid) (\<lambda>_. bindE (mark_payout_failed pid reason)
     (\<lambda>_. bindE (audit_append ''payout-krc20'' ''krc20.fail'' (''payout'', pid)) (\<lambda>_. ret ()))) ?s = (Inr a, v)"
  then obtain n1 n2 n3 s1 s2 where m1: "mark_krc20_failed pid ?s = (Inr n1, s1)"
    and m2: "mark_payout_failed pid reason s1 = (Inr n2, s2)"
    and m3: "audit_append ''payout-krc20'' ''krc20.fail'' (''payout'', pid) s2 = (Inr n3, v)"
    by (elim bindE_InrE) auto
  have b1: "krc20_books s1" using preservesD[OF books_mark_krc20(5) books_calls[OF b]] m1 by (metis snd_conv)
  have "kt_status k = KFailed" if "k \<in> set (transfers s1)" "kt_payout k = pid" for k
  proof -
    from m1 have "transfers s1 = update_where (\<lambda>k. kt_payout k = pid \<and> kt_status k \<noteq> Completed)
        (\<lambda>k. k\<lparr>kt_status := KFailed, kt_updated_at := now s\<rparr>) (transfers s)"
      by (auto simp: mark_krc20_failed_def update_transfer_def sql_def Let_def split: if_splits)
    with that(1) obtain k0 where k0: "k0 \<in> set (transfers s)"
      and k: "k = (if kt_payout k0 = pid \<and> kt_status k0 \<noteq> Completed then k0\<lparr>kt_status := KFailed, kt_updated_at := now s\<rparr> else k0)"
      by (simp only: in_update_where) blast
    show ?thesis
    proof (cases "kt_payout k0 = pid")
      case True
      with k open_transfer[OF k0 True] show ?thesis by simp
    qed (use k that(2) in simp)
  qed
  from mark_payout_failed_books[OF b1 this] have "krc20_books s2" by (metis m2 snd_conv)
  from preservesD[OF books_audit this] show "krc20_books v" by (metis m3 snd_conv)
qed

abbreviation confirmed :: "timestamp \<Rightarrow> payout \<Rightarrow> payout" where
  "confirmed t p \<equiv> p\<lparr>po_status := Confirmed, po_submitted_at := coalesce (po_submitted_at p) (Some t),
     po_confirmed_at := coalesce (po_confirmed_at p) (Some t)\<rparr>"

lemma confirm_krc20_payout_once_Inr:
  assumes "confirm_krc20_payout_once (po_id p) s = (Inr fired, t)" and "distinct (map po_id (payouts s))" and "p \<in> set (payouts s)"
  shows "t = s\<lparr>calls := Suc (calls s), payouts := payouts t\<rparr>" and "fired \<longleftrightarrow> po_status p \<noteq> Confirmed"
    and "payouts t = (if fired then update_where (\<lambda>x. po_id x = po_id p) (confirmed (now s)) (payouts s) else payouts s)"
proof -
  let ?hit = "\<lambda>x. po_id x = po_id p \<and> po_status x \<noteq> Confirmed"
  from assms(1) obtain n where n: "update_payout (po_id p) (\<lambda>p. po_status p \<noteq> Confirmed) confirmed s = (Inr n, t)"
    and fired: "fired \<longleftrightarrow> n = 1"
    unfolding confirm_krc20_payout_once_def by (elim bindE_InrE) auto
  note N = update_payout_Inr[OF n]
  show "t = s\<lparr>calls := Suc (calls s), payouts := payouts t\<rparr>"
    using n by (auto simp: update_payout_def sql_def Let_def split: if_splits)
  have "rows_affected ?hit (payouts s) \<le> 1" using assms(2) by (rule rows_affected_unique)
  then have one: "fired \<longleftrightarrow> rows_affected ?hit (payouts s) \<noteq> 0" using N(2) fired by linarith
  also have "\<dots> \<longleftrightarrow> po_status p \<noteq> Confirmed"
    unfolding rows_affected_0 using assms(3) same_key[OF assms(2) assms(3)] by metis
  finally show st: "fired \<longleftrightarrow> po_status p \<noteq> Confirmed" .
  show "payouts t = (if fired then update_where (\<lambda>x. po_id x = po_id p) (confirmed (now s)) (payouts s) else payouts s)"
  proof (cases fired)
    case True
    with st assms N(1) show ?thesis
      using update_where_guarded[where g = po_id and R = "\<lambda>x. po_status x \<noteq> Confirmed", of "payouts s" p] by simp
  next
    case False
    then have "\<forall>x \<in> set (payouts s). \<not> ?hit x" using one by (simp add: rows_affected_0)
    with False N(1) show ?thesis using update_where_none[of "payouts s" ?hit] by simp
  qed
qed

lemma rebate_mark_paid_Inr:
  assumes "rebate_mark_paid w d s = (Inr x, t)"
  obtains r where "r \<in> set (rebates s)" "nr_wallet r = w" "rebate_checks (r\<lparr>nr_paid := nr_paid r + d, nr_updated_at := now s\<rparr>)"
    "t = s\<lparr>calls := Suc (calls s),
       rebates := update_where (\<lambda>x. nr_wallet x = w) (\<lambda>_. r\<lparr>nr_paid := nr_paid r + d, nr_updated_at := now s\<rparr>) (rebates s)\<rparr>"
  using assms
  by (auto simp: rebate_mark_paid_def sql_def Let_def split: if_splits option.splits dest!: find_Some_iff_in)

lemma credit_body_books:
  assumes b: "krc20_books s" and k: "k \<in> set (transfers s)" "kt_status k = Completed"
    and p: "p \<in> set (payouts s)" "po_id p = kt_payout k"
    and run: "credit_body p (kt_payout k) s = (Inr fired, t)"
  shows "krc20_books t \<and> transfers t = transfers s \<and>
    (\<forall>q \<in> set (payouts s). po_status q = Confirmed \<longrightarrow> q \<in> set (payouts t)) \<and>
    (\<exists>q \<in> set (payouts t). po_id q = kt_payout k \<and> po_status q = Confirmed)"
proof -
  have ids: "distinct (map po_id (payouts s))" using b by (simp add: krc20_books_def payout_db_ok_def)
  from run obtain f0 u where c: "confirm_krc20_payout_once (po_id p) s = (Inr f0, u)"
    and rest: "(if f0 then bindE (rebate_mark_paid (po_wallet p) (po_amount p)) (\<lambda>_.
       bindE (audit_append ''payout-krc20'' ''krc20.credit'' (''payout'', kt_payout k)) (\<lambda>_. ret True)) else ret False) u = (Inr fired, t)"
    unfolding credit_body_def p(2)[symmetric] by (elim bindE_InrE) auto
  note C = confirm_krc20_payout_once_Inr[OF c ids p(1)]
  show ?thesis
  proof (cases f0)
    case False
    with rest C(3) have t: "t = u" "payouts u = payouts s" by auto
    have tabs: "cycles u = cycles s" "transfers u = transfers s" "rebates u = rebates s"
      "next_payout u = next_payout s" "next_cycle u = next_cycle s"
      by (subst C(1), simp)+
    have "krc20_books u"
      by (rule books_frame[OF b]) (use b t(2) in \<open>simp_all add: tabs krc20_books_def payout_db_ok_def krc20_keys_ok_def\<close>)
    with t tabs(2) C(2) False p show ?thesis by auto
  next
    case True
    with rest obtain x v n where m: "rebate_mark_paid (po_wallet p) (po_amount p) u = (Inr x, v)"
      and a: "audit_append ''payout-krc20'' ''krc20.credit'' (''payout'', kt_payout k) v = (Inr n, t)"
      by (auto elim!: bindE_InrE)
    from m obtain r where r: "r \<in> set (rebates u)" "nr_wallet r = po_wallet p"
      and v: "v = u\<lparr>calls := Suc (calls u), rebates := update_where (\<lambda>x. nr_wallet x = po_wallet p)
         (\<lambda>_. r\<lparr>nr_paid := nr_paid r + po_amount p, nr_updated_at := now u\<rparr>) (rebates u)\<rparr>"
      by (rule rebate_mark_paid_Inr)
    have u: "cycles u = cycles s" "transfers u = transfers s" "rebates u = rebates s"
      by (subst C(1), simp)+
    have pay: "payouts v = update_where (\<lambda>x. po_id x = po_id p) (confirmed (now s)) (payouts s)"
      using C(3) True by (simp add: v)
    have "payout_db_ok u" "rebates_ok u"
      using preservesD[OF preserves_confirm_krc20, of s "po_id p"] b c by (simp_all add: krc20_books_def rebates_ok_def u)
    then have okv: "payout_db_ok v" "rebates_ok v"
      using preservesD[OF preserves_rebate_mark_paid, of u "po_wallet p" "po_amount p"] m by (simp_all add: v payout_db_ok_def)
    have "krc20_books v"
    proof (rule books_credit[OF b k p _ _ r(2) _ pay _ _ _ okv])
      show "rebates v = update_where (\<lambda>x. nr_wallet x = po_wallet p)
          (\<lambda>_. r\<lparr>nr_paid := nr_paid r + po_amount p, nr_updated_at := now u\<rparr>) (rebates s)"
        by (simp add: v u)
    qed (use r C(2) True in \<open>simp_all add: v u\<close>)
    then have "krc20_books t" using preservesD[OF books_audit] a by (metis snd_conv)
    moreover have "payouts t = payouts v" "transfers t = transfers s"
      using a by (auto simp: audit_append_def sql_def Let_def v u split: if_splits)
    moreover have "q \<in> set (payouts v)" if "q \<in> set (payouts s)" "po_status q = Confirmed" for q
      using that same_key[OF ids, of q p] p(1) C(2) True by (auto simp: pay in_update_where intro!: bexI[of _ q])
    moreover have "confirmed (now s) p \<in> set (payouts v)" using p(1) by (auto simp: pay in_update_where)
    ultimately show ?thesis using p(2) by (auto intro!: bexI[of _ "confirmed (now s) p"])
  qed
qed

lemma credit_transfer_books:
  assumes b: "krc20_books s" and k: "k \<in> set (transfers s)" "kt_status k = Completed"
    and run: "credit_transfer rep k s = (r, t)"
  shows "krc20_books t \<and> transfers t = transfers s \<and>
    (\<forall>q \<in> set (payouts s). po_status q = Confirmed \<longrightarrow> q \<in> set (payouts t)) \<and>
    (\<forall>rep'. r = Inr rep' \<longrightarrow> (\<exists>q \<in> set (payouts t). po_id q = kt_payout k \<and> po_status q = Confirmed))"
proof -
  let ?s = "s\<lparr>calls := Suc (calls s)\<rparr>"
  from run consider e where "r = Inl e" "t = ?s"
    | p where "p \<in> set (payouts s)" "po_id p = kt_payout k"
        "bindE (kcdb (transaction (credit_body p (kt_payout k)) id)) (\<lambda>fired. ret (if fired
          then rep\<lparr>rp_credited := rp_credited rep + 1, rp_paid_sompi := sat_add_i64 (rp_paid_sompi rep) (po_amount p)\<rparr>
          else rep\<lparr>rp_already_credited := rp_already_credited rep + 1\<rparr>)) ?s = (r, t)"
    unfolding credit_transfer_def
    by (auto simp: get_payout_def map_err_def sql_def Let_def bindE_def split: if_splits option.splits dest!: find_Some_iff_in)
  then show ?thesis
  proof cases
    case 1
    then show ?thesis using books_calls[OF b] by simp
  next
    case (2 p)
    have bs: "krc20_books ?s" by (rule books_calls[OF b])
    obtain r0 t0 where tr: "transaction (credit_body p (kt_payout k)) id ?s = (r0, t0)" by (metis surj_pair)
    with 2(3) have t: "t = t0" "isl r = isl r0" by (auto simp: bindE_def map_err_def split: sum.splits)
    show ?thesis
    proof (cases r0)
      case (Inl e)
      with tr have "t0 = ?s\<lparr>calls := calls t0\<rparr>" by (auto dest: transaction_Inl)
      moreover have "krc20_books (?s\<lparr>calls := calls t0\<rparr>)" by (rule books_calls[OF bs])
      ultimately have "krc20_books t0" "transfers t0 = transfers s" "payouts t0 = payouts s"
        by (metis, (metis pool_db.select_convs pool_db.surjective pool_db.update_convs)+)
      then show ?thesis using t Inl by auto
    next
      case (Inr fired)
      with tr obtain v where v: "credit_body p (kt_payout k) (?s\<lparr>calls := Suc (calls ?s)\<rparr>) = (Inr fired, v)"
        and t0: "t0 = v\<lparr>calls := Suc (calls v)\<rparr>" by (auto elim!: transaction_Inr)
      from credit_body_books[OF books_calls[OF bs] _ k(2) _ 2(2) v] 2(1) k(1) books_calls
      show ?thesis by (auto simp: t(1) t0)
    qed
  qed
qed

text \<open>What a pass over completed transfers establishes, whether or not it runs to its end.\<close>

lemma credit_loop_books:
  assumes "krc20_books s" and "\<And>k. k \<in> set ks \<Longrightarrow> k \<in> set (transfers s) \<and> kt_status k = Completed"
    and "foldE credit_transfer rep ks s = (r, t)"
  shows "krc20_books t \<and> transfers t = transfers s \<and>
    (\<forall>q \<in> set (payouts s). po_status q = Confirmed \<longrightarrow> q \<in> set (payouts t)) \<and>
    (\<forall>rep'. r = Inr rep' \<longrightarrow> (\<forall>k \<in> set ks. \<exists>q \<in> set (payouts t). po_id q = kt_payout k \<and> po_status q = Confirmed))"
  using assms
proof (induction ks arbitrary: rep s)
  case (Cons k ks)
  obtain r1 s1 where one: "credit_transfer rep k s = (r1, s1)" by (metis surj_pair)
  have "k \<in> set (transfers s)" "kt_status k = Completed" using Cons.prems(2) by auto
  note K = credit_transfer_books[OF Cons.prems(1) this one]
  show ?case
  proof (cases r1)
    case (Inl e)
    with Cons.prems(3) one K show ?thesis by auto
  next
    case (Inr rep1)
    with Cons.prems(3) one have "foldE credit_transfer rep1 ks s1 = (r, t)" by simp
    moreover have "krc20_books s1" "\<And>k. k \<in> set ks \<Longrightarrow> k \<in> set (transfers s1) \<and> kt_status k = Completed"
      using K Cons.prems(2) by auto
    ultimately have T: "krc20_books t" "transfers t = transfers s1"
      "\<And>q. q \<in> set (payouts s1) \<Longrightarrow> po_status q = Confirmed \<Longrightarrow> q \<in> set (payouts t)"
      "\<And>rep' k. r = Inr rep' \<Longrightarrow> k \<in> set ks \<Longrightarrow> \<exists>q \<in> set (payouts t). po_id q = kt_payout k \<and> po_status q = Confirmed"
      using Cons.IH by blast+
    with K Inr show ?thesis by auto
  qed
qed auto

lemma credit_completed_books: "preserves krc20_books (credit_completed_transfers lmt :: ('z, credit_report) kc_act)"
proof (rule preservesI)
  fix s :: "'z pool_db_scheme" assume b: "krc20_books s"
  let ?s = "s\<lparr>calls := Suc (calls s)\<rparr>"
  let ?ks = "take (nat lmt) (sort_key kt_created_at (filter (\<lambda>k. kt_status k \<in> set [Completed]) (transfers s)))"
  obtain r t where run: "foldE credit_transfer default_credit_report ?ks ?s = (r, t)" by (metis surj_pair)
  have "k \<in> set (transfers ?s) \<and> kt_status k = Completed" if "k \<in> set ?ks" for k
    using in_set_takeD[OF that] by auto
  from credit_loop_books[OF books_calls[OF b] this run] have "krc20_books t" by simp
  then show "krc20_books (snd (credit_completed_transfers lmt s))"
    using run books_calls[OF b]
    by (auto simp: credit_completed_transfers_def list_krc20_by_status_def bindE_def map_err_def sql_def Let_def)
qed

section \<open>Planning stays within what was accrued\<close>

lemma ensure_payout_Inr:
  assumes "ensure_payout cid w amount s = (Inr p, t)"
  shows "rebates t = rebates s" "cycles t = cycles s" "transfers t = transfers s" "now t = now s"
    and "p \<in> set (payouts t)" "po_cycle p = cid" "po_wallet p = w"
    and "p \<in> set (payouts s) \<and> payouts t = payouts s \<or>
      po_id p = next_payout s \<and> po_amount p = amount \<and> po_status p = Planned \<and> payouts t = payouts s @ [p]"
  using assms
  by (auto simp: ensure_payout_def new_payout_def sql_def Let_def split: if_splits option.splits dest!: find_Some_iff_in)

lemma ensure_krc20_pending_Inr:
  assumes "ensure_krc20_pending pid sompi nacho p2sh s = (Inr k, t)"
  shows "rebates t = rebates s" "cycles t = cycles s" "payouts t = payouts s" "next_payout t = next_payout s" "next_cycle t = next_cycle s"
    and "(\<exists>f. pid \<in> kt_payout ` set (transfers s) \<and> transfers t = map f (transfers s) \<and>
        (\<forall>k. kt_payout (f k) = kt_payout k \<and> kt_status (f k) = kt_status k)) \<or>
      pid \<notin> kt_payout ` set (transfers s) \<and> transfers t = transfers s @ [k] \<and> kt_payout k = pid \<and> kt_status k = KPending"
proof -
  show "rebates t = rebates s" "cycles t = cycles s" "payouts t = payouts s" "next_payout t = next_payout s" "next_cycle t = next_cycle s"
    using assms by (auto simp: ensure_krc20_pending_def sql_def Let_def split: if_splits option.splits)
  show "(\<exists>f. pid \<in> kt_payout ` set (transfers s) \<and> transfers t = map f (transfers s) \<and>
        (\<forall>k. kt_payout (f k) = kt_payout k \<and> kt_status (f k) = kt_status k)) \<or>
      pid \<notin> kt_payout ` set (transfers s) \<and> transfers t = transfers s @ [k] \<and> kt_payout k = pid \<and> kt_status k = KPending"
  proof (cases "List.find (\<lambda>k. kt_payout k = pid) (transfers s)")
    case None
    then have "pid \<notin> kt_payout ` set (transfers s)" by (auto simp: find_None_iff)
    with None assms show ?thesis
      by (auto simp: ensure_krc20_pending_def new_transfer_def sql_def Let_def split: if_splits)
  next
    case (Some k0)
    then have "pid \<in> kt_payout ` set (transfers s)" by (auto dest: find_Some_iff_in)
    moreover have "transfers t = map (\<lambda>k. if kt_payout k = pid then
        k\<lparr>kt_sompi := sompi, kt_nacho := nacho, kt_p2sh := p2sh, kt_updated_at := now s\<rparr> else k) (transfers s)"
      using Some assms by (auto simp: ensure_krc20_pending_def sql_def Let_def update_where_def split: if_splits)
    ultimately show ?thesis
      by (intro disjI1 exI[of _ "\<lambda>k. if kt_payout k = pid then
        k\<lparr>kt_sompi := sompi, kt_nacho := nacho, kt_p2sh := p2sh, kt_updated_at := now s\<rparr> else k"] conjI) simp_all
  qed
qed

text \<open>The books after a row already planned is refreshed.\<close>

lemma books_refresh:
  assumes b: "krc20_books s" and ok: "payout_db_ok t"
    and t: "rebates t = rebates s" "cycles t = cycles s" "payouts t = payouts s" "transfers t = map f (transfers s)"
    and f: "\<And>k. kt_payout (f k) = kt_payout k \<and> kt_status (f k) = kt_status k"
  shows "krc20_books t"
proof -
  have row: "krc20_row t = krc20_row s" by (rule ext) (simp add: krc20_row_def t)
  have "credited_sompi t = credited_sompi s" "open_krc20_sompi t = open_krc20_sompi s"
    by (rule ext, simp add: credited_sompi_def open_krc20_sompi_eq row t)+
  moreover have "kt_payout \<circ> f = kt_payout" "coupled p (f k) = coupled p k" for p k
    using f by (auto simp: coupled_def)
  moreover from this(1) have "kt_payout ` f ` set (transfers s) = kt_payout ` set (transfers s)" by (simp add: image_comp)
  ultimately show ?thesis
    using b ok f by (simp add: krc20_books_def ledger_ok_def transfers_ok_def rebates_ok_def krc20_keys_ok_def t row)
qed

text \<open>The books after a new payout and its transfer.\<close>

lemma books_new_row:
  assumes b: "krc20_books s" and ok: "payout_db_ok t"
    and t: "rebates t = rebates s" "cycles t = cycles s" "payouts t = payouts s @ [p]" "transfers t = transfers s @ [k]"
    and p: "krc20_row s p" "po_status p = Planned" and k: "kt_payout k = po_id p" "kt_status k = KPending"
    and fresh: "po_id p \<notin> kt_payout ` set (transfers s)"
    and r: "r \<in> set (rebates s)" "nr_wallet r = po_wallet p"
      "credited_sompi s (po_wallet p) + open_krc20_sompi s (po_wallet p) + po_amount p \<le> nr_accrued r"
  shows "krc20_books t \<and> (\<forall>w. credited_sompi t w = credited_sompi s w) \<and>
    (\<forall>w. w \<noteq> po_wallet p \<longrightarrow> open_krc20_sompi t w = open_krc20_sompi s w)"
proof -
  have row: "krc20_row t = krc20_row s" by (rule ext) (simp add: krc20_row_def t)
  have C: "credited_sompi t w = credited_sompi s w" for w
    using p by (simp add: credited_sompi_def row t wallet_total_append wallet_total_Cons) (simp add: wallet_total_def)
  have O: "open_krc20_sompi t w = open_krc20_sompi s w + (if po_wallet p = w then po_amount p else 0)" for w
    using p by (simp add: open_krc20_sompi_eq row t wallet_total_append wallet_total_Cons) (simp add: wallet_total_def)
  have "ledger_ok t"
    unfolding ledger_ok_def t(1)
  proof
    fix x assume x: "x \<in> set (rebates s)"
    have "distinct (map nr_wallet (rebates s))" using b by (simp add: krc20_books_def rebates_ok_def)
    then have "nr_wallet x = po_wallet p \<Longrightarrow> x = r" using same_key[of nr_wallet "rebates s" x r] x r by simp
    then show "nr_paid x = credited_sompi t (nr_wallet x) \<and>
        credited_sompi t (nr_wallet x) + open_krc20_sompi t (nr_wallet x) \<le> nr_accrued x"
      using b x r by (auto simp: C O krc20_books_def ledger_ok_def)
  qed
  moreover have "coupled p k" using p k by (simp add: coupled_def)
  moreover have "po_wallet p \<in> nr_wallet ` set (rebates s)" using r by (metis imageI)
  ultimately show ?thesis
    using b ok fresh p k r C O
    by (auto simp: krc20_books_def transfers_ok_def rebates_ok_def krc20_keys_ok_def t row)
qed

lemma kind_of_cycle:
  assumes "distinct (map pc_id cs)" and "c \<in> set cs" and "po_cycle p = pc_id c"
  shows "kind_of cs p = Some (pc_kind c)"
  using assms same_key[OF assms(1) _ assms(2)]
  by (cases "cycle_of cs p") (auto simp: kind_of_def cycle_of_def find_None_iff dest!: find_Some_iff_in)

text \<open>Room for one more promise to a wallet.\<close>

definition has_room :: "'z pool_db_scheme \<Rightarrow> krc20_eligible_wallet \<Rightarrow> bool" where
  "has_room s e \<longleftrightarrow> (\<exists>r \<in> set (rebates s). nr_wallet r = ke_wallet e \<and>
     credited_sompi s (ke_wallet e) + open_krc20_sompi s (ke_wallet e) + ke_pending e \<le> nr_accrued r)"

lemma plan_recipient_books:
  assumes b: "krc20_books s" and c: "c \<in> set (cycles s)" "pc_kind c = Krc20Nacho" and room: "has_room s e"
    and run: "plan_recipient sl xonly prefix params price amount (pc_id c) acc e s = (Inr acc', t)"
  shows "krc20_books t \<and> rebates t = rebates s \<and> cycles t = cycles s \<and>
    (\<forall>w. credited_sompi t w = credited_sompi s w) \<and>
    (\<forall>w. w \<noteq> ke_wallet e \<longrightarrow> open_krc20_sompi t w = open_krc20_sompi s w)"
proof -
  from run consider "t = s"
    | p k u p2sh nacho where "ensure_payout (pc_id c) (ke_wallet e) (ke_pending e) s = (Inr p, u)"
        "ensure_krc20_pending (po_id p) amount (int nacho) p2sh u = (Inr k, t)"
    by (auto simp: plan_recipient_def split: prod.splits if_splits elim!: bindE_InrE)
  then show ?thesis
  proof cases
    case 1
    then show ?thesis using b by simp
  next
    case (2 p k u p2sh nacho)
    note E = ensure_payout_Inr[OF 2(1)] and T = ensure_krc20_pending_Inr[OF 2(2)]
    have "payout_db_ok u" using preservesD[OF preserves_ensure_payout, of s] b 2(1) by (metis krc20_books_def snd_conv)
    then have ok: "payout_db_ok t" using T by (simp add: payout_db_ok_def)
    have row: "krc20_row s p"
      using kind_of_cycle[of "cycles s" c p] b c E(6) by (simp add: krc20_row_def krc20_books_def payout_db_ok_def)
    have tok: "transfers_ok s" using b by (simp add: krc20_books_def)
    from E(8) show ?thesis
    proof
      assume old: "p \<in> set (payouts s) \<and> payouts u = payouts s"
      then have "po_id p \<in> kt_payout ` set (transfers u)" using tok row by (simp add: transfers_ok_def E(3))
      with T(6) obtain f where f: "transfers t = map f (transfers s)" "\<And>k. kt_payout (f k) = kt_payout k \<and> kt_status (f k) = kt_status k"
        by (auto simp: E(3))
      have "krc20_row t = krc20_row s" by (rule ext) (simp add: krc20_row_def T E)
      then have "credited_sompi t w = credited_sompi s w" "open_krc20_sompi t w = open_krc20_sompi s w" for w
        by (simp_all add: credited_sompi_def open_krc20_sompi_eq T E old)
      moreover have "krc20_books t" by (rule books_refresh[OF b ok _ _ _ f]) (simp_all add: T E old)
      ultimately show ?thesis by (simp add: T E)
    next
      assume new: "po_id p = next_payout s \<and> po_amount p = ke_pending e \<and> po_status p = Planned \<and> payouts u = payouts s @ [p]"
      have "x < next_payout s" if "x \<in> kt_payout ` set (transfers s)" for x
      proof -
        from that tok obtain q where "q \<in> set (payouts s)" "po_id q = x" by (auto simp: transfers_ok_def)
        then show ?thesis using b by (auto simp: krc20_books_def payout_db_ok_def)
      qed
      then have fresh: "po_id p \<notin> kt_payout ` set (transfers s)" using new by force
      with T(6) have k: "transfers t = transfers s @ [k]" "kt_payout k = po_id p" "kt_status k = KPending" by (auto simp: E(3))
      from room obtain r where "r \<in> set (rebates s)" "nr_wallet r = po_wallet p"
          "credited_sompi s (po_wallet p) + open_krc20_sompi s (po_wallet p) + po_amount p \<le> nr_accrued r"
        using new E(7) by (auto simp: has_room_def)
      from books_new_row[OF b ok _ _ _ k(1) row _ k(2,3) fresh this] new
      show ?thesis by (simp add: T E)
    qed
  qed
qed

lemma plan_loop_books:
  assumes "krc20_books s" and "c \<in> set (cycles s)" and "pc_kind c = Krc20Nacho"
    and "\<And>e. e \<in> set es \<Longrightarrow> has_room s e" and "distinct (map ke_wallet es)"
    and "foldE (plan_recipient sl xonly prefix params price amount (pc_id c)) acc es s = (Inr acc', t)"
  shows "krc20_books t"
  using assms
proof (induction es arbitrary: acc s)
  case (Cons e es)
  from Cons.prems(6) obtain acc1 s1 where one: "plan_recipient sl xonly prefix params price amount (pc_id c) acc e s = (Inr acc1, s1)"
    and rest: "foldE (plan_recipient sl xonly prefix params price amount (pc_id c)) acc1 es s1 = (Inr acc', t)"
    by (rule foldE_ConsE)
  note P = plan_recipient_books[OF Cons.prems(1-3) _ one]
  have P1: "krc20_books s1" "rebates s1 = rebates s" "cycles s1 = cycles s" "\<And>w. credited_sompi s1 w = credited_sompi s w"
      "\<And>w. w \<noteq> ke_wallet e \<Longrightarrow> open_krc20_sompi s1 w = open_krc20_sompi s w"
    using P Cons.prems(4) by auto
  show ?case
  proof (rule Cons.IH[OF P1(1) _ Cons.prems(3) _ _ rest])
    show "has_room s1 x" if "x \<in> set es" for x
    proof -
      have "ke_wallet x \<noteq> ke_wallet e" using Cons.prems(5) that by (auto simp: image_iff)
      moreover have "has_room s x" using Cons.prems(4) that by simp
      ultimately show ?thesis by (simp add: has_room_def P1)
    qed
  qed (use Cons.prems P1 in simp_all)
qed simp

lemma eligible_room:
  assumes b: "krc20_books s" and q: "list_krc20_eligible_wallets thr lmt s = (Inr es, t)"
  shows "t = s\<lparr>calls := Suc (calls s)\<rparr>" and "e \<in> set es \<Longrightarrow> has_room s e" and "distinct (map ke_wallet es)"
proof -
  show t: "t = s\<lparr>calls := Suc (calls s)\<rparr>" 
    using q by (auto simp: list_krc20_eligible_wallets_def sql_def Let_def split: if_splits)
  have rows: "krc20_rows (s\<lparr>calls := Suc (calls s)\<rparr>) = krc20_rows s"
  proof -
    have "open_krc20_sompi (s\<lparr>calls := Suc (calls s)\<rparr>) = open_krc20_sompi s" by (rule ext) (simp add: open_krc20_sompi_def)
    then show ?thesis by (simp add: krc20_rows_def cong: option.case_cong)
  qed
  from q have es: "es = take (nat lmt) (order_desc ke_pending ke_wallet (filter (\<lambda>r. thr \<le> ke_pending r) (krc20_rows s)))"
    by (auto simp: list_krc20_eligible_wallets_def sql_def Let_def rows split: if_splits)
  have "distinct (map ke_wallet (krc20_rows s))"
  proof -
    have "distinct (map nr_wallet rs) \<Longrightarrow> distinct (map ke_wallet (concat (map (\<lambda>r.
        case List.find (\<lambda>w. w_id w = nr_wallet r) (wallets s) of None \<Rightarrow> []
        | Some w \<Rightarrow> [\<lparr>ke_wallet = nr_wallet r, ke_address = w_address w, ke_network = w_network w,
            ke_pending = nr_accrued r - nr_paid r - open_krc20_sompi s (nr_wallet r)\<rparr>]) rs)))" for rs
      by (induction rs) (force split: option.splits)+
    from this[of "rebates s"] show ?thesis using b by (simp only: krc20_rows_def krc20_books_def rebates_ok_def)
  qed
  then show "distinct (map ke_wallet es)"
    unfolding es by (metis distinct_map_filter distinct_map_order_desc distinct_take take_map)
  show "has_room s e" if "e \<in> set es"
  proof -
    have "e \<in> set (krc20_rows s)" using that es by (auto dest: in_set_takeD)
    then obtain r where "r \<in> set (rebates s)" "ke_wallet e = nr_wallet r" "ke_pending e = nr_accrued r - nr_paid r - open_krc20_sompi s (nr_wallet r)"
      by (auto simp: krc20_rows_def split: option.splits)
    with b show ?thesis by (auto simp: has_room_def krc20_books_def ledger_ok_def intro!: bexI[of _ r])
  qed
qed

lemma create_cycle_Inr:
  assumes "create_cycle kind a b s = (Inr c, t)"
  shows "c \<in> set (cycles t)" and "pc_key c = idempotency_key kind a b" and "pc_kind c = kind \<or> c \<in> set (cycles s)"
  using assms by (auto simp: create_cycle_def sql_def Let_def split: if_splits option.splits dest: find_Some_iff_in)

lemma plan_krc20_body_books:
  assumes b: "krc20_books s" and run: "plan_krc20_body sl xonly prefix params price amount s = (Inr cycle, t)"
  shows "krc20_books t"
proof -
  from run obtain s1 es s2 acc s3 s4 n where
    c: "create_cycle Krc20Nacho (kq_daa_start params) (kq_daa_end params) s = (Inr cycle, s1)"
    and q: "list_krc20_eligible_wallets (kq_min_pending params) (kq_limit params) s1 = (Inr es, s2)"
    and loop: "foldE (plan_recipient sl xonly prefix params price amount (pc_id cycle)) (0, 0, 0) es s2 = (Inr acc, s3)"
    and tot: "set_cycle_totals (pc_id cycle) (fst acc) (fst (snd acc)) s3 = (Inr (), s4)"
    and aud: "audit_append ''payout-krc20'' ''krc20_cycle.plan'' (''payout_cycle'', pc_id cycle) s4 = (Inr n, t)"
    unfolding plan_krc20_body_def by (elim bindE_InrE) (auto elim!: bindE_InrE split: prod.splits)
  have b1: "krc20_books s1" using preservesD[OF books_create_cycle b] c by (metis snd_conv)
  note C = create_cycle_Inr[OF c] and E = eligible_room[OF b1 q]
  have b2: "krc20_books s2" unfolding E(1) by (rule books_calls[OF b1])
  have kind: "pc_kind cycle = Krc20Nacho" using C b1 by (auto simp: krc20_books_def krc20_keys_ok_def krc20_key_ok_def)
  have "has_room s2 e = has_room s1 e" for e
  proof -
    have "krc20_row s2 = krc20_row s1" by (rule ext) (simp add: krc20_row_def E(1))
    then show ?thesis unfolding has_room_def credited_sompi_def open_krc20_sompi_eq by (simp add: E(1))
  qed
  then have "krc20_books s3"
    using plan_loop_books[OF b2 _ kind _ E(3) loop] C(1) E(1,2) by simp
  then have "krc20_books s4" using preservesD[OF books_mark_cycle(5)] tot by (metis snd_conv)
  then show ?thesis using preservesD[OF books_audit] aud by (metis snd_conv)
qed

lemma books_read: "(\<And>s. snd (m s) = s) \<Longrightarrow> preserves krc20_books (sql m)"
  by (intro preserves_sql krc20_books_inv preservesI) simp

lemma books_reads:
  "preserves krc20_books (find_cycle_by_idempotency_key key)" "preserves krc20_books (get_cycle cid)"
  "preserves krc20_books (list_krc20_for_cycle cid)" "preserves krc20_books (list_krc20_by_status sts lmt)"
  "preserves krc20_books (get_payout pid)" "preserves krc20_books (wallet_get_by_id w)"
  "preserves krc20_books in_flight_spend_tx_hashes"
  unfolding find_cycle_by_idempotency_key_def get_cycle_def list_krc20_for_cycle_def list_krc20_by_status_def
    get_payout_def wallet_get_by_id_def in_flight_spend_tx_hashes_def
  by (rule books_read, simp split: option.split)+

lemmas books_steps = preserves_ret preserves_raise preserves_gets preserves_lift_sum preserves_bindE preserves_seqE
  preserves_map_err preserves_foldE preserves_if preserves_case_option preserves_case_prod books_reads books_mark_cycle books_create_cycle books_audit
  books_record_hash books_mark_krc20

lemmas books_rules = books_steps preserves_transaction[OF krc20_books_inv]

lemma plan_krc20_cycle_books: "preserves krc20_books (plan_krc20_cycle quote sl xonly prefix params)"
proof -
  have "preserves krc20_books (transaction (plan_krc20_body sl xonly prefix params price amount) KcDb)" for price amount
    by (intro preservesI transaction_keeps[OF krc20_books_inv]) (auto intro: plan_krc20_body_books books_calls)
  then show ?thesis unfolding plan_krc20_cycle_def by (intro books_steps)
qed

lemma resume_or_plan_krc20_books: "preserves krc20_books (resume_or_plan_krc20_cycle quote sl xonly prefix params)"
  unfolding resume_or_plan_krc20_cycle_def by (intro books_rules plan_krc20_cycle_books)

lemma reconcile_krc20_books: "preserves krc20_books (reconcile_krc20_cycle_status cid)"
proof -
  have "preserves krc20_books (persist_cycle_status cid st)" for st
    unfolding persist_cycle_status_def by (cases st) (simp_all add: books_rules)
  then show ?thesis unfolding reconcile_krc20_cycle_status_def Let_def by (intro books_rules)
qed

text \<open>
  C12. The books of the rebate scheme always balance: planning or resuming a token payout cycle at
  any price, crediting completed transfers, reconciling a cycle, and giving up on a transfer that
  is not completed all keep, through every error and rolled-back transaction, that what was
  credited to a wallet is exactly the sum of its confirmed token payouts, and that credited and
  open payouts together never exceed what the wallet accrued.
\<close>

theorem krc20_books_kept:
  "preserves krc20_books (plan_krc20_cycle quote sl xonly prefix params :: ('z, krc20_cycle_state) kc_act) \<and>
   preserves krc20_books (resume_or_plan_krc20_cycle quote sl xonly prefix params :: ('z, krc20_cycle_state) kc_act) \<and>
   preserves krc20_books (credit_completed_transfers lmt :: ('z, credit_report) kc_act) \<and>
   preserves krc20_books (reconcile_krc20_cycle_status cid :: ('z, payout_cycle_status) kc_act) \<and>
   (krc20_books (s :: 'z pool_db_scheme) \<and> (\<forall>k \<in> set (transfers s). kt_payout k = pid \<longrightarrow> kt_status k \<noteq> Completed) \<longrightarrow>
      krc20_books (snd (fail_krc20_transfer pid reason s)))"
  using plan_krc20_cycle_books resume_or_plan_krc20_books credit_completed_books reconcile_krc20_books
    fail_krc20_transfer_books
  by blast

section \<open>Crediting is never refused\<close>

definition healthy :: "'z pool_db_scheme \<Rightarrow> bool" where
  "healthy s \<longleftrightarrow> (\<forall>n. \<not> faults s n)"

text \<open>The clock of the server has passed every time it wrote.\<close>

definition row_clock :: "timestamp \<Rightarrow> payout \<Rightarrow> bool" where
  "row_clock t p \<longleftrightarrow> po_planned_at p \<le> t \<and> (case po_submitted_at p of None \<Rightarrow> True | Some u \<Rightarrow> u \<le> t)"

definition clock_ok :: "'z pool_db_scheme \<Rightarrow> bool" where
  "clock_ok s \<longleftrightarrow> (\<forall>p \<in> set (payouts s). row_clock (now s) p)"

lemma transaction_healthy:
  assumes "healthy s" and "body (s\<lparr>calls := Suc (calls s)\<rparr>) = (Inr a, v)" and "healthy v"
  shows "transaction body conv s = (Inr a, v\<lparr>calls := Suc (calls v)\<rparr>)"
  using assms by (simp add: transaction_def bindE_def map_err_def sql_def Let_def healthy_def)

lemma wallet_total_ge:
  assumes "p \<in> set ps" and "Q p" and "\<And>q. q \<in> set ps \<Longrightarrow> 0 \<le> po_amount q"
  shows "po_amount p \<le> wallet_total Q ps (po_wallet p)"
proof -
  obtain xs ys where ps: "ps = xs @ p # ys" using assms(1) by (metis split_list)
  have nn: "0 \<le> wallet_total Q zs w" if "set zs \<subseteq> set ps" for zs w
    unfolding wallet_total_def using that assms(3) by (intro sum_list_nonneg) auto
  have "0 \<le> wallet_total Q xs (po_wallet p)" "0 \<le> wallet_total Q ys (po_wallet p)" by (auto simp: ps intro!: nn)
  then show ?thesis using assms(2) by (simp add: ps wallet_total_append wallet_total_Cons)
qed

lemma row_clock_confirmed:
  assumes "row_clock t p"
  shows "row_clock t (confirmed t p)" and "payout_checks p \<Longrightarrow> payout_checks (confirmed t p)"
  using assms by (cases "po_submitted_at p"; cases "po_confirmed_at p"; simp add: row_clock_def payout_checks_def)+

lemma credit_body_succeeds:
  assumes h: "healthy s" and c: "clock_ok s" and b: "krc20_books s" and k: "k \<in> set (transfers s)" "kt_status k = Completed"
    and p: "p \<in> set (payouts s)" "po_id p = kt_payout k"
  obtains fired t where "credit_body p (kt_payout k) s = (Inr fired, t)" and "healthy t" and "clock_ok t"
proof -
  have ids: "distinct (map po_id (payouts s))" and chk: "\<And>q. q \<in> set (payouts s) \<Longrightarrow> payout_checks q"
    using b by (auto simp: krc20_books_def payout_db_ok_def)
  have "list_all (\<lambda>q. po_id q = po_id p \<and> po_status q \<noteq> Confirmed \<longrightarrow> payout_checks (confirmed (now s) q)) (payouts s)"
    using c chk by (simp add: list_all_iff clock_ok_def row_clock_confirmed)
  then obtain f u where u: "confirm_krc20_payout_once (po_id p) s = (Inr f, u)"
    using h by (auto simp: confirm_krc20_payout_once_def update_payout_def sql_def Let_def healthy_def bindE_def)
  note C = confirm_krc20_payout_once_Inr[OF u ids p(1)]
  have u': "healthy u" "now u = now s" "rebates u = rebates s" by (subst C(1), use h in \<open>simp add: healthy_def\<close>)+
  have cu: "clock_ok u"
    using c unfolding clock_ok_def u'(2) C(3) by (auto simp: in_update_where row_clock_confirmed)
  show thesis
  proof (cases f)
    case False
    then have "credit_body p (kt_payout k) s = (Inr False, u)" using u p(2) by (simp add: credit_body_def bindE_def)
    then show thesis using that u'(1) cu by blast
  next
    case True
    obtain q where "q \<in> set (payouts s)" "po_id q = kt_payout k" "krc20_row s q" "coupled q k"
      using b k(1) by (auto simp: krc20_books_def transfers_ok_def)
    then have row: "krc20_row s p" and "coupled p k" using same_key[OF ids, of q p] p by auto
    then have st: "po_status p \<notin> {Failed, Confirmed}" using k(2) True C(2) by (auto simp: coupled_def)
    obtain r where r: "List.find (\<lambda>r. nr_wallet r = po_wallet p) (rebates s) = Some r"
      using b row p(1) by (cases "List.find (\<lambda>r. nr_wallet r = po_wallet p) (rebates s)")
        (fastforce simp: krc20_books_def transfers_ok_def find_None_iff)+
    then have rin: "r \<in> set (rebates s)" "nr_wallet r = po_wallet p" by (auto dest: find_Some_iff_in)
    have pos: "0 < po_amount q" if "q \<in> set (payouts s)" for q using chk[OF that] by (simp add: payout_checks_def)
    have "po_amount p \<le> open_krc20_sompi s (po_wallet p)"
      unfolding open_krc20_sompi_eq using p(1) row st pos by (intro wallet_total_ge) (auto simp: order_less_imp_le)
    then have "nr_paid r + po_amount p \<le> nr_accrued r" using b rin by (auto simp: krc20_books_def ledger_ok_def)
    moreover have "rebate_checks r" using b rin(1) by (auto simp: krc20_books_def rebates_ok_def)
    ultimately have "rebate_checks (r\<lparr>nr_paid := nr_paid r + po_amount p, nr_updated_at := x\<rparr>)" for x
      using pos[OF p(1)] by (auto simp: rebate_checks_def)
    then obtain y v where v: "rebate_mark_paid (po_wallet p) (po_amount p) u = (Inr y, v)"
      using pos[OF p(1)] u'(1) r by (auto simp: rebate_mark_paid_def sql_def Let_def healthy_def u'(3))
    have "healthy v" "clock_ok v"
      using v u'(1) cu by (auto simp: rebate_mark_paid_def sql_def Let_def healthy_def clock_ok_def split: if_splits option.splits)
    moreover obtain n t where t: "audit_append ''payout-krc20'' ''krc20.credit'' (''payout'', kt_payout k) v = (Inr n, t)"
      using \<open>healthy v\<close> by (auto simp: audit_append_def sql_def Let_def healthy_def)
    ultimately have "healthy t" "clock_ok t"
      by (auto simp: audit_append_def sql_def Let_def healthy_def clock_ok_def split: if_splits)
    moreover have "credit_body p (kt_payout k) s = (Inr True, t)"
      using u p(2) True v t by (simp add: credit_body_def bindE_def)
    ultimately show thesis using that by blast
  qed
qed

lemma credit_transfer_succeeds:
  assumes h: "healthy s" and c: "clock_ok s" and b: "krc20_books s" and k: "k \<in> set (transfers s)" "kt_status k = Completed"
  obtains rep' t where "credit_transfer rep k s = (Inr rep', t)" and "healthy t" and "clock_ok t"
proof -
  let ?s = "s\<lparr>calls := Suc (calls s)\<rparr>" and ?u = "s\<lparr>calls := Suc (Suc (calls s))\<rparr>"
  from b k(1) obtain p where p: "List.find (\<lambda>p. po_id p = kt_payout k) (payouts s) = Some p"
    by (cases "List.find (\<lambda>p. po_id p = kt_payout k) (payouts s)")
      (fastforce simp: krc20_books_def transfers_ok_def find_None_iff)+
  then have pin: "p \<in> set (payouts s)" "po_id p = kt_payout k" by (auto dest: find_Some_iff_in)
  have hu: "healthy ?u" "clock_ok ?u" using h c by (simp_all add: healthy_def clock_ok_def)
  obtain fired v where v: "credit_body p (kt_payout k) ?u = (Inr fired, v)" "healthy v" "clock_ok v"
    by (rule credit_body_succeeds[OF hu books_calls[OF b] _ k(2) _ pin(2)]) (use pin k in auto)
  have "transaction (credit_body p (kt_payout k)) id ?s = (Inr fired, v\<lparr>calls := Suc (calls v)\<rparr>)"
    using transaction_healthy[of ?s "credit_body p (kt_payout k)" fired v id] v h by (simp add: healthy_def)
  moreover have "get_payout (kt_payout k) s = (Inr p, ?s)" using h p by (simp add: get_payout_def sql_def Let_def healthy_def)
  ultimately obtain rep' where "credit_transfer rep k s = (Inr rep', v\<lparr>calls := Suc (calls v)\<rparr>)"
    by (simp add: credit_transfer_def bindE_def map_err_def)
  moreover have "healthy (v\<lparr>calls := Suc (calls v)\<rparr>)" "clock_ok (v\<lparr>calls := Suc (calls v)\<rparr>)"
    using v by (simp_all add: healthy_def clock_ok_def)
  ultimately show thesis using that by blast
qed

lemma credit_loop_succeeds:
  assumes "healthy s" and "clock_ok s" and "krc20_books s" and "\<And>k. k \<in> set ks \<Longrightarrow> k \<in> set (transfers s) \<and> kt_status k = Completed"
  shows "\<exists>rep' t. foldE credit_transfer rep ks s = (Inr rep', t)"
  using assms
proof (induction ks arbitrary: rep s)
  case (Cons k ks)
  have k: "k \<in> set (transfers s)" "kt_status k = Completed" using Cons.prems(4) by auto
  obtain rep1 s1 where one: "credit_transfer rep k s = (Inr rep1, s1)" "healthy s1" "clock_ok s1"
    by (rule credit_transfer_succeeds[OF Cons.prems(1-3) k])
  have "krc20_books s1" "transfers s1 = transfers s" using credit_transfer_books[OF Cons.prems(3) k one(1)] by auto
  then show ?case using Cons.IH[OF one(2,3)] Cons.prems(4) one(1) by simp
qed simp


text \<open>A database with one rebate and one token payout of the given statuses.\<close>

definition sample_krc20 :: "payout_status \<Rightarrow> krc20_transfer_status \<Rightarrow> pool_db" where
  "sample_krc20 st kst = empty_db\<lparr>
     wallets := [\<lparr>w_id = 1, w_address = ''kaspa:qz'', w_network = ''mainnet''\<rparr>],
     rebates := [\<lparr>nr_wallet = 1, nr_accrued = 1000000000, nr_paid = 0, nr_updated_at = 0\<rparr>],
     cycles := [\<lparr>pc_id = 1, pc_kind = Krc20Nacho, pc_status = CyPlanned, pc_daa_start = 0, pc_daa_end = 500,
       pc_planned_at = 0, pc_broadcast_at = None, pc_settled_at = None, pc_total_sompi = 0, pc_total_recipients = 0,
       pc_key = idempotency_key Krc20Nacho 0 500\<rparr>],
     next_cycle := 2, payouts := [sample_payout st], next_payout := 2,
     transfers := [\<lparr>kt_id = 1, kt_payout = 1, kt_sompi = 20000000, kt_nacho = 5, kt_p2sh = ''p'', kt_status = kst,
       kt_commit_fee = None, kt_reveal_fee = None, kt_created_at = 0, kt_updated_at = 0\<rparr>],
     next_transfer := 2\<rparr>"

lemmas sample_krc20_simps = sample_krc20_def sample_payout_def empty_db_def

lemma sample_krc20_books: "st \<in> {Planned, Submitted, Accepted} \<Longrightarrow> krc20_books (sample_krc20 st kst)"
  by (auto simp: sample_krc20_simps books_defs krc20_key_ok_def payout_db_ok_def payout_checks_def cycle_checks_def
      rebates_ok_def rebate_checks_def in_i64_def kind_of_def cycle_of_def coupled_def wallet_total_def)


theorem krc20_books_kept_witness:
  "krc20_books (sample_krc20 Planned CommitSubmitted) \<and>
   krc20_books (snd (fail_krc20_transfer 1 ''stuck'' (sample_krc20 Planned CommitSubmitted)))"
proof -
  have "\<forall>k \<in> set (transfers (sample_krc20 Planned CommitSubmitted)). kt_payout k = 1 \<longrightarrow> kt_status k \<noteq> Completed"
    by (simp add: sample_krc20_simps)
  with krc20_books_kept[where s = "sample_krc20 Planned CommitSubmitted"] sample_krc20_books show ?thesis by blast
qed

section \<open>What the give-up primitive does not check\<close>

text \<open>
  Giving up is only safe on a transfer that has not completed: the transfer keeps its
  completed status but the payout is failed without a look at it, so a balance whose tokens have
  been paid is offered to the next cycle again.
\<close>

theorem fail_completed_transfer_refunds:
  "\<exists>t. fail_krc20_transfer 1 ''late'' (sample_krc20 Planned Completed) = (Inr (), t) \<and>
     map kt_status (transfers t) = [Completed] \<and> map po_status (payouts t) = [Failed] \<and>
     map ke_pending (krc20_rows (sample_krc20 Planned Completed)) = [0] \<and> map ke_pending (krc20_rows t) = [1000000000]"
  by (simp add: sample_krc20_simps fail_krc20_transfer_def transaction_def mark_krc20_failed_def mark_payout_failed_def
      audit_append_def update_payout_def update_transfer_def update_where_def rows_affected_def sql_def bindE_def map_err_def
      Let_def payout_checks_def krc20_rows_def open_krc20_sompi_def cycle_of_def)

end
