(* ===== verification/Krc20_Execute.thy ===== *)
theory Krc20_Execute
  imports Krc20_Cycle Kas_Execute
begin

text \<open>
  The executor and engine of the NACHO payouts: assembling and signing the commit/reveal pair
  (\<open>payout-krc20/src/sign.rs\<close>), advancing each transfer by one state (\<open>execute.rs\<close>) and the
  leader's tick (\<open>engine.rs\<close>).

  As in \<open>Kas_Execute\<close> the node is an oracle that may answer every call with anything, and the
  world keeps a log of the transactions handed to it, with the payout each was made for; the
  code does not store that log.  The sweep ledger is a local variable of \<open>settle_pending\<close>
  threaded through the sweep, also past a failed transfer; it is a field of the world that each
  sweep resets.

  What the executor guarantees is proved in \<open>Krc20_Safety\<close>.
\<close>

section \<open>Signing\<close>

text \<open>The key library's x-only key and Schnorr signature over a P2SH input, beside what KAS payouts ask of it.\<close>

record krc20_signer = signer +
  sg_xonly :: "bytes \<Rightarrow> bytes"
  sg_schnorr :: "bytes \<Rightarrow> transaction \<Rightarrow> utxo_entry \<Rightarrow> bytes option"

datatype krc20_sign_error =
    KsEmptyInputs
  | KsVirtualInput
  | KsKey string
  | KsMessage
  | KsScript string
  | KsVerify nat string

definition COMMIT_P2SH_OUTPUT_INDEX :: nat where "COMMIT_P2SH_OUTPUT_INDEX = 0"
definition COMMIT_CHANGE_OUTPUT_INDEX :: nat where "COMMIT_CHANGE_OUTPUT_INDEX = 1"
definition SIG_HASH_ALL :: nat where "SIG_HASH_ALL = 1"

definition unsigned_input :: "outpoint \<Rightarrow> tx_input" where
  "unsigned_input coin = \<lparr>ti_outpoint = coin, ti_sig_script = [], ti_sequence = 0, ti_sig_ops = 1\<rparr>"

definition build_commit_unsigned ::
  "planned_commit_reveal \<Rightarrow> bytes \<Rightarrow> krc20_sign_error + (transaction \<times> utxo_entry list)" where
  "build_commit_unsigned plan treasury_script =
     (if cr_commit_inputs plan = [] then Inl KsEmptyInputs
      else if list_ex is_planning_virtual (cr_commit_inputs plan) then Inl KsVirtualInput
      else Inr
        (\<lparr>tx_inputs = map (\<lambda>u. unsigned_input (tu_outpoint u)) (cr_commit_inputs plan),
          tx_outputs = (cr_commit_amount plan, cr_commit_spk plan) #
            (if 0 < cr_commit_change plan then [(cr_commit_change plan, treasury_script)] else [])\<rparr>,
         map tu_entry (cr_commit_inputs plan)))"

definition commit_txid :: "('x signer_scheme) \<Rightarrow> planned_commit_reveal \<Rightarrow> bytes \<Rightarrow> krc20_sign_error + bytes" where
  "commit_txid sg plan treasury_script =
     map_sum id (\<lambda>(tx, _). sg_txid sg tx) (build_commit_unsigned plan treasury_script)"

definition krc20_verify :: "('x signer_scheme) \<Rightarrow> transaction \<Rightarrow> utxo_entry list \<Rightarrow> krc20_sign_error + unit" where
  "krc20_verify sg tx entries =
     (let run = sg_execute sg tx entries
      in case List.find (\<lambda>i. isl (run i)) [0..<length (tx_inputs tx)] of
           None \<Rightarrow> Inr ()
         | Some i \<Rightarrow> Inl (KsVerify i (projl (run i))))"

definition sign_commit :: "krc20_signer \<Rightarrow> planned_commit_reveal \<Rightarrow> bytes \<Rightarrow> bytes \<Rightarrow> krc20_sign_error + transaction" where
  "sign_commit sg plan treasury_script secret =
     (case build_commit_unsigned plan treasury_script of Inl e \<Rightarrow> Inl e | Inr (unsigned, entries) \<Rightarrow>
      (case sg_keypair sg secret of Inl e \<Rightarrow> Inl (KsKey e) | Inr keypair \<Rightarrow>
         let tx = sg_sign sg keypair unsigned entries
         in case krc20_verify sg tx entries of Inl e \<Rightarrow> Inl e | Inr _ \<Rightarrow> Inr tx))"

definition build_reveal_unsigned :: "planned_commit_reveal \<Rightarrow> outpoint \<Rightarrow> bytes \<Rightarrow> transaction" where
  "build_reveal_unsigned plan commit_outpoint treasury_script =
     \<lparr>tx_inputs = [unsigned_input commit_outpoint], tx_outputs = [(cr_reveal_return plan, treasury_script)]\<rparr>"

definition reveal_entry :: "planned_commit_reveal \<Rightarrow> utxo_entry" where
  "reveal_entry plan = \<lparr>ue_amount = cr_commit_amount plan, ue_script = cr_commit_spk plan, ue_block_daa = 0,
     ue_is_coinbase = False\<rparr>"

definition reveal_txid :: "('x signer_scheme) \<Rightarrow> planned_commit_reveal \<Rightarrow> outpoint \<Rightarrow> bytes \<Rightarrow> bytes" where
  "reveal_txid sg plan commit_outpoint treasury_script =
     sg_txid sg (build_reveal_unsigned plan commit_outpoint treasury_script)"

definition sign_reveal ::
  "krc20_signer \<Rightarrow> script_lib \<Rightarrow> planned_commit_reveal \<Rightarrow> outpoint \<Rightarrow> bytes \<Rightarrow> bytes \<Rightarrow> krc20_sign_error + transaction" where
  "sign_reveal sg sl plan commit_outpoint treasury_script secret =
     (let tx = build_reveal_unsigned plan commit_outpoint treasury_script; entry = reveal_entry plan
      in case sg_keypair sg secret of Inl e \<Rightarrow> Inl (KsKey e) | Inr keypair \<Rightarrow>
        (case sg_schnorr sg keypair tx entry of None \<Rightarrow> Inl KsMessage | Some sig \<Rightarrow>
          (case sl_p2sh_sig_script sl (cr_redeem_script plan) (65 # sig @ [SIG_HASH_ALL]) of Inl e \<Rightarrow> Inl (KsScript e) | Inr script \<Rightarrow>
             let tx = tx\<lparr>tx_inputs := [(unsigned_input commit_outpoint)\<lparr>ti_sig_script := script\<rparr>]\<rparr>
             in case krc20_verify sg tx [entry] of Inl e \<Rightarrow> Inl e | Inr _ \<Rightarrow> Inr tx)))"

section \<open>The node, the log and the ledger\<close>

record krc20_node =
  nn_virtual_daa_score :: "nat \<Rightarrow> kas_rpc_error + nat"
  nn_utxos :: "nat \<Rightarrow> string \<Rightarrow> kas_rpc_error + treasury_utxo list"
  nn_submit_transaction :: "nat \<Rightarrow> transaction \<Rightarrow> kas_rpc_error + bytes"
  nn_fee_estimate :: "nat \<Rightarrow> kas_rpc_error + f64"
  nn_transaction_in_mempool :: "nat \<Rightarrow> bytes \<Rightarrow> kas_rpc_error + bool"

record krc20_broadcast =
  kl_payout :: int
  kl_reveal :: bool
  kl_tx :: transaction
  kl_txid :: bytes
  kl_result :: "kas_rpc_error + bytes"

record sweep_ledger =
  sw_consumed :: "outpoint set"
  sw_chained :: "treasury_utxo list"

definition default_ledger :: sweep_ledger where
  "default_ledger = \<lparr>sw_consumed = {}, sw_chained = []\<rparr>"

definition ledger_reconcile :: "sweep_ledger \<Rightarrow> treasury_utxo list \<Rightarrow> treasury_utxo list" where
  "ledger_reconcile l utxos =
     (if sw_consumed l = {} \<and> sw_chained l = [] then utxos
      else filter (\<lambda>u. tu_outpoint u \<notin> sw_consumed l) utxos @ sw_chained l)"

definition note_commit :: "bytes \<Rightarrow> planned_commit_reveal \<Rightarrow> bytes \<Rightarrow> sweep_ledger \<Rightarrow> sweep_ledger" where
  "note_commit commit_id plan treasury_script l =
     (let consumed = sw_consumed l \<union> tu_outpoint ` set (cr_commit_inputs plan);
          chained = filter (\<lambda>u. tu_outpoint u \<notin> consumed) (sw_chained l)
      in \<lparr>sw_consumed = consumed,
          sw_chained = chained @ (if 0 < cr_commit_change plan
            then [\<lparr>tu_outpoint = \<lparr>op_txid = commit_id, op_index = COMMIT_CHANGE_OUTPUT_INDEX\<rparr>,
                   tu_entry = \<lparr>ue_amount = cr_commit_change plan, ue_script = treasury_script, ue_block_daa = 0,
                     ue_is_coinbase = False\<rparr>\<rparr>]
            else [])\<rparr>)"

record krc20_world = pool_db +
  knode :: krc20_node
  krpcs :: nat
  klog :: "krc20_broadcast list"
  kledger :: sweep_ledger

section \<open>Advancing a transfer\<close>

datatype krc20_execute_error =
    KxDb db_error
  | KxKaspad kas_rpc_error
  | KxPlan plan_error
  | KxInscription inscription_error
  | KxSign krc20_sign_error
  | KxKey string
  | KxAmount int string int
  | KxMalformedHash int
  | KxMissingHash int string
  | KxMissingFee int string
  | KxInscriptionMismatch int string string
  | KxCommitDrift int bytes bytes
  | KxRevealDrift int bytes bytes

datatype transfer_step =
    CommitBroadcast | CommitRebroadcast | CommitPending
  | RevealBroadcast | RevealRebroadcast | RevealPending
  | StepCompleted | NoChange

record settle_report =
  sr_commits_broadcast :: nat
  sr_reveals_broadcast :: nat
  sr_rebroadcasts :: nat
  sr_completed :: nat
  sr_pending :: nat
  sr_errors :: "(int \<times> int \<times> krc20_execute_error) list"

definition default_settle_report :: settle_report where
  "default_settle_report = \<lparr>sr_commits_broadcast = 0, sr_reveals_broadcast = 0, sr_rebroadcasts = 0, sr_completed = 0,
     sr_pending = 0, sr_errors = []\<rparr>"

definition settle_record :: "transfer_step \<Rightarrow> settle_report \<Rightarrow> settle_report" where
  "settle_record step r = (case step of
      CommitBroadcast \<Rightarrow> r\<lparr>sr_commits_broadcast := sr_commits_broadcast r + 1\<rparr>
    | RevealBroadcast \<Rightarrow> r\<lparr>sr_reveals_broadcast := sr_reveals_broadcast r + 1\<rparr>
    | CommitRebroadcast \<Rightarrow> r\<lparr>sr_rebroadcasts := sr_rebroadcasts r + 1\<rparr>
    | RevealRebroadcast \<Rightarrow> r\<lparr>sr_rebroadcasts := sr_rebroadcasts r + 1\<rparr>
    | StepCompleted \<Rightarrow> r\<lparr>sr_completed := sr_completed r + 1\<rparr>
    | CommitPending \<Rightarrow> r\<lparr>sr_pending := sr_pending r + 1\<rparr>
    | RevealPending \<Rightarrow> r\<lparr>sr_pending := sr_pending r + 1\<rparr>
    | NoChange \<Rightarrow> r)"

text \<open>What an engine is built from: libraries, treasury key, address and script.\<close>

record krc20_env =
  kv_signer :: krc20_signer
  kv_scripts :: script_lib
  kv_consensus :: consensus
  kv_secret :: bytes
  kv_address :: string
  kv_prefix :: string
  kv_script :: bytes

record transfer_ctx =
  tc_xonly :: bytes
  tc_fee_rate :: fee_rate
  tc_commit_fee :: "nat option"
  tc_reveal_fee :: "nat option"
  tc_inscription :: krc20_op
  tc_commit_amount :: nat
  tc_payout :: int
  tc_p2sh :: string

type_synonym 'a kx_act = "(krc20_world, krc20_execute_error, 'a) act"

abbreviation kxdb :: "(krc20_world, db_error, 'a) act \<Rightarrow> 'a kx_act" where
  "kxdb m \<equiv> map_err KxDb m"

abbreviation kxsum :: "('e \<Rightarrow> krc20_execute_error) \<Rightarrow> 'e + 'a \<Rightarrow> 'a kx_act" where
  "kxsum g r \<equiv> map_err g (lift_sum r)"

definition krc20_rpc_result :: "(krc20_node \<Rightarrow> nat \<Rightarrow> kas_rpc_error + 'a) \<Rightarrow> (kas_rpc_error + 'a) kx_act" where
  "krc20_rpc_result q s = (Inr (q (knode s) (krpcs s)), s\<lparr>krpcs := Suc (krpcs s)\<rparr>)"

definition krc20_rpc :: "(krc20_node \<Rightarrow> nat \<Rightarrow> kas_rpc_error + 'a) \<Rightarrow> 'a kx_act" where
  "krc20_rpc q = bindE (krc20_rpc_result q) (\<lambda>r. kxsum KxKaspad r)"

definition krc20_submit :: "krc20_signer \<Rightarrow> int \<Rightarrow> bool \<Rightarrow> transaction \<Rightarrow> bytes kx_act" where
  "krc20_submit sg pid is_reveal tx s =
     (let r = nn_submit_transaction (knode s) (krpcs s) tx
      in (map_sum KxKaspad id r, s\<lparr>krpcs := Suc (krpcs s),
            klog := klog s @ [\<lparr>kl_payout = pid, kl_reveal = is_reveal, kl_tx = tx, kl_txid = sg_txid sg tx, kl_result = r\<rparr>]\<rparr>))"

definition frozen_reveal_fee :: "transfer_ctx \<Rightarrow> krc20_execute_error + nat" where
  "frozen_reveal_fee ctx = (case tc_reveal_fee ctx of Some f \<Rightarrow> Inr f | None \<Rightarrow> Inl (KxMissingFee (tc_payout ctx) ''reveal''))"

definition frozen_policy :: "transfer_ctx \<Rightarrow> krc20_execute_error + krc20_fee_policy" where
  "frozen_policy ctx = (case tc_commit_fee ctx of
      None \<Rightarrow> Inl (KxMissingFee (tc_payout ctx) ''commit'')
    | Some cf \<Rightarrow> map_sum id (Frozen cf) (frozen_reveal_fee ctx))"

definition opt_fee :: "int option \<Rightarrow> int \<Rightarrow> string \<Rightarrow> krc20_execute_error + nat option" where
  "opt_fee v pid field = (case v of
      None \<Rightarrow> Inr None
    | Some x \<Rightarrow> (case u64_try_from_i64 x of None \<Rightarrow> Inl (KxAmount pid field x) | Some f \<Rightarrow> Inr (Some f)))"

definition fetch_spendable_utxos :: "krc20_env \<Rightarrow> treasury_utxo list kx_act" where
  "fetch_spendable_utxos env =
     bindE (krc20_rpc nn_virtual_daa_score) (\<lambda>virtual_daa.
     bindE (kxdb in_flight_spend_tx_hashes) (\<lambda>hashes.
     bindE (krc20_rpc (\<lambda>n i. nn_utxos n i (kv_address env))) (\<lambda>coins.
     ret (spendable_coins virtual_daa (protected_hashes hashes) coins))))"

definition plan_from_utxos ::
  "krc20_env \<Rightarrow> transfer_ctx \<Rightarrow> treasury_utxo list \<Rightarrow> krc20_fee_policy \<Rightarrow> plan_error + planned_commit_reveal" where
  "plan_from_utxos env ctx utxos policy =
     plan_commit_reveal (kv_scripts env) (kv_consensus env) utxos (kv_script env) (tc_xonly ctx) (tc_inscription ctx)
       \<lparr>rc_commit_amount = tc_commit_amount ctx, rc_fee_policy = policy\<rparr>"

definition verify_p2sh :: "krc20_env \<Rightarrow> transfer_ctx \<Rightarrow> planned_commit_reveal \<Rightarrow> krc20_execute_error + unit" where
  "verify_p2sh env ctx plan =
     (case commit_address (kv_scripts env) (cr_redeem_script plan) (kv_prefix env) of
        Inl e \<Rightarrow> Inl (KxInscription e)
      | Inr rebuilt \<Rightarrow> if rebuilt \<noteq> tc_p2sh ctx then Inl (KxInscriptionMismatch (tc_payout ctx) (tc_p2sh ctx) rebuilt) else Inr ())"

definition recorded_txid :: "bytes option \<Rightarrow> int \<Rightarrow> string \<Rightarrow> krc20_execute_error + bytes" where
  "recorded_txid h pid kind = (case h of
      None \<Rightarrow> Inl (KxMissingHash pid kind)
    | Some b \<Rightarrow> if length b = 32 then Inr b else Inl (KxMalformedHash pid))"

definition record_commit_intent :: "int \<Rightarrow> int \<Rightarrow> int \<Rightarrow> bytes \<Rightarrow> unit kx_act" where
  "record_commit_intent pid commit_fee reveal_fee txid =
     transaction
       (bindE (kxdb (record_krc20_fees pid commit_fee reveal_fee)) (\<lambda>_.
        bindE (kxdb (record_krc20_commit_hash pid txid)) (\<lambda>_.
        bindE (kxdb (mark_krc20_commit_submitted pid)) (\<lambda>_. ret ())))) KxDb"

definition fee_column :: "nat \<Rightarrow> int \<Rightarrow> string \<Rightarrow> krc20_execute_error + int" where
  "fee_column f pid field = (case i64_try_from_u64 f of None \<Rightarrow> Inl (KxAmount pid field i64_max) | Some v \<Rightarrow> Inr v)"

definition handle_pending :: "krc20_env \<Rightarrow> transfer_ctx \<Rightarrow> kas_execution_mode \<Rightarrow> transfer_step kx_act" where
  "handle_pending env ctx mode =
     bindE (fetch_spendable_utxos env) (\<lambda>utxos.
     bindE (gets kledger) (\<lambda>ledger.
     bindE (kxsum KxPlan (plan_from_utxos env ctx (ledger_reconcile ledger utxos) (Adaptive (tc_fee_rate ctx)))) (\<lambda>plan.
     bindE (lift_sum (verify_p2sh env ctx plan)) (\<lambda>_.
     bindE (kxsum KxSign (sign_commit (kv_signer env) plan (kv_script env) (kv_secret env))) (\<lambda>tx.
     let commit_id = sg_txid (kv_signer env) tx
     in bindE (\<lambda>s. (Inr (), s\<lparr>kledger := note_commit commit_id plan (kv_script env) (kledger s)\<rparr>)) (\<lambda>_.
        if mode = KasDryRun then ret NoChange
        else
          bindE (lift_sum (fee_column (cr_commit_fee plan) (tc_payout ctx) ''commit_fee_sompi'')) (\<lambda>commit_fee.
          bindE (lift_sum (fee_column (cr_reveal_fee plan) (tc_payout ctx) ''reveal_fee_sompi'')) (\<lambda>reveal_fee.
          bindE (record_commit_intent (tc_payout ctx) commit_fee reveal_fee commit_id) (\<lambda>_.
          bindE (krc20_submit (kv_signer env) (tc_payout ctx) False tx) (\<lambda>_.
          ret CommitBroadcast))))))))))"

definition record_reveal_intent :: "int \<Rightarrow> bytes \<Rightarrow> unit kx_act" where
  "record_reveal_intent pid txid =
     transaction
       (bindE (kxdb (record_krc20_reveal_hash pid txid)) (\<lambda>_.
        bindE (kxdb (mark_krc20_reveal_submitted pid)) (\<lambda>_. ret ()))) KxDb"

definition broadcast_reveal ::
  "krc20_env \<Rightarrow> transfer_ctx \<Rightarrow> planned_commit_reveal \<Rightarrow> outpoint \<Rightarrow> kas_execution_mode \<Rightarrow> transfer_step kx_act" where
  "broadcast_reveal env ctx reveal_plan commit_outpoint mode =
     bindE (kxsum KxSign (sign_reveal (kv_signer env) (kv_scripts env) reveal_plan commit_outpoint (kv_script env) (kv_secret env))) (\<lambda>tx.
     if mode = KasDryRun then ret NoChange
     else
       bindE (record_reveal_intent (tc_payout ctx) (sg_txid (kv_signer env) tx)) (\<lambda>_.
       bindE (krc20_submit (kv_signer env) (tc_payout ctx) True tx) (\<lambda>_.
       ret RevealBroadcast)))"

text \<open>A recorded commit that is neither on chain nor in the mempool.\<close>

definition rebroadcast_commit :: "krc20_env \<Rightarrow> transfer_ctx \<Rightarrow> bytes \<Rightarrow> transfer_step kx_act" where
  "rebroadcast_commit env ctx recorded =
     bindE (fetch_spendable_utxos env) (\<lambda>utxos.
     bindE (lift_sum (frozen_policy ctx)) (\<lambda>policy.
     bindE (kxsum KxPlan (plan_from_utxos env ctx utxos policy)) (\<lambda>plan.
     bindE (kxsum KxSign (commit_txid (kv_signer env) plan (kv_script env))) (\<lambda>rebuilt.
     if rebuilt \<noteq> recorded then raise (KxCommitDrift (tc_payout ctx) recorded rebuilt)
     else
       bindE (kxsum KxSign (sign_commit (kv_signer env) plan (kv_script env) (kv_secret env))) (\<lambda>tx.
       bindE (krc20_submit (kv_signer env) (tc_payout ctx) False tx) (\<lambda>_.
       ret CommitRebroadcast))))))"

definition handle_commit_submitted ::
  "krc20_env \<Rightarrow> transfer_ctx \<Rightarrow> payout \<Rightarrow> kas_execution_mode \<Rightarrow> transfer_step kx_act" where
  "handle_commit_submitted env ctx payout_row mode =
     bindE (lift_sum (recorded_txid (po_commit_hash payout_row) (tc_payout ctx) ''commit'')) (\<lambda>recorded.
     bindE (lift_sum (frozen_reveal_fee ctx)) (\<lambda>fee.
     bindE (kxsum KxPlan (reveal_only (kv_scripts env) (tc_xonly ctx) (tc_inscription ctx) (tc_commit_amount ctx) fee)) (\<lambda>reveal_plan.
     bindE (kxsum KxInscription (commit_address (kv_scripts env) (cr_redeem_script reveal_plan) (kv_prefix env))) (\<lambda>commit_addr.
     let commit_outpoint = \<lparr>op_txid = recorded, op_index = COMMIT_P2SH_OUTPUT_INDEX\<rparr>
     in bindE (krc20_rpc nn_virtual_daa_score) (\<lambda>virtual_daa.
        bindE (krc20_rpc (\<lambda>n i. nn_utxos n i commit_addr)) (\<lambda>p2sh_utxos.
        case List.find (\<lambda>u. tu_outpoint u = commit_outpoint) p2sh_utxos of
          Some u \<Rightarrow>
            if is_spendable (ue_block_daa (tu_entry u)) (ue_is_coinbase (tu_entry u)) virtual_daa
            then broadcast_reveal env ctx reveal_plan commit_outpoint mode
            else ret CommitPending
        | None \<Rightarrow>
            bindE (krc20_rpc (\<lambda>n i. nn_transaction_in_mempool n i recorded)) (\<lambda>in_mempool.
            if in_mempool then ret CommitPending
            else if mode = KasDryRun then ret NoChange
            else rebroadcast_commit env ctx recorded)))))))"

text \<open>A recorded reveal that is neither on chain nor in the mempool.\<close>

definition rebroadcast_reveal :: "krc20_env \<Rightarrow> transfer_ctx \<Rightarrow> payout \<Rightarrow> bytes \<Rightarrow> transfer_step kx_act" where
  "rebroadcast_reveal env ctx payout_row reveal_recorded =
     bindE (lift_sum (recorded_txid (po_commit_hash payout_row) (tc_payout ctx) ''commit'')) (\<lambda>commit_recorded.
     let commit_outpoint = \<lparr>op_txid = commit_recorded, op_index = COMMIT_P2SH_OUTPUT_INDEX\<rparr>
     in bindE (lift_sum (frozen_reveal_fee ctx)) (\<lambda>fee.
        bindE (kxsum KxPlan (reveal_only (kv_scripts env) (tc_xonly ctx) (tc_inscription ctx) (tc_commit_amount ctx) fee)) (\<lambda>reveal_plan.
        let rebuilt = reveal_txid (kv_signer env) reveal_plan commit_outpoint (kv_script env)
        in if rebuilt \<noteq> reveal_recorded then raise (KxRevealDrift (tc_payout ctx) reveal_recorded rebuilt)
           else
             bindE (kxsum KxSign (sign_reveal (kv_signer env) (kv_scripts env) reveal_plan commit_outpoint (kv_script env) (kv_secret env))) (\<lambda>tx.
             bindE (krc20_submit (kv_signer env) (tc_payout ctx) True tx) (\<lambda>_.
             ret RevealRebroadcast)))))"

definition handle_reveal_submitted ::
  "krc20_env \<Rightarrow> transfer_ctx \<Rightarrow> payout \<Rightarrow> kas_execution_mode \<Rightarrow> transfer_step kx_act" where
  "handle_reveal_submitted env ctx payout_row mode =
     bindE (lift_sum (recorded_txid (po_reveal_hash payout_row) (tc_payout ctx) ''reveal'')) (\<lambda>reveal_recorded.
     bindE (krc20_rpc nn_virtual_daa_score) (\<lambda>virtual_daa.
     bindE (krc20_rpc (\<lambda>n i. nn_utxos n i (kv_address env))) (\<lambda>coins.
     let on_chain = map_option (\<lambda>u. ue_block_daa (tu_entry u)) (List.find (\<lambda>u. op_txid (tu_outpoint u) = reveal_recorded) coins)
     in bindE (if on_chain \<noteq> None then ret False else krc20_rpc (\<lambda>n i. nn_transaction_in_mempool n i reveal_recorded)) (\<lambda>in_mempool.
        case kas_classify_confirmation \<lparr>ki_virtual_daa_score = virtual_daa, ki_in_mempool = in_mempool,
               ki_change_block_daa_score = on_chain, ki_recorded_accept_daa = None\<rparr> of
          CsConfirmed \<Rightarrow>
            if mode = KasDryRun then ret NoChange
            else bindE (kxdb (mark_krc20_completed (tc_payout ctx))) (\<lambda>_. ret StepCompleted)
        | CsAccepted \<Rightarrow> ret RevealPending
        | CsPending \<Rightarrow> ret RevealPending
        | CsUnknown \<Rightarrow> if mode = KasDryRun then ret NoChange else rebroadcast_reveal env ctx payout_row reveal_recorded))))"

definition transfer_context ::
  "krc20_transfer \<Rightarrow> fee_rate \<Rightarrow> bytes \<Rightarrow> string \<Rightarrow> krc20_execute_error + transfer_ctx" where
  "transfer_context k rate xonly recipient =
     (case u64_try_from_i64 (kt_nacho k) of None \<Rightarrow> Inl (KxAmount (kt_payout k) ''nacho_amount'' (kt_nacho k)) | Some nacho \<Rightarrow>
      (case u64_try_from_i64 (kt_sompi k) of None \<Rightarrow> Inl (KxAmount (kt_payout k) ''sompi_to_miner'' (kt_sompi k)) | Some amount \<Rightarrow>
       (case opt_fee (kt_commit_fee k) (kt_payout k) ''commit'' of Inl e \<Rightarrow> Inl e | Inr cf \<Rightarrow>
        (case opt_fee (kt_reveal_fee k) (kt_payout k) ''reveal'' of Inl e \<Rightarrow> Inl e | Inr rf \<Rightarrow>
           Inr \<lparr>tc_xonly = xonly, tc_fee_rate = rate, tc_commit_fee = cf, tc_reveal_fee = rf,
                tc_inscription = Krc20Transfer_new ''NACHO'' (show_nat nacho) recipient,
                tc_commit_amount = amount, tc_payout = kt_payout k, tc_p2sh = kt_p2sh k\<rparr>))))"

definition advance_transfer_inner ::
  "krc20_env \<Rightarrow> fee_rate \<Rightarrow> kas_execution_mode \<Rightarrow> krc20_transfer \<Rightarrow> transfer_step kx_act" where
  "advance_transfer_inner env rate mode k =
     (if kt_status k \<in> {Completed, KFailed} then ret NoChange
      else
        bindE (kxsum KxKey (sg_keypair (kv_signer env) (kv_secret env))) (\<lambda>keypair.
        bindE (kxdb (get_payout (kt_payout k))) (\<lambda>payout_row.
        bindE (kxdb (wallet_get_by_id (po_wallet payout_row))) (\<lambda>recipient.
        bindE (lift_sum (transfer_context k rate (sg_xonly (kv_signer env) keypair) (w_address recipient))) (\<lambda>ctx.
        case kt_status k of
          KPending \<Rightarrow> handle_pending env ctx mode
        | CommitSubmitted \<Rightarrow> handle_commit_submitted env ctx payout_row mode
        | RevealSubmitted \<Rightarrow> handle_reveal_submitted env ctx payout_row mode
        | _ \<Rightarrow> ret NoChange)))))"

definition advance_transfer :: "krc20_env \<Rightarrow> fee_rate \<Rightarrow> krc20_transfer \<Rightarrow> kas_execution_mode \<Rightarrow> transfer_step kx_act" where
  "advance_transfer env rate k mode s = advance_transfer_inner env rate mode k (s\<lparr>kledger := default_ledger\<rparr>)"

text \<open>One iteration of the sweep: an error is reported and the sweep goes on.\<close>

definition settle_one :: "krc20_env \<Rightarrow> fee_rate \<Rightarrow> kas_execution_mode \<Rightarrow> settle_report \<Rightarrow> krc20_transfer \<Rightarrow> settle_report kx_act" where
  "settle_one env rate mode report k s =
     (case advance_transfer_inner env rate mode k s of
        (Inr step, t) \<Rightarrow> (Inr (settle_record step report), t)
      | (Inl e, t) \<Rightarrow> (Inr (report\<lparr>sr_errors := sr_errors report @ [(kt_id k, kt_payout k, e)]\<rparr>), t))"

definition settle_pending :: "krc20_env \<Rightarrow> int \<Rightarrow> kas_execution_mode \<Rightarrow> settle_report kx_act" where
  "settle_pending env lmt mode =
     bindE (kxdb (list_krc20_by_status [KPending, CommitSubmitted, RevealSubmitted] lmt)) (\<lambda>transfers.
     bindE (krc20_rpc_result nn_fee_estimate) (\<lambda>r.
     let rate = (case r of Inr feerate \<Rightarrow> from_feerate feerate | Inl _ \<Rightarrow> from_feerate (Fin 0))
     in bindE (\<lambda>s. (Inr (), s\<lparr>kledger := default_ledger\<rparr>)) (\<lambda>_.
        foldE (settle_one env rate mode) default_settle_report transfers)))"

section \<open>The engine\<close>

datatype krc20_engine_error =
    KgDb db_error
  | KgCycle krc20_cycle_error
  | KgExecute krc20_execute_error
  | KgKaspad kas_rpc_error
  | KgKey string
  | KgSpanTooSmall nat nat
  | KgSpendCapExceeded int int

record krc20_engine_config =
  kg_cycle_span_daa :: nat
  kg_mode :: kas_execution_mode
  kg_min_pending :: int
  kg_min_nacho :: nat
  kg_ticker :: string
  kg_commit_amount :: nat
  kg_batch_limit :: int
  kg_max_nacho_per_cycle :: "int option"

record krc20_tick_report =
  kr_cycle :: int
  kr_virtual_daa :: nat
  kr_daa_start :: nat
  kr_daa_end :: nat
  kr_settle :: settle_report
  kr_credit :: credit_report
  kr_status :: payout_cycle_status

datatype krc20_tick_outcome = KgSkippedNotLeader | KgRan krc20_tick_report

type_synonym 'a kg_act = "(krc20_world, krc20_engine_error, 'a) act"

definition krc20_cycle_params_of :: "krc20_engine_config \<Rightarrow> nat \<Rightarrow> nat \<Rightarrow> krc20_cycle_params" where
  "krc20_cycle_params_of cfg daa_start daa_end =
     \<lparr>kq_daa_start = daa_start, kq_daa_end = daa_end, kq_min_pending = kg_min_pending cfg, kq_min_nacho = kg_min_nacho cfg,
      kq_ticker = kg_ticker cfg, kq_commit_amount = kg_commit_amount cfg, kq_limit = kg_batch_limit cfg\<rparr>"

definition krc20_engine_new :: "krc20_engine_config \<Rightarrow> krc20_engine_error + krc20_engine_config" where
  "krc20_engine_new cfg =
     (if kg_cycle_span_daa cfg \<le> KAS_PAYOUT_CONFIRMATION_DAA
      then Inl (KgSpanTooSmall (kg_cycle_span_daa cfg) KAS_PAYOUT_CONFIRMATION_DAA) else Inr cfg)"

definition outbound_nacho :: "krc20_transfer list \<Rightarrow> int" where
  "outbound_nacho ks = foldl sat_add_i64 0 (map kt_nacho (filter (\<lambda>k. kt_status k \<noteq> KFailed) ks))"

text \<open>Settle, credit and reconcile once the cap admits the cycle.\<close>

definition krc20_drive ::
  "krc20_env \<Rightarrow> krc20_engine_config \<Rightarrow> int \<Rightarrow> nat \<Rightarrow> nat \<Rightarrow> nat \<Rightarrow> krc20_tick_outcome kg_act" where
  "krc20_drive env cfg cid virtual_daa daa_start daa_end =
     bindE (map_err KgExecute (settle_pending env (kg_batch_limit cfg) (kg_mode cfg))) (\<lambda>settle.
     bindE (if kg_mode cfg = KasDryRun then ret default_credit_report
            else map_err KgCycle (credit_completed_transfers (kg_batch_limit cfg))) (\<lambda>credit.
     bindE (map_err KgCycle (reconcile_krc20_cycle_status cid)) (\<lambda>status.
     ret (KgRan \<lparr>kr_cycle = cid, kr_virtual_daa = virtual_daa, kr_daa_start = daa_start, kr_daa_end = daa_end,
       kr_settle = settle, kr_credit = credit, kr_status = status\<rparr>))))"

definition krc20_run_locked ::
  "krc20_env \<Rightarrow> krc20_engine_config \<Rightarrow> quote_error + floor_price \<Rightarrow> krc20_tick_outcome kg_act" where
  "krc20_run_locked env cfg quote =
     bindE (map_err KgKey (lift_sum (sg_keypair (kv_signer env) (kv_secret env)))) (\<lambda>keypair.
     bindE (map_err (\<lambda>e. case e of KxKaspad r \<Rightarrow> KgKaspad r | e \<Rightarrow> KgExecute e) (krc20_rpc nn_virtual_daa_score)) (\<lambda>virtual_daa.
     case cycle_window virtual_daa (kg_cycle_span_daa cfg) of (daa_start, daa_end) \<Rightarrow>
     bindE (map_err KgCycle (resume_or_plan_krc20_cycle quote (kv_scripts env) (sg_xonly (kv_signer env) keypair) (kv_prefix env)
              (krc20_cycle_params_of cfg daa_start daa_end))) (\<lambda>state.
     let outbound = outbound_nacho (ks_transfers state)
     in if kas_over_spend_cap outbound (kg_max_nacho_per_cycle cfg)
        then raise (KgSpendCapExceeded outbound (case kg_max_nacho_per_cycle cfg of Some c \<Rightarrow> c | None \<Rightarrow> 0))
        else krc20_drive env cfg (pc_id (ks_cycle state)) virtual_daa daa_start daa_end)))"

text \<open>
  The answers of \<open>try_acquire\<close> until the treasury lock is ours or the deadline has passed, the work of a
  leader, and the release of the lock whatever came of it (an error there is only logged).
\<close>

fun krc20_acquire_lock :: "bool list \<Rightarrow> bool kg_act" where
  "krc20_acquire_lock [] = ret False"
| "krc20_acquire_lock (free # rest) = bindE (map_err KgDb (sql (ret free))) (\<lambda>acquired.
     if acquired then ret True else krc20_acquire_lock rest)"

definition krc20_run_once ::
  "krc20_env \<Rightarrow> krc20_engine_config \<Rightarrow> quote_error + floor_price \<Rightarrow> bool list \<Rightarrow> krc20_tick_outcome kg_act" where
  "krc20_run_once env cfg quote tries =
     bindE (krc20_acquire_lock tries) (\<lambda>acquired.
     if \<not> acquired then ret KgSkippedNotLeader
     else (\<lambda>s. case krc20_run_locked env cfg quote s of (r, t) \<Rightarrow> (r, snd (sql (ret ()) t))))"

end
