(* ===== verification/Hoare_Act.thy ===== *)
theory Hoare_Act
  imports Prelude
begin

text \<open>
  Hoare triples for actions: a precondition, a postcondition of the value and a postcondition of
  the error exit.  They carry the proofs where an action establishes something on the way that a
  later step relies on, which an invariant alone (\<open>preserves\<close>) cannot say.
\<close>

named_theorems triple_rules

definition triple ::
  "('s \<Rightarrow> bool) \<Rightarrow> ('s, 'e, 'a) act \<Rightarrow> ('a \<Rightarrow> 's \<Rightarrow> bool) \<Rightarrow> ('s \<Rightarrow> bool) \<Rightarrow> bool" where
  "triple P m Q E \<longleftrightarrow> (\<forall>s. P s \<longrightarrow> (case m s of (Inl _, t) \<Rightarrow> E t | (Inr a, t) \<Rightarrow> Q a t))"

lemma tripleI:
  assumes "\<And>s e t. P s \<Longrightarrow> m s = (Inl e, t) \<Longrightarrow> E t" and "\<And>s a t. P s \<Longrightarrow> m s = (Inr a, t) \<Longrightarrow> Q a t"
  shows "triple P m Q E"
  using assms by (auto simp: triple_def split: prod.split sum.split)

lemma triple_Inr: "triple P m Q E \<Longrightarrow> P s \<Longrightarrow> m s = (Inr a, t) \<Longrightarrow> Q a t"
  by (force simp: triple_def)

lemma triple_Inl: "triple P m Q E \<Longrightarrow> P s \<Longrightarrow> m s = (Inl e, t) \<Longrightarrow> E t"
  by (force simp: triple_def)

lemma triple_snd: "triple P m (\<lambda>_. E) E \<Longrightarrow> P s \<Longrightarrow> E (snd (m s))"
  by (cases "m s"; cases "fst (m s)") (auto dest: triple_Inr triple_Inl)

lemma triple_weaken:
  "triple P' m Q' E' \<Longrightarrow> (\<And>s. P s \<Longrightarrow> P' s) \<Longrightarrow> (\<And>a s. Q' a s \<Longrightarrow> Q a s) \<Longrightarrow> (\<And>s. E' s \<Longrightarrow> E s) \<Longrightarrow> triple P m Q E"
  by (rule tripleI) (blast dest: triple_Inr triple_Inl)+

lemma triple_ret [triple_rules]: "(\<And>s. P s \<Longrightarrow> Q a s) \<Longrightarrow> triple P (ret a) Q E"
  by (simp add: triple_def)

lemma triple_raise [triple_rules]: "(\<And>s. P s \<Longrightarrow> E s) \<Longrightarrow> triple P (raise e) Q E"
  by (simp add: triple_def)

lemma triple_bindE:
  "triple P m R E \<Longrightarrow> (\<And>a. triple (R a) (f a) Q E) \<Longrightarrow> triple P (bindE m f) Q E"
  by (rule tripleI) (blast elim: bindE_cases dest: triple_Inr triple_Inl)+

text \<open>A step that changes nothing the precondition looks at, and what a pure step says of its value.\<close>

lemma triple_keep:
  "preserves P m \<Longrightarrow> (\<And>s. P s \<Longrightarrow> E s) \<Longrightarrow> triple P m (\<lambda>_. P) E"
  by (rule tripleI) (metis preservesD snd_conv)+

lemma triple_bindE_keep:
  "preserves P m \<Longrightarrow> (\<And>s. P s \<Longrightarrow> E s) \<Longrightarrow> (\<And>a. triple P (f a) Q E) \<Longrightarrow> triple P (bindE m f) Q E"
  by (rule triple_bindE[OF triple_keep])

lemma triple_bindE_lift:
  "(\<And>s. P s \<Longrightarrow> E s) \<Longrightarrow> (\<And>a. r = Inr a \<Longrightarrow> triple P (f a) Q E) \<Longrightarrow> triple P (bindE (lift_sum r) f) Q E"
  by (cases r) (auto simp: triple_def bindE_lift_sum)

lemma triple_bindE_lift_err:
  "(\<And>s. P s \<Longrightarrow> E s) \<Longrightarrow> (\<And>a. r = Inr a \<Longrightarrow> triple P (f a) Q E) \<Longrightarrow> triple P (bindE (map_err g (lift_sum r)) f) Q E"
  by (cases r) (auto simp: triple_def bindE_def map_err_def)

lemma triple_if [triple_rules]:
  "(c \<Longrightarrow> triple P m Q E) \<Longrightarrow> (\<not> c \<Longrightarrow> triple P n Q E) \<Longrightarrow> triple P (if c then m else n) Q E"
  by simp

lemma triple_map_err: "triple P m Q E \<Longrightarrow> triple P (map_err g m) Q E"
  by (force simp: triple_def map_err_def split: prod.splits sum.splits)

end
