(* ===== verification/Krc20_Safety.thy ===== *)
theory Krc20_Safety
  imports Krc20_Execute Hoare_Act Db_View
begin

text \<open>
  What the NACHO executor guarantees, whatever the node answers and wherever a sweep stops: the
  books of the rebate scheme balance, every transaction handed to the node is recorded first
  under the payout it is made for, and a payout has at most one commit and one reveal, the reveal
  spending the commit.
\<close>

section \<open>The log is covered by the records\<close>

text \<open>The documented behaviour of ids and signing: an id excludes the signature scripts, and signing fills in nothing else.\<close>

definition strip_scripts :: "transaction \<Rightarrow> transaction" where
  "strip_scripts tx = tx\<lparr>tx_inputs := map (\<lambda>i. i\<lparr>ti_sig_script := []\<rparr>) (tx_inputs tx)\<rparr>"

definition txid_ok :: "'x signer_scheme \<Rightarrow> bool" where
  "txid_ok sg \<longleftrightarrow> (\<forall>tx. sg_txid sg tx = sg_txid sg (strip_scripts tx)) \<and>
     (\<forall>k tx es. strip_scripts (sg_sign sg k tx es) = strip_scripts tx)"

definition logged :: "krc20_world \<Rightarrow> krc20_broadcast \<Rightarrow> bool" where
  "logged s b \<longleftrightarrow> (\<exists>p \<in> set (payouts s). \<exists>k \<in> set (transfers s).
     po_id p = kl_payout b \<and> kt_payout k = kl_payout b \<and>
     (if kl_reveal b
      then 2 \<le> transfer_rank (kt_status k) \<and> po_reveal_hash p = Some (kl_txid b) \<and>
        (\<exists>h. po_commit_hash p = Some h \<and> map ti_outpoint (tx_inputs (kl_tx b)) = [\<lparr>op_txid = h, op_index = COMMIT_P2SH_OUTPUT_INDEX\<rparr>])
      else 1 \<le> transfer_rank (kt_status k) \<and> po_commit_hash p = Some (kl_txid b)))"

definition krc20_inv :: "krc20_world \<Rightarrow> bool" where
  "krc20_inv s \<longleftrightarrow> krc20_books s \<and> (\<forall>b \<in> set (klog s). logged s b)"

text \<open>Payout rows that keep their hashes.\<close>

definition hash_le :: "payout \<Rightarrow> payout \<Rightarrow> bool" where
  "hash_le p q \<longleftrightarrow> po_id q = po_id p \<and> po_commit_hash q = po_commit_hash p \<and> po_reveal_hash q = po_reveal_hash p"

interpretation hash_view: db_view hash_le "klog :: krc20_world \<Rightarrow> krc20_broadcast list"
  by unfold_locales (auto simp: hash_le_def)

text \<open>A step that keeps the log and the hashes, and moves transfers forward, keeps what is logged.\<close>

lemma logged_forward:
  assumes "logged s b" and "hash_view.extends (payouts s) (payouts t)" and "transfer_table.extends (transfers s) (transfers t)"
  shows "logged t b"
proof -
  from assms(1) obtain p k where p: "p \<in> set (payouts s)" "po_id p = kl_payout b"
    and k: "k \<in> set (transfers s)" "kt_payout k = kl_payout b"
    and c: "if kl_reveal b then 2 \<le> transfer_rank (kt_status k) \<and> po_reveal_hash p = Some (kl_txid b) \<and>
        (\<exists>h. po_commit_hash p = Some h \<and> map ti_outpoint (tx_inputs (kl_tx b)) = [\<lparr>op_txid = h, op_index = COMMIT_P2SH_OUTPUT_INDEX\<rparr>])
      else 1 \<le> transfer_rank (kt_status k) \<and> po_commit_hash p = Some (kl_txid b)"
    unfolding logged_def by blast
  from assms(2) p(1) obtain p' where p': "p' \<in> set (payouts t)" "hash_le p p'" unfolding hash_view.extends_def by blast
  from assms(3) k(1) obtain k' where k': "k' \<in> set (transfers t)" "transfer_le k k'" unfolding transfer_table.extends_def by blast
  show ?thesis
    unfolding logged_def using p' k' p k c
    by (intro bexI[of _ p'] bexI[of _ k']) (auto simp: hash_le_def transfer_le_def split: if_splits)
qed

text \<open>Database steps outside the executor.\<close>

definition steady :: "(krc20_world, 'e, 'a) act \<Rightarrow> bool" where
  "steady m \<longleftrightarrow> preserves krc20_books m \<and> hash_view.calm m \<and> transfer_table.advances m"

lemma steady_inv: "steady m \<Longrightarrow> krc20_inv s \<Longrightarrow> krc20_inv (snd (m s)) \<and> klog (snd (m s)) = klog s"
  unfolding steady_def krc20_inv_def
  using hash_view.calm_keeps(2,3)[of m s] transfer_table.advancesD[of m s] logged_forward[of s _ "snd (m s)"]
  by (auto simp: preservesD)

section \<open>Steps that only read\<close>

definition quiet :: "(krc20_world \<Rightarrow> bool) \<Rightarrow> bool" where
  "quiet I \<longleftrightarrow> (\<forall>s n l. I (s\<lparr>calls := n\<rparr>) = I s \<and> I (s\<lparr>krpcs := n\<rparr>) = I s \<and> I (s\<lparr>kledger := l\<rparr>) = I s)"

lemma quiet_read: "quiet I \<Longrightarrow> (\<And>s. snd (m s) = s) \<Longrightarrow> preserves I (sql m)"
  by (intro preserves_sql preservesI) (simp_all add: quiet_def db_inv_def)

lemma quiet_rpc:
  assumes "quiet I"
  shows "preserves I (krc20_rpc q)" and "preserves I (krc20_rpc_result q)"
proof -
  show r: "preserves I (krc20_rpc_result q)"
    using assms by (intro preservesI) (simp add: krc20_rpc_result_def quiet_def)
  show "preserves I (krc20_rpc q)" unfolding krc20_rpc_def by (intro preserves_rules r)
qed

lemma quiet_reads:
  assumes "quiet I"
  shows "preserves I (kxdb (get_payout pid))" "preserves I (kxdb (wallet_get_by_id w))" "preserves I (kxdb in_flight_spend_tx_hashes)"
    "preserves I (kxdb (list_krc20_by_status sts lmt))"
  unfolding get_payout_def wallet_get_by_id_def in_flight_spend_tx_hashes_def list_krc20_by_status_def
  by (intro preserves_map_err quiet_read[OF assms], simp split: option.split)+

lemma quiet_fetch: "quiet I \<Longrightarrow> preserves I (fetch_spendable_utxos env)"
  unfolding fetch_spendable_utxos_def by (intro preserves_bindE preserves_ret quiet_rpc quiet_reads)

section \<open>Where a transfer stands\<close>

text \<open>The invariant with the rows of other transfers, with this transfer's row, and with its payout's row.\<close>

definition beside :: "krc20_transfer set \<Rightarrow> krc20_world \<Rightarrow> bool" where
  "beside K s \<longleftrightarrow> krc20_inv s \<and> K \<subseteq> set (transfers s)"

definition at_row :: "krc20_transfer set \<Rightarrow> krc20_transfer \<Rightarrow> payout \<Rightarrow> krc20_world \<Rightarrow> bool" where
  "at_row K k p s \<longleftrightarrow> beside K s \<and> k \<in> set (transfers s) \<and> p \<in> set (payouts s) \<and> po_id p = kt_payout k"

definition committed :: "int \<Rightarrow> bytes \<Rightarrow> krc20_world \<Rightarrow> bool" where
  "committed pid h s \<longleftrightarrow> (\<exists>p \<in> set (payouts s). \<exists>k \<in> set (transfers s).
     po_id p = pid \<and> kt_payout k = pid \<and> 1 \<le> transfer_rank (kt_status k) \<and> po_commit_hash p = Some h)"

definition revealed :: "int \<Rightarrow> bytes \<Rightarrow> bytes \<Rightarrow> krc20_world \<Rightarrow> bool" where
  "revealed pid c h s \<longleftrightarrow> (\<exists>p \<in> set (payouts s). \<exists>k \<in> set (transfers s).
     po_id p = pid \<and> kt_payout k = pid \<and> 2 \<le> transfer_rank (kt_status k) \<and> po_commit_hash p = Some c \<and> po_reveal_hash p = Some h)"

lemma krc20_inv_quiet: "quiet krc20_inv"
proof -
  have "krc20_inv (s\<lparr>calls := n\<rparr>) = krc20_inv s \<and> krc20_inv (s\<lparr>krpcs := n\<rparr>) = krc20_inv s \<and>
      krc20_inv (s\<lparr>kledger := l\<rparr>) = krc20_inv s" for s n l
    by (simp add: krc20_inv_def logged_def books_defs payout_db_ok_def rebates_ok_def)
  then show ?thesis by (simp add: quiet_def)
qed

lemma beside_quiet: "quiet (beside K)"
  using krc20_inv_quiet by (simp add: quiet_def beside_def)

lemma at_row_quiet: "quiet (at_row K k p)"
  using beside_quiet by (simp add: quiet_def at_row_def)

lemma logged_frame:
  assumes "logged s b" and "\<And>p. p \<in> set (payouts s) \<Longrightarrow> po_id p = kl_payout b \<Longrightarrow> p \<in> set (payouts t)"
    and "\<And>k. k \<in> set (transfers s) \<Longrightarrow> kt_payout k = kl_payout b \<Longrightarrow> k \<in> set (transfers t)"
  shows "logged t b"
  using assms unfolding logged_def by blast

text \<open>The only transfer of a payout.\<close>

lemma inv_unique:
  assumes "krc20_inv s"
  shows "k \<in> set (transfers s) \<Longrightarrow> l \<in> set (transfers s) \<Longrightarrow> kt_payout k = kt_payout l \<Longrightarrow> k = l"
    and "p \<in> set (payouts s) \<Longrightarrow> q \<in> set (payouts s) \<Longrightarrow> po_id p = po_id q \<Longrightarrow> p = q"
  using assms same_key[of kt_payout "transfers s" k l] same_key[of po_id "payouts s" p q]
  by (simp_all add: krc20_inv_def krc20_books_def transfers_ok_def payout_db_ok_def)

lemma update_transfer_Inr:
  assumes "update_transfer pid P f (s :: krc20_world) = (Inr n, t)"
  shows "transfers t = update_where (\<lambda>k. kt_payout k = pid \<and> P k) (\<lambda>k. (f k)\<lparr>kt_updated_at := now s\<rparr>) (transfers s)"
    and "payouts t = payouts s" and "klog t = klog s"
  using assms by (auto simp: update_transfer_def sql_def Let_def split: if_splits)

lemma update_payout_klog:
  assumes "update_payout pid P f (s :: krc20_world) = (Inr n, t)"
  shows "transfers t = transfers s" and "klog t = klog s"
  using assms by (auto simp: update_payout_def sql_def Let_def split: if_splits)

lemma update_where_other: "x \<in> set xs \<Longrightarrow> \<not> P x \<Longrightarrow> x \<in> set (update_where P f xs)"
  by (auto simp: in_update_where)

lemma update_where_image: "x \<in> set xs \<Longrightarrow> (if P x then f x else x) \<in> set (update_where P f xs)"
  by (auto simp: in_update_where)

lemma update_where_hit: "x \<in> set xs \<Longrightarrow> P x \<Longrightarrow> f x \<in> set (update_where P f xs)"
  by (auto simp: in_update_where)

section \<open>Recording before broadcasting\<close>

lemma record_commit_intent_triple:
  assumes k: "kt_status k = KPending" and K: "\<And>l. l \<in> K \<Longrightarrow> kt_payout l \<noteq> kt_payout k"
  shows "triple (at_row K k p) (record_commit_intent (kt_payout k) cf rf h)
     (\<lambda>_ s. beside K s \<and> committed (kt_payout k) h s) (beside K)"
proof (rule tripleI)
  fix s e t assume "at_row K k p s" "record_commit_intent (kt_payout k) cf rf h s = (Inl e, t)"
  then have "t = s\<lparr>calls := calls t\<rparr>" "beside K s"
    by (auto simp: record_commit_intent_def at_row_def dest: transaction_Inl)
  then show "beside K t" using beside_quiet by (metis quiet_def)
next
  fix s u t assume row: "at_row K k p s" and run: "record_commit_intent (kt_payout k) cf rf h s = (Inr u, t)"
  let ?s = "s\<lparr>calls := Suc (calls s)\<rparr>" and ?pid = "kt_payout k"
  from run obtain v where "bindE (kxdb (record_krc20_fees ?pid cf rf)) (\<lambda>_. bindE (kxdb (record_krc20_commit_hash ?pid h)) (\<lambda>_.
        bindE (kxdb (mark_krc20_commit_submitted ?pid)) (\<lambda>_. ret ()))) ?s = (Inr u, v)" and t: "t = v\<lparr>calls := Suc (calls v)\<rparr>"
    unfolding record_commit_intent_def by (rule transaction_Inr)
  then obtain n1 n2 n3 s1 s2 where m1: "record_krc20_fees ?pid cf rf ?s = (Inr n1, s1)"
    and m2: "record_krc20_commit_hash ?pid h s1 = (Inr n2, s2)" and m3: "mark_krc20_commit_submitted ?pid s2 = (Inr n3, v)"
    by (elim bindE_InrE) auto
  note u1 = update_transfer_Inr[OF m1[unfolded record_krc20_fees_def]]
    and u2 = update_payout_Inr[OF m2[unfolded record_krc20_commit_hash_def]] update_payout_klog[OF m2[unfolded record_krc20_commit_hash_def]]
    and u3 = update_transfer_Inr[OF m3[unfolded mark_krc20_commit_submitted_def]]
  have inv: "krc20_inv s" and kin: "k \<in> set (transfers s)" and p: "p \<in> set (payouts s)" "po_id p = ?pid" and Ks: "K \<subseteq> set (transfers s)"
    using row by (auto simp: at_row_def beside_def)
  have "krc20_books s1" using preservesD[OF books_mark_krc20(1) books_calls] inv m1 by (metis krc20_inv_def snd_conv)
  then have "krc20_books s2" using preservesD[OF books_record_hash(1)] m2 by (metis snd_conv)
  then have books: "krc20_books v" using preservesD[OF books_mark_krc20(2)] m3 by (metis snd_conv)
  have others: "l \<in> set (transfers v)" if "l \<in> set (transfers s)" "kt_payout l \<noteq> ?pid" for l
    unfolding u3(1) u2(3) u1(1) using that by (intro update_where_other) auto
  have rows: "q \<in> set (payouts v)" if "q \<in> set (payouts s)" "po_id q \<noteq> ?pid" for q
    unfolding u3(2) u2(1) u1(2) using that by (intro update_where_other) auto
  have "logged v b" if b: "b \<in> set (klog s)" for b
  proof -
    have l: "logged s b" using inv b by (simp add: krc20_inv_def)
    then obtain l where "l \<in> set (transfers s)" "kt_payout l = kl_payout b" "1 \<le> transfer_rank (kt_status l)"
      unfolding logged_def by (auto split: if_splits)
    then have "kl_payout b \<noteq> ?pid" using inv_unique(1)[OF inv, of l k] kin k by auto
    then show ?thesis using others rows by (intro logged_frame[OF l]) auto
  qed
  moreover have "klog v = klog s" by (simp add: u3 u2 u1)
  ultimately have "krc20_inv v" using books by (simp add: krc20_inv_def)
  then have "krc20_inv t" using krc20_inv_quiet by (metis quiet_def t)
  moreover have "K \<subseteq> set (transfers t)" using others K Ks by (auto simp: t)
  moreover have "committed ?pid h t"
  proof -
    have "p\<lparr>po_commit_hash := Some h\<rparr> \<in> set (payouts v)"
      unfolding u3(2) u2(1) u1(2) using p by (intro update_where_hit) auto
    moreover have "\<exists>k1 \<in> set (transfers s1). kt_payout k1 = ?pid \<and> kt_status k1 = KPending"
      unfolding u1(1) by (rule bexI[OF _ update_where_image[of k]]) (use kin k in simp_all)
    then obtain k1 where k1: "k1 \<in> set (transfers s1)" "kt_payout k1 = ?pid" "kt_status k1 = KPending" by blast
    then have "k1\<lparr>kt_status := CommitSubmitted, kt_updated_at := now s2\<rparr> \<in> set (transfers v)"
      unfolding u3(1) u2(3) by (intro update_where_hit[where f = "\<lambda>k. k\<lparr>kt_status := CommitSubmitted\<rparr>\<lparr>kt_updated_at := now s2\<rparr>"]) auto
    ultimately show ?thesis
      unfolding committed_def t using p k1
      by (intro bexI[of _ "p\<lparr>po_commit_hash := Some h\<rparr>"] bexI[of _ "k1\<lparr>kt_status := CommitSubmitted, kt_updated_at := now s2\<rparr>"]) auto
  qed
  ultimately show "beside K t \<and> committed ?pid h t" by (simp add: beside_def)
qed

lemma record_reveal_intent_triple:
  assumes k: "kt_status k = CommitSubmitted" and K: "\<And>l. l \<in> K \<Longrightarrow> kt_payout l \<noteq> kt_payout k" and c: "po_commit_hash p = Some c"
  shows "triple (at_row K k p) (record_reveal_intent (kt_payout k) h)
     (\<lambda>_ s. beside K s \<and> revealed (kt_payout k) c h s) (beside K)"
proof (rule tripleI)
  fix s e t assume "at_row K k p s" "record_reveal_intent (kt_payout k) h s = (Inl e, t)"
  then have "t = s\<lparr>calls := calls t\<rparr>" "beside K s"
    by (auto simp: record_reveal_intent_def at_row_def dest: transaction_Inl)
  then show "beside K t" using beside_quiet by (metis quiet_def)
next
  fix s u t assume row: "at_row K k p s" and run: "record_reveal_intent (kt_payout k) h s = (Inr u, t)"
  let ?s = "s\<lparr>calls := Suc (calls s)\<rparr>" and ?pid = "kt_payout k"
  from run obtain v where "bindE (kxdb (record_krc20_reveal_hash ?pid h)) (\<lambda>_.
        bindE (kxdb (mark_krc20_reveal_submitted ?pid)) (\<lambda>_. ret ())) ?s = (Inr u, v)" and t: "t = v\<lparr>calls := Suc (calls v)\<rparr>"
    unfolding record_reveal_intent_def by (rule transaction_Inr)
  then obtain n1 n2 s1 where m1: "record_krc20_reveal_hash ?pid h ?s = (Inr n1, s1)"
    and m2: "mark_krc20_reveal_submitted ?pid s1 = (Inr n2, v)"
    by (elim bindE_InrE) auto
  note u1 = update_payout_Inr[OF m1[unfolded record_krc20_reveal_hash_def]] update_payout_klog[OF m1[unfolded record_krc20_reveal_hash_def]]
    and u2 = update_transfer_Inr[OF m2[unfolded mark_krc20_reveal_submitted_def]]
  have inv: "krc20_inv s" and kin: "k \<in> set (transfers s)" and p: "p \<in> set (payouts s)" "po_id p = ?pid" and Ks: "K \<subseteq> set (transfers s)"
    using row by (auto simp: at_row_def beside_def)
  have "krc20_books s1" using preservesD[OF books_record_hash(2) books_calls] inv m1 by (metis krc20_inv_def snd_conv)
  then have books: "krc20_books v" using preservesD[OF books_mark_krc20(3)] m2 by (metis snd_conv)
  have others: "l \<in> set (transfers v)" if "l \<in> set (transfers s)" "kt_payout l \<noteq> ?pid" for l
    unfolding u2(1) u1(3) using that by (intro update_where_other) auto
  have rows: "q \<in> set (payouts v)" if "q \<in> set (payouts s)" "po_id q \<noteq> ?pid" for q
    unfolding u2(2) u1(1) using that by (intro update_where_other) auto
  let ?p = "p\<lparr>po_reveal_hash := Some h\<rparr>" and ?k = "k\<lparr>kt_status := RevealSubmitted, kt_updated_at := now s1\<rparr>"
  have pv: "?p \<in> set (payouts v)"
    unfolding u2(2) u1(1) using p by (intro update_where_hit) auto
  have kv: "?k \<in> set (transfers v)"
    unfolding u2(1) u1(3) using kin k
    by (intro update_where_hit[where f = "\<lambda>k. k\<lparr>kt_status := RevealSubmitted\<rparr>\<lparr>kt_updated_at := now s1\<rparr>"]) auto
  have "logged v b" if b: "b \<in> set (klog s)" for b
  proof -
    have l: "logged s b" using inv b by (simp add: krc20_inv_def)
    then obtain q l where q: "q \<in> set (payouts s)" "po_id q = kl_payout b" "l \<in> set (transfers s)" "kt_payout l = kl_payout b"
      and st: "if kl_reveal b then 2 \<le> transfer_rank (kt_status l) else po_commit_hash q = Some (kl_txid b)"
      unfolding logged_def by (auto split: if_splits)
    show ?thesis
    proof (cases "kl_payout b = ?pid")
      case True
      then have "l = k" "q = p" using inv_unique[OF inv] q kin p by auto
      then have "\<not> kl_reveal b" "po_commit_hash p = Some (kl_txid b)" using st k by (auto split: if_splits)
      then show ?thesis unfolding logged_def using pv kv True p by (intro bexI[of _ ?p] bexI[of _ ?k]) auto
    next
      case False
      then show ?thesis using others rows by (intro logged_frame[OF l]) auto
    qed
  qed
  moreover have "klog v = klog s" by (simp add: u2 u1)
  ultimately have "krc20_inv v" using books by (simp add: krc20_inv_def)
  then have "krc20_inv t" using krc20_inv_quiet by (metis quiet_def t)
  moreover have "K \<subseteq> set (transfers t)" using others K Ks by (auto simp: t)
  moreover have "revealed ?pid c h t"
    unfolding revealed_def t using pv kv p c by (intro bexI[of _ ?p] bexI[of _ ?k]) auto
  ultimately show "beside K t \<and> revealed ?pid c h t" by (simp add: beside_def)
qed

text \<open>Handing a recorded transaction to the node.\<close>

lemma submit_logged:
  assumes "beside K s" and "logged s \<lparr>kl_payout = pid, kl_reveal = rv, kl_tx = tx, kl_txid = sg_txid sg tx, kl_result = r\<rparr>"
    and "krc20_submit sg pid rv tx s = (x, t)" and "r = nn_submit_transaction (knode s) (krpcs s) tx"
  shows "beside K t"
proof -
  have t: "t = s\<lparr>krpcs := Suc (krpcs s), klog := klog s @ [\<lparr>kl_payout = pid, kl_reveal = rv, kl_tx = tx, kl_txid = sg_txid sg tx, kl_result = r\<rparr>]\<rparr>"
    using assms(3,4) by (simp add: krc20_submit_def Let_def)
  have "logged t b = logged s b" for b by (simp add: t logged_def)
  moreover have "krc20_books t = krc20_books s" by (simp add: t books_defs payout_db_ok_def rebates_ok_def)
  ultimately show ?thesis using assms(1,2) by (simp add: t beside_def krc20_inv_def)
qed

lemma submit_commit_triple:
  "triple (\<lambda>s. beside K s \<and> committed pid (sg_txid sg tx) s) (krc20_submit sg pid False tx) (\<lambda>_. beside K) (beside K)"
proof -
  have "beside K t" if "beside K s \<and> committed pid (sg_txid sg tx) s" "krc20_submit sg pid False tx s = (x, t)" for s x t
    by (rule submit_logged[OF _ _ that(2) refl]) (use that(1) in \<open>auto simp: committed_def logged_def\<close>)
  then show ?thesis by (intro tripleI) blast+
qed

lemma submit_reveal_triple:
  assumes "map ti_outpoint (tx_inputs tx) = [\<lparr>op_txid = c, op_index = COMMIT_P2SH_OUTPUT_INDEX\<rparr>]"
  shows "triple (\<lambda>s. beside K s \<and> revealed pid c (sg_txid sg tx) s) (krc20_submit sg pid True tx) (\<lambda>_. beside K) (beside K)"
proof -
  have "beside K t" if "beside K s \<and> revealed pid c (sg_txid sg tx) s" "krc20_submit sg pid True tx s = (x, t)" for s x t
    by (rule submit_logged[OF _ _ that(2) refl]) (use that(1) assms in \<open>auto simp: revealed_def logged_def\<close>)
  then show ?thesis by (intro tripleI) blast+
qed

lemma sign_commit_txid: "txid_ok sg \<Longrightarrow> sign_commit sg plan sc sec = Inr tx \<Longrightarrow> commit_txid sg plan sc = Inr (sg_txid sg tx)"
  by (auto simp: sign_commit_def commit_txid_def txid_ok_def Let_def split: sum.splits) metis+

lemma sign_reveal_shape:
  assumes "sign_reveal sg sl plan c sc sec = Inr tx"
  shows "map ti_outpoint (tx_inputs tx) = [c]" and "txid_ok sg \<Longrightarrow> sg_txid sg tx = reveal_txid sg plan c sc"
proof -
  from assms obtain script where
    tx: "tx = (build_reveal_unsigned plan c sc)\<lparr>tx_inputs := [(unsigned_input c)\<lparr>ti_sig_script := script\<rparr>]\<rparr>"
    by (auto simp: sign_reveal_def Let_def split: sum.splits option.splits)
  show "map ti_outpoint (tx_inputs tx) = [c]" by (simp add: tx unsigned_input_def)
  have "strip_scripts tx = strip_scripts (build_reveal_unsigned plan c sc)"
    by (simp add: tx strip_scripts_def build_reveal_unsigned_def unsigned_input_def)
  then show "txid_ok sg \<Longrightarrow> sg_txid sg tx = reveal_txid sg plan c sc" unfolding reveal_txid_def txid_ok_def by metis
qed

section \<open>The state handlers\<close>

lemma at_row_beside: "at_row K k p s \<Longrightarrow> beside K s"
  by (simp add: at_row_def)

lemma at_row_committed:
  "at_row K k p s \<Longrightarrow> 1 \<le> transfer_rank (kt_status k) \<Longrightarrow> po_commit_hash p = Some h \<Longrightarrow> committed (kt_payout k) h s"
  by (auto simp: at_row_def committed_def)

lemma at_row_revealed:
  "at_row K k p s \<Longrightarrow> 2 \<le> transfer_rank (kt_status k) \<Longrightarrow> po_commit_hash p = Some c \<Longrightarrow> po_reveal_hash p = Some h \<Longrightarrow>
   revealed (kt_payout k) c h s"
  by (auto simp: at_row_def revealed_def)

lemmas row_read = triple_bindE_keep[OF quiet_rpc(1)[OF at_row_quiet] at_row_beside]
  triple_bindE_keep[OF quiet_fetch[OF at_row_quiet] at_row_beside]
  triple_bindE_lift[OF at_row_beside] triple_bindE_lift_err[OF at_row_beside]

lemma handle_pending_triple:
  assumes k: "kt_status k = KPending" and K: "\<And>l. l \<in> K \<Longrightarrow> kt_payout l \<noteq> kt_payout k" and ctx: "tc_payout ctx = kt_payout k"
  shows "triple (at_row K k p) (handle_pending env ctx mode) (\<lambda>_. beside K) (beside K)"
proof -
  have ledger: "preserves (at_row K k p) (\<lambda>s. (Inr (), s\<lparr>kledger := f (kledger s)\<rparr>))" for f
    using at_row_quiet[of K k p] by (simp add: preserves_def quiet_def)
  have send: "triple (at_row K k p) (bindE (record_commit_intent (kt_payout k) cf rf (sg_txid (kv_signer env) tx)) (\<lambda>_.
      bindE (krc20_submit (kv_signer env) (kt_payout k) False tx) (\<lambda>_. ret CommitBroadcast))) (\<lambda>_. beside K) (beside K)" for cf rf tx
    by (intro triple_bindE[OF record_commit_intent_triple[OF k K]] triple_bindE[OF submit_commit_triple] triple_ret)
  show ?thesis
    unfolding handle_pending_def Let_def ctx
    by (intro row_read triple_bindE_keep[OF preserves_gets at_row_beside] triple_bindE_keep[OF ledger at_row_beside]
        triple_if send triple_ret at_row_beside)
qed

lemma broadcast_reveal_triple:
  assumes k: "kt_status k = CommitSubmitted" and K: "\<And>l. l \<in> K \<Longrightarrow> kt_payout l \<noteq> kt_payout k"
    and ctx: "tc_payout ctx = kt_payout k" and c: "po_commit_hash p = Some c"
  shows "triple (at_row K k p) (broadcast_reveal env ctx plan \<lparr>op_txid = c, op_index = COMMIT_P2SH_OUTPUT_INDEX\<rparr> mode)
    (\<lambda>_. beside K) (beside K)"
  unfolding broadcast_reveal_def ctx
proof (intro row_read triple_if triple_ret at_row_beside)
  fix tx assume "sign_reveal (kv_signer env) (kv_scripts env) plan \<lparr>op_txid = c, op_index = COMMIT_P2SH_OUTPUT_INDEX\<rparr>
     (kv_script env) (kv_secret env) = Inr tx"
  then show "triple (at_row K k p) (bindE (record_reveal_intent (kt_payout k) (sg_txid (kv_signer env) tx)) (\<lambda>_.
      bindE (krc20_submit (kv_signer env) (kt_payout k) True tx) (\<lambda>_. ret RevealBroadcast))) (\<lambda>_. beside K) (beside K)"
    by (intro triple_bindE[OF record_reveal_intent_triple[OF k K c]] triple_bindE[OF submit_reveal_triple] triple_ret)
      (simp_all add: sign_reveal_shape(1))
qed

lemma rebroadcast_commit_triple:
  assumes k: "kt_status k = CommitSubmitted" and ctx: "tc_payout ctx = kt_payout k" and c: "po_commit_hash p = Some c"
    and sg: "txid_ok (kv_signer env)"
  shows "triple (at_row K k p) (rebroadcast_commit env ctx c) (\<lambda>_. beside K) (beside K)"
  unfolding rebroadcast_commit_def ctx
proof (intro row_read triple_if triple_raise at_row_beside)
  fix plan tx r assume rebuilt: "commit_txid (kv_signer env) plan (kv_script env) = Inr r" "\<not> r \<noteq> c"
    and signed: "sign_commit (kv_signer env) plan (kv_script env) (kv_secret env) = Inr tx"
  have "c = sg_txid (kv_signer env) tx" using sign_commit_txid[OF sg signed] rebuilt by simp
  then have "triple (at_row K k p) (krc20_submit (kv_signer env) (kt_payout k) False tx) (\<lambda>_. beside K) (beside K)"
    by (intro triple_weaken[OF submit_commit_triple]) (auto simp: k c intro: at_row_beside at_row_committed)
  then show "triple (at_row K k p) (bindE (krc20_submit (kv_signer env) (kt_payout k) False tx) (\<lambda>_. ret CommitRebroadcast))
     (\<lambda>_. beside K) (beside K)"
    by (intro triple_bindE[where R = "\<lambda>_. beside K"] triple_ret)
qed

lemma recorded_txid_Inr: "recorded_txid h pid kind = Inr c \<Longrightarrow> h = Some c"
  by (auto simp: recorded_txid_def split: option.splits if_splits)

lemma handle_commit_submitted_triple:
  assumes k: "kt_status k = CommitSubmitted" and K: "\<And>l. l \<in> K \<Longrightarrow> kt_payout l \<noteq> kt_payout k"
    and ctx: "tc_payout ctx = kt_payout k" and sg: "txid_ok (kv_signer env)"
  shows "triple (at_row K k p) (handle_commit_submitted env ctx p mode) (\<lambda>_. beside K) (beside K)"
  unfolding handle_commit_submitted_def Let_def
proof (intro row_read)
  fix c plan addr daa coins
  assume "recorded_txid (po_commit_hash p) (tc_payout ctx) ''commit'' = Inr c"
  then have c: "po_commit_hash p = Some c" by (rule recorded_txid_Inr)
  have wait: "triple (at_row K k p) (ret x) (\<lambda>_. beside K) (beside K)" for x :: transfer_step
    by (intro triple_ret at_row_beside)
  show "triple (at_row K k p) (case List.find (\<lambda>u. tu_outpoint u = \<lparr>op_txid = c, op_index = COMMIT_P2SH_OUTPUT_INDEX\<rparr>) coins of
      None \<Rightarrow> bindE (krc20_rpc (\<lambda>n i. nn_transaction_in_mempool n i c)) (\<lambda>in_mempool.
        if in_mempool then ret CommitPending else if mode = KasDryRun then ret NoChange else rebroadcast_commit env ctx c)
    | Some u \<Rightarrow> if is_spendable (ue_block_daa (tu_entry u)) (ue_is_coinbase (tu_entry u)) daa
        then broadcast_reveal env ctx plan \<lparr>op_txid = c, op_index = COMMIT_P2SH_OUTPUT_INDEX\<rparr> mode
        else ret CommitPending) (\<lambda>_. beside K) (beside K)"
    using broadcast_reveal_triple[OF k K ctx c] rebroadcast_commit_triple[OF k ctx c sg] wait
    by (auto split: option.split intro!: row_read)
qed

lemma rebroadcast_reveal_triple:
  assumes k: "kt_status k = RevealSubmitted" and ctx: "tc_payout ctx = kt_payout k" and h: "po_reveal_hash p = Some h"
    and sg: "txid_ok (kv_signer env)"
  shows "triple (at_row K k p) (rebroadcast_reveal env ctx p h) (\<lambda>_. beside K) (beside K)"
  unfolding rebroadcast_reveal_def Let_def ctx
proof (intro row_read triple_if triple_raise at_row_beside)
  fix c plan tx
  let ?c = "\<lparr>op_txid = c, op_index = COMMIT_P2SH_OUTPUT_INDEX\<rparr>"
  assume c: "recorded_txid (po_commit_hash p) (kt_payout k) ''commit'' = Inr c"
    and same: "\<not> reveal_txid (kv_signer env) plan ?c (kv_script env) \<noteq> h"
    and signed: "sign_reveal (kv_signer env) (kv_scripts env) plan ?c (kv_script env) (kv_secret env) = Inr tx"
  have "h = sg_txid (kv_signer env) tx" using sign_reveal_shape(2)[OF signed sg] same by simp
  then have "triple (at_row K k p) (krc20_submit (kv_signer env) (kt_payout k) True tx) (\<lambda>_. beside K) (beside K)"
    using h k recorded_txid_Inr[OF c]
    by (intro triple_weaken[OF submit_reveal_triple[OF sign_reveal_shape(1)[OF signed]]])
      (auto intro: at_row_beside at_row_revealed)
  then show "triple (at_row K k p) (bindE (krc20_submit (kv_signer env) (kt_payout k) True tx) (\<lambda>_. ret RevealRebroadcast))
     (\<lambda>_. beside K) (beside K)"
    by (intro triple_bindE[where R = "\<lambda>_. beside K"] triple_ret)
qed

lemma mark_completed_beside:
  assumes b: "beside K s" and K: "\<And>l. l \<in> K \<Longrightarrow> kt_payout l \<noteq> pid"
  shows "beside K (snd (mark_krc20_completed pid s))"
proof -
  let ?t = "snd (mark_krc20_completed pid s)"
  have books: "krc20_books ?t" using b by (intro preservesD[OF books_mark_krc20(4)]) (simp add: beside_def krc20_inv_def)
  have same: "payouts ?t = payouts s" "klog ?t = klog s"
    by (auto simp: mark_krc20_completed_def update_transfer_def sql_def Let_def)
  have "logged ?t x" if "logged s x" for x
    using transfer_table.advancesD[OF mark_transfer_advances(3)]
    by (intro logged_forward[OF that]) (simp_all add: same hash_view.extends_refl)
  moreover have "l \<in> set (transfers ?t)" if "l \<in> set (transfers s)" "kt_payout l \<noteq> pid" for l
    using that by (auto simp: mark_krc20_completed_def update_transfer_def sql_def Let_def intro!: update_where_other)
  ultimately show ?thesis using b books K by (auto simp: beside_def krc20_inv_def same)
qed

lemma handle_reveal_submitted_triple:
  assumes k: "kt_status k = RevealSubmitted" and K: "\<And>l. l \<in> K \<Longrightarrow> kt_payout l \<noteq> kt_payout k"
    and ctx: "tc_payout ctx = kt_payout k" and sg: "txid_ok (kv_signer env)"
  shows "triple (at_row K k p) (handle_reveal_submitted env ctx p mode) (\<lambda>_. beside K) (beside K)"
  unfolding handle_reveal_submitted_def Let_def
proof (intro row_read)
  fix h daa coins
  assume "recorded_txid (po_reveal_hash p) (tc_payout ctx) ''reveal'' = Inr h"
  then have h: "po_reveal_hash p = Some h" by (rule recorded_txid_Inr)
  let ?on = "map_option (\<lambda>u. ue_block_daa (tu_entry u)) (List.find (\<lambda>u. op_txid (tu_outpoint u) = h) coins)"
  have wait: "triple (at_row K k p) (ret x) (\<lambda>_. beside K) (beside K)" for x :: transfer_step
    by (intro triple_ret at_row_beside)
  have complete: "triple (at_row K k p) (bindE (kxdb (mark_krc20_completed (tc_payout ctx))) (\<lambda>_. ret StepCompleted)) (\<lambda>_. beside K) (beside K)"
  proof (rule triple_bindE[where R = "\<lambda>_. beside K"])
    have "beside K (snd (mark_krc20_completed (tc_payout ctx) s))" if "at_row K k p s" for s
      using mark_completed_beside[OF at_row_beside[OF that]] K by (simp add: ctx)
    then show "triple (at_row K k p) (kxdb (mark_krc20_completed (tc_payout ctx))) (\<lambda>_. beside K) (beside K)"
      by (intro triple_map_err tripleI) (metis snd_conv)+
  qed (rule triple_ret)
  have probe: "preserves (at_row K k p) (if ?on \<noteq> None then ret False else krc20_rpc (\<lambda>n i. nn_transaction_in_mempool n i h))"
    by (intro preserves_if preserves_ret quiet_rpc at_row_quiet)
  show "triple (at_row K k p)
     (bindE (if ?on \<noteq> None then ret False else krc20_rpc (\<lambda>n i. nn_transaction_in_mempool n i h)) (\<lambda>in_mempool.
        case kas_classify_confirmation \<lparr>ki_virtual_daa_score = daa, ki_in_mempool = in_mempool,
               ki_change_block_daa_score = ?on, ki_recorded_accept_daa = None\<rparr> of
          CsPending \<Rightarrow> ret RevealPending | CsAccepted \<Rightarrow> ret RevealPending
        | CsConfirmed \<Rightarrow> if mode = KasDryRun then ret NoChange
            else bindE (kxdb (mark_krc20_completed (tc_payout ctx))) (\<lambda>_. ret StepCompleted)
        | CsUnknown \<Rightarrow> if mode = KasDryRun then ret NoChange else rebroadcast_reveal env ctx p h)) (\<lambda>_. beside K) (beside K)"
    using wait complete rebroadcast_reveal_triple[OF k ctx h sg]
    by (intro triple_bindE_keep[OF probe at_row_beside]) (auto split: confirmation_state.split)
qed

lemma transfer_context_payout: "transfer_context k rate x r = Inr ctx \<Longrightarrow> tc_payout ctx = kt_payout k"
  by (auto simp: transfer_context_def split: option.splits sum.splits)

text \<open>One transfer, from its row.\<close>

lemma advance_transfer_triple:
  assumes K: "\<And>l. l \<in> K \<Longrightarrow> kt_payout l \<noteq> kt_payout k" and sg: "txid_ok (kv_signer env)"
  shows "triple (\<lambda>s. beside K s \<and> k \<in> set (transfers s)) (advance_transfer_inner env rate mode k) (\<lambda>_. beside K) (beside K)"
proof -
  let ?P = "\<lambda>s. beside K s \<and> k \<in> set (transfers s)"
  have q: "quiet ?P" using beside_quiet by (simp add: quiet_def)
  have read: "triple ?P (kxdb (get_payout (kt_payout k))) (\<lambda>p. at_row K k p) (beside K)"
  proof (rule triple_map_err, rule tripleI)
    fix s e t assume "?P s" "get_payout (kt_payout k) s = (Inl e, t)"
    then show "beside K t" using beside_quiet
      by (auto simp: get_payout_def sql_def Let_def quiet_def split: if_splits option.splits)
  next
    fix s p t assume "?P s" "get_payout (kt_payout k) s = (Inr p, t)"
    then show "at_row K k p t" using q
      by (auto simp: get_payout_def sql_def Let_def quiet_def at_row_def split: if_splits option.splits dest!: find_Some_iff_in)
  qed
  show ?thesis
    unfolding advance_transfer_inner_def
  proof (intro triple_if triple_ret triple_bindE_lift_err triple_bindE[OF read]
      triple_bindE_keep[OF quiet_reads(2)[OF at_row_quiet] at_row_beside] row_read)
    fix kp p w ctx assume "transfer_context k rate (sg_xonly (kv_signer env) kp) (w_address w) = Inr ctx"
    then have ctx: "tc_payout ctx = kt_payout k" by (rule transfer_context_payout)
    have wait: "triple (at_row K k p) (ret NoChange) (\<lambda>_. beside K) (beside K)" by (intro triple_ret at_row_beside)
    show "triple (at_row K k p) (case kt_status k of KPending \<Rightarrow> handle_pending env ctx mode
       | CommitSubmitted \<Rightarrow> handle_commit_submitted env ctx p mode | RevealSubmitted \<Rightarrow> handle_reveal_submitted env ctx p mode
       | _ \<Rightarrow> ret NoChange) (\<lambda>_. beside K) (beside K)"
      using handle_pending_triple[OF _ K ctx] handle_commit_submitted_triple[OF _ K ctx sg]
        handle_reveal_submitted_triple[OF _ K ctx sg] wait
      by (auto split: krc20_transfer_status.split)
  qed auto
qed

section \<open>A sweep and a tick\<close>

lemma settle_loop:
  assumes "krc20_inv s" and "set ks \<subseteq> set (transfers s)" and "distinct (map kt_payout ks)" and "txid_ok (kv_signer env)"
  shows "krc20_inv (snd (foldE (settle_one env rate mode) rep ks s))"
  using assms(1-3)
proof (induction ks arbitrary: rep s)
  case (Cons k ks)
  have K: "kt_payout l \<noteq> kt_payout k" if "l \<in> set ks" for l using Cons.prems(3) that by (auto simp: image_iff)
  obtain r t where run: "advance_transfer_inner env rate mode k s = (r, t)" by (metis surj_pair)
  have "beside (set ks) s \<and> k \<in> set (transfers s)" using Cons.prems by (simp add: beside_def)
  from triple_snd[OF advance_transfer_triple[OF K assms(4)] this] run have "beside (set ks) t" by (metis snd_conv)
  moreover obtain rep' where "settle_one env rate mode rep k s = (Inr rep', t)"
    using run by (cases r) (simp_all add: settle_one_def)
  ultimately show ?case using Cons.IH[of t rep'] Cons.prems(3) by (simp add: beside_def)
qed simp

lemma settle_pending_inv:
  assumes "txid_ok (kv_signer env)"
  shows "preserves krc20_inv (settle_pending env lmt mode)"
proof (rule preservesI)
  fix s assume inv: "krc20_inv s"
  let ?ks = "take (nat lmt) (sort_key kt_created_at (filter (\<lambda>k. kt_status k \<in> set [KPending, CommitSubmitted, RevealSubmitted]) (transfers s)))"
  let ?rate = "case nn_fee_estimate (knode s) (krpcs s) of Inr feerate \<Rightarrow> from_feerate feerate | Inl _ \<Rightarrow> from_feerate (Fin 0)"
  let ?s = "s\<lparr>calls := Suc (calls s), krpcs := Suc (krpcs s), kledger := default_ledger\<rparr>"
  have inv': "krc20_inv ?s" "krc20_inv (s\<lparr>calls := Suc (calls s)\<rparr>)" using inv krc20_inv_quiet by (simp_all add: quiet_def)
  have "distinct (map kt_payout (sort_key kt_created_at (filter (\<lambda>k. kt_status k \<in> set [KPending, CommitSubmitted, RevealSubmitted]) (transfers s))))"
    using inv unfolding krc20_inv_def krc20_books_def transfers_ok_def
    by (metis (no_types, lifting) distinct_map_filter mset_eq_imp_distinct_iff mset_map mset_sort)
  then have "distinct (map kt_payout ?ks)" by (metis distinct_take take_map)
  moreover have "set ?ks \<subseteq> set (transfers ?s)" by (auto dest: in_set_takeD)
  ultimately have "krc20_inv (snd (foldE (settle_one env ?rate mode) default_settle_report ?ks ?s))"
    by (intro settle_loop inv'(1) assms)
  then show "krc20_inv (snd (settle_pending env lmt mode s))"
    using inv'(2) unfolding settle_pending_def list_krc20_by_status_def
    by (auto simp: bindE_def map_err_def sql_def krc20_rpc_result_def Let_def)
qed

text \<open>The cycle's own statements keep hashes and log, and move transfers forward.\<close>

definition soft :: "(krc20_world, 'e, 'a) act \<Rightarrow> bool" where
  "soft m \<longleftrightarrow> hash_view.calm m \<and> transfer_table.advances m"

lemma soft_bindE: "soft m \<Longrightarrow> (\<And>a. soft (f a)) \<Longrightarrow> soft (bindE m f)"
  by (simp add: soft_def hash_view.calm_control transfer_table.advances_intros)

lemma soft_control:
  "soft (ret a)" "soft (raise e)" "soft (lift_sum r)" "soft m0 \<Longrightarrow> soft n0 \<Longrightarrow> soft (seqE m0 n0)" "soft m \<Longrightarrow> soft (map_err g m)"
  "(\<And>b x. soft (h b x)) \<Longrightarrow> soft (foldE h b xs)" "soft m \<Longrightarrow> soft (transaction m conv)"
  "soft m \<Longrightarrow> soft n \<Longrightarrow> soft (if c then m else n)"
  by (auto simp: soft_def seqE_def hash_view.calm_control transfer_table.advances_intros)

lemma soft_case_option: "soft m \<Longrightarrow> (\<And>a. soft (f a)) \<Longrightarrow> soft (case x of None \<Rightarrow> m | Some a \<Rightarrow> f a)"
  by (simp split: option.split)

lemma soft_case_prod: "(\<And>a b. soft (f a b)) \<Longrightarrow> soft (case x of (a, b) \<Rightarrow> f a b)"
  by (simp split: prod.split)

lemmas soft_rules = soft_bindE soft_control soft_case_option soft_case_prod

lemma softI: "hash_view.calm m \<Longrightarrow> (\<And>s. transfers (snd (m s)) = transfers s) \<Longrightarrow> soft m"
  by (simp add: soft_def transfer_table.advances_same)

lemma soft_reads:
  "soft (find_cycle_by_idempotency_key key)" "soft (get_cycle cid)" "soft (list_krc20_by_status sts lmt)"
  "soft (list_krc20_for_cycle cid)" "soft (get_payout pid)" "soft (list_krc20_eligible_wallets thr lmt)"
  by (rule softI[OF hash_view.calm_reads(1)] softI[OF hash_view.calm_reads(2)] softI[OF hash_view.calm_reads(8)]
        softI[OF hash_view.calm_reads(9)] softI[OF hash_view.calm_reads(10)] softI[OF hash_view.calm_reads(11)],
      simp add: find_cycle_by_idempotency_key_def get_cycle_def list_krc20_by_status_def list_krc20_for_cycle_def
        get_payout_def list_krc20_eligible_wallets_def sql_def Let_def split: option.split)+

lemma soft_cycle_statements:
  "soft (create_cycle kind a b)" "soft (audit_append x y z)" "soft (ensure_payout cid w amount)"
  by (rule softI, rule hash_view.calm_statements,
      simp add: create_cycle_def audit_append_def ensure_payout_def sql_def Let_def split: option.split)+

lemma soft_update_cycle:
  "(\<And>t c. pc_id (f t c) = pc_id c \<and> pc_key (f t c) = pc_key c) \<Longrightarrow> soft (update_cycle cid P f)"
  by (rule softI, rule hash_view.calm_update_cycle) (simp_all add: update_cycle_def sql_def Let_def)

lemma soft_mark_cycle:
  "soft (mark_cycle_broadcasting cid)" "soft (mark_cycle_partially_settled cid)"
  "soft (mark_cycle_settled cid)" "soft (mark_cycle_failed cid)" "soft (set_cycle_totals cid a n)"
  unfolding mark_cycle_broadcasting_def mark_cycle_partially_settled_def mark_cycle_settled_def
    mark_cycle_failed_def set_cycle_totals_def
  by (rule soft_update_cycle, simp)+

lemma soft_settle_payout: "soft (confirm_krc20_payout_once pid)" "soft (mark_payout_failed pid reason)"
proof -
  have "soft (update_payout pid P f)"
    if "\<And>t p. po_id (f t p) = po_id p \<and> po_cycle (f t p) = po_cycle p \<and> po_wallet (f t p) = po_wallet p"
      and "\<And>t p. hash_le p (f t p)" for P f
    using that by (intro softI hash_view.calm_update_payout) (simp_all add: update_payout_def sql_def Let_def)
  then show "soft (confirm_krc20_payout_once pid)" "soft (mark_payout_failed pid reason)"
    unfolding confirm_krc20_payout_once_def mark_payout_failed_def by (auto intro!: soft_rules simp: hash_le_def)
qed

lemma soft_outside_payouts:
  assumes "preserves payout_db_ok m"
    and "\<And>s. klog (snd (m s)) = klog s \<and> payouts (snd (m s)) = payouts s" and "transfer_table.advances m"
  shows "soft m"
  unfolding soft_def using assms by (intro conjI hash_view.calmI hash_view.advances_same) auto

lemma soft_other:
  "soft (rebate_mark_paid w d)" "soft (ensure_krc20_pending pid sompi nacho p2sh)" "soft (mark_krc20_failed pid)"
proof -
  show "soft (rebate_mark_paid w d)"
    by (rule soft_outside_payouts[OF _ _ transfer_table.advances_same])
      (auto simp: rebate_mark_paid_def preserves_def payout_db_ok_def sql_def Let_def split: option.split)
  show "soft (ensure_krc20_pending pid sompi nacho p2sh)"
    by (rule soft_outside_payouts[OF _ _ new_transfer_advances(2)])
      (auto simp: ensure_krc20_pending_def preserves_def payout_db_ok_def sql_def Let_def split: option.split)
  show "soft (mark_krc20_failed pid)"
    by (rule soft_outside_payouts[OF _ _ mark_transfer_advances(4)])
      (auto simp: mark_krc20_failed_def update_transfer_def preserves_def payout_db_ok_def sql_def Let_def)
qed

lemmas soft_statements = soft_reads soft_cycle_statements soft_mark_cycle soft_settle_payout soft_other

lemma soft_resume_or_plan: "soft (resume_or_plan_krc20_cycle quote sl xonly prefix params)"
  unfolding resume_or_plan_krc20_cycle_def plan_krc20_cycle_def plan_krc20_body_def plan_recipient_def
  by (intro soft_rules soft_statements)

lemma soft_credit: "soft (credit_completed_transfers lmt)"
  unfolding credit_completed_transfers_def credit_transfer_def credit_body_def
  by (intro soft_rules soft_statements)

lemma soft_reconcile: "soft (reconcile_krc20_cycle_status cid)"
proof -
  have "soft (persist_cycle_status cid st)" for st
    unfolding persist_cycle_status_def by (cases st) (simp_all add: soft_rules soft_statements)
  then show ?thesis unfolding reconcile_krc20_cycle_status_def Let_def by (intro soft_rules soft_statements)
qed

lemma soft_fail: "soft (fail_krc20_transfer pid reason)"
  unfolding fail_krc20_transfer_def by (intro soft_rules soft_statements)

lemma soft_inv:
  assumes "soft m" and "krc20_inv s" and "krc20_books (snd (m s))"
  shows "krc20_inv (snd (m s))"
  using assms hash_view.calm_keeps(2,3)[of m s] transfer_table.advancesD[of m s] logged_forward[of s _ "snd (m s)"]
  by (auto simp: soft_def krc20_inv_def)

lemma soft_preserves: "soft m \<Longrightarrow> preserves krc20_books m \<Longrightarrow> preserves krc20_inv m"
  by (intro preservesI soft_inv) (auto simp: krc20_inv_def preservesD)

lemmas cycle_inv =
  soft_preserves[OF soft_resume_or_plan resume_or_plan_krc20_books] soft_preserves[OF soft_credit credit_completed_books]
  soft_preserves[OF soft_reconcile reconcile_krc20_books]

lemma acquire_lock_inv: "preserves krc20_inv (krc20_acquire_lock tries)"
proof (induction tries)
  case (Cons free rest)
  then show ?case by (auto intro!: preserves_rules quiet_read krc20_inv_quiet)
qed (simp add: preserves_def)

lemma krc20_run_once_inv:
  assumes "txid_ok (kv_signer env)"
  shows "preserves krc20_inv (krc20_run_once env cfg quote tries)"
proof -
  have "preserves krc20_inv (krc20_drive env cfg cid daa a b)" for cid daa a b
    unfolding krc20_drive_def by (intro preserves_rules settle_pending_inv cycle_inv assms)
  then have locked: "preserves krc20_inv (krc20_run_locked env cfg quote)"
    unfolding krc20_run_locked_def Let_def
    by (intro preserves_rules cycle_inv quiet_rpc krc20_inv_quiet)
  have "preserves krc20_inv (\<lambda>s. case krc20_run_locked env cfg quote s of (r, t) \<Rightarrow> (r, snd (sql (ret ()) t)))"
  proof (rule preservesI)
    fix s assume "krc20_inv s"
    then have "krc20_inv (snd (krc20_run_locked env cfg quote s))" by (rule preservesD[OF locked])
    then show "krc20_inv (snd (case krc20_run_locked env cfg quote s of (r, t) \<Rightarrow> (r, snd (sql (ret ()) t))))"
      using preservesD[OF quiet_read[OF krc20_inv_quiet, of "ret ()"]] by (auto split: prod.split)
  qed
  then show ?thesis unfolding krc20_run_once_def by (intro preserves_rules acquire_lock_inv)
qed

section \<open>Runs of the engine\<close>

lemma update_where_keys: "(\<And>x. P x \<Longrightarrow> g (f x) = g x) \<Longrightarrow> x \<in> set xs \<Longrightarrow> g x \<in> g ` set (update_where P f xs)"
  using update_where_image[of x xs P f] by (metis imageI)

text \<open>The accountant's accruals only raise what a wallet is owed.\<close>

lemma accrue_books: "preserves krc20_books (rebate_accrue w d :: ('z, nacho_rebate) db_act)"
proof (rule preservesI)
  fix s :: "'z pool_db_scheme" assume b: "krc20_books s"
  let ?t = "snd (rebate_accrue w d s)"
  have same: "payouts ?t = payouts s" "transfers ?t = transfers s" "cycles ?t = cycles s" "next_payout ?t = next_payout s"
    "next_cycle ?t = next_cycle s"
    by (auto simp: rebate_accrue_def rebate_upsert_def sql_def Let_def split: option.split)
  have row: "krc20_row ?t = krc20_row s" by (rule ext) (simp add: krc20_row_def same)
  have sums: "credited_sompi ?t = credited_sompi s" "open_krc20_sompi ?t = open_krc20_sompi s"
    by (rule ext, simp add: credited_sompi_def open_krc20_sompi_eq same row)+
  have none: "credited_sompi s v = 0 \<and> open_krc20_sompi s v = 0" if "v \<notin> nr_wallet ` set (rebates s)" for v
  proof -
    have "\<not> krc20_row s p" if "p \<in> set (payouts s)" "po_wallet p = v" for p
      using b that \<open>v \<notin> nr_wallet ` set (rebates s)\<close> unfolding krc20_books_def transfers_ok_def by blast
    then have "filter (\<lambda>p. po_wallet p = v \<and> krc20_row s p \<and> Q p) (payouts s) = []" for Q
      by (auto simp: filter_empty_conv)
    then show ?thesis by (simp add: credited_sompi_def open_krc20_sompi_eq wallet_total_def)
  qed
  have led: "\<forall>r \<in> set (rebates s). nr_paid r = credited_sompi s (nr_wallet r) \<and>
     credited_sompi s (nr_wallet r) + open_krc20_sompi s (nr_wallet r) \<le> nr_accrued r"
    using b by (simp add: krc20_books_def ledger_ok_def)
  have "nr_paid r = credited_sompi s (nr_wallet r) \<and>
      credited_sompi s (nr_wallet r) + open_krc20_sompi s (nr_wallet r) \<le> nr_accrued r" if r: "r \<in> set (rebates ?t)" for r
  proof (cases "List.find (\<lambda>r. nr_wallet r = w) (rebates s)")
    case None
    then have "credited_sompi s w = 0" "open_krc20_sompi s w = 0" using none[of w] by (auto simp: find_None_iff)
    with None r led show ?thesis
      by (auto simp: rebate_accrue_def rebate_upsert_def sql_def Let_def split: if_splits)
  next
    case (Some x)
    with r led show ?thesis
      by (auto simp: rebate_accrue_def rebate_upsert_def sql_def Let_def in_update_where split: if_splits
          dest!: find_Some_iff_in)
  qed
  then have "ledger_ok ?t" by (simp add: ledger_ok_def sums)
  moreover have "nr_wallet ` set (rebates s) \<subseteq> nr_wallet ` set (rebates ?t)"
  proof (cases "List.find (\<lambda>r. nr_wallet r = w) (rebates s)")
    case (Some x)
    then have "nr_wallet x = w" by (auto dest: find_Some_iff_in)
    with Some show ?thesis
      by (auto simp: rebate_accrue_def rebate_upsert_def sql_def Let_def intro!: update_where_keys)
  qed (auto simp: rebate_accrue_def rebate_upsert_def sql_def Let_def)
  then have "transfers_ok ?t" using b unfolding krc20_books_def transfers_ok_def by (auto simp: same row)
  moreover have "rebates_ok ?t"
    using b preservesD[OF preserves_rebate_upsert, of s w d "\<lambda>old. old + d"]
    by (simp add: krc20_books_def rebate_accrue_def)
  ultimately show "krc20_books ?t" using b by (simp add: krc20_books_def payout_db_ok_def krc20_keys_ok_def same)
qed

lemma soft_accrue: "soft (rebate_accrue w d)"
  by (rule soft_outside_payouts[OF _ _ transfer_table.advances_same])
    (auto simp: rebate_accrue_def rebate_upsert_def preserves_def payout_db_ok_def sql_def Let_def split: option.split)

text \<open>
  The ticks of any replica under any configuration and price, an operator giving up on a
  transfer that has not completed, accruals, and everything outside: the node, the clock, faulty
  connections and the wallets registered.
\<close>

inductive krc20_step :: "krc20_env \<Rightarrow> krc20_world \<Rightarrow> krc20_world \<Rightarrow> bool" for env where
  tick: "krc20_step env s (snd (krc20_run_once env cfg quote tries s))"
| give_up: "\<forall>k \<in> set (transfers s). kt_payout k = pid \<longrightarrow> kt_status k \<noteq> Completed \<Longrightarrow>
    krc20_step env s (snd (fail_krc20_transfer pid reason s))"
| accrual: "krc20_step env s (snd (rebate_accrue w d s))"
| outside: "krc20_step env s (s\<lparr>knode := n, now := t, faults := f, wallets := ws\<rparr>)"

lemma krc20_step_inv:
  assumes "krc20_step env s t" and "txid_ok (kv_signer env)" and inv: "krc20_inv s"
  shows "krc20_inv t"
  using assms(1)
proof cases
  case (tick cfg quote tries)
  then show ?thesis using preservesD[OF krc20_run_once_inv[OF assms(2)] inv] by simp
next
  case (give_up pid reason)
  have "krc20_books (snd (fail_krc20_transfer pid reason s))"
    using inv give_up(2) by (intro fail_krc20_transfer_books) (auto simp: krc20_inv_def)
  then show ?thesis unfolding give_up(1) by (rule soft_inv[OF soft_fail inv])
next
  case (accrual w d)
  then show ?thesis using preservesD[OF soft_preserves[OF soft_accrue accrue_books] inv] by simp
next
  case (outside n u f ws)
  then show ?thesis using inv by (simp add: krc20_inv_def logged_def books_defs payout_db_ok_def rebates_ok_def)
qed


section \<open>The cap watches the current window only\<close>

definition sample_krc20_env :: krc20_env where
  "sample_krc20_env = \<lparr>kv_signer = \<lparr>sg_keypair = (\<lambda>_. Inr []), sg_sign = (\<lambda>_ tx _. tx),
       sg_txid = (\<lambda>tx. replicate 32 (length (tx_outputs tx))), sg_execute = (\<lambda>_ _ _. Inr ()), sg_script = (\<lambda>_. Inr []),
       sg_xonly = (\<lambda>_. []), sg_schnorr = (\<lambda>_ _ _. Some [])\<rparr>,
     kv_scripts = sample_scripts, kv_consensus = kip9_consensus, kv_secret = [], kv_address = ''kaspa:t'', kv_prefix = [],
     kv_script = []\<rparr>"

definition sample_krc20_node :: "nat \<Rightarrow> krc20_node" where
  "sample_krc20_node daa = \<lparr>nn_virtual_daa_score = (\<lambda>_. Inr daa), nn_utxos = (\<lambda>_ _. Inr [sample_coin 0 50000000, sample_coin 1 20000000]),
     nn_submit_transaction = (\<lambda>_ tx. Inr []), nn_fee_estimate = (\<lambda>_. Inr (Fin 20)), nn_transaction_in_mempool = (\<lambda>_ _. Inr False)\<rparr>"

definition sample_krc20_world :: "nat \<Rightarrow> krc20_world" where
  "sample_krc20_world daa = pool_db.extend (sample_krc20 Planned KPending)
     \<lparr>knode = sample_krc20_node daa, krpcs = 0, klog = [], kledger = default_ledger\<rparr>"

definition sample_krc20_config :: krc20_engine_config where
  "sample_krc20_config = \<lparr>kg_cycle_span_daa = 500, kg_mode = KasLive, kg_min_pending = 1, kg_min_nacho = 1, kg_ticker = ''NACHO'',
     kg_commit_amount = 20000000, kg_batch_limit = 10, kg_max_nacho_per_cycle = Some 3\<rparr>"

lemmas sample_engine = sample_krc20_env_def sample_krc20_node_def sample_krc20_world_def sample_krc20_config_def
  pool_db.defs sample_krc20_simps

lemmas krc20_eval = bindE_def map_err_def sql_def Let_def krc20_rpc_def krc20_rpc_result_def

lemma sample_keys: "idempotency_key Krc20Nacho 0 500 \<noteq> idempotency_key Krc20Nacho 1000 1500"
  by (simp add: idempotency_key_def show_nat.simps digit_char_def)

lemmas transfer_eval = settle_pending_def list_krc20_by_status_def settle_one_def advance_transfer_inner_def
  get_payout_def wallet_get_by_id_def transfer_context_def u64_try_from_i64_def i64_try_from_u64_def opt_fee_def
  handle_pending_def fetch_spendable_utxos_def in_flight_spend_tx_hashes_def spendable_coins_def protected_hashes_def
  default_ledger_def ledger_reconcile_def is_spendable_def NON_COINBASE_MATURITY_DAA_def COINBASE_MATURITY_DAA_def
  plan_from_utxos_def plan_eval sample_fees verify_p2sh_def commit_address_def sign_commit_def
  build_commit_unsigned_def krc20_verify_def fee_column_def record_commit_intent_def transaction_def
  record_krc20_fees_def record_krc20_commit_hash_def mark_krc20_commit_submitted_def update_transfer_def update_payout_def
  update_where_def rows_affected_def is_planning_virtual_def PLANNING_VIRTUAL_TXID_BYTES_def krc20_submit_def

lemmas cycle_eval = krc20_run_once_def krc20_run_locked_def cycle_window_def sat_mul_u64_def krc20_cycle_params_of_def
  resume_or_plan_krc20_cycle_def find_cycle_by_idempotency_key_def list_krc20_for_cycle_def audit_append_def
  outbound_nacho_def sat_add_i64_def kas_over_spend_cap_def

text \<open>The world after the refused tick, and the tick of a later window.\<close>

definition refused_world :: krc20_world where
  "refused_world = (sample_krc20_world 100)\<lparr>calls := 5, krpcs := 1,
     audit := [\<lparr>au_actor = ''payout-krc20'', au_action = ''krc20_cycle.resume'', au_subject = (''payout_cycle'', 1)\<rparr>]\<rparr>"

lemma refused_tick:
  "krc20_run_once sample_krc20_env sample_krc20_config quote [True] (sample_krc20_world 100) =
     (Inl (KgSpendCapExceeded 5 3), refused_world)"
  by (simp add: refused_world_def sample_engine krc20_eval cycle_eval sat_add_u64_def in_i64_def)

lemmas plan_cycle_eval = plan_krc20_cycle_def plan_krc20_body_def create_cycle_def cycle_checks_def
  list_krc20_eligible_wallets_def krc20_rows_def open_krc20_sompi_def cycle_of_def set_cycle_totals_def update_cycle_def
  get_cycle_def order_desc_def sample_keys

lemmas drive_eval = krc20_drive_def credit_completed_transfers_def reconcile_krc20_cycle_status_def counts_from_transfers_def
  derive_cycle_status_def persist_cycle_status_def seqE_def

lemma coin_not_virtual: "replicate 32 (9::nat) \<noteq> replicate 31 0 @ [Suc 0]"
  by (simp add: numeral_eq_Suc)

lemma later_tick:
  "map (\<lambda>b. (kl_payout b, kl_reveal b)) (klog (snd (krc20_run_once sample_krc20_env sample_krc20_config (Inr price) [True]
     (refused_world\<lparr>knode := sample_krc20_node 1100\<rparr>)))) = [(1, False)]"
  by (simp add: refused_world_def sample_engine krc20_eval cycle_eval plan_cycle_eval transfer_eval drive_eval in_i64_def
      transfer_checks_def payout_checks_def coin_not_virtual)

text \<open>
  The cap on the tokens of a cycle holds for the current window only: a tick refuses to settle
  a cycle over the cap and broadcasts nothing, but in a later window the cap is compared with
  that window's cycle while the sweep drives every open transfer, and the refused transfer is sent.
\<close>

theorem cap_binds_current_window_only:
  "case krc20_run_once sample_krc20_env sample_krc20_config (Inr price) [True] (sample_krc20_world 100) of (r, t) \<Rightarrow>
     r = Inl (KgSpendCapExceeded 5 3) \<and> klog t = [] \<and>
     map (\<lambda>b. (kl_payout b, kl_reveal b)) (klog (snd (krc20_run_once sample_krc20_env sample_krc20_config (Inr price) [True]
       (t\<lparr>knode := sample_krc20_node 1100\<rparr>)))) = [(1, False)]"
  by (simp add: refused_tick later_tick) (simp add: refused_world_def sample_engine)

lemma sample_txid_ok: "txid_ok (kv_signer sample_krc20_env)"
  by (simp add: txid_ok_def sample_krc20_env_def strip_scripts_def)


end
