(* ===== verification/F64_Order.thy ===== *)
theory F64_Order
  imports F64
begin

text \<open>
  Rounding is monotone and symmetric, so the order of exact results carries over to the results
  of float operations; the bounds of difficulties and token buckets follow from this.
\<close>

section \<open>Rounding to an integer\<close>

lemma round_half_even_floor: "round_half_even x = \<lfloor>x\<rfloor> \<or> round_half_even x = \<lfloor>x\<rfloor> + 1"
  by (simp add: round_half_even_def Let_def)

lemma round_half_even_mono:
  assumes "x \<le> y"
  shows "round_half_even x \<le> round_half_even y"
proof (cases "\<lfloor>x\<rfloor> = \<lfloor>y\<rfloor>")
  case True
  then show ?thesis using assms by (auto simp: round_half_even_def Let_def)
next
  case False
  then have "\<lfloor>x\<rfloor> + 1 \<le> \<lfloor>y\<rfloor>" using floor_mono[OF assms] by linarith
  then show ?thesis using round_half_even_floor[of x] round_half_even_floor[of y] by linarith
qed

lemma round_half_even_minus: "round_half_even (- x) = - round_half_even x"
proof (cases "x = of_int \<lfloor>x\<rfloor>")
  case True
  then show ?thesis by (metis of_int_minus round_half_even_int)
next
  case False
  then have "\<lfloor>- x\<rfloor> = - \<lfloor>x\<rfloor> - 1" by linarith
  then show ?thesis
    by (auto simp: round_half_even_def Let_def)
qed

lemma round_half_even_ge: "of_int n \<le> x \<Longrightarrow> n \<le> round_half_even x"
  using round_half_even_mono[of "of_int n" x] by simp

lemma round_half_even_le: "x \<le> of_int n \<Longrightarrow> round_half_even x \<le> n"
  using round_half_even_mono[of x "of_int n"] by simp

section \<open>Rounding to a float\<close>

text \<open>The rounded value before the test for overflow.\<close>

definition round_rat :: "rat \<Rightarrow> rat" where
  "round_rat x = (if x = 0 then 0 else of_int (round_half_even (x / 2 powi ulp_exp x)) * 2 powi ulp_exp x)"

lemma f64_round_rat:
  "f64_round x = (if \<bar>round_rat x\<bar> < 2 ^ 1024 then Fin (round_rat x) else if 0 < x then PInf else NInf)"
  by (auto simp: f64_round_def round_rat_def Let_def not_le)

lemma round_rat_0 [simp]: "round_rat 0 = 0"
  by (simp add: round_rat_def)

lemma round_rat_minus: "round_rat (- x) = - round_rat x"
  by (simp add: round_rat_def ulp_exp_def round_half_even_minus)

lemma exponent2_mono: "0 < x \<Longrightarrow> x \<le> y \<Longrightarrow> exponent2 x \<le> exponent2 y"
  using exponent2_bounds(2)[of y] by (intro exponent2_le) auto

lemma round_rat_pos_mono:
  assumes "0 < x" and "x \<le> y"
  shows "round_rat x \<le> round_rat y"
proof (cases "ulp_exp x = ulp_exp y")
  case True
  have "round_half_even (x / 2 powi ulp_exp y) \<le> round_half_even (y / 2 powi ulp_exp y)"
    using assms by (intro round_half_even_mono divide_right_mono) auto
  then have "rat_of_int (round_half_even (x / 2 powi ulp_exp y)) * 2 powi ulp_exp y
      \<le> rat_of_int (round_half_even (y / 2 powi ulp_exp y)) * 2 powi ulp_exp y"
    by (intro mult_right_mono) auto
  then show ?thesis using assms True by (simp add: round_rat_def)
next
  case False
  define e where "e = exponent2 y"
  have "exponent2 x \<le> e" using assms by (simp add: e_def exponent2_mono)
  then have q: "ulp_exp x < ulp_exp y" and uy: "ulp_exp y = e - 52" and ex: "exponent2 x < e"
    using False assms by (auto simp: ulp_exp_def e_def max_def split: if_splits)
  have split: "(2::rat) powi e / 2 powi k = of_int (2 ^ nat (e - k))" if "k \<le> e" for k
  proof -
    have "(2::rat) powi e / 2 powi k = 2 powi (e - k)" by (simp add: power_int_diff)
    also have "\<dots> = of_int (2 ^ nat (e - k))" using that by (simp add: power_int_def)
    finally show ?thesis .
  qed
  have "x < 2 powi e"
    using exponent2_bounds(2)[OF assms(1)] ex power_int_increasing[of "exponent2 x + 1" e "2::rat"] by linarith
  then have "x / 2 powi ulp_exp x \<le> of_int (2 ^ nat (e - ulp_exp x))"
    using q uy by (subst split[symmetric]) (auto intro: divide_right_mono)
  then have "round_half_even (x / 2 powi ulp_exp x) \<le> 2 ^ nat (e - ulp_exp x)" by (rule round_half_even_le)
  then have "rat_of_int (round_half_even (x / 2 powi ulp_exp x)) * 2 powi ulp_exp x
      \<le> of_int (2 ^ nat (e - ulp_exp x)) * 2 powi ulp_exp x"
    by (intro mult_right_mono) (simp_all only: of_int_le_iff, simp)
  also have "\<dots> = 2 powi e" using q uy by (subst split[symmetric]) auto
  also have "\<dots> = of_int (2 ^ nat (e - ulp_exp y)) * 2 powi ulp_exp y" using uy by (subst split[symmetric]) auto
  also have "\<dots> \<le> rat_of_int (round_half_even (y / 2 powi ulp_exp y)) * 2 powi ulp_exp y"
  proof (intro mult_right_mono)
    have "2 powi e \<le> y" using exponent2_bounds(1)[of y] assms by (simp add: e_def)
    then have "of_int (2 ^ nat (e - ulp_exp y)) \<le> y / 2 powi ulp_exp y"
      using uy by (subst split[symmetric]) (auto intro: divide_right_mono)
    then have "2 ^ nat (e - ulp_exp y) \<le> round_half_even (y / 2 powi ulp_exp y)" by (rule round_half_even_ge)
    then show "rat_of_int (2 ^ nat (e - ulp_exp y)) \<le> of_int (round_half_even (y / 2 powi ulp_exp y))"
      by (simp only: of_int_le_iff)
  qed simp
  finally show ?thesis using assms by (simp add: round_rat_def)
qed

lemma round_rat_nonneg: "0 \<le> x \<Longrightarrow> 0 \<le> round_rat x"
  using round_half_even_ge[of 0 "x / 2 powi ulp_exp x"] by (auto simp: round_rat_def)

lemma round_rat_mono:
  assumes "x \<le> y"
  shows "round_rat x \<le> round_rat y"
proof -
  consider "0 < x" | "y < 0" | "x \<le> 0" "0 \<le> y" by linarith
  then show ?thesis
  proof cases
    case 1
    then show ?thesis using assms by (rule round_rat_pos_mono)
  next
    case 2
    then show ?thesis using assms round_rat_pos_mono[of "- y" "- x"] by (simp add: round_rat_minus)
  next
    case 3
    then show ?thesis using round_rat_nonneg[of "- x"] round_rat_nonneg[of y] by (simp add: round_rat_minus)
  qed
qed

lemma f64_round_cut:
  "f64_round x = (if 2 ^ 1024 \<le> round_rat x then PInf else if round_rat x \<le> - (2 ^ 1024) then NInf else Fin (round_rat x))"
proof -
  define M :: rat where "M = 2 ^ 1024"
  have "0 < M" by (simp add: M_def)
  then show ?thesis
    unfolding f64_round_rat M_def[symmetric]
    using round_rat_nonneg[of x] round_rat_nonneg[of "- x"] by (cases "0 < x") (auto simp: round_rat_minus)
qed

lemma f64_round_mono:
  assumes "x \<le> y"
  shows "f64_le (f64_round x) (f64_round y)"
proof -
  define M :: rat where "M = 2 ^ 1024"
  have "0 < M" by (simp add: M_def)
  then show ?thesis unfolding f64_round_cut M_def[symmetric] using round_rat_mono[OF assms] by auto
qed

text \<open>A float is its own rounding, so bounds by floats survive rounding.\<close>

definition is_float :: "rat \<Rightarrow> bool" where
  "is_float x \<longleftrightarrow> f64_round x = Fin x"

lemma f64_round_ge: "is_float a \<Longrightarrow> a \<le> x \<Longrightarrow> f64_round x = Fin r \<Longrightarrow> a \<le> r"
  using f64_round_mono[of a x] by (simp add: is_float_def)

lemma f64_round_le: "is_float b \<Longrightarrow> x \<le> b \<Longrightarrow> f64_round x = Fin r \<Longrightarrow> r \<le> b"
  using f64_round_mono[of x b] by (simp add: is_float_def)

lemma f64_round_finite:
  assumes "is_float a" and "is_float b" and "a \<le> x" and "x \<le> b"
  shows "\<exists>r. f64_round x = Fin r \<and> a \<le> r \<and> r \<le> b"
  using f64_round_mono[OF assms(3)] f64_round_mono[OF assms(4)] assms(1,2)
  by (cases "f64_round x") (auto simp: is_float_def)

lemma is_float_dyadic: "\<bar>n\<bar> < 2 ^ 53 \<Longrightarrow> k \<le> 1074 \<Longrightarrow> is_float (of_int n / 2 ^ k)"
  by (simp add: is_float_def f64_round_dyadic)

lemma is_float_int: "\<bar>n\<bar> < 2 ^ 53 \<Longrightarrow> is_float (of_int n)"
  by (simp add: is_float_def f64_round_int)

lemma is_float_scaled:
  assumes "\<bar>n\<bar> < 2 ^ 53" and "k \<le> 971"
  shows "is_float (of_int n * 2 ^ k)"
proof (cases "n = 0")
  case False
  define x where "x = rat_of_int n * 2 ^ k"
  define q where "q = ulp_exp x"
  have x0: "x \<noteq> 0" using False by (simp add: x_def)
  have small: "\<bar>rat_of_int n\<bar> < 2 ^ 53"
    using assms(1) by (metis of_int_abs of_int_less_iff of_int_numeral of_int_power)
  have "\<bar>x\<bar> < 2 ^ 53 * 2 ^ k" using small by (simp add: x_def abs_mult)
  also have "(2::rat) ^ 53 * 2 ^ k = 2 powi ((52 + int k) + 1)"
    by (simp add: power_int_add)
  finally have "exponent2 \<bar>x\<bar> \<le> 52 + int k" using x0 by (intro exponent2_le) simp_all
  then have q: "q \<le> int k" by (simp add: q_def ulp_exp_def)
  have "x / 2 powi q = of_int n * (2 ^ k / 2 powi q)" by (simp add: x_def)
  also have "(2::rat) ^ k / 2 powi q = 2 powi (int k - q)" by (simp add: power_int_diff)
  also have "\<dots> = of_int (2 ^ nat (int k - q))" using q by (simp add: power_int_def)
  finally have scaled: "x / 2 powi q = of_int (n * 2 ^ nat (int k - q))" by simp
  have "round_rat x = of_int (n * 2 ^ nat (int k - q)) * 2 powi q"
    using x0 unfolding round_rat_def q_def[symmetric] scaled by (simp only: round_half_even_int if_False)
  also have "\<dots> = x" unfolding scaled[symmetric] by simp
  finally have r: "round_rat x = x" .
  have "(2::rat) ^ 53 * 2 ^ k \<le> 2 ^ 1024" unfolding power_add[symmetric] by (rule power_increasing) (use assms(2) in simp_all)
  then have "\<bar>x\<bar> < 2 ^ 1024" using \<open>\<bar>x\<bar> < 2 ^ 53 * 2 ^ k\<close> by (rule order.strict_trans2[rotated])
  then show ?thesis unfolding is_float_def f64_round_rat by (simp add: r flip: x_def)
qed (simp add: is_float_def f64_round_def)

section \<open>Scaling\<close>

lemma exponent2_ge:
  assumes "2 ^ e \<le> x"
  shows "int e \<le> exponent2 x"
proof (rule ccontr)
  assume "\<not> int e \<le> exponent2 x"
  then have "(2::rat) powi (exponent2 x + 1) \<le> 2 powi int e" by (intro power_int_increasing) auto
  moreover have "0 < x" using assms zero_less_power[of "2::rat" e] by linarith
  ultimately show False using exponent2_bounds(2)[of x] assms by simp
qed

text \<open>Floats that are neither tiny nor huge can be scaled by powers of two.\<close>

lemma is_float_powi:
  assumes "\<bar>n\<bar> < 2 ^ 53" and "- 1074 \<le> q" and "q \<le> 971"
  shows "is_float (of_int n * 2 powi q)"
proof (cases "0 \<le> q")
  case True
  then have "(2::rat) powi q = 2 ^ nat q" "nat q \<le> 971" using assms(3) by (simp_all add: power_int_def)
  then show ?thesis using is_float_scaled[OF assms(1), of "nat q"] by (simp only:)
next
  case False
  then have "rat_of_int n * 2 powi q = of_int n / 2 ^ nat (- q)"
    by (simp only: power_int_def if_False power_inverse divide_inverse)
  moreover have "nat (- q) \<le> 1074" using assms(2) by simp
  ultimately show ?thesis using is_float_dyadic[OF assms(1), of "nat (- q)"] by (simp only:)
qed

lemma rounding_grid:
  assumes "1 \<le> x" and "x \<le> 2 ^ 120"
  obtains n q where "round_rat x = of_int n * 2 powi q" "\<bar>n\<bar> < 2 ^ 53" "- 52 \<le> q" "q \<le> 121"
proof -
  define e where "e = exponent2 x"
  define q where "q = e - 52"
  define n where "n = round_half_even (x / 2 powi q)"
  have e: "2 powi e \<le> x" "x < 2 powi (e + 1)" using exponent2_bounds[of x] assms by (simp_all add: e_def)
  have "e \<le> 120" unfolding e_def using assms by (intro exponent2_le) (auto intro: order.strict_trans1)
  moreover have "0 \<le> e" unfolding e_def using exponent2_ge[of 0 x] assms(1) by simp
  ultimately have q: "- 52 \<le> q" "q \<le> 68" "ulp_exp x = q" using assms by (simp_all add: q_def ulp_exp_def e_def)
  have r: "round_rat x = of_int n * 2 powi q" using assms q(3) by (simp add: round_rat_def n_def)
  have split: "(2::rat) powi (e + 1) = 2 ^ 53 * 2 powi q" by (simp add: q_def power_int_add power_int_diff)
  have "x / 2 powi q \<le> of_int (2 ^ 53)" using e(2) split by (simp add: field_simps)
  then have "n \<le> 2 ^ 53" unfolding n_def by (rule round_half_even_le)
  moreover have "0 \<le> n" unfolding n_def by (rule round_half_even_ge) (use assms in simp)
  ultimately consider "\<bar>n\<bar> < 2 ^ 53" | "n = 2 ^ 53" by linarith
  then show thesis
  proof cases
    case 1
    then show ?thesis using that[of n q] r q by simp
  next
    case 2
    then show ?thesis using that[of 1 "q + 53"] r q by (simp add: power_int_add)
  qed
qed

lemma is_float_rounded:
  assumes "f64_round x = Fin r" and "1 \<le> x" and "x \<le> 2 ^ 120"
  shows "is_float r"
proof -
  have "r = round_rat x" using assms(1) by (simp add: f64_round_rat split: if_splits)
  moreover obtain n q where "round_rat x = of_int n * 2 powi q" "\<bar>n\<bar> < 2 ^ 53" "- 52 \<le> q" "q \<le> 121"
    using assms(2,3) by (rule rounding_grid)
  ultimately show ?thesis using is_float_powi[of n q] by simp
qed

lemma is_float_times:
  assumes "is_float c" and "1 \<le> c" and "c \<le> 2 ^ 100" and "\<bar>k\<bar> \<le> 10"
  shows "is_float (c * 2 powi k)"
proof -
  have "c \<le> 2 ^ 120" using assms(3) power_increasing[of 100 120 "2::rat"] by linarith
  with assms(2) obtain n q where "round_rat c = of_int n * 2 powi q" "\<bar>n\<bar> < 2 ^ 53" "- 52 \<le> q" "q \<le> 121" by (rule rounding_grid)
  moreover have "round_rat c = c" using assms(1) by (auto simp: is_float_def f64_round_rat split: if_splits)
  ultimately have "c * 2 powi k = of_int n * 2 powi (q + k)" "\<bar>n\<bar> < 2 ^ 53" "- 1074 \<le> q + k" "q + k \<le> 971"
    using assms(4) by (simp_all add: power_int_add)
  then show ?thesis using is_float_powi by metis
qed

end
