(* ===== verification/Share_Target.thy ===== *)
theory Share_Target
  imports F64_Order Payout_Repo Domain
begin

text \<open>
  Difficulties, targets and the encodings of a mining job (\<open>bridge/src/hasher.rs\<close>), with the text
  and byte conversions of the standard library the bridge uses.

  A share difficulty is a float; a target is a big integer, and work meets a target when its hash
  is at most the target.  A division by a zero big integer panics: \<open>None\<close>.  The block header is the
  consensus library's structure; the record below has the fields the code reads.

  Shown: the target of a difficulty is antitone and defined for every difficulty in use, compact
  bits decode to their value, and both encodings of a job lose nothing.
\<close>

section \<open>Text and bytes\<close>

fun digit_of :: "nat \<Rightarrow> char \<Rightarrow> nat option" where
  "digit_of radix c =
     (let k = of_char c :: nat;
          d = (if 48 \<le> k \<and> k \<le> 57 then Some (k - 48)
               else if 97 \<le> k \<and> k \<le> 122 then Some (k - 87)
               else if 65 \<le> k \<and> k \<le> 90 then Some (k - 55) else None)
      in case d of Some v \<Rightarrow> if v < radix then Some v else None | None \<Rightarrow> None)"

fun radix_digits :: "nat \<Rightarrow> nat \<Rightarrow> nat \<Rightarrow> string \<Rightarrow> string + nat" where
  "radix_digits limit radix acc [] = Inr acc"
| "radix_digits limit radix acc (c # cs) =
     (case digit_of radix c of
        None \<Rightarrow> Inl ''invalid digit found in string''
      | Some d \<Rightarrow> let acc' = acc * radix + d
          in if limit < acc' then Inl ''number too large to fit in target type'' else radix_digits limit radix acc' cs)"

text \<open>\<open>from_str_radix\<close> of an unsigned type with the given largest value: one leading plus sign is allowed.\<close>

fun from_str_radix :: "nat \<Rightarrow> nat \<Rightarrow> string \<Rightarrow> string + nat" where
  "from_str_radix limit radix [] = Inl ''cannot parse integer from empty string''"
| "from_str_radix limit radix (c # cs) =
     (if c = CHR ''+'' then (if cs = [] then Inl ''invalid digit found in string'' else radix_digits limit radix 0 cs)
      else radix_digits limit radix 0 (c # cs))"

definition to_ascii_lower :: "char \<Rightarrow> char" where
  "to_ascii_lower c = (if is_ascii_uppercase c then char_of (of_char c + 32 :: nat) else c)"

definition eq_ignore_ascii_case :: "string \<Rightarrow> string \<Rightarrow> bool" where
  "eq_ignore_ascii_case a b \<longleftrightarrow> map to_ascii_lower a = map to_ascii_lower b"

text \<open>Whitespace of \<open>trim\<close> (its code points below 128) and of \<open>is_ascii_whitespace\<close>.\<close>

definition is_space :: "char \<Rightarrow> bool" where
  "is_space c = (let k = of_char c :: nat in 9 \<le> k \<and> k \<le> 13 \<or> k = 32)"

definition is_ascii_space :: "char \<Rightarrow> bool" where
  "is_ascii_space c = (let k = of_char c :: nat in k \<in> {9, 10, 12, 13, 32})"

definition trim_matches :: "(char \<Rightarrow> bool) \<Rightarrow> string \<Rightarrow> string" where
  "trim_matches p s = rev (dropWhile p (rev (dropWhile p s)))"

definition trim :: "string \<Rightarrow> string" where
  "trim s = trim_matches is_space s"

definition to_le_bytes :: "nat \<Rightarrow> nat \<Rightarrow> bytes" where
  "to_le_bytes w n = map (\<lambda>i. n div 256 ^ i mod 256) [0..<w]"

definition to_be_bytes :: "nat \<Rightarrow> nat \<Rightarrow> bytes" where
  "to_be_bytes w n = rev (to_le_bytes w n)"

definition from_le_bytes :: "bytes \<Rightarrow> nat" where
  "from_le_bytes bs = foldr (\<lambda>b acc. b + 256 * acc) bs 0"

definition from_be_bytes :: "bytes \<Rightarrow> nat" where
  "from_be_bytes bs = from_le_bytes (rev bs)"

definition hex_char :: "nat \<Rightarrow> char" where
  "hex_char d = (if d < 10 then char_of (48 + d) else char_of (87 + d))"

definition hex_encode :: "bytes \<Rightarrow> string" where
  "hex_encode bs = concat (map (\<lambda>b. [hex_char (b div 16), hex_char (b mod 16)]) bs)"

text \<open>\<open>format!("{:016x}", n)\<close> of a \<open>u64\<close>.\<close>

definition hex16 :: "nat \<Rightarrow> string" where
  "hex16 n = hex_encode (to_be_bytes 8 n)"

section \<open>Difficulty to target\<close>

definition MAX_TARGET :: nat where "MAX_TARGET = 2 ^ 224 - 1"
definition min_hash :: f64 where "min_hash = Fin (2 ^ 32)"
definition BIG_GIG :: f64 where "BIG_GIG = Fin 1000000000"
definition KASPA_MAX_TARGET :: nat where "KASPA_MAX_TARGET = u64_max"

fun f64_as_u128 :: "f64 \<Rightarrow> nat" where
  "f64_as_u128 (Fin x) = nat (max 0 (min (2 ^ 128 - 1) (trunc_rat x)))"
| "f64_as_u128 PInf = 2 ^ 128 - 1"
| "f64_as_u128 NInf = 0"
| "f64_as_u128 NaN = 0"

definition big_div :: "nat \<Rightarrow> nat \<Rightarrow> nat option" where
  "big_div a b = (if b = 0 then None else Some (a div b))"

definition diff_to_target_alternative :: "f64 \<Rightarrow> nat option" where
  "diff_to_target_alternative diff =
     (if f64_le diff (Fin 0) then Some MAX_TARGET
      else big_div (KASPA_MAX_TARGET * 1000000) (f64_as_u64 (f64_mul diff (Fin 1000000))))"

definition stratum_difficulty_to_target_kaspa :: "nat \<Rightarrow> nat option" where
  "stratum_difficulty_to_target_kaspa stratum_diff =
     (if stratum_diff = 0 then Some (KASPA_MAX_TARGET * 1000)
      else big_div (KASPA_MAX_TARGET * 1000) (stratum_diff * 1000))"

definition diff_to_target_standard :: "f64 \<Rightarrow> nat option" where
  "diff_to_target_standard diff =
     (if f64_le diff (Fin 0) then Some MAX_TARGET
      else big_div (MAX_TARGET * 10 ^ 18) (f64_as_u128 (f64_mul diff (Fin (10 ^ 18)))))"

definition env_is_true :: "(string \<rightharpoonup> string) \<Rightarrow> string \<Rightarrow> bool" where
  "env_is_true env key = eq_ignore_ascii_case (case env key of None \<Rightarrow> [] | Some v \<Rightarrow> v) ''true''"

text \<open>The two test modes also compute the standard target, for a log line.\<close>

definition diff_to_target :: "(string \<rightharpoonup> string) \<Rightarrow> f64 \<Rightarrow> nat option" where
  "diff_to_target env diff =
     (if env_is_true env ''USE_STRATUM_TARGET_CALC'' then
        (case stratum_difficulty_to_target_kaspa (f64_as_u64 diff) of None \<Rightarrow> None | Some t \<Rightarrow>
         (case diff_to_target_standard diff of None \<Rightarrow> None | Some _ \<Rightarrow> Some t))
      else if env_is_true env ''USE_ALTERNATIVE_TARGET_CALC'' then
        (case diff_to_target_alternative diff of None \<Rightarrow> None | Some t \<Rightarrow>
         (case diff_to_target_standard diff of None \<Rightarrow> None | Some _ \<Rightarrow> Some t))
      else diff_to_target_standard diff)"

definition diff_to_hash :: "f64 \<Rightarrow> f64" where
  "diff_to_hash diff = f64_div (f64_mul min_hash diff) BIG_GIG"

record kaspa_diff =
  kd_hash_value :: f64
  kd_diff_value :: f64
  kd_target_value :: nat

definition KaspaDiff_new :: kaspa_diff where
  "KaspaDiff_new = \<lparr>kd_hash_value = Fin 0, kd_diff_value = Fin 0, kd_target_value = 0\<rparr>"

definition set_diff_value :: "(string \<rightharpoonup> string) \<Rightarrow> f64 \<Rightarrow> kaspa_diff \<Rightarrow> kaspa_diff option" where
  "set_diff_value env diff d =
     (case diff_to_target env diff of None \<Rightarrow> None
      | Some t \<Rightarrow> Some (d\<lparr>kd_diff_value := diff, kd_target_value := t, kd_hash_value := diff_to_hash diff\<rparr>))"

definition set_diff_value_for_miner :: "(string \<rightharpoonup> string) \<Rightarrow> f64 \<Rightarrow> string \<Rightarrow> kaspa_diff \<Rightarrow> kaspa_diff option" where
  "set_diff_value_for_miner env diff remote_app d =
     (case diff_to_target env diff of None \<Rightarrow> None
      | Some t \<Rightarrow> Some (d\<lparr>kd_diff_value := diff, kd_target_value := t, kd_hash_value := diff_to_hash diff\<rparr>))"

section \<open>Compact bits\<close>

definition calculate_target :: "nat \<Rightarrow> nat" where
  "calculate_target bits =
     (let exponent = bits div 2 ^ 24; mantissa = bits mod 2 ^ 24
      in if exponent \<le> 3 then mantissa div 2 ^ (8 * (3 - exponent)) else mantissa * 2 ^ (8 * (exponent - 3)))"

definition big_diff_to_little :: "nat \<Rightarrow> f64" where
  "big_diff_to_little diff = f64_div (f64_div (Fin (2 ^ 254)) (f64_round (of_nat diff))) (Fin (2 ^ 31))"

section \<open>The pre-PoW hash and job parameters\<close>

record block_header =
  bh_version :: nat
  bh_parents :: "bytes list list"
  bh_merkle_root :: bytes
  bh_accepted_id_root :: bytes
  bh_utxo_commitment :: bytes
  bh_timestamp :: nat
  bh_bits :: nat
  bh_nonce :: nat
  bh_daa_score :: nat
  bh_blue_score :: nat
  bh_blue_work :: nat
  bh_pruning_point :: bytes

text \<open>What is fed to the hash function: version and parents, then the fixed fields with timestamp and nonce zero.\<close>

definition level_bytes :: "bytes list \<Rightarrow> bytes" where
  "level_bytes level = to_le_bytes 8 (length level) @ concat level"

definition strip_zeros :: "bytes \<Rightarrow> bytes" where
  "strip_zeros bs = dropWhile (\<lambda>b. b = 0) bs"

definition fixed_fields :: "block_header \<Rightarrow> bytes" where
  "fixed_fields h =
     bh_merkle_root h @ bh_accepted_id_root h @ bh_utxo_commitment h @
     to_le_bytes 8 0 @ to_le_bytes 4 (bh_bits h) @ to_le_bytes 8 0 @ to_le_bytes 8 (bh_daa_score h) @ to_le_bytes 8 (bh_blue_score h) @
     (let work = strip_zeros (to_be_bytes 24 (bh_blue_work h)) in to_le_bytes 8 (length work) @ work) @ bh_pruning_point h"

definition header_preimage :: "block_header \<Rightarrow> bytes" where
  "header_preimage h =
     to_le_bytes 2 (bh_version h) @ to_le_bytes 8 (length (bh_parents h)) @ concat (map level_bytes (bh_parents h)) @ fixed_fields h"

definition serialize_block_header :: "(bytes \<Rightarrow> bytes) \<Rightarrow> block_header \<Rightarrow> bytes" where
  "serialize_block_header block_hash h = block_hash (header_preimage h)"

definition words_at :: "(bytes \<Rightarrow> nat) \<Rightarrow> bytes \<Rightarrow> nat list" where
  "words_at from_bytes data =
     map (\<lambda>i. from_bytes (take 8 (drop (i * 8) data))) (filter (\<lambda>i. i * 8 + 8 \<le> length data) [0..<4])"

definition generate_job_header :: "bytes \<Rightarrow> nat list" where
  "generate_job_header data = words_at from_le_bytes data"

definition generate_iceriver_job_params :: "string \<Rightarrow> nat \<Rightarrow> string" where
  "generate_iceriver_job_params hash_hex timestamp = hash_hex @ hex_encode (to_le_bytes 8 timestamp)"

text \<open>Indexing the fifth word panics when the header data is shorter than 32 bytes.\<close>

definition generate_large_job_params :: "bytes \<Rightarrow> nat \<Rightarrow> string option" where
  "generate_large_job_params data timestamp =
     (let ids = words_at from_be_bytes data @ [from_le_bytes (to_be_bytes 8 timestamp)]
      in if length ids < 5 then None else Some (concat (map hex16 (take 5 ids))))"

section \<open>Byte conversions\<close>

lemma length_le_bytes [simp]: "length (to_le_bytes w n) = w"
  by (simp add: to_le_bytes_def)

lemma length_be_bytes [simp]: "length (to_be_bytes w n) = w"
  by (simp add: to_be_bytes_def)

lemma to_le_bytes_Suc: "to_le_bytes (Suc w) n = n mod 256 # to_le_bytes w (n div 256)"
  by (simp add: to_le_bytes_def upt_conv_Cons div_mult2_eq del: upt_Suc flip: map_Suc_upt)

lemma from_to_le_bytes: "from_le_bytes (to_le_bytes w n) = n mod 256 ^ w"
proof (induction w arbitrary: n)
  case (Suc w)
  have "n mod 256 ^ Suc w = n mod 256 + 256 * (n div 256 mod 256 ^ w)"
    by (simp add: mod_mult2_eq)
  then show ?case using Suc by (simp add: to_le_bytes_Suc from_le_bytes_def)
qed (simp add: to_le_bytes_def from_le_bytes_def)

lemma to_from_le_bytes: "\<forall>b \<in> set bs. b < 256 \<Longrightarrow> to_le_bytes (length bs) (from_le_bytes bs) = bs"
proof (induction bs)
  case (Cons b bs)
  then show ?case by (simp add: to_le_bytes_Suc from_le_bytes_def)
qed (simp add: to_le_bytes_def)

lemma to_le_bytes_inject: "m < 256 ^ w \<Longrightarrow> n < 256 ^ w \<Longrightarrow> to_le_bytes w m = to_le_bytes w n \<longleftrightarrow> m = n"
  by (metis from_to_le_bytes mod_less)

lemma le_bytes_range: "b \<in> set (to_le_bytes w n) \<Longrightarrow> b < 256"
  by (auto simp: to_le_bytes_def)

lemma to_from_be_bytes: "\<forall>b \<in> set bs. b < 256 \<Longrightarrow> to_be_bytes (length bs) (from_be_bytes bs) = bs"
  using to_from_le_bytes[of "rev bs"] by (simp add: to_be_bytes_def from_be_bytes_def)

lemma hex_char_inject: "a < 16 \<Longrightarrow> b < 16 \<Longrightarrow> hex_char a = hex_char b \<longleftrightarrow> a = b"
  by (auto simp: hex_char_def char_of_eq_iff take_bit_eq_mod split: if_splits)

lemma length_hex_encode [simp]: "length (hex_encode bs) = 2 * length bs"
  by (induction bs) (auto simp: hex_encode_def)

lemma hex_encode_append: "hex_encode (xs @ ys) = hex_encode xs @ hex_encode ys"
  by (simp add: hex_encode_def)

lemma hex_encode_inject:
  "\<forall>b \<in> set xs. b < 256 \<Longrightarrow> \<forall>b \<in> set ys. b < 256 \<Longrightarrow> hex_encode xs = hex_encode ys \<longleftrightarrow> xs = ys"
proof (induction xs arbitrary: ys)
  case Nil
  then show ?case by (cases ys) (simp_all add: hex_encode_def)
next
  case (Cons x xs)
  show ?case
  proof (cases ys)
    case (Cons y ys')
    have "hex_char (x div 16) = hex_char (y div 16) \<longleftrightarrow> x div 16 = y div 16"
      "hex_char (x mod 16) = hex_char (y mod 16) \<longleftrightarrow> x mod 16 = y mod 16"
      using Cons.prems Cons by (auto intro!: hex_char_inject)
    moreover have "x = y \<longleftrightarrow> x div 16 = y div 16 \<and> x mod 16 = y mod 16" by (metis div_mult_mod_eq)
    moreover have "hex_encode xs = hex_encode ys' \<longleftrightarrow> xs = ys'" using Cons.IH[of ys'] Cons.prems Cons by simp
    ultimately show ?thesis using Cons by (simp add: hex_encode_def)
  qed (simp add: hex_encode_def)
qed

section \<open>Job parameters\<close>

lemma words_of_32: "length data = 32 \<Longrightarrow> words_at f data = map (\<lambda>i. f (take 8 (drop (i * 8) data))) [0, 1, 2, 3]"
  by (simp add: words_at_def upt_rec)

lemma hex16_word:
  assumes "length data = 32" and "\<forall>b \<in> set data. b < 256" and "i < 4"
  shows "hex16 (from_be_bytes (take 8 (drop (i * 8) data))) = hex_encode (take 8 (drop (i * 8) data))"
proof -
  let ?w = "take 8 (drop (i * 8) data)"
  have "length ?w = 8" using assms by simp
  moreover have "\<forall>b \<in> set ?w. b < 256" using assms(2) by (meson in_set_dropD in_set_takeD)
  ultimately show ?thesis using to_from_be_bytes[of ?w] by (simp add: hex16_def)
qed

lemma split_32:
  assumes "length data = 32"
  shows "data = take 8 data @ take 8 (drop 8 data) @ take 8 (drop 16 data) @ take 8 (drop 24 data)"
proof -
  have step: "drop k data = take 8 (drop k data) @ drop (8 + k) data" for k
    by (metis append_take_drop_id drop_drop)
  have "drop 24 data = take 8 (drop 24 data)" using assms by simp
  with step[of 0] step[of 8] step[of 16] show ?thesis by simp
qed

text \<open>
  The two job formats sent to miners agree: for a 32-byte pre-PoW hash the five words of the
  large format are the 80 characters of the plain one (hash, then the little-endian timestamp),
  and the text determines hash and timestamp.
\<close>

theorem job_params_agree:
  assumes "length data = 32" and "\<forall>b \<in> set data. b < 256" and "timestamp < 2 ^ 64"
  shows "generate_large_job_params data timestamp = Some (generate_iceriver_job_params (hex_encode data) timestamp) \<and>
    length (generate_iceriver_job_params (hex_encode data) timestamp) = 80 \<and>
    (\<forall>data' timestamp'. length data' = 32 \<and> (\<forall>b \<in> set data'. b < 256) \<and> timestamp' < 2 ^ 64 \<and>
       generate_iceriver_job_params (hex_encode data') timestamp' = generate_iceriver_job_params (hex_encode data) timestamp \<longrightarrow>
       data' = data \<and> timestamp' = timestamp)"
proof (intro conjI allI impI)
  have swap: "hex16 (from_le_bytes (to_be_bytes 8 timestamp)) = hex_encode (to_le_bytes 8 timestamp)"
    using to_from_le_bytes[of "to_be_bytes 8 timestamp"] le_bytes_range[of _ 8 timestamp]
    by (simp add: hex16_def to_be_bytes_def)
  have "concat (map hex16 (words_at from_be_bytes data)) = hex_encode data"
    using hex16_word[OF assms(1,2), of 0] hex16_word[OF assms(1,2), of 1] hex16_word[OF assms(1,2), of 2]
      hex16_word[OF assms(1,2), of 3] arg_cong[OF split_32[OF assms(1)], of hex_encode]
    by (simp add: words_of_32[OF assms(1)] hex_encode_append)
  then show "generate_large_job_params data timestamp = Some (generate_iceriver_job_params (hex_encode data) timestamp)"
    using swap by (simp add: generate_large_job_params_def generate_iceriver_job_params_def Let_def words_of_32[OF assms(1)])
  show "length (generate_iceriver_job_params (hex_encode data) timestamp) = 80"
    using assms(1) by (simp add: generate_iceriver_job_params_def)
  fix data' timestamp'
  assume same: "length data' = 32 \<and> (\<forall>b \<in> set data'. b < 256) \<and> timestamp' < 2 ^ 64 \<and>
       generate_iceriver_job_params (hex_encode data') timestamp' = generate_iceriver_job_params (hex_encode data) timestamp"
  then have "hex_encode data' = hex_encode data" and
    "hex_encode (to_le_bytes 8 timestamp') = hex_encode (to_le_bytes 8 timestamp)"
    using assms(1) by (simp_all add: generate_iceriver_job_params_def)
  then show "data' = data" and "timestamp' = timestamp"
    using same assms le_bytes_range by (auto simp: hex_encode_inject to_le_bytes_inject)
qed

theorem job_params_agree_witness:
  "generate_large_job_params (replicate 32 7) 5 = Some (generate_iceriver_job_params (hex_encode (replicate 32 7)) 5)"
  using job_params_agree[of "replicate 32 7" 5] by simp

section \<open>The pre-PoW hash commits to the header\<close>

definition header_ok :: "block_header \<Rightarrow> bool" where
  "header_ok h \<longleftrightarrow> bh_version h < 2 ^ 16 \<and> length (bh_parents h) < 2 ^ 64 \<and>
     (\<forall>level \<in> set (bh_parents h). length level < 2 ^ 64 \<and> (\<forall>p \<in> set level. length p = 32)) \<and>
     length (bh_merkle_root h) = 32 \<and> length (bh_accepted_id_root h) = 32 \<and> length (bh_utxo_commitment h) = 32 \<and>
     bh_bits h < 2 ^ 32 \<and> bh_daa_score h < 2 ^ 64 \<and> bh_blue_score h < 2 ^ 64 \<and> bh_blue_work h < 2 ^ 192 \<and>
     length (bh_pruning_point h) = 32"

text \<open>The width of an encoded number, and the numbers that fit.\<close>

lemma le_bytes_prefix:
  "to_le_bytes w m @ xs = to_le_bytes w n @ ys \<Longrightarrow> m < 256 ^ w \<Longrightarrow> n < 256 ^ w \<Longrightarrow> m = n \<and> xs = ys"
  by (simp add: to_le_bytes_inject)

lemma byte_widths: "(256::nat) ^ 2 = 2 ^ 16" "(256::nat) ^ 4 = 2 ^ 32" "(256::nat) ^ 8 = 2 ^ 64" "(256::nat) ^ 24 = 2 ^ 192"
  by simp_all

lemma concat_prefix:
  assumes "length xs = length ys" and "\<forall>x \<in> set xs. length x = n" and "\<forall>y \<in> set ys. length y = n"
    and "concat xs @ r = concat ys @ r'"
  shows "xs = ys \<and> r = r'"
  using assms by (induction xs ys rule: list_induct2) auto

lemma levels_prefix:
  assumes "length xs = length ys"
    and "\<forall>l \<in> set xs. length l < 2 ^ 64 \<and> (\<forall>p \<in> set l. length p = 32)"
    and "\<forall>l \<in> set ys. length l < 2 ^ 64 \<and> (\<forall>p \<in> set l. length p = 32)"
    and "concat (map level_bytes xs) @ r = concat (map level_bytes ys) @ r'"
  shows "xs = ys \<and> r = r'"
  using assms
proof (induction xs ys rule: list_induct2)
  case (Cons x xs y ys)
  have "to_le_bytes 8 (length x) @ concat x @ concat (map level_bytes xs) @ r =
      to_le_bytes 8 (length y) @ concat y @ concat (map level_bytes ys) @ r'"
    using Cons.prems(3) by (simp add: level_bytes_def[of x] level_bytes_def[of y])
  from le_bytes_prefix[OF this] have n: "length x = length y"
    and rest: "concat x @ concat (map level_bytes xs) @ r = concat y @ concat (map level_bytes ys) @ r'"
    using Cons.prems(1,2) by (auto simp: byte_widths)
  from concat_prefix[OF n _ _ rest, of 32] have "x = y" "concat (map level_bytes xs) @ r = concat (map level_bytes ys) @ r'"
    using Cons.prems(1,2) by auto
  then show ?case using Cons.IH Cons.prems(1,2) by simp
qed simp

lemma strip_zeros_pad: "replicate (length bs - length (strip_zeros bs)) 0 @ strip_zeros bs = bs"
proof (induction bs)
  case (Cons b bs)
  have "length (strip_zeros bs) \<le> length bs" by (simp add: strip_zeros_def length_dropWhile_le)
  then show ?case using Cons by (cases "b = 0") (simp_all add: strip_zeros_def Suc_diff_le)
qed (simp add: strip_zeros_def)

lemma strip_zeros_inject: "length xs = length ys \<Longrightarrow> strip_zeros xs = strip_zeros ys \<Longrightarrow> xs = ys"
  by (metis strip_zeros_pad)

lemma same_length_append: "xs @ u = ys @ v \<Longrightarrow> length xs = length ys \<Longrightarrow> xs = ys \<and> u = v"
  by simp

lemma blue_work_prefix:
  assumes "to_le_bytes 8 (length (strip_zeros (to_be_bytes 24 m))) @ strip_zeros (to_be_bytes 24 m) @ r =
      to_le_bytes 8 (length (strip_zeros (to_be_bytes 24 n))) @ strip_zeros (to_be_bytes 24 n) @ r'"
    and "m < 2 ^ 192" and "n < 2 ^ 192"
  shows "m = n \<and> r = r'"
proof -
  have small: "length (strip_zeros (to_be_bytes 24 k)) < 256 ^ 8" for k
    using length_dropWhile_le[of "\<lambda>b. b = 0" "to_be_bytes 24 k"] by (simp add: strip_zeros_def)
  note split = le_bytes_prefix[OF assms(1) small small]
  then have work: "strip_zeros (to_be_bytes 24 m) = strip_zeros (to_be_bytes 24 n)" and r: "r = r'"
    using same_length_append by blast+
  have "to_be_bytes 24 m = to_be_bytes 24 n" by (rule strip_zeros_inject[OF _ work]) simp
  then have "to_le_bytes 24 m = to_le_bytes 24 n" by (simp add: to_be_bytes_def)
  moreover have "m < 256 ^ 24" "n < 256 ^ 24" using assms(2,3) by simp_all
  ultimately have "m = n" by (simp only: to_le_bytes_inject)
  then show ?thesis using r by simp
qed

lemma fixed_fields_inject:
  assumes "header_ok h" and "header_ok h'" and "fixed_fields h = fixed_fields h'"
  shows "bh_merkle_root h = bh_merkle_root h' \<and> bh_accepted_id_root h = bh_accepted_id_root h' \<and>
    bh_utxo_commitment h = bh_utxo_commitment h' \<and> bh_bits h = bh_bits h' \<and> bh_daa_score h = bh_daa_score h' \<and>
    bh_blue_score h = bh_blue_score h' \<and> bh_blue_work h = bh_blue_work h' \<and> bh_pruning_point h = bh_pruning_point h'"
proof -
  note ok = assms(1,2)[unfolded header_ok_def]
  let ?fore = "\<lambda>h. bh_merkle_root h @ bh_accepted_id_root h @ bh_utxo_commitment h @ to_le_bytes 8 0 @ to_le_bytes 4 (bh_bits h) @
     to_le_bytes 8 0 @ to_le_bytes 8 (bh_daa_score h) @ to_le_bytes 8 (bh_blue_score h)"
  let ?rear = "\<lambda>h. to_le_bytes 8 (length (strip_zeros (to_be_bytes 24 (bh_blue_work h)))) @
     strip_zeros (to_be_bytes 24 (bh_blue_work h)) @ bh_pruning_point h"
  have "?fore h @ ?rear h = ?fore h' @ ?rear h'" using assms(3) by (simp add: fixed_fields_def Let_def)
  moreover have "length (?fore h) = length (?fore h')" using ok by simp
  ultimately have "?fore h = ?fore h'" and tail: "?rear h = ?rear h'" using same_length_append by blast+
  from this(1) have "bh_merkle_root h = bh_merkle_root h' \<and> bh_accepted_id_root h = bh_accepted_id_root h' \<and>
    bh_utxo_commitment h = bh_utxo_commitment h' \<and> to_le_bytes 4 (bh_bits h) = to_le_bytes 4 (bh_bits h') \<and>
    to_le_bytes 8 (bh_daa_score h) = to_le_bytes 8 (bh_daa_score h') \<and> to_le_bytes 8 (bh_blue_score h) = to_le_bytes 8 (bh_blue_score h')"
    using ok by simp
  moreover have "bh_blue_work h = bh_blue_work h' \<and> bh_pruning_point h = bh_pruning_point h'"
    using ok by (intro blue_work_prefix[OF tail]) auto
  ultimately show ?thesis using ok by (simp add: to_le_bytes_inject byte_widths)
qed

text \<open>
  C28. The text a miner works on commits to the whole block: the bytes hashed into the pre-PoW hash
  are the same for two headers exactly when the headers agree in every field but timestamp and
  nonce, the two a miner varies.
\<close>

theorem header_preimage_inject:
  assumes "header_ok h" and "header_ok h'"
  shows "header_preimage h = header_preimage h' \<longleftrightarrow> h' = h\<lparr>bh_timestamp := bh_timestamp h', bh_nonce := bh_nonce h'\<rparr>"
proof
  assume eq: "header_preimage h = header_preimage h'"
  note ok = assms[unfolded header_ok_def]
  from le_bytes_prefix[OF eq[unfolded header_preimage_def]] ok have v: "bh_version h = bh_version h'"
    and "to_le_bytes 8 (length (bh_parents h)) @ concat (map level_bytes (bh_parents h)) @ fixed_fields h =
      to_le_bytes 8 (length (bh_parents h')) @ concat (map level_bytes (bh_parents h')) @ fixed_fields h'"
    by (auto simp: byte_widths)
  from le_bytes_prefix[OF this(2)] ok have p: "length (bh_parents h) = length (bh_parents h')"
    and rest: "concat (map level_bytes (bh_parents h)) @ fixed_fields h = concat (map level_bytes (bh_parents h')) @ fixed_fields h'"
    by (auto simp: byte_widths)
  have "bh_parents h = bh_parents h'" "fixed_fields h = fixed_fields h'"
    using levels_prefix[OF p _ _ rest] ok by blast+
  then show "h' = h\<lparr>bh_timestamp := bh_timestamp h', bh_nonce := bh_nonce h'\<rparr>"
    using fixed_fields_inject[OF assms] v by (cases h; cases h') simp
next
  assume "h' = h\<lparr>bh_timestamp := bh_timestamp h', bh_nonce := bh_nonce h'\<rparr>"
  then obtain t n where "h' = h\<lparr>bh_timestamp := t, bh_nonce := n\<rparr>" by blast
  then show "header_preimage h = header_preimage h'" by (simp add: header_preimage_def fixed_fields_def)
qed

definition sample_header :: block_header where
  "sample_header = \<lparr>bh_version = 1, bh_parents = [[replicate 32 1], []], bh_merkle_root = replicate 32 2, bh_accepted_id_root = replicate 32 3,
     bh_utxo_commitment = replicate 32 4, bh_timestamp = 5, bh_bits = 0x1d00ffff, bh_nonce = 0, bh_daa_score = 7, bh_blue_score = 8,
     bh_blue_work = 9, bh_pruning_point = replicate 32 10\<rparr>"

theorem header_preimage_inject_witness:
  "header_ok sample_header \<and> header_ok (sample_header\<lparr>bh_daa_score := 6\<rparr>) \<and>
   header_preimage sample_header \<noteq> header_preimage (sample_header\<lparr>bh_daa_score := 6\<rparr>)"
proof -
  have "header_ok sample_header" "header_ok (sample_header\<lparr>bh_daa_score := 6\<rparr>)"
    by (simp_all add: header_ok_def sample_header_def)
  with header_preimage_inject[of sample_header "sample_header\<lparr>bh_daa_score := 6\<rparr>"] show ?thesis
    by (simp add: sample_header_def)
qed

section \<open>Targets\<close>

lemma f64_mul_pos_mono:
  assumes "f64_le (Fin 0) d" and "f64_le d e" and "0 < c"
  shows "f64_le (f64_mul d (Fin c)) (f64_mul e (Fin c))"
proof (cases d; cases e)
  fix x y assume "d = Fin x" "e = Fin y"
  then show ?thesis using assms by (simp add: f64_round_mono mult_right_mono)
next
  fix x assume "d = Fin x" "e = PInf"
  then show ?thesis using assms(3) by (simp add: f64_sign_def f64_round_cut)
qed (use assms in \<open>auto simp: f64_sign_def\<close>)

lemma f64_as_u128_mono: "f64_le v w \<Longrightarrow> f64_as_u128 v \<le> f64_as_u128 w"
proof (cases v; cases w)
  fix x y assume "v = Fin x" "w = Fin y" "f64_le v w"
  moreover have "trunc_rat x \<le> trunc_rat y" if "x \<le> y"
    using that floor_mono[of x y] ceiling_mono[of y x] by (auto simp: trunc_rat_def) (meson floor_less_iff le_less_linear less_ceiling_iff linorder_not_less not_less_iff_gr_or_eq of_int_0 order.trans zero_le_floor)+
  ultimately show ?thesis by (auto intro!: nat_mono)
qed auto

text \<open>
  C27. A higher difficulty never gives an easier target.  From the difficulty \<open>2 ^ -59\<close> on (the pool
  assigns at least 64) the target is defined, it decreases with the difficulty, and from
  difficulty one on it is at most the largest target.
\<close>

theorem diff_to_target_antitone:
  assumes "f64_le (Fin (1 / 2 ^ 59)) d" and "f64_le d e"
  shows "\<exists>t u. diff_to_target_standard d = Some t \<and> diff_to_target_standard e = Some u \<and> u \<le> t \<and>
    (f64_le (Fin 1) d \<longrightarrow> t \<le> MAX_TARGET)"
proof -
  let ?s = "\<lambda>v. f64_as_u128 (f64_mul v (Fin (10 ^ 18)))"
  have pos: "f64_le (Fin 0) d" "\<not> f64_le d (Fin 0)" using assms(1) by (cases d; simp)+
  then have pos': "f64_le (Fin 0) e" "\<not> f64_le e (Fin 0)" using assms(2) by (cases d; cases e; simp)+
  have le: "?s d \<le> ?s e" by (intro f64_as_u128_mono f64_mul_pos_mono pos assms) simp
  have ge: "?s (Fin r) \<le> ?s d" if "f64_le (Fin r) d" "0 \<le> r" for r
    using that by (intro f64_as_u128_mono f64_mul_pos_mono) simp_all
  obtain r where "f64_round (10 ^ 18 / 2 ^ 59) = Fin r" "1 \<le> r"
    using f64_round_finite[OF is_float_int[of 1] is_float_int[of 2], of "10 ^ 18 / 2 ^ 59"] by auto
  then have one: "1 \<le> ?s (Fin (1 / 2 ^ 59))"
    by (simp add: trunc_rat_def le_nat_iff)
  have "?s (Fin 1) = 10 ^ 18"
  proof -
    have "f64_round (10 ^ 18) = Fin (10 ^ 18)"
      using is_float_scaled[of "5 ^ 18" 18] by (simp add: is_float_def)
    then show ?thesis by (simp add: trunc_rat_def)
  qed
  then have "10 ^ 18 \<le> ?s d" if "f64_le (Fin 1) d" using ge[OF that] by simp
  then have small: "MAX_TARGET * 10 ^ 18 div ?s d \<le> MAX_TARGET" if "f64_le (Fin 1) d"
    using that by (metis div_le_mono2 div_mult_self_is_m zero_less_numeral zero_less_power)
  have s: "0 < ?s d" using one ge[OF assms(1)] by simp
  then have "diff_to_target_standard d = Some (MAX_TARGET * 10 ^ 18 div ?s d)"
    "diff_to_target_standard e = Some (MAX_TARGET * 10 ^ 18 div ?s e)"
    using le pos pos' by (simp_all add: diff_to_target_standard_def big_div_def)
  then show ?thesis using div_le_mono2[OF s le] small by blast
qed

theorem diff_to_target_antitone_witness:
  "\<exists>t u. diff_to_target_standard (Fin 64) = Some t \<and> diff_to_target_standard (Fin 8192) = Some u \<and> u \<le> t \<and> t \<le> MAX_TARGET"
  using diff_to_target_antitone[of "Fin 64" "Fin 8192"] by auto

text \<open>Compact bits are a three-byte mantissa scaled by a power of 256, rounded down.\<close>

theorem calculate_target_value:
  "int (calculate_target bits) = \<lfloor>of_nat (bits mod 2 ^ 24) * (256::rat) powi (int (bits div 2 ^ 24) - 3)\<rfloor>"
proof -
  define e where "e = bits div 2 ^ 24"
  define m where "m = bits mod 2 ^ 24"
  have ct: "calculate_target bits = (if e \<le> 3 then m div 2 ^ (8 * (3 - e)) else m * 2 ^ (8 * (e - 3)))"
    by (simp only: calculate_target_def Let_def e_def m_def)
  have "int (calculate_target bits) = \<lfloor>of_nat m * (256::rat) powi (int e - 3)\<rfloor>"
  proof (cases "e \<le> 3")
    case True
    have "of_nat m * (256::rat) powi (int e - 3) = of_nat m / of_nat (256 ^ (3 - e))"
      using True by (simp add: power_int_diff field_simps power_int_def nat_diff_distrib flip: power_add)
    moreover have "(256::nat) ^ (3 - e) = 2 ^ (8 * (3 - e))" by (simp add: power_mult)
    ultimately show ?thesis using True by (simp only: ct if_True floor_divide_of_nat_eq)
  next
    case False
    then have "of_nat m * (256::rat) powi (int e - 3) = of_nat (m * 256 ^ (e - 3))"
      by (simp add: power_int_def nat_diff_distrib)
    moreover have "(256::nat) ^ (e - 3) = 2 ^ (8 * (e - 3))" by (simp add: power_mult)
    ultimately show ?thesis using False by (simp only: ct if_False floor_of_nat)
  qed
  then show ?thesis by (simp add: e_def m_def)
qed

end
