(* ===== verification/Mining_Jobs.thy ===== *)
theory Mining_Jobs
  imports Share_Target
begin

text \<open>
  The jobs of a miner's connection (\<open>bridge/src/mining_state.rs\<close>): a ring of 300 slots, each with the
  job, its id and the difficulty that was in force when it was published.

  What share validation relies on is stated as a locale, \<open>job_store\<close>: a store that answers like the
  history of all jobs ever published, of which the last \<open>cap\<close> are visible.  The ring is shown to be
  one, so a miner's job id never names another job than the one it was given for.
\<close>

section \<open>The model\<close>

definition MAX_JOBS :: nat where "MAX_JOBS = 300"

record 'b job =
  job_block :: 'b
  job_pre_pow_hash :: bytes

text \<open>
  The maps are hash maps from slots; the counter is a \<open>u64\<close> whose overflow panics.  The time of the
  connection and the header of the previous job are only logged.
\<close>

record 'b mining_state =
  ms_jobs :: "nat \<rightharpoonup> 'b job"
  ms_job_ids :: "nat \<rightharpoonup> nat"
  ms_job_diffs :: "nat \<rightharpoonup> kaspa_diff"
  ms_job_counter :: nat
  ms_big_diff :: nat
  ms_initialized :: bool
  ms_use_big_job :: bool
  ms_stratum_diff :: "kaspa_diff option"

definition MiningState_new :: "'b mining_state" where
  "MiningState_new = \<lparr>ms_jobs = Map.empty, ms_job_ids = Map.empty, ms_job_diffs = Map.empty, ms_job_counter = 0,
     ms_big_diff = 0, ms_initialized = False, ms_use_big_job = False, ms_stratum_diff = None\<rparr>"

definition add_job :: "'b job \<Rightarrow> 'b mining_state \<Rightarrow> (nat \<times> 'b mining_state) option" where
  "add_job job s =
     (if u64_max \<le> ms_job_counter s then None
      else let idx = ms_job_counter s + 1; slot = idx mod MAX_JOBS
        in Some (idx, s\<lparr>ms_job_counter := idx, ms_jobs := (ms_jobs s)(slot \<mapsto> job), ms_job_ids := (ms_job_ids s)(slot \<mapsto> idx),
             ms_job_diffs := (ms_job_diffs s)(slot := ms_stratum_diff s)\<rparr>))"

definition get_job :: "nat \<Rightarrow> 'b mining_state \<Rightarrow> 'b job option" where
  "get_job i s =
     (let slot = i mod MAX_JOBS
      in if ms_job_ids s slot \<noteq> Some i then None else ms_jobs s slot)"

definition get_job_id_at_slot :: "nat \<Rightarrow> 'b mining_state \<Rightarrow> nat option" where
  "get_job_id_at_slot slot s = ms_job_ids s (slot mod MAX_JOBS)"

definition set_big_diff :: "nat \<Rightarrow> 'b mining_state \<Rightarrow> 'b mining_state" where
  "set_big_diff d s = s\<lparr>ms_big_diff := d\<rparr>"

definition set_initialized :: "bool \<Rightarrow> 'b mining_state \<Rightarrow> 'b mining_state" where
  "set_initialized b s = s\<lparr>ms_initialized := b\<rparr>"

definition set_use_big_job :: "bool \<Rightarrow> 'b mining_state \<Rightarrow> 'b mining_state" where
  "set_use_big_job b s = s\<lparr>ms_use_big_job := b\<rparr>"

definition set_stratum_diff :: "kaspa_diff \<Rightarrow> 'b mining_state \<Rightarrow> 'b mining_state" where
  "set_stratum_diff d s = s\<lparr>ms_stratum_diff := Some d\<rparr>"

text \<open>The stored ids, in the order of their slots; the hash map gives them in any order, and only their maximum is used.\<close>

definition get_stored_job_ids :: "'b mining_state \<Rightarrow> nat list" where
  "get_stored_job_ids s = List.map_filter (ms_job_ids s) [0..<MAX_JOBS]"

definition max_of :: "nat list \<Rightarrow> nat option" where
  "max_of xs = (if xs = [] then None else Some (Max (set xs)))"

definition latest_job :: "'b mining_state \<Rightarrow> (nat \<times> 'b job) option" where
  "latest_job s =
     (case max_of (get_stored_job_ids s) of None \<Rightarrow> None
      | Some i \<Rightarrow> map_option (\<lambda>job. (i, job)) (get_job i s))"

definition get_job_diff :: "nat \<Rightarrow> 'b mining_state \<Rightarrow> kaspa_diff option" where
  "get_job_diff i s =
     (let slot = i mod MAX_JOBS
      in if ms_job_ids s slot \<noteq> Some i then None else ms_job_diffs s slot)"

section \<open>The history of a connection\<close>

text \<open>The last \<open>cap\<close> entries of a history, by their one-based position.\<close>

definition visible :: "nat \<Rightarrow> 'e list \<Rightarrow> nat \<Rightarrow> bool" where
  "visible cap h i \<longleftrightarrow> 0 < i \<and> i \<le> length h \<and> length h < i + cap"

definition window_at :: "nat \<Rightarrow> 'e list \<Rightarrow> nat \<Rightarrow> 'e option" where
  "window_at cap h i = (if visible cap h i then Some (h ! (i - 1)) else None)"

lemma window_at_new: "0 < cap \<Longrightarrow> window_at cap (h @ [e]) (Suc (length h)) = Some e"
  by (simp add: window_at_def visible_def)

lemma window_at_append: "visible cap (h @ [e]) i \<Longrightarrow> i \<le> length h \<Longrightarrow> window_at cap (h @ [e]) i = window_at cap h i"
  by (auto simp: window_at_def visible_def nth_append)

locale job_store =
  fixes rel :: "'e list \<Rightarrow> 's \<Rightarrow> bool"
    and add :: "'j \<Rightarrow> 's \<Rightarrow> (nat \<times> 's) option"
    and get :: "nat \<Rightarrow> 's \<Rightarrow> 'j option"
    and entry :: "'j \<Rightarrow> 's \<Rightarrow> 'e"
    and job_of :: "'e \<Rightarrow> 'j"
    and newest :: "'s \<Rightarrow> (nat \<times> 'j) option"
    and cap :: nat
  assumes rel_add: "rel h s \<Longrightarrow> add j s = Some (i, t) \<Longrightarrow> i = Suc (length h) \<and> rel (h @ [entry j s]) t"
    and rel_get: "rel h s \<Longrightarrow> get i s = map_option job_of (window_at cap h i)"
    and rel_newest: "rel h s \<Longrightarrow> newest s = (if h = [] then None else Some (length h, job_of (last h)))"
    and job_entry: "job_of (entry j s) = j"
    and cap_pos: "0 < cap"
begin

text \<open>A published job is found under its id at once.\<close>

lemma get_added: "rel h s \<Longrightarrow> add j s = Some (i, t) \<Longrightarrow> get i t = Some j"
  using rel_add[of h s j i t] rel_get[of "h @ [entry j s]" t i] window_at_new[OF cap_pos, of h "entry j s"]
  by (auto simp: job_entry)

text \<open>Publishing changes no other answer, except that the oldest job may expire.\<close>

lemma get_other:
  assumes "rel h s" and "add j s = Some (i, t)" and "k \<noteq> i"
  shows "get k t = get k s \<or> get k t = None"
proof -
  from rel_add[OF assms(1,2)] have i: "i = Suc (length h)" and r: "rel (h @ [entry j s]) t" by auto
  show ?thesis
  proof (cases "visible cap (h @ [entry j s]) k")
    case True
    then have "k \<le> length h" using assms(3) i by (auto simp: visible_def)
    then show ?thesis using window_at_append[OF True] by (simp add: rel_get[OF r] rel_get[OF assms(1)])
  qed (simp add: rel_get[OF r] window_at_def)
qed

text \<open>An id given out names one job for ever.\<close>

lemma get_stable: "rel h s \<Longrightarrow> rel (h @ h') t \<Longrightarrow> get k s = Some j \<Longrightarrow> get k t = Some j' \<Longrightarrow> j = j'"
  by (auto simp: rel_get window_at_def visible_def nth_append split: if_splits)

lemma newest_found: "rel h s \<Longrightarrow> newest s = Some (i, j) \<Longrightarrow> get i s = Some j"
  using cap_pos by (auto simp: rel_newest rel_get window_at_def visible_def last_conv_nth split: if_splits)

end

section \<open>The ring is a job store\<close>

text \<open>The slot of an id holds the last id of its residue class.\<close>

definition ring_rel :: "('b job \<times> kaspa_diff option) list \<Rightarrow> 'b mining_state \<Rightarrow> bool" where
  "ring_rel h s \<longleftrightarrow> ms_job_counter s = length h \<and>
     (\<forall>slot. \<not> slot < MAX_JOBS \<longrightarrow> ms_job_ids s slot = None) \<and>
     (\<forall>slot i. ms_job_ids s slot = Some i \<longrightarrow> visible MAX_JOBS h i \<and> i mod MAX_JOBS = slot) \<and>
     (\<forall>i. visible MAX_JOBS h i \<longrightarrow> ms_job_ids s (i mod MAX_JOBS) = Some i \<and>
        ms_jobs s (i mod MAX_JOBS) = Some (fst (h ! (i - 1))) \<and> ms_job_diffs s (i mod MAX_JOBS) = snd (h ! (i - 1)))"

lemma ring_rel_new: "ring_rel [] MiningState_new"
  unfolding ring_rel_def MiningState_new_def visible_def by auto

lemma ring_relD:
  assumes "ring_rel h s"
  shows "ms_job_counter s = length h" and "\<not> slot < MAX_JOBS \<Longrightarrow> ms_job_ids s slot = None"
    and "ms_job_ids s slot = Some i \<Longrightarrow> visible MAX_JOBS h i \<and> i mod MAX_JOBS = slot"
    and "visible MAX_JOBS h i \<Longrightarrow> ms_job_ids s (i mod MAX_JOBS) = Some i \<and>
        ms_jobs s (i mod MAX_JOBS) = Some (fst (h ! (i - 1))) \<and> ms_job_diffs s (i mod MAX_JOBS) = snd (h ! (i - 1))"
  using assms unfolding ring_rel_def by blast+

text \<open>Within a window of \<open>n\<close>, ids share a slot only when they are \<open>n\<close> apart.\<close>

lemma mod_near:
  fixes a b n :: nat
  assumes "a < b" and "b \<le> a + n"
  shows "a mod n = b mod n \<longleftrightarrow> b = a + n"
proof -
  have "b mod n = a mod n \<longleftrightarrow> n dvd b - a" using assms by (intro mod_eq_dvd_iff_nat) simp
  also have "\<dots> \<longleftrightarrow> b - a = n" using assms dvd_imp_le[of n "b - a"] by auto
  finally show ?thesis using assms by auto
qed

lemma visible_new: "visible MAX_JOBS (h @ [e]) i \<longleftrightarrow> i = Suc (length h) \<or> (visible MAX_JOBS h i \<and> length h + 1 < i + MAX_JOBS)"
  by (auto simp: visible_def MAX_JOBS_def)

text \<open>The slot of the new id is the one of the job that expires.\<close>

lemma new_slot:
  assumes "visible MAX_JOBS h i"
  shows "i mod MAX_JOBS = Suc (length h) mod MAX_JOBS \<longleftrightarrow> length h + 1 = i + MAX_JOBS"
  using assms mod_near[of i "Suc (length h)" MAX_JOBS] by (auto simp: visible_def)

lemma ring_rel_add:
  assumes rel: "ring_rel h s" and add: "add_job job s = Some (i, t)"
  shows "i = Suc (length h) \<and> ring_rel (h @ [(job, ms_stratum_diff s)]) t"
proof -
  let ?n = "Suc (length h)" and ?h = "h @ [(job, ms_stratum_diff s)]"
  let ?slot = "?n mod MAX_JOBS"
  have n: "ms_job_counter s = length h" by (rule ring_relD[OF rel])
  then have i: "i = ?n" and t: "ms_job_counter t = ?n" "ms_jobs t = (ms_jobs s)(?slot \<mapsto> job)"
    "ms_job_ids t = (ms_job_ids s)(?slot \<mapsto> ?n)" "ms_job_diffs t = (ms_job_diffs s)(?slot := ms_stratum_diff s)"
    using add by (auto simp: add_job_def Let_def split: if_splits)
  have slot: "?slot < MAX_JOBS" by (simp add: MAX_JOBS_def)
  have ids: "visible MAX_JOBS ?h k \<and> k mod MAX_JOBS = sl" if "ms_job_ids t sl = Some k" for sl k
  proof (cases "sl = ?slot")
    case True
    then show ?thesis using that by (simp add: t visible_new)
  next
    case False
    then have "ms_job_ids s sl = Some k" using that by (simp add: t)
    then have k: "visible MAX_JOBS h k" "k mod MAX_JOBS = sl" using ring_relD(3)[OF rel] by blast+
    then have "length h + 1 \<noteq> k + MAX_JOBS" using new_slot[OF k(1)] False by auto
    then show ?thesis using k by (auto simp: visible_new visible_def)
  qed
  have found: "ms_job_ids t (k mod MAX_JOBS) = Some k \<and> ms_jobs t (k mod MAX_JOBS) = Some (fst (?h ! (k - 1))) \<and>
      ms_job_diffs t (k mod MAX_JOBS) = snd (?h ! (k - 1))" if "visible MAX_JOBS ?h k" for k
  proof (cases "k = ?n")
    case True
    then show ?thesis by (simp add: t)
  next
    case False
    then have k: "visible MAX_JOBS h k" "length h + 1 < k + MAX_JOBS" using that by (auto simp: visible_new)
    then have "k mod MAX_JOBS \<noteq> ?slot" using new_slot[OF k(1)] by simp
    moreover have "k - 1 < length h" using k by (auto simp: visible_def)
    ultimately show ?thesis using ring_relD(4)[OF rel k(1)] by (simp add: t nth_append)
  qed
  have "ms_job_ids t sl = None" if "\<not> sl < MAX_JOBS" for sl
    using that slot ring_relD(2)[OF rel that] by (auto simp: t)
  then have "ring_rel ?h t" unfolding ring_rel_def using ids found t(1) by simp
  then show ?thesis using i by simp
qed

lemma ring_rel_get:
  assumes "ring_rel h s"
  shows "get_job i s = map_option fst (window_at MAX_JOBS h i)" and "get_job_diff i s = Option.bind (window_at MAX_JOBS h i) snd"
proof -
  have "ms_job_ids s (i mod MAX_JOBS) = Some i \<longleftrightarrow> visible MAX_JOBS h i" using ring_relD(3,4)[OF assms] by blast
  then show "get_job i s = map_option fst (window_at MAX_JOBS h i)" "get_job_diff i s = Option.bind (window_at MAX_JOBS h i) snd"
    using ring_relD(4)[OF assms, of i] by (simp_all add: get_job_def get_job_diff_def window_at_def Let_def)
qed

lemma stored_ids:
  assumes "ring_rel h s"
  shows "set (get_stored_job_ids s) = {i. visible MAX_JOBS h i}"
proof -
  have "i \<in> set (get_stored_job_ids s) \<longleftrightarrow> (\<exists>slot < MAX_JOBS. ms_job_ids s slot = Some i)" for i
    by (auto simp: get_stored_job_ids_def List.map_filter_def image_iff)
  moreover have "i mod MAX_JOBS < MAX_JOBS" for i by (simp add: MAX_JOBS_def)
  ultimately show ?thesis using ring_relD(3,4)[OF assms] by blast
qed

lemma ring_rel_newest:
  assumes "ring_rel h s"
  shows "latest_job s = (if h = [] then None else Some (length h, fst (last h)))"
proof (cases "h = []")
  case True
  then have "set (get_stored_job_ids s) = {}" using stored_ids[OF assms] by (auto simp: visible_def)
  then show ?thesis using True by (simp add: latest_job_def max_of_def)
next
  case False
  then have v: "visible MAX_JOBS h (length h)" by (simp add: visible_def MAX_JOBS_def)
  have fin: "finite {i. visible MAX_JOBS h i}" by (rule finite_subset[of _ "{..length h}"]) (auto simp: visible_def)
  have "Max {i. visible MAX_JOBS h i} = length h" using v by (intro Max_eqI fin) (auto simp: visible_def)
  moreover have "get_stored_job_ids s \<noteq> []" using v stored_ids[OF assms] by auto
  ultimately show ?thesis
    using False v by (simp add: latest_job_def max_of_def stored_ids[OF assms] ring_rel_get[OF assms] window_at_def last_conv_nth)
qed

interpretation ring: job_store ring_rel add_job get_job "\<lambda>job s. (job, ms_stratum_diff s)" fst latest_job MAX_JOBS
proof unfold_locales
  show "0 < MAX_JOBS" by (simp add: MAX_JOBS_def)
qed (simp_all add: ring_rel_add ring_rel_get ring_rel_newest)

section \<open>Connections\<close>

text \<open>The operations of a connection, run on the ring and on the history.\<close>

datatype 'b job_op = Publish "'b job" | SetDiff kaspa_diff | SetInit bool | SetBigJob bool | SetBigDiff nat

fun ring_step :: "'b job_op \<Rightarrow> 'b mining_state \<Rightarrow> 'b mining_state option" where
  "ring_step (Publish j) s = map_option snd (add_job j s)"
| "ring_step (SetDiff d) s = Some (set_stratum_diff d s)"
| "ring_step (SetInit b) s = Some (set_initialized b s)"
| "ring_step (SetBigJob b) s = Some (set_use_big_job b s)"
| "ring_step (SetBigDiff d) s = Some (set_big_diff d s)"

fun ring_run :: "'b job_op list \<Rightarrow> 'b mining_state \<Rightarrow> 'b mining_state option" where
  "ring_run [] s = Some s"
| "ring_run (x # xs) s = (case ring_step x s of None \<Rightarrow> None | Some t \<Rightarrow> ring_run xs t)"

fun history :: "'b job_op list \<Rightarrow> kaspa_diff option \<Rightarrow> ('b job \<times> kaspa_diff option) list" where
  "history [] d = []"
| "history (Publish j # xs) d = (j, d) # history xs d"
| "history (SetDiff e # xs) d = history xs (Some e)"
| "history (_ # xs) d = history xs d"

lemma ring_rel_settings:
  "ring_rel h s \<Longrightarrow> ms_job_counter t = ms_job_counter s \<Longrightarrow> ms_jobs t = ms_jobs s \<Longrightarrow> ms_job_ids t = ms_job_ids s \<Longrightarrow>
   ms_job_diffs t = ms_job_diffs s \<Longrightarrow> ring_rel h t"
  unfolding ring_rel_def by simp

lemma ring_run_rel: "ring_rel h s \<Longrightarrow> ring_run xs s = Some t \<Longrightarrow> ring_rel (h @ history xs (ms_stratum_diff s)) t"
proof (induction xs arbitrary: h s)
  case (Cons x xs)
  from Cons.prems(2) obtain u where u: "ring_step x s = Some u" "ring_run xs u = Some t" by (auto split: option.splits)
  show ?case
  proof (cases x)
    case (Publish j)
    then obtain i where i: "add_job j s = Some (i, u)" using u(1) by auto
    then have "ms_stratum_diff u = ms_stratum_diff s" by (auto simp: add_job_def Let_def split: if_splits)
    then show ?thesis using Cons.IH[OF _ u(2)] ring_rel_add[OF Cons.prems(1) i] Publish by force
  qed (use Cons.IH[OF ring_rel_settings u(2)] u(1) Cons.prems(1) in \<open>auto simp: set_stratum_diff_def set_initialized_def
      set_use_big_job_def set_big_diff_def\<close>)
qed simp

text \<open>
  C24. The job ring refines the history of the connection.  After any sequence of published jobs and
  setting changes, a job id is answered with the job published under it and with the difficulty
  in force at that moment as long as it is among the last 300, and with nothing otherwise; an
  expired id never reaches the job that took over its slot, and the latest job is the last one
  published.
\<close>

theorem job_ring_refines_history:
  assumes "ring_run xs MiningState_new = Some s"
  defines "h \<equiv> history xs None"
  shows "get_job i s = (if 0 < i \<and> i \<le> length h \<and> length h < i + 300 then Some (fst (h ! (i - 1))) else None) \<and>
    get_job_diff i s = (if 0 < i \<and> i \<le> length h \<and> length h < i + 300 then snd (h ! (i - 1)) else None) \<and>
    latest_job s = (if h = [] then None else Some (length h, fst (last h)))"
proof -
  have "ring_rel h s" using ring_run_rel[OF ring_rel_new assms(1)] by (simp add: h_def MiningState_new_def)
  then show ?thesis
    by (simp add: ring_rel_get ring_rel_newest window_at_def visible_def MAX_JOBS_def)
qed

theorem job_ring_refines_history_witness:
  "\<exists>s. ring_run [Publish \<lparr>job_block = (), job_pre_pow_hash = [1]\<rparr>, SetDiff KaspaDiff_new, Publish \<lparr>job_block = (), job_pre_pow_hash = [2]\<rparr>]
       MiningState_new = Some s \<and>
     get_job 2 s = Some \<lparr>job_block = (), job_pre_pow_hash = [2]\<rparr> \<and> get_job_diff 1 s = None \<and> get_job 302 s = None"
proof -
  let ?xs = "[Publish \<lparr>job_block = (), job_pre_pow_hash = [1]\<rparr>, SetDiff KaspaDiff_new, Publish \<lparr>job_block = (), job_pre_pow_hash = [2]\<rparr>]"
  obtain s where s: "ring_run ?xs MiningState_new = Some s"
    by (simp add: add_job_def MiningState_new_def Let_def set_stratum_diff_def)
  then show ?thesis using job_ring_refines_history[OF s, of 2] job_ring_refines_history[OF s, of 1]
      job_ring_refines_history[OF s, of 302] by simp
qed

end
