(* ===== verification/Bridge_Guards.thy ===== *)
theory Bridge_Guards
  imports Prelude "HOL-Library.AList"
begin

text \<open>
  The two memories the stratum bridge uses to recognise what it has already seen: the guard of
  submitted shares (\<open>bridge/src/share_handler.rs\<close>, \<open>DuplicateSubmitGuard\<close>) and the guard of
  submitted blocks (\<open>bridge/src/kaspaapi.rs\<close>, \<open>BlockSubmitGuard\<close>).  Both are a hash map with a queue
  of its keys in order of insertion; entries leave after a time to live, or when the map outgrows
  its bound.

  The hash map is an association list with distinct keys, so that its size can be computed.
  Instants are nanoseconds of a monotonic clock; a difference of instants saturates at zero.

  What the clients rely on is the locale \<open>first_sight\<close>: within the time to live, and as long as no
  more than the bound of newer keys come in, a key is reported as new only once.  Both guards are
  interpretations.
\<close>

section \<open>The model\<close>

record 'v guard =
  gd_ttl :: nat
  gd_max_entries :: nat
  gd_entries :: "(string \<times> 'v) list"
  gd_order :: "string list"

definition guard_new :: "nat \<Rightarrow> nat \<Rightarrow> 'v guard" where
  "guard_new ttl max_entries = \<lparr>gd_ttl = ttl, gd_max_entries = max_entries, gd_entries = [], gd_order = []\<rparr>"

text \<open>The first loop of \<open>prune\<close>: drop expired entries from the front, and keys without an entry.\<close>

fun prune_expired :: "('v \<Rightarrow> nat) \<Rightarrow> nat \<Rightarrow> nat \<Rightarrow> (string \<times> 'v) list \<Rightarrow> string list \<Rightarrow> (string \<times> 'v) list \<times> string list" where
  "prune_expired ts ttl now es [] = (es, [])"
| "prune_expired ts ttl now es (front # ks) =
     (if (case map_of es front of Some e \<Rightarrow> ttl < now - ts e | None \<Rightarrow> True)
      then prune_expired ts ttl now (AList.delete front es) ks else (es, front # ks))"

text \<open>The second loop: drop from the front while there are too many entries.\<close>

fun prune_excess :: "nat \<Rightarrow> (string \<times> 'v) list \<Rightarrow> string list \<Rightarrow> (string \<times> 'v) list \<times> string list" where
  "prune_excess max_entries es [] = (es, [])"
| "prune_excess max_entries es (key # ks) =
     (if max_entries < length es then prune_excess max_entries (AList.delete key es) ks else (es, key # ks))"

definition guard_prune :: "('v \<Rightarrow> nat) \<Rightarrow> nat \<Rightarrow> 'v guard \<Rightarrow> 'v guard" where
  "guard_prune ts now g =
     (let (es, order) = prune_expired ts (gd_ttl g) now (gd_entries g) (gd_order g);
          (es', order') = prune_excess (gd_max_entries g) es order
      in g\<lparr>gd_entries := es', gd_order := order'\<rparr>)"

subsection \<open>Submitted shares\<close>

datatype submit_outcome = InFlight | Accepted | Stale | LowDiff | Bad

record submit_entry =
  se_ts :: nat
  se_outcome :: submit_outcome

definition submit_guard_get :: "string \<Rightarrow> nat \<Rightarrow> submit_entry guard \<Rightarrow> submit_outcome option \<times> submit_entry guard" where
  "submit_guard_get key now g =
     (let g' = guard_prune se_ts now g in (map_option se_outcome (map_of (gd_entries g') key), g'))"

definition insert_inflight :: "string \<Rightarrow> nat \<Rightarrow> submit_entry guard \<Rightarrow> submit_entry guard" where
  "insert_inflight key now g =
     (let g' = guard_prune se_ts now g
      in if map_of (gd_entries g') key \<noteq> None then g'
         else g'\<lparr>gd_entries := AList.update key \<lparr>se_ts = now, se_outcome = InFlight\<rparr> (gd_entries g'),
                gd_order := gd_order g' @ [key]\<rparr>)"

definition set_outcome :: "string \<Rightarrow> nat \<Rightarrow> submit_outcome \<Rightarrow> submit_entry guard \<Rightarrow> submit_entry guard" where
  "set_outcome key now outcome g =
     (let g' = guard_prune se_ts now g
      in case map_of (gd_entries g') key of
           None \<Rightarrow> g'
         | Some e \<Rightarrow> g'\<lparr>gd_entries := AList.update key \<lparr>se_ts = now, se_outcome = outcome\<rparr> (gd_entries g')\<rparr>)"

text \<open>Looking a submission up and, when it is new, entering it, as \<open>handle_submit\<close> does under one lock.\<close>

definition submit_guard_check :: "string \<Rightarrow> nat \<Rightarrow> submit_entry guard \<Rightarrow> submit_outcome option \<times> submit_entry guard" where
  "submit_guard_check key now g =
     (let (found, g') = submit_guard_get key now g
      in case found of Some outcome \<Rightarrow> (Some outcome, g') | None \<Rightarrow> (None, insert_inflight key now g'))"

subsection \<open>Submitted blocks\<close>

definition try_mark :: "string \<Rightarrow> nat \<Rightarrow> nat guard \<Rightarrow> bool \<times> nat guard" where
  "try_mark hash now g =
     (let g' = guard_prune id now g
      in if map_of (gd_entries g') hash \<noteq> None then (False, g')
         else (True, g'\<lparr>gd_entries := AList.update hash now (gd_entries g'), gd_order := gd_order g' @ [hash]\<rparr>))"

definition block_guard_remove :: "string \<Rightarrow> nat \<Rightarrow> nat guard \<Rightarrow> nat guard" where
  "block_guard_remove hash now g =
     (let g' = guard_prune id now g in g'\<lparr>gd_entries := AList.delete hash (gd_entries g')\<rparr>)"

section \<open>The contract\<close>

text \<open>
  \<open>seen\<close> is the instant a key was last stamped, \<open>newer\<close> how many keys were entered after it.
\<close>

datatype ('k, 'u) guard_op = Mark 'k nat | Touch 'u 'k nat

fun op_time :: "('k, 'u) guard_op \<Rightarrow> nat" where
  "op_time (Mark k t) = t"
| "op_time (Touch r k t) = t"

fun run_ops ::
  "('k \<Rightarrow> nat \<Rightarrow> 's \<Rightarrow> bool \<times> 's) \<Rightarrow> ('k \<Rightarrow> nat \<Rightarrow> 'u \<Rightarrow> 's \<Rightarrow> 's) \<Rightarrow> ('k, 'u) guard_op list \<Rightarrow> 's \<Rightarrow> ('k \<times> bool) list \<times> 's"
where
  "run_ops mark touch [] s = ([], s)"
| "run_ops mark touch (Mark k t # ops) s =
     (let (b, s1) = mark k t s; (bs, s2) = run_ops mark touch ops s1 in ((k, b) # bs, s2))"
| "run_ops mark touch (Touch r k t # ops) s = run_ops mark touch ops (touch k t r s)"

locale first_sight =
  fixes inv :: "'s \<Rightarrow> bool"
    and mark :: "'k \<Rightarrow> nat \<Rightarrow> 's \<Rightarrow> bool \<times> 's"
    and touch :: "'k \<Rightarrow> nat \<Rightarrow> 'u \<Rightarrow> 's \<Rightarrow> 's"
    and seen :: "'k \<Rightarrow> 's \<Rightarrow> nat option"
    and newer :: "'k \<Rightarrow> 's \<Rightarrow> nat"
    and ttl :: "'s \<Rightarrow> nat"
    and cap :: "'s \<Rightarrow> nat"
  assumes mark_inv: "inv s \<Longrightarrow> inv (snd (mark k t s))"
    and mark_limits: "ttl (snd (mark k t s)) = ttl s" "cap (snd (mark k t s)) = cap s"
    and mark_fresh: "inv s \<Longrightarrow> fst (mark k t s) \<Longrightarrow> seen k (snd (mark k t s)) = Some t"
    and mark_known: "inv s \<Longrightarrow> seen k s = Some u \<Longrightarrow> t \<le> u + ttl s \<Longrightarrow> newer k s < cap s \<Longrightarrow> \<not> fst (mark k t s)"
    and mark_keeps: "inv s \<Longrightarrow> seen k s = Some u \<Longrightarrow> t \<le> u + ttl s \<Longrightarrow> newer k s < cap s \<Longrightarrow>
      seen k (snd (mark j t s)) = Some u \<and> newer k (snd (mark j t s)) \<le> Suc (newer k s)"
    and touch_inv: "inv s \<Longrightarrow> inv (touch k t r s)"
    and touch_limits: "ttl (touch k t r s) = ttl s" "cap (touch k t r s) = cap s"
    and touch_keeps: "inv s \<Longrightarrow> seen k s = Some u \<Longrightarrow> t \<le> u + ttl s \<Longrightarrow> newer k s < cap s \<Longrightarrow>
      seen k (touch j t r s) \<in> {Some u, Some t} \<and> newer k (touch j t r s) = newer k s"
begin

text \<open>
  A key seen at \<open>u\<close> stays seen: no operation up to \<open>u + ttl\<close> reports it as new, as long as the
  operations cannot bring in enough newer keys to push it out.
\<close>

lemma seen_once:
  assumes "inv s" and "seen k s = Some v" and "u \<le> v" and "\<forall>x \<in> set ops. op_time x \<le> u + ttl s" and "\<forall>x \<in> set ops. u \<le> op_time x"
    and "newer k s + length ops \<le> cap s"
  shows "(k, True) \<notin> set (fst (run_ops mark touch ops s))"
  using assms
proof (induction ops arbitrary: s v)
  case (Cons x ops)
  have room: "newer k s < cap s" and early: "op_time x \<le> v + ttl s" using Cons.prems by auto
  show ?case
  proof (cases x)
    case (Mark j t)
    let ?s = "snd (mark j t s)"
    have keep: "seen k ?s = Some v \<and> newer k ?s \<le> Suc (newer k s)"
      using mark_keeps[OF Cons.prems(1,2) _ room] early Mark by simp
    have "(k, True) \<notin> set (fst (run_ops mark touch ops ?s))"
      by (rule Cons.IH[of _ v]) (use Cons.prems keep mark_inv[OF Cons.prems(1)] in \<open>auto simp: mark_limits\<close>)
    moreover have "\<not> (j = k \<and> fst (mark j t s))" using mark_known[OF Cons.prems(1,2) _ room] early Mark by auto
    ultimately show ?thesis using Mark by (auto simp: split_beta Let_def)
  next
    case (Touch r j t)
    let ?s = "touch j t r s"
    have keep: "seen k ?s \<in> {Some v, Some t} \<and> newer k ?s = newer k s"
      using touch_keeps[OF Cons.prems(1,2) _ room] early Touch by simp
    then obtain w where w: "seen k ?s = Some w" "u \<le> w" using Cons.prems(3,5) Touch by auto
    have "(k, True) \<notin> set (fst (run_ops mark touch ops ?s))"
      by (rule Cons.IH[OF _ w]) (use Cons.prems keep touch_inv[OF Cons.prems(1)] in \<open>auto simp: touch_limits\<close>)
    then show ?thesis using Touch by simp
  qed
qed simp

end

section \<open>Pruning\<close>

definition entries_ok :: "(string \<times> 'v) list \<Rightarrow> string list \<Rightarrow> bool" where
  "entries_ok es ks \<longleftrightarrow> distinct (map fst es) \<and> set (map fst es) \<subseteq> set ks"

text \<open>The keys behind the first occurrence of a key.\<close>

definition behind :: "string \<Rightarrow> string list \<Rightarrow> nat" where
  "behind k ks = length (dropWhile (\<lambda>j. j \<noteq> k) ks) - 1"

lemma behind_Cons: "behind k (j # ks) = (if j = k then length ks else behind k ks)"
  by (simp add: behind_def)

lemma behind_append: "k \<in> set ks \<Longrightarrow> behind k (ks @ xs) = behind k ks + length xs"
  by (induction ks) (auto simp: behind_Cons)

lemma entries_ok_pop: "entries_ok es (k # ks) \<Longrightarrow> entries_ok (AList.delete k es) ks"
  by (auto simp: entries_ok_def delete_keys distinct_removeAll)

lemma map_of_delete: "map_of (AList.delete k es) = (map_of es)(k := None)"
  by (simp add: delete_conv')

lemma entries_length: "entries_ok es ks \<Longrightarrow> length es \<le> length ks"
  by (metis card_mono card_length distinct_card entries_ok_def finite_set le_trans length_map)

lemma prune_expired_ok: "entries_ok es ks \<Longrightarrow> prune_expired ts ttl now es ks = (es', ks') \<Longrightarrow> entries_ok es' ks'"
  by (induction ts ttl now es ks rule: prune_expired.induct) (auto dest: entries_ok_pop split: if_splits)

lemma prune_excess_ok:
  "entries_ok es ks \<Longrightarrow> prune_excess m es ks = (es', ks') \<Longrightarrow> entries_ok es' ks' \<and> length es' \<le> m"
proof (induction m es ks rule: prune_excess.induct)
  case (1 m es)
  then show ?case by (auto simp: entries_ok_def)
qed (auto dest: entries_ok_pop split: if_splits)

text \<open>Pruning forgets entries, it never changes or adds one, and the queue loses a prefix.\<close>

lemma prune_expired_sub:
  "prune_expired ts ttl now es ks = (es', ks') \<Longrightarrow> map_of es' \<subseteq>\<^sub>m map_of es \<and> (\<exists>xs. ks = xs @ ks')"
proof (induction ts ttl now es ks arbitrary: es' ks' rule: prune_expired.induct)
  case (2 ts ttl now es k ks)
  have "map_of (AList.delete k es) \<subseteq>\<^sub>m map_of es" by (simp add: map_of_delete map_le_def)
  then show ?case using 2 by (auto split: if_splits intro: map_le_trans)
qed auto

lemma prune_excess_sub:
  "prune_excess m es ks = (es', ks') \<Longrightarrow> map_of es' \<subseteq>\<^sub>m map_of es \<and> (\<exists>xs. ks = xs @ ks')"
proof (induction m es ks arbitrary: es' ks' rule: prune_excess.induct)
  case (2 m es k ks)
  have "map_of (AList.delete k es) \<subseteq>\<^sub>m map_of es" by (simp add: map_of_delete map_le_def)
  then show ?case using 2 by (auto split: if_splits intro: map_le_trans)
qed auto

text \<open>An entry that has not expired survives the first loop, and one with few newer keys the second.\<close>

lemma prune_expired_keeps:
  "prune_expired ts ttl now es ks = (es', ks') \<Longrightarrow> map_of es k = Some e \<Longrightarrow> now \<le> ts e + ttl \<Longrightarrow> k \<in> set ks \<Longrightarrow>
   map_of es' k = Some e \<and> k \<in> set ks' \<and> behind k ks' = behind k ks"
proof (induction ts ttl now es ks arbitrary: es' ks' rule: prune_expired.induct)
  case (2 ts ttl now es j ks)
  show ?case
  proof (cases "case map_of es j of Some e \<Rightarrow> ttl < now - ts e | None \<Rightarrow> True")
    case True
    then have "j \<noteq> k" using 2 by auto
    then show ?thesis using 2 True by (simp add: map_of_delete behind_Cons)
  qed (use 2 in auto)
qed simp

lemma prune_excess_keeps:
  "prune_excess m es ks = (es', ks') \<Longrightarrow> entries_ok es ks \<Longrightarrow> map_of es k = Some e \<Longrightarrow> behind k ks < m \<Longrightarrow>
   map_of es' k = Some e \<and> k \<in> set ks' \<and> behind k ks' = behind k ks"
proof (induction m es ks arbitrary: es' ks' rule: prune_excess.induct)
  case (1 m es)
  then show ?case by (auto simp: entries_ok_def)
next
  case (2 m es j ks)
  have k: "k \<in> set (j # ks)" using 2(3,4) by (auto simp: entries_ok_def dest: map_of_SomeD)
  show ?case
  proof (cases "m < length es")
    case True
    have "j \<noteq> k" using entries_length[OF 2(3)] True 2(5) by (auto simp: behind_Cons)
    then show ?thesis using 2 True entries_ok_pop[OF 2(3)] by (simp add: map_of_delete behind_Cons)
  qed (use 2 k in auto)
qed

definition guard_ok :: "'v guard \<Rightarrow> bool" where
  "guard_ok g \<longleftrightarrow> entries_ok (gd_entries g) (gd_order g)"

lemma guard_prune_limits [simp]: "gd_ttl (guard_prune ts now g) = gd_ttl g" "gd_max_entries (guard_prune ts now g) = gd_max_entries g"
  by (simp_all add: guard_prune_def Let_def split_beta)

lemma guard_prune_cases:
  obtains es ks where "prune_expired ts (gd_ttl g) now (gd_entries g) (gd_order g) = (es, ks)"
    and "prune_excess (gd_max_entries g) es ks = (gd_entries (guard_prune ts now g), gd_order (guard_prune ts now g))"
  by (cases "prune_expired ts (gd_ttl g) now (gd_entries g) (gd_order g)") (auto simp: guard_prune_def Let_def split_beta)

lemma guard_prune_ok:
  assumes "guard_ok g"
  shows "guard_ok (guard_prune ts now g) \<and> length (gd_entries (guard_prune ts now g)) \<le> gd_max_entries g"
proof (rule guard_prune_cases[of ts g now])
  fix es ks
  assume p: "prune_expired ts (gd_ttl g) now (gd_entries g) (gd_order g) = (es, ks)"
    "prune_excess (gd_max_entries g) es ks = (gd_entries (guard_prune ts now g), gd_order (guard_prune ts now g))"
  show ?thesis using prune_excess_ok[OF prune_expired_ok[OF _ p(1)] p(2)] assms by (simp add: guard_ok_def)
qed

lemma guard_prune_sub:
  "map_of (gd_entries (guard_prune ts now g)) \<subseteq>\<^sub>m map_of (gd_entries g) \<and> (\<exists>xs. gd_order g = xs @ gd_order (guard_prune ts now g))"
proof (rule guard_prune_cases[of ts g now])
  fix es ks
  assume p: "prune_expired ts (gd_ttl g) now (gd_entries g) (gd_order g) = (es, ks)"
    "prune_excess (gd_max_entries g) es ks = (gd_entries (guard_prune ts now g), gd_order (guard_prune ts now g))"
  show ?thesis using prune_expired_sub[OF p(1)] prune_excess_sub[OF p(2)] by (auto intro: map_le_trans)
qed

lemma guard_prune_keeps:
  assumes "guard_ok g" and "map_of (gd_entries g) k = Some e" and "now \<le> ts e + gd_ttl g" and "behind k (gd_order g) < gd_max_entries g"
  shows "map_of (gd_entries (guard_prune ts now g)) k = Some e \<and> k \<in> set (gd_order (guard_prune ts now g)) \<and>
    behind k (gd_order (guard_prune ts now g)) = behind k (gd_order g)"
proof (rule guard_prune_cases[of ts g now])
  fix es ks
  assume p: "prune_expired ts (gd_ttl g) now (gd_entries g) (gd_order g) = (es, ks)"
    "prune_excess (gd_max_entries g) es ks = (gd_entries (guard_prune ts now g), gd_order (guard_prune ts now g))"
  have "k \<in> set (gd_order g)" using assms(1,2) by (auto simp: guard_ok_def entries_ok_def dest: map_of_SomeD)
  then have "map_of es k = Some e \<and> k \<in> set ks \<and> behind k ks = behind k (gd_order g)"
    by (rule prune_expired_keeps[OF p(1) assms(2,3)])
  then show ?thesis
    using prune_excess_keeps[OF p(2), of k e] prune_expired_ok[OF assms(1)[unfolded guard_ok_def] p(1)] assms(4) by simp
qed

lemma entries_ok_insert: "entries_ok es ks \<Longrightarrow> entries_ok (AList.update k v es) (ks @ [k])"
  by (auto simp: entries_ok_def distinct_update dom_update)

lemma entries_ok_update: "entries_ok es ks \<Longrightarrow> map_of es k = Some e \<Longrightarrow> entries_ok (AList.update k v es) ks"
  by (auto simp: entries_ok_def distinct_update dom_update dest: map_of_SomeD)

lemma update_keeps: "map_of es k = Some e \<Longrightarrow> map_of (AList.update j v es) k = (if j = k then Some v else Some e)"
  by (simp add: update_conv')

section \<open>Both guards keep the contract\<close>

definition guard_seen :: "('v \<Rightarrow> nat) \<Rightarrow> string \<Rightarrow> 'v guard \<Rightarrow> nat option" where
  "guard_seen ts k g = map_option ts (map_of (gd_entries g) k)"

definition guard_newer :: "string \<Rightarrow> 'v guard \<Rightarrow> nat" where
  "guard_newer k g = behind k (gd_order g)"

definition submit_mark :: "string \<Rightarrow> nat \<Rightarrow> submit_entry guard \<Rightarrow> bool \<times> submit_entry guard" where
  "submit_mark key now g = (let (found, g') = submit_guard_check key now g in (found = None, g'))"

text \<open>Entering a key at the end of the queue, the step both guards share.\<close>

definition guard_enter :: "string \<Rightarrow> 'v \<Rightarrow> 'v guard \<Rightarrow> 'v guard" where
  "guard_enter key v g = g\<lparr>gd_entries := AList.update key v (gd_entries g), gd_order := gd_order g @ [key]\<rparr>"

lemma guard_enter_ok: "guard_ok g \<Longrightarrow> guard_ok (guard_enter key v g)"
  by (simp add: guard_ok_def guard_enter_def entries_ok_insert)

lemma guard_enter_limits [simp]: "gd_ttl (guard_enter key v g) = gd_ttl g" "gd_max_entries (guard_enter key v g) = gd_max_entries g"
  by (simp_all add: guard_enter_def)

lemma guard_enter_seen [simp]: "guard_seen ts key (guard_enter key v g) = Some (ts v)"
  by (simp add: guard_seen_def guard_enter_def update_conv')

lemma guard_enter_other:
  "map_of (gd_entries g) j = None \<Longrightarrow> map_of (gd_entries g) k = Some e \<Longrightarrow> k \<in> set (gd_order g) \<Longrightarrow>
   guard_seen ts k (guard_enter j v g) = Some (ts e) \<and> guard_newer k (guard_enter j v g) = Suc (guard_newer k g)"
  by (auto simp: guard_seen_def guard_enter_def guard_newer_def update_conv' behind_append)

text \<open>The guard is pruned when a key is looked up and again when it is entered.\<close>

lemma guard_check_cases:
  fixes g :: "submit_entry guard" and now :: nat
  defines "g1 \<equiv> guard_prune se_ts now g" and "g2 \<equiv> guard_prune se_ts now (guard_prune se_ts now g)"
  shows "submit_guard_check key now g =
    (case map_of (gd_entries g1) key of Some e \<Rightarrow> (Some (se_outcome e), g1)
     | None \<Rightarrow> (None, guard_enter key \<lparr>se_ts = now, se_outcome = InFlight\<rparr> g2))"
proof (cases "map_of (gd_entries g1) key")
  case None
  then have "map_of (gd_entries g2) key = None"
    using guard_prune_sub[of se_ts now g1] unfolding g2_def g1_def map_le_def by (metis domIff)
  then show ?thesis using None
    by (simp add: submit_guard_check_def submit_guard_get_def insert_inflight_def guard_enter_def Let_def g1_def g2_def)
qed (simp add: submit_guard_check_def submit_guard_get_def Let_def g1_def)

lemma guard_twice_keeps:
  assumes "guard_ok g" and "map_of (gd_entries g) k = Some e" and "now \<le> ts e + gd_ttl g" and "behind k (gd_order g) < gd_max_entries g"
  defines "g2 \<equiv> guard_prune ts now (guard_prune ts now g)"
  shows "map_of (gd_entries g2) k = Some e \<and> k \<in> set (gd_order g2) \<and> guard_newer k g2 = guard_newer k g"
proof -
  let ?g = "guard_prune ts now g"
  have 1: "map_of (gd_entries ?g) k = Some e \<and> k \<in> set (gd_order ?g) \<and> behind k (gd_order ?g) = behind k (gd_order g)"
    by (rule guard_prune_keeps[where ts = ts, OF assms(1-4)])
  then show ?thesis
    using guard_prune_keeps[of ?g k e now ts] guard_prune_ok[OF assms(1), of ts now] assms(3,4) by (simp add: g2_def guard_newer_def)
qed

lemma guard_seenE:
  assumes "guard_seen ts k g = Some u"
  obtains e where "map_of (gd_entries g) k = Some e" and "u = ts e"
  using assms by (auto simp: guard_seen_def)

lemma submit_mark_keeps:
  assumes "guard_ok g" and "guard_seen se_ts k g = Some u" and "t \<le> u + gd_ttl g" and "guard_newer k g < gd_max_entries g"
  shows "guard_seen se_ts k (snd (submit_mark j t g)) = Some u \<and> guard_newer k (snd (submit_mark j t g)) \<le> Suc (guard_newer k g) \<and>
    \<not> fst (submit_mark k t g)"
proof -
  obtain e where e: "map_of (gd_entries g) k = Some e" "u = se_ts e" using assms(2) by (rule guard_seenE)
  let ?g1 = "guard_prune se_ts t g" and ?g2 = "guard_prune se_ts t (guard_prune se_ts t g)"
  have late: "t \<le> se_ts e + gd_ttl g" and room: "behind k (gd_order g) < gd_max_entries g" using assms e by (simp_all add: guard_newer_def)
  note keep1 = guard_prune_keeps[where ts = se_ts, OF assms(1) e(1) late room]
  note keep2 = guard_twice_keeps[where ts = se_ts, OF assms(1) e(1) late room]
  have "guard_seen se_ts k (snd (submit_mark j t g)) = Some u \<and> guard_newer k (snd (submit_mark j t g)) \<le> Suc (guard_newer k g)"
  proof (cases "map_of (gd_entries ?g1) j")
    case None
    then have "map_of (gd_entries ?g2) j = None"
      using guard_prune_sub[of se_ts t ?g1] unfolding map_le_def by (metis domIff)
    then show ?thesis using guard_enter_other[of ?g2 j k e] keep2 None e(2) by (simp add: submit_mark_def guard_check_cases)
  qed (use keep1 e(2) in \<open>simp add: submit_mark_def guard_check_cases guard_seen_def guard_newer_def\<close>)
  then show ?thesis using keep1 by (simp add: submit_mark_def guard_check_cases)
qed

lemma set_outcome_ok: "guard_ok g \<Longrightarrow> guard_ok (set_outcome k t r g)"
  using guard_prune_ok[of g se_ts t] by (auto simp: set_outcome_def Let_def guard_ok_def entries_ok_update split: option.split)

lemma set_outcome_limits [simp]: "gd_ttl (set_outcome k t r g) = gd_ttl g" "gd_max_entries (set_outcome k t r g) = gd_max_entries g"
  by (simp_all add: set_outcome_def Let_def split: option.split)

lemma set_outcome_keeps:
  assumes "guard_ok g" and "guard_seen se_ts k g = Some u" and "t \<le> u + gd_ttl g" and "guard_newer k g < gd_max_entries g"
  shows "guard_seen se_ts k (set_outcome j t r g) \<in> {Some u, Some t} \<and> guard_newer k (set_outcome j t r g) = guard_newer k g"
proof -
  obtain e where e: "map_of (gd_entries g) k = Some e" "u = se_ts e" using assms(2) by (rule guard_seenE)
  then show ?thesis using guard_prune_keeps[OF assms(1) e(1), of t se_ts] assms(3,4)
    by (auto simp: set_outcome_def Let_def guard_seen_def guard_newer_def update_keeps split: option.split)
qed

lemma submit_mark_ok: "guard_ok g \<Longrightarrow> guard_ok (snd (submit_mark k t g))"
  by (auto simp: submit_mark_def guard_check_cases guard_prune_ok guard_enter_ok split: option.split)

lemma submit_mark_limits [simp]:
  "gd_ttl (snd (submit_mark k t g)) = gd_ttl g" "gd_max_entries (snd (submit_mark k t g)) = gd_max_entries g"
  by (simp_all add: submit_mark_def guard_check_cases split: option.split)

interpretation submits: first_sight guard_ok submit_mark set_outcome "guard_seen se_ts" guard_newer gd_ttl gd_max_entries
proof unfold_locales
  fix g :: "submit_entry guard" and k :: string and t :: nat
  assume "guard_ok g" and "fst (submit_mark k t g)"
  then show "guard_seen se_ts k (snd (submit_mark k t g)) = Some t" by (auto simp: submit_mark_def guard_check_cases split: option.splits)
qed (simp_all add: submit_mark_ok set_outcome_ok submit_mark_keeps set_outcome_keeps del: insert_iff)

lemma try_mark_cases:
  fixes g :: "nat guard" and now :: nat
  defines "g1 \<equiv> guard_prune id now g"
  shows "try_mark hash now g = (if map_of (gd_entries g1) hash \<noteq> None then (False, g1) else (True, guard_enter hash now g1))"
  by (simp add: try_mark_def Let_def g1_def guard_enter_def)

lemma try_mark_keeps:
  assumes "guard_ok g" and "guard_seen id k g = Some u" and "t \<le> u + gd_ttl g" and "guard_newer k g < gd_max_entries g"
  shows "guard_seen id k (snd (try_mark j t g)) = Some u \<and> guard_newer k (snd (try_mark j t g)) \<le> Suc (guard_newer k g) \<and>
    \<not> fst (try_mark k t g)"
proof -
  have e: "map_of (gd_entries g) k = Some u" using assms(2) by (simp add: guard_seen_def option.map_id)
  let ?g1 = "guard_prune id t g"
  have keep: "map_of (gd_entries ?g1) k = Some u \<and> k \<in> set (gd_order ?g1) \<and> behind k (gd_order ?g1) = behind k (gd_order g)"
    by (rule guard_prune_keeps) (use assms e in \<open>simp_all add: guard_newer_def\<close>)
  have "guard_seen id k (snd (try_mark j t g)) = Some u \<and> guard_newer k (snd (try_mark j t g)) \<le> Suc (guard_newer k g)"
  proof (cases "map_of (gd_entries ?g1) j")
    case None
    then show ?thesis using guard_enter_other[OF None, of k u id t] keep by (simp add: try_mark_cases guard_newer_def)
  qed (use keep in \<open>simp add: try_mark_cases guard_seen_def guard_newer_def\<close>)
  then show ?thesis using keep by (simp add: try_mark_cases)
qed

interpretation blocks: first_sight guard_ok try_mark "\<lambda>_ _ (_ :: unit) g. g" "guard_seen id" guard_newer gd_ttl gd_max_entries
proof unfold_locales
  fix g :: "nat guard" and k :: string and t :: nat
  assume "guard_ok g" and "fst (try_mark k t g)"
  then show "guard_seen id k (snd (try_mark k t g)) = Some t" by (auto simp: try_mark_cases split: if_splits)
qed (simp_all add: try_mark_keeps, simp_all add: try_mark_cases guard_prune_ok guard_enter_ok)

section \<open>Submissions\<close>

text \<open>The queue of the submission guard has exactly the keys of the map.\<close>

definition submits_ok :: "submit_entry guard \<Rightarrow> bool" where
  "submits_ok g \<longleftrightarrow> distinct (map fst (gd_entries g)) \<and> distinct (gd_order g) \<and> set (gd_order g) = set (map fst (gd_entries g))"

lemma submits_guard_ok: "submits_ok g \<Longrightarrow> guard_ok g"
  by (simp add: submits_ok_def guard_ok_def entries_ok_def)

lemma pop_exact:
  assumes "distinct (map fst es)" and "distinct (k # ks)" and "set (k # ks) = set (map fst es)"
  shows "distinct (map fst (AList.delete k es)) \<and> distinct ks \<and> set ks = set (map fst (AList.delete k es))"
  using assms by (auto simp: delete_keys distinct_removeAll)

lemma prune_expired_exact:
  "prune_expired ts ttl now es ks = (es', ks') \<Longrightarrow> distinct (map fst es) \<Longrightarrow> distinct ks \<Longrightarrow> set ks = set (map fst es) \<Longrightarrow>
   distinct (map fst es') \<and> distinct ks' \<and> set ks' = set (map fst es')"
proof (induction ts ttl now es ks rule: prune_expired.induct)
  case (2 ts ttl now es k ks)
  then show ?case using pop_exact[OF 2(3,4,5)] by (auto split: if_splits simp del: set_map)
qed simp

lemma prune_excess_exact:
  "prune_excess m es ks = (es', ks') \<Longrightarrow> distinct (map fst es) \<Longrightarrow> distinct ks \<Longrightarrow> set ks = set (map fst es) \<Longrightarrow>
   distinct (map fst es') \<and> distinct ks' \<and> set ks' = set (map fst es')"
proof (induction m es ks rule: prune_excess.induct)
  case (2 m es k ks)
  then show ?case using pop_exact[OF 2(3,4,5)] by (auto split: if_splits simp del: set_map)
qed simp

lemma guard_prune_exact: "submits_ok g \<Longrightarrow> submits_ok (guard_prune ts now g)"
proof (rule guard_prune_cases[of ts g now])
  fix es ks
  assume ok: "submits_ok g" and p: "prune_expired ts (gd_ttl g) now (gd_entries g) (gd_order g) = (es, ks)"
    "prune_excess (gd_max_entries g) es ks = (gd_entries (guard_prune ts now g), gd_order (guard_prune ts now g))"
  show ?thesis using prune_excess_exact[OF p(2)] prune_expired_exact[OF p(1)] ok by (simp add: submits_ok_def)
qed

lemma order_fresh: "submits_ok g \<Longrightarrow> map_of (gd_entries g) k = None \<Longrightarrow> k \<notin> set (gd_order g)"
  by (simp add: submits_ok_def map_of_eq_None_iff)

lemma guard_enter_exact: "submits_ok g \<Longrightarrow> map_of (gd_entries g) k = None \<Longrightarrow> submits_ok (guard_enter k v g)"
  using order_fresh[of g k] by (auto simp: submits_ok_def guard_enter_def distinct_update dom_update)

lemma behind_last: "k \<notin> set ks \<Longrightarrow> behind k (ks @ [k]) = 0"
  by (induction ks) (auto simp: behind_Cons)

lemma length_update_le: "length (AList.update k v es) \<le> Suc (length es)"
  by (induction es) auto

lemma submit_check_exact:
  assumes "submits_ok g"
  shows "submits_ok (snd (submit_guard_check k t g)) \<and> length (gd_entries (snd (submit_guard_check k t g))) \<le> Suc (gd_max_entries g) \<and>
    (fst (submit_guard_check k t g) = None \<longrightarrow> guard_newer k (snd (submit_guard_check k t g)) = 0)"
proof -
  let ?g1 = "guard_prune se_ts t g" and ?g2 = "guard_prune se_ts t (guard_prune se_ts t g)"
  have ok: "submits_ok ?g1" "submits_ok ?g2" using assms by (simp_all add: guard_prune_exact)
  have len: "length (gd_entries ?g1) \<le> gd_max_entries g" "length (gd_entries ?g2) \<le> gd_max_entries g"
    using guard_prune_ok[OF submits_guard_ok] assms ok(1) by fastforce+
  show ?thesis
  proof (cases "map_of (gd_entries ?g1) k")
    case None
    then have none: "map_of (gd_entries ?g2) k = None"
      using guard_prune_sub[of se_ts t ?g1] unfolding map_le_def by (metis domIff)
    have "length (gd_entries (guard_enter k v ?g2)) \<le> Suc (gd_max_entries g)" for v
      using length_update_le[of k v "gd_entries ?g2"] len(2) by (simp add: guard_enter_def)
    moreover have "guard_newer k (guard_enter k v ?g2) = 0" for v
      using behind_last[OF order_fresh[OF ok(2) none]] by (simp add: guard_newer_def guard_enter_def)
    ultimately show ?thesis using None guard_enter_exact[OF ok(2) none] by (simp add: guard_check_cases)
  qed (use ok len in \<open>simp add: guard_check_cases\<close>)
qed

lemma set_outcome_exact:
  assumes "submits_ok g" and "length (gd_entries g) \<le> Suc (gd_max_entries g)"
  shows "submits_ok (set_outcome k t r g) \<and> length (gd_entries (set_outcome k t r g)) \<le> Suc (gd_max_entries g)"
proof -
  let ?g = "guard_prune se_ts t g"
  have ok: "submits_ok ?g" and len: "length (gd_entries ?g) \<le> gd_max_entries g"
    using guard_prune_exact guard_prune_ok[OF submits_guard_ok] assms(1) by blast+
  show ?thesis
  proof (cases "map_of (gd_entries ?g) k")
    case (Some e)
    then have "k \<in> fst ` set (gd_entries ?g)" by (force dest: map_of_SomeD)
    then show ?thesis using ok Some length_update_le[of k "\<lparr>se_ts = t, se_outcome = r\<rparr>" "gd_entries ?g"] len
      by (auto simp: set_outcome_def Let_def submits_ok_def distinct_update dom_update)
  qed (use ok len in \<open>simp add: set_outcome_def Let_def\<close>)
qed

lemma submit_run_exact:
  "submits_ok g \<Longrightarrow> length (gd_entries g) \<le> Suc (gd_max_entries g) \<Longrightarrow> run_ops submit_mark set_outcome ops g = (bs, g') \<Longrightarrow>
   submits_ok g' \<and> length (gd_entries g') \<le> Suc (gd_max_entries g') \<and> gd_ttl g' = gd_ttl g \<and> gd_max_entries g' = gd_max_entries g"
proof (induction ops arbitrary: g bs)
  case (Cons x ops)
  show ?case
  proof (cases x)
    case (Mark k t)
    let ?g = "snd (submit_mark k t g)"
    have "?g = snd (submit_guard_check k t g)" by (simp add: submit_mark_def split_beta)
    then have "submits_ok ?g" "length (gd_entries ?g) \<le> Suc (gd_max_entries ?g)"
      using submit_check_exact[OF Cons.prems(1), of k t] submit_mark_limits(2)[of k t g] by (simp_all only:)
    moreover have "run_ops submit_mark set_outcome ops ?g = (fst (run_ops submit_mark set_outcome ops ?g), g')"
      using Cons.prems(3) Mark by (auto simp: Let_def split_beta)
    ultimately show ?thesis using Cons.IH by (metis submit_mark_limits)
  next
    case (Touch r k t)
    then show ?thesis using Cons.IH[of "set_outcome k t r g"] Cons.prems set_outcome_exact[OF Cons.prems(1,2), of k t r] by simp
  qed
qed simp

text \<open>
  C23. A share submission is taken as new once.  Whatever the guard has been through since it was
  created, once it reports a key as new at instant \<open>u\<close>, no later look-up of that key up to \<open>u + ttl\<close>
  reports it as new again, as long as at most as many operations as the guard has room for lie
  in between, whatever outcomes are recorded meanwhile; and the guard never holds more than
  one entry above its bound.
\<close>

theorem submission_new_once:
  assumes "run_ops submit_mark set_outcome before (guard_new ttl cap) = (rs, g)" and "submit_guard_check k u g = (None, g1)"
    and "\<forall>x \<in> set ops. u \<le> op_time x \<and> op_time x \<le> u + ttl" and "length ops \<le> cap"
  shows "(k, True) \<notin> set (fst (run_ops submit_mark set_outcome ops g1)) \<and>
    length (gd_entries (snd (run_ops submit_mark set_outcome ops g1))) \<le> cap + 1"
proof -
  have "submits_ok (guard_new ttl cap)" by (simp add: submits_ok_def guard_new_def)
  then have g: "submits_ok g" "gd_ttl g = ttl" "gd_max_entries g = cap"
    using submit_run_exact[OF _ _ assms(1)] by (simp_all add: guard_new_def)
  have mark: "submit_mark k u g = (True, g1)" using assms(2) by (simp add: submit_mark_def)
  have g1: "submits_ok g1" "guard_newer k g1 = 0" "length (gd_entries g1) \<le> Suc cap" "gd_ttl g1 = ttl" "gd_max_entries g1 = cap"
    using submit_check_exact[OF g(1), of k u] assms(2) submit_mark_limits[of k u g] mark g(2,3) by simp_all
  have "guard_seen se_ts k g1 = Some u" using submits.mark_fresh[OF submits_guard_ok[OF g(1)], of k u] mark by simp
  then have "(k, True) \<notin> set (fst (run_ops submit_mark set_outcome ops g1))"
    using submits.seen_once[OF submits_guard_ok[OF g1(1)], of k u u ops] assms(3,4) g1 by simp
  moreover have "length (gd_entries (snd (run_ops submit_mark set_outcome ops g1))) \<le> cap + 1"
    using submit_run_exact[OF g1(1), of ops] g1 by (cases "run_ops submit_mark set_outcome ops g1") auto
  ultimately show ?thesis ..
qed

theorem submission_new_once_witness:
  "(''w|1|a'', True) \<notin> set (fst (run_ops submit_mark set_outcome [Touch Accepted ''w|1|a'' 6, Mark ''w|2|b'' 7, Mark ''w|1|a'' 104]
     (snd (submit_guard_check ''w|1|a'' 5 (guard_new 100 3)))))"
proof -
  have "submit_guard_check ''w|1|a'' 5 (guard_new 100 3) = (None, snd (submit_guard_check ''w|1|a'' 5 (guard_new 100 3)))"
    by (simp add: submit_guard_check_def submit_guard_get_def guard_new_def guard_prune_def insert_inflight_def Let_def)
  then show ?thesis
    using submission_new_once[of "[]" 100 3 "[]" "guard_new 100 3" "''w|1|a''" 5 _ "[Touch Accepted ''w|1|a'' 6, Mark ''w|2|b'' 7, Mark ''w|1|a'' 104]"]
    by simp
qed

end
