(* ===== verification/Stratum_Context.thy ===== *)
theory Stratum_Context
  imports Mining_Jobs Merged_Mining
begin

text \<open>
  A miner's connection (\<open>bridge/src/stratum_context.rs\<close>), the messages on it
  (\<open>bridge/src/jsonrpc_event.rs\<close>) and the events the bridge publishes (\<open>crates/katpool-domain/src/events.rs\<close>).

  The socket is an oracle that says for every attempt to write how it ends; what went out is kept.
  A context is a record; its atomics and locks are fields, since every operation here is one
  critical section.  Rust texts are byte strings.
\<close>

section \<open>Messages\<close>

datatype json_number = PosInt nat | NegInt int | JFloat f64
datatype json = JNull | JBool bool | JNum json_number | JStr string | JArr "json list" | JObj "(string \<times> json) list"

record json_event =
  ev_id :: "json option"
  ev_jsonrpc :: string
  ev_method :: string
  ev_params :: "json list"

record json_response =
  rs_id :: "json option"
  rs_result :: "json option"
  rs_error :: "json list option"

definition response_new :: "json_event \<Rightarrow> json option \<Rightarrow> json list option \<Rightarrow> json_response" where
  "response_new event result error = \<lparr>rs_id = ev_id event, rs_result = result, rs_error = error\<rparr>"

definition response_success :: "json option \<Rightarrow> json \<Rightarrow> json_response" where
  "response_success i result = \<lparr>rs_id = i, rs_result = Some result, rs_error = None\<rparr>"

definition response_error :: "json option \<Rightarrow> nat \<Rightarrow> string \<Rightarrow> json option \<Rightarrow> json_response" where
  "response_error i code message data =
     \<lparr>rs_id = i, rs_result = None, rs_error = Some [JNum (PosInt code), JStr message, case data of Some d \<Rightarrow> d | None \<Rightarrow> JNull]\<rparr>"

datatype stratum_method =
    Subscribe | ExtranonceSubscribe | Authorize | Submit | SetDifficulty | Notify | SetExtranonce | Other string

definition method_of :: "string \<Rightarrow> stratum_method" where
  "method_of s =
     (if s = ''mining.subscribe'' then Subscribe else if s = ''mining.extranonce.subscribe'' then ExtranonceSubscribe
      else if s = ''mining.authorize'' then Authorize else if s = ''mining.submit'' then Submit
      else if s = ''mining.set_difficulty'' then SetDifficulty else if s = ''mining.notify'' then Notify
      else if s = ''mining.set_extranonce'' then SetExtranonce else Other s)"

fun method_text :: "stratum_method \<Rightarrow> string" where
  "method_text Subscribe = ''mining.subscribe''"
| "method_text ExtranonceSubscribe = ''mining.extranonce.subscribe''"
| "method_text Authorize = ''mining.authorize''"
| "method_text Submit = ''mining.submit''"
| "method_text SetDifficulty = ''mining.set_difficulty''"
| "method_text Notify = ''mining.notify''"
| "method_text SetExtranonce = ''mining.set_extranonce''"
| "method_text (Other s) = s"

definition method_enum :: "json_event \<Rightarrow> stratum_method" where
  "method_enum event = method_of (ev_method event)"

text \<open>Control characters other than line ends become spaces before a line is parsed.\<close>

definition is_control :: "char \<Rightarrow> bool" where
  "is_control c = (let k = of_char c :: nat in k < 32 \<or> k = 127)"

definition is_bad_control :: "char \<Rightarrow> bool" where
  "is_bad_control c \<longleftrightarrow> is_control c \<and> c \<noteq> CHR 0x0A \<and> c \<noteq> CHR 0x0D"

definition sanitize_json_input :: "string \<Rightarrow> string" where
  "sanitize_json_input input = map (\<lambda>c. if is_bad_control c then CHR '' '' else c) input"

definition unmarshal_event :: "(string \<Rightarrow> string + json_event) \<Rightarrow> string \<Rightarrow> string + json_event" where
  "unmarshal_event from_str input =
     (if list_ex is_bad_control input then from_str (sanitize_json_input input) else from_str input)"

section \<open>Events\<close>

datatype share_reject_reason = RStale | RLowDifficulty | RBadPow | RMissingJob | RMalformedFrame | RDuplicateSubmit | RBadAddress

definition reject_reason_text :: "share_reject_reason \<Rightarrow> string" where
  "reject_reason_text r =
     (case r of RStale \<Rightarrow> ''stale'' | RLowDifficulty \<Rightarrow> ''low_difficulty'' | RBadPow \<Rightarrow> ''bad_pow'' | RMissingJob \<Rightarrow> ''missing_job''
      | RMalformedFrame \<Rightarrow> ''malformed_frame'' | RDuplicateSubmit \<Rightarrow> ''duplicate_submit'' | RBadAddress \<Rightarrow> ''bad_address'')"

text \<open>Wallet, worker, then the fields of the event, its time and its correlation id.\<close>

datatype pool_event =
    ShareCredited string string f64 nat nat nat
  | ShareRejected string string share_reject_reason nat nat
  | BlockFound string string hash nat nat nat
  | BlockAccepted hash nat nat
  | SessionOpened nat "string option" "string option" string "string option" nat nat
  | SessionClosed nat "string option" "string option" string "string option" nat nat nat

fun decode_hex_pairs :: "string \<Rightarrow> bytes option" where
  "decode_hex_pairs [] = Some []"
| "decode_hex_pairs [c] = None"
| "decode_hex_pairs (a # b # cs) =
     (case (digit_of 16 a, digit_of 16 b, decode_hex_pairs cs) of
        (Some x, Some y, Some bs) \<Rightarrow> Some ((16 * x + y) # bs)
      | _ \<Rightarrow> None)"

datatype block_hash_error = WrongLength nat | InvalidHex

definition BlockHash_from_hex :: "string \<Rightarrow> block_hash_error + hash" where
  "BlockHash_from_hex s =
     (if length s \<noteq> 64 then Inl (WrongLength (length s))
      else case decode_hex_pairs s of Some bs \<Rightarrow> Inr bs | None \<Rightarrow> Inl InvalidHex)"

section \<open>The context\<close>

record ('tx, 'addr) ctx =
  cx_remote_addr :: string
  cx_remote_port :: nat
  cx_wallet_addr :: string
  cx_worker_name :: string
  cx_worker_name_supplied :: bool
  cx_kas_payout :: "'addr option"
  cx_remote_app :: string
  cx_id :: int
  cx_extranonce :: string
  cx_state :: "'tx block mining_state"
  cx_session_uid :: nat
  cx_template_generation :: nat
  cx_last_parent_job_at :: "nat option"
  cx_authorized_at :: "nat option"
  cx_last_job_sent_at :: "nat option"
  cx_session_opened :: bool
  cx_vardiff_registered :: bool
  cx_disconnecting :: bool

definition context_new :: "string \<Rightarrow> nat \<Rightarrow> nat \<Rightarrow> 'tx block mining_state \<Rightarrow> ('tx, 'addr) ctx" where
  "context_new remote_addr remote_port uid state =
     \<lparr>cx_remote_addr = remote_addr, cx_remote_port = remote_port, cx_wallet_addr = '''', cx_worker_name = '''',
      cx_worker_name_supplied = False, cx_kas_payout = None, cx_remote_app = '''', cx_id = 0, cx_extranonce = '''',
      cx_state = state, cx_session_uid = uid, cx_template_generation = 0, cx_last_parent_job_at = None,
      cx_authorized_at = None, cx_last_job_sent_at = None, cx_session_opened = False, cx_vardiff_registered = False,
      cx_disconnecting = False\<rparr>"

definition connected :: "('tx, 'addr) ctx \<Rightarrow> bool" where
  "connected c \<longleftrightarrow> \<not> cx_disconnecting c"

definition context_id :: "('tx, 'addr) ctx \<Rightarrow> int option" where
  "context_id c = (if 0 < cx_id c then Some (cx_id c) else None)"

definition set_context_id :: "int \<Rightarrow> ('tx, 'addr) ctx \<Rightarrow> ('tx, 'addr) ctx" where
  "set_context_id i c = c\<lparr>cx_id := i\<rparr>"

text \<open>\<open>fetch_add\<close> wraps at 64 bits; adding one to its result panics at the last value.\<close>

definition next_template_generation :: "('tx, 'addr) ctx \<Rightarrow> nat option \<times> ('tx, 'addr) ctx" where
  "next_template_generation c =
     (checked_u64 (cx_template_generation c + 1), c\<lparr>cx_template_generation := (cx_template_generation c + 1) mod 2 ^ 64\<rparr>)"

definition parent_refresh_due :: "nat \<Rightarrow> nat \<Rightarrow> ('tx, 'addr) ctx \<Rightarrow> bool" where
  "parent_refresh_due minimum_interval tm c =
     (case cx_last_parent_job_at c of Some t0 \<Rightarrow> \<not> tm - t0 < minimum_interval | None \<Rightarrow> True)"

definition mark_parent_job_sent :: "nat \<Rightarrow> ('tx, 'addr) ctx \<Rightarrow> ('tx, 'addr) ctx" where
  "mark_parent_job_sent tm c = c\<lparr>cx_last_parent_job_at := Some tm\<rparr>"

definition mark_authorized :: "nat \<Rightarrow> ('tx, 'addr) ctx \<Rightarrow> ('tx, 'addr) ctx" where
  "mark_authorized tm c = c\<lparr>cx_authorized_at := Some tm, cx_last_job_sent_at := None\<rparr>"

definition mark_job_sent :: "nat \<Rightarrow> ('tx, 'addr) ctx \<Rightarrow> ('tx, 'addr) ctx" where
  "mark_job_sent tm c = c\<lparr>cx_last_job_sent_at := Some tm\<rparr>"

definition received_job_since_authorization :: "('tx, 'addr) ctx \<Rightarrow> bool" where
  "received_job_since_authorization c =
     (case (cx_authorized_at c, cx_last_job_sent_at c) of (Some a, Some j) \<Rightarrow> a \<le> j | _ \<Rightarrow> False)"

definition claim_session_open :: "('tx, 'addr) ctx \<Rightarrow> bool \<times> ('tx, 'addr) ctx" where
  "claim_session_open c = (\<not> cx_session_opened c, c\<lparr>cx_session_opened := True\<rparr>)"

definition claim_vardiff_registration :: "('tx, 'addr) ctx \<Rightarrow> bool \<times> ('tx, 'addr) ctx" where
  "claim_vardiff_registration c = (\<not> cx_vardiff_registered c, c\<lparr>cx_vardiff_registered := True\<rparr>)"

definition release_vardiff_registration :: "('tx, 'addr) ctx \<Rightarrow> bool \<times> ('tx, 'addr) ctx" where
  "release_vardiff_registration c = (cx_vardiff_registered c, c\<lparr>cx_vardiff_registered := False\<rparr>)"

definition ensure_default_worker_name :: "('tx, 'addr) ctx \<Rightarrow> ('tx, 'addr) ctx" where
  "ensure_default_worker_name c =
     (if trim (cx_worker_name c) \<noteq> '''' then c
      else c\<lparr>cx_worker_name :=
        (case context_id c of Some i \<Rightarrow> ''asic-'' @ show_int i | None \<Rightarrow> ''asic-'' @ show_nat (cx_remote_port c))\<rparr>)"

definition set_authorized_worker_name :: "string \<Rightarrow> ('tx, 'addr) ctx \<Rightarrow> ('tx, 'addr) ctx" where
  "set_authorized_worker_name name c =
     ensure_default_worker_name (c\<lparr>cx_worker_name_supplied := trim name \<noteq> '''', cx_worker_name := name\<rparr>)"

definition vardiff_worker_identity :: "('tx, 'addr) ctx \<Rightarrow> string" where
  "vardiff_worker_identity c = (if cx_worker_name_supplied c then cx_worker_name c else '''')"

definition effective_worker_name :: "('tx, 'addr) ctx \<Rightarrow> string \<times> ('tx, 'addr) ctx" where
  "effective_worker_name c = (let c' = ensure_default_worker_name c in (cx_worker_name c', c'))"

definition disconnect :: "('tx, 'addr) ctx \<Rightarrow> ('tx, 'addr) ctx" where
  "disconnect c = c\<lparr>cx_disconnecting := True\<rparr>"

section \<open>Writing\<close>

text \<open>
  An attempt finds the write lock taken, completes, fails or runs into the deadline; the last two
  may have sent some bytes already.  A failed write schedules a disconnect.
\<close>

datatype write_attempt = LockBusy | Written | WriteFailed nat | WriteTimeout nat

record link =
  lk_attempt :: "nat \<Rightarrow> write_attempt"
  lk_tries :: nat
  lk_out :: string

datatype write_end = WriteOk | GaveUp | Broken

definition sent :: "string \<Rightarrow> link \<Rightarrow> link" where
  "sent data l = l\<lparr>lk_tries := Suc (lk_tries l), lk_out := lk_out l @ data\<rparr>"

fun write_loop :: "nat \<Rightarrow> string \<Rightarrow> link \<Rightarrow> write_end \<times> link" where
  "write_loop 0 data l = (GaveUp, l)"
| "write_loop (Suc n) data l =
     (case lk_attempt l (lk_tries l) of
        LockBusy \<Rightarrow> write_loop n data (sent '''' l)
      | Written \<Rightarrow> (WriteOk, sent data l)
      | WriteFailed k \<Rightarrow> (Broken, sent (take k data) l)
      | WriteTimeout k \<Rightarrow>
          if 0 < n then write_loop n data (sent (take k data) l) else (Broken, sent (take k data) l))"

definition write_data :: "string \<Rightarrow> link \<Rightarrow> write_end \<times> link" where
  "write_data data l = write_loop 3 data l"

text \<open>A reply: nothing is written on a context that is disconnecting; serialisation is the library's.\<close>

definition reply_on ::
  "(json_response \<Rightarrow> string) \<Rightarrow> json_response \<Rightarrow> ('tx, 'addr) ctx \<times> link \<Rightarrow> bool \<times> ('tx, 'addr) ctx \<times> link" where
  "reply_on to_string response = (\<lambda>(c, l).
     if cx_disconnecting c then (False, c, l)
     else case write_data (to_string response @ [CHR 0x0A]) l of
         (WriteOk, l') \<Rightarrow> (True, c, l')
       | (GaveUp, l') \<Rightarrow> (False, c, l')
       | (Broken, l') \<Rightarrow> (False, disconnect c, l'))"

section \<open>Properties\<close>

lemma method_roundtrip: "method_of (method_text m) = m \<longleftrightarrow> (\<forall>s. m = Other s \<longrightarrow> method_of s = Other s)"
  by (cases m) (auto simp: method_of_def)

text \<open>Without a timeout before, a successful write sends exactly the message.\<close>

lemma write_loop_exact:
  "write_loop n data l = (WriteOk, l') \<Longrightarrow> \<forall>i k. lk_tries l \<le> i \<and> i < lk_tries l + n \<longrightarrow> lk_attempt l i \<noteq> WriteTimeout k \<Longrightarrow>
   lk_out l' = lk_out l @ data"
proof (induction n arbitrary: l)
  case (Suc n)
  show ?case
  proof (cases "lk_attempt l (lk_tries l)")
    case LockBusy
    then show ?thesis using Suc.IH[of "sent '''' l"] Suc.prems by (auto simp: sent_def)
  qed (use Suc.prems in \<open>auto simp: sent_def split: if_splits\<close>)
qed simp

text \<open>
  A write that runs into its deadline is repeated from the beginning of the message although part
  of it has gone out already, and the write is reported as done: the miner receives the fragment
  followed by the whole line.
\<close>

theorem write_retry_repeats_fragment:
  "\<exists>l. write_data ''{id:1}'' l = (WriteOk, l\<lparr>lk_tries := 2, lk_out := ''{id:1{id:1}''\<rparr>) \<and> lk_out l = ''''"
proof -
  let ?l = "\<lparr>lk_attempt = (\<lambda>i. if i = 0 then WriteTimeout 5 else Written), lk_tries = 0, lk_out = ''''\<rparr>"
  show ?thesis by (rule exI[of _ ?l]) (simp add: write_data_def sent_def numeral_3_eq_3)
qed

end
