(* ===== verification/Node_Client.thy ===== *)
theory Node_Client
  imports Merged_Mining
begin

text \<open>
  The node client of the bridge (\<open>bridge/src/kaspaapi.rs\<close>): templates, the parent of a merged-mining
  lane, and the submission of solved work to both chains.

  Node replies are oracles indexed by the number of calls made so far, and every request is
  logged.  The monotonic clock (nanoseconds) and the wall clock (seconds) are oracles too.  The
  gate that bounds concurrent template requests, retry delays and logging are left out.

  The bridge uses the client through the trait \<open>KaspaApiTrait\<close> (\<open>bridge/src/share_handler.rs\<close>), a record
  of operations over a state; \<open>KaspaApi_trait\<close> is the client's implementation of it.
\<close>

section \<open>The model\<close>

datatype reject_reason = BlockInvalid | IsInIBD | RouteIsFull
datatype submit_report = Success | Reject reject_reason
datatype block_submit_outcome = SubmitAccepted | RejectedByNode reject_reason

datatype parent_submit_outcome =
    NotMerged | DoesNotClearKaspa | NoKaspaClient | ParentAccepted | ParentRejected string | TransportError string

definition reject_label :: "reject_reason \<Rightarrow> string" where
  "reject_label r = (case r of BlockInvalid \<Rightarrow> ''BlockInvalid'' | IsInIBD \<Rightarrow> ''IsInIBD'' | RouteIsFull \<Rightarrow> ''RouteIsFull'')"

definition metric_label :: "parent_submit_outcome \<Rightarrow> string" where
  "metric_label r =
     (case r of NotMerged \<Rightarrow> ''not_merged'' | DoesNotClearKaspa \<Rightarrow> ''does_not_clear'' | NoKaspaClient \<Rightarrow> ''no_client''
      | ParentAccepted \<Rightarrow> ''accepted'' | ParentRejected _ \<Rightarrow> ''rejected'' | TransportError _ \<Rightarrow> ''transport_error'')"

definition is_accepted :: "block_submit_outcome \<Rightarrow> bool" where
  "is_accepted r \<longleftrightarrow> r = SubmitAccepted"

text \<open>A template request fails, or gives a block that may fail to convert.\<close>

datatype 'tx template_reply = RpcFailed string | ConversionFailed string | Template "'tx block"

text \<open>What is fixed when the client is built, and the library functions it calls.\<close>

record ('tx, 'addr) client_env =
  ce_lib :: "'tx consensus_lib"
  ce_fork :: "nat option \<times> chain_params"
  ce_precomputed :: block_header
  ce_parse_address :: "string \<Rightarrow> string + 'addr"
  ce_address_text :: "'addr \<Rightarrow> string"
  ce_merged_mining :: bool
  ce_has_kaspa_client :: bool
  ce_kaspa_pay :: "'addr option"
  ce_coinbase_override :: "'addr option"
  ce_coinbase_tag :: bytes

record ('tx, 'addr) node_world =
  nw_pending :: "'tx block merged_pending"
  nw_submit_guard :: "nat guard"
  nw_parent_cache :: "(hash \<times> string \<times> 'tx block \<times> nat) option"
  nw_clock :: "nat \<Rightarrow> nat"
  nw_reads :: nat
  nw_wall :: "nat \<Rightarrow> nat"
  nw_zkas_submit :: "nat \<Rightarrow> string + submit_report"
  nw_zkas_log :: "'tx aux_block list"
  nw_kaspa_submit :: "nat \<Rightarrow> string + submit_report"
  nw_kaspa_log :: "'tx block list"
  nw_zkas_template :: "nat \<Rightarrow> 'tx template_reply"
  nw_zkas_requests :: "('addr \<times> bytes) list"
  nw_kaspa_template :: "nat \<Rightarrow> 'tx template_reply"
  nw_kaspa_requests :: "('addr \<times> bytes) list"

type_synonym ('tx, 'addr, 'a) node_act = "(('tx, 'addr) node_world, string, 'a) act"

definition node_now :: "('tx, 'addr, nat) node_act" where
  "node_now w = (Inr (nw_clock w (nw_reads w)), w\<lparr>nw_reads := Suc (nw_reads w)\<rparr>)"

definition KASPA_PARENT_TTL :: nat where "KASPA_PARENT_TTL = 150000000"
definition BLOCK_SUBMIT_GUARD :: "nat guard" where "BLOCK_SUBMIT_GUARD = guard_new (600 * 10 ^ 9) 50000"

definition contains_text :: "string \<Rightarrow> string \<Rightarrow> bool" where
  "contains_text p s \<longleftrightarrow> list_ex (\<lambda>i. take (length p) (drop i s) = p) [0..<Suc (length s)]"

subsection \<open>Parents\<close>

definition kaspa_template_call :: "'addr \<Rightarrow> bytes \<Rightarrow> ('tx, 'addr, 'tx template_reply) node_act" where
  "kaspa_template_call pay extra w =
     (Inr (nw_kaspa_template w (length (nw_kaspa_requests w))), w\<lparr>nw_kaspa_requests := nw_kaspa_requests w @ [(pay, extra)]\<rparr>)"

definition set_parent_cache :: "hash \<times> string \<times> 'tx block \<times> nat \<Rightarrow> ('tx, 'addr, unit) node_act" where
  "set_parent_cache c w = (Inr (), w\<lparr>nw_parent_cache := Some c\<rparr>)"

definition cached_parent :: "hash \<Rightarrow> string \<Rightarrow> bool \<Rightarrow> nat \<Rightarrow> ('tx, 'addr) node_world \<Rightarrow> 'tx block option" where
  "cached_parent h_fc pay_key force tm w =
     (case nw_parent_cache w of
        Some (ch, cpay, parent, t0) \<Rightarrow>
          if \<not> force \<and> ch = h_fc \<and> cpay = pay_key \<and> tm - t0 < KASPA_PARENT_TTL then Some parent else None
      | None \<Rightarrow> None)"

definition parent_payee :: "('tx, 'addr) client_env \<Rightarrow> 'addr option \<Rightarrow> string + 'addr" where
  "parent_payee env payee =
     (if \<not> ce_has_kaspa_client env then Inl ''no Kaspa node client''
      else case payee of Some a \<Rightarrow> Inr a
        | None \<Rightarrow> (case ce_kaspa_pay env of Some a \<Rightarrow> Inr a | None \<Rightarrow> Inl ''no Kaspa pay address''))"

definition fetch_kaspa_parent ::
  "('tx, 'addr) client_env \<Rightarrow> hash \<Rightarrow> bytes \<Rightarrow> 'addr option \<Rightarrow> bool \<Rightarrow> ('tx, 'addr, 'tx block) node_act" where
  "fetch_kaspa_parent env h_fc extra payee force =
     bindE (lift_sum (parent_payee env payee)) (\<lambda>pay.
     bindE node_now (\<lambda>tm.
     bindE (gets (cached_parent h_fc (ce_address_text env pay) force tm)) (\<lambda>cached.
       case cached of Some parent \<Rightarrow> ret parent
       | None \<Rightarrow>
           bindE (kaspa_template_call pay extra) (\<lambda>reply.
             case reply of
               RpcFailed _ \<Rightarrow> raise ''kaspa getBlockTemplate''
             | ConversionFailed e \<Rightarrow> raise (''kaspa block conversion: '' @ e)
             | Template parent \<Rightarrow>
                 bindE node_now (\<lambda>t0.
                 bindE (set_parent_cache (h_fc, ce_address_text env pay, parent, t0)) (\<lambda>_. ret parent))))))"

definition env_bound :: "('tx, 'addr) client_env \<Rightarrow> 'tx block \<Rightarrow> hash option" where
  "env_bound env fc = bound_form (ce_fork env) (bh_daa_score (blk_header fc))"

definition merge_key :: "('tx, 'addr) client_env \<Rightarrow> 'tx block \<Rightarrow> hash" where
  "merge_key env fc = merge_key_with (ce_lib env) fc (env_bound env fc)"

definition merge_extra_data :: "('tx, 'addr) client_env \<Rightarrow> 'tx block \<Rightarrow> bytes" where
  "merge_extra_data env fc = merge_extra_data_with (ce_lib env) fc (env_bound env fc)"

definition chain_hash :: "('tx, 'addr) client_env \<Rightarrow> 'tx block \<Rightarrow> 'tx block \<Rightarrow> hash" where
  "chain_hash env parent fc = chain_hash_with (ce_lib env) parent fc (env_bound env fc)"

definition assemble_aux_block :: "('tx, 'addr) client_env \<Rightarrow> 'tx block \<Rightarrow> 'tx block \<Rightarrow> 'tx aux_block option" where
  "assemble_aux_block env parent fc = assemble_aux_block_with (ce_lib env) parent fc (env_bound env fc)"

definition build_parent_block :: "('tx, 'addr) client_env \<Rightarrow> 'tx block \<Rightarrow> 'tx block" where
  "build_parent_block env fc = fst (build_parent_block_with (ce_lib env) (ce_precomputed env) fc (env_bound env fc))"

definition refresh_merged_parent :: "('tx, 'addr) client_env \<Rightarrow> 'tx block \<Rightarrow> 'addr option \<Rightarrow> ('tx, 'addr, 'tx block option) node_act" where
  "refresh_merged_parent env current payee =
     (if \<not> ce_merged_mining env \<or> \<not> ce_has_kaspa_client env then ret None
      else case committed_h_fc (ce_lib env) current of
        None \<Rightarrow> raise ''merged parent has no ZKMM commitment''
      | Some h_fc \<Rightarrow>
          bindE (gets nw_pending) (\<lambda>p.
            if \<not> is_unsolved h_fc p then ret None
            else case pending_get h_fc p of None \<Rightarrow> ret None
              | Some fc \<Rightarrow>
                  bindE (fetch_kaspa_parent env h_fc (merge_extra_data env fc) payee True) (\<lambda>parent. ret (Some parent))))"

subsection \<open>What a merged parent stands for\<close>

definition merged_fc_target :: "('tx, 'addr) client_env \<Rightarrow> 'tx block \<Rightarrow> ('tx, 'addr) node_world \<Rightarrow> nat option" where
  "merged_fc_target env parent w =
     (if \<not> ce_merged_mining env then None
      else case committed_h_fc (ce_lib env) parent of None \<Rightarrow> None
        | Some h \<Rightarrow> map_option (\<lambda>fc. calculate_target (bh_bits (blk_header fc))) (pending_get h (nw_pending w)))"

definition merged_lane_paid_pool :: "('tx, 'addr) client_env \<Rightarrow> 'tx block \<Rightarrow> ('tx, 'addr) node_world \<Rightarrow> bool" where
  "merged_lane_paid_pool env parent w =
     (case committed_h_fc (ce_lib env) parent of Some h \<Rightarrow> pending_paid_pool h (nw_pending w) | None \<Rightarrow> False)"

definition merged_chain_hash :: "('tx, 'addr) client_env \<Rightarrow> 'tx block \<Rightarrow> ('tx, 'addr) node_world \<Rightarrow> hash option" where
  "merged_chain_hash env parent w =
     (if \<not> ce_merged_mining env then None
      else case committed_h_fc (ce_lib env) parent of None \<Rightarrow> None
        | Some key \<Rightarrow>
            (case pending_get key (nw_pending w) of
               Some fc \<Rightarrow> Some (chain_hash env parent fc)
             | None \<Rightarrow> committed_h_fc_legacy (ce_lib env) parent))"

definition merged_zkas_daa :: "('tx, 'addr) client_env \<Rightarrow> 'tx block \<Rightarrow> ('tx, 'addr) node_world \<Rightarrow> nat option" where
  "merged_zkas_daa env parent w =
     (if \<not> ce_merged_mining env then None
      else case committed_h_fc (ce_lib env) parent of None \<Rightarrow> None
        | Some key \<Rightarrow> map_option (\<lambda>fc. bh_daa_score (blk_header fc)) (pending_get key (nw_pending w)))"

definition claim_network_solution :: "('tx, 'addr) client_env \<Rightarrow> 'tx block \<Rightarrow> ('tx, 'addr) node_world \<Rightarrow> bool \<times> ('tx, 'addr) node_world" where
  "claim_network_solution env job w =
     (if \<not> ce_merged_mining env then (True, w)
      else case committed_h_fc (ce_lib env) job of None \<Rightarrow> (True, w)
        | Some h \<Rightarrow> (let (b, p) = claim_solution h (nw_pending w) in (b, w\<lparr>nw_pending := p\<rparr>)))"

subsection \<open>Submission\<close>

definition kaspa_submit_call :: "'tx block \<Rightarrow> ('tx, 'addr) node_world \<Rightarrow> (string + submit_report) \<times> ('tx, 'addr) node_world" where
  "kaspa_submit_call parent w =
     (nw_kaspa_submit w (length (nw_kaspa_log w)), w\<lparr>nw_kaspa_log := nw_kaspa_log w @ [parent]\<rparr>)"

definition submit_merged_parent_if_solved ::
  "('tx, 'addr) client_env \<Rightarrow> 'tx block \<Rightarrow> ('tx, 'addr) node_world \<Rightarrow> parent_submit_outcome \<times> ('tx, 'addr) node_world" where
  "submit_merged_parent_if_solved env parent w =
     (if \<not> ce_merged_mining env then (NotMerged, w)
      else if \<not> fst (check_pow (ce_lib env) (blk_header parent) (bh_nonce (blk_header parent))) then (DoesNotClearKaspa, w)
      else if \<not> ce_has_kaspa_client env then (NoKaspaClient, w)
      else let (reply, w') = kaspa_submit_call parent w
        in (case reply of
              Inr Success \<Rightarrow> ParentAccepted
            | Inr (Reject reason) \<Rightarrow> ParentRejected (reject_label reason)
            | Inl e \<Rightarrow> TransportError e, w'))"

definition zkas_submit_call :: "'tx aux_block \<Rightarrow> ('tx, 'addr, string + submit_report) node_act" where
  "zkas_submit_call b w =
     (Inr (nw_zkas_submit w (length (nw_zkas_log w))), w\<lparr>nw_zkas_log := nw_zkas_log w @ [b]\<rparr>)"

text \<open>What goes to the ZKas node: in merged mode the pending block with the auxiliary proof of the solved parent.\<close>

definition block_to_submit :: "('tx, 'addr) client_env \<Rightarrow> 'tx block \<Rightarrow> ('tx, 'addr) node_world \<Rightarrow> string + 'tx aux_block" where
  "block_to_submit env b w =
     (if ce_merged_mining env then
        (case Option.bind (committed_h_fc (ce_lib env) b) (\<lambda>h. pending_get h (nw_pending w)) of
           Some fc \<Rightarrow> (case assemble_aux_block env b fc of Some x \<Rightarrow> Inr x | None \<Rightarrow> Inl ''index out of bounds'')
         | None \<Rightarrow> Inl ''merged: no pending ZKas block for the solved parent (stale template)'')
      else Inr \<lparr>ab_header = blk_header b, ab_aux = None, ab_txs = blk_txs b\<rparr>)"

definition aux_block_hash :: "('tx, 'addr) client_env \<Rightarrow> 'tx aux_block \<Rightarrow> string" where
  "aux_block_hash env b = hex_encode (header_hash (ce_lib env) (ab_header b))"

definition mark_block :: "string \<Rightarrow> nat \<Rightarrow> ('tx, 'addr, bool) node_act" where
  "mark_block hash tm w = (let (b, g) = try_mark hash tm (nw_submit_guard w) in (Inr b, w\<lparr>nw_submit_guard := g\<rparr>))"

definition unmark_block :: "string \<Rightarrow> nat \<Rightarrow> ('tx, 'addr, unit) node_act" where
  "unmark_block hash tm w = (Inr (), w\<lparr>nw_submit_guard := block_guard_remove hash tm (nw_submit_guard w)\<rparr>)"

text \<open>The text of an RPC error is its outermost context, not the node's message.\<close>

definition SUBMIT_CONTEXT :: string where "SUBMIT_CONTEXT = ''Failed to submit block''"

definition settle_submit :: "string \<Rightarrow> string + submit_report \<Rightarrow> ('tx, 'addr, block_submit_outcome) node_act" where
  "settle_submit hash reply =
     (case reply of
        Inr Success \<Rightarrow> ret SubmitAccepted
      | Inr (Reject reason) \<Rightarrow> ret (RejectedByNode reason)
      | Inl _ \<Rightarrow>
          bindE (if contains_text ''ErrDuplicateBlock'' SUBMIT_CONTEXT \<or> contains_text ''duplicate'' SUBMIT_CONTEXT then ret ()
                 else bindE node_now (unmark_block hash))
            (\<lambda>_. raise SUBMIT_CONTEXT))"

definition submit_block :: "('tx, 'addr) client_env \<Rightarrow> 'tx block \<Rightarrow> ('tx, 'addr, block_submit_outcome) node_act" where
  "submit_block env b =
     bindE (\<lambda>w. (block_to_submit env b w, w)) (\<lambda>x.
     bindE node_now (\<lambda>tm.
     bindE (mark_block (aux_block_hash env x) tm) (\<lambda>fresh.
       if \<not> fresh then raise ''ErrDuplicateBlock: block already submitted''
       else bindE (zkas_submit_call x) (settle_submit (aux_block_hash env x)))))"

subsection \<open>Templates\<close>

definition resolve_coinbase_recipient :: "('tx, 'addr) client_env \<Rightarrow> string \<Rightarrow> string + 'addr" where
  "resolve_coinbase_recipient env wallet =
     (case ce_coinbase_override env of Some a \<Rightarrow> Inr a
      | None \<Rightarrow> (case ce_parse_address env wallet of Inr a \<Rightarrow> Inr a
          | Inl e \<Rightarrow> Inl (''Could not decode address '' @ wallet @ '': '' @ e)))"

definition zkas_template_call :: "'addr \<Rightarrow> bytes \<Rightarrow> ('tx, 'addr, 'tx template_reply) node_act" where
  "zkas_template_call a tag w =
     (Inr (nw_zkas_template w (length (nw_zkas_requests w))), w\<lparr>nw_zkas_requests := nw_zkas_requests w @ [(a, tag)]\<rparr>)"

definition minute_of_hour :: "('tx, 'addr, nat) node_act" where
  "minute_of_hour w = (Inr (nw_wall w (nw_reads w) div 60 mod 60), w\<lparr>nw_reads := Suc (nw_reads w)\<rparr>)"

definition stash_pending :: "hash \<Rightarrow> 'tx block \<Rightarrow> bool \<Rightarrow> ('tx, 'addr, unit) node_act" where
  "stash_pending h fc paid w = (Inr (), w\<lparr>nw_pending := insert_with_payee h fc paid (nw_pending w)\<rparr>)"

text \<open>A failed fetch of a Kaspa parent falls back to a synthetic one.\<close>

definition or_synthetic :: "('tx, 'addr) client_env \<Rightarrow> 'tx block \<Rightarrow> ('tx, 'addr, 'tx block) node_act \<Rightarrow> ('tx, 'addr, 'tx block) node_act" where
  "or_synthetic env fc m w =
     (case m w of (Inr parent, w') \<Rightarrow> (Inr parent, w') | (Inl _, w') \<Rightarrow> (Inr (build_parent_block env fc), w'))"

definition merged_parent_for ::
  "('tx, 'addr) client_env \<Rightarrow> 'tx block \<Rightarrow> 'addr option \<Rightarrow> 64 word \<Rightarrow> ('tx, 'addr, 'tx block) node_act" where
  "merged_parent_for env fc kas_payout lane =
     (let h_fc = merge_key env fc
      in bindE minute_of_hour (\<lambda>minute.
         let payee = (if is_pool_fee_minute lane minute then None else kas_payout); paid_pool = (payee = None)
         in bindE (or_synthetic env fc (fetch_kaspa_parent env h_fc (merge_extra_data env fc) payee False)) (\<lambda>parent.
            bindE (stash_pending h_fc fc paid_pool) (\<lambda>_. ret parent))))"

text \<open>
  The retry loop by attempts left.  Serialising the header, which the code tries next, cannot
  fail (\<open>serialize_block_header\<close>), so its error branches are never taken; nor is the end of the loop.
\<close>

fun template_attempts ::
  "nat \<Rightarrow> ('tx, 'addr) client_env \<Rightarrow> string \<Rightarrow> nat \<Rightarrow> nat \<Rightarrow> 'addr option \<Rightarrow> 64 word \<Rightarrow> ('tx, 'addr, 'tx block) node_act" where
  "template_attempts 0 env wallet session_uid generation kas_payout lane = raise ''Failed to get valid block template''"
| "template_attempts (Suc n) env wallet session_uid generation kas_payout lane =
     bindE (lift_sum (resolve_coinbase_recipient env wallet)) (\<lambda>a.
     bindE (zkas_template_call a (build_lane_coinbase_tag (ce_coinbase_tag env) session_uid generation)) (\<lambda>reply.
       case reply of
         RpcFailed e \<Rightarrow>
           if 0 < n then template_attempts n env wallet session_uid generation kas_payout lane
           else raise (''Failed to get block template after 3 attempts: '' @ e)
       | ConversionFailed e \<Rightarrow>
           if contains_text ''Odd number of digits'' e \<and> 0 < n
           then template_attempts n env wallet session_uid generation kas_payout lane
           else if contains_text ''Odd number of digits'' e
           then raise (''Failed to convert RPC block to Block after 3 attempts: '' @ e @ '' - This usually indicates a malformed hash field ''
             @ ''in the block template from the Kaspa node. The block may have a hash with an odd-length hex string.'')
           else raise (''Failed to convert RPC block to Block: '' @ e)
       | Template fc \<Rightarrow>
           if ce_merged_mining env then merged_parent_for env fc kas_payout lane else ret fc))"

definition get_block_template ::
  "('tx, 'addr) client_env \<Rightarrow> string \<Rightarrow> nat \<Rightarrow> nat \<Rightarrow> 'addr option \<Rightarrow> 64 word \<Rightarrow> ('tx, 'addr, 'tx block) node_act" where
  "get_block_template env wallet session_uid generation kas_payout lane =
     template_attempts 3 env wallet session_uid generation kas_payout lane"

subsection \<open>The trait\<close>

record ('n, 'tx, 'addr) kaspa_api_trait =
  api_merged_fc_target :: "'tx block \<Rightarrow> 'n \<Rightarrow> nat option"
  api_merged_lane_paid_pool :: "'tx block \<Rightarrow> 'n \<Rightarrow> bool"
  api_merged_chain_hash :: "'tx block \<Rightarrow> 'n \<Rightarrow> hash option"
  api_merged_zkas_daa :: "'tx block \<Rightarrow> 'n \<Rightarrow> nat option"
  api_claim_network_solution :: "'tx block \<Rightarrow> 'n \<Rightarrow> bool \<times> 'n"
  api_submit_merged_parent :: "'tx block \<Rightarrow> 'n \<Rightarrow> parent_submit_outcome \<times> 'n"
  api_submit_block :: "'tx block \<Rightarrow> 'n \<Rightarrow> (string + block_submit_outcome) \<times> 'n"
  api_refresh_merged_parent :: "'tx block \<Rightarrow> 'addr option \<Rightarrow> 'n \<Rightarrow> (string + 'tx block option) \<times> 'n"

text \<open>
  The implementation for the client forwards every operation but \<open>merged_lane_paid_pool\<close>, for which
  the trait's default stays in force.
\<close>

definition default_merged_lane_paid_pool :: "'tx block \<Rightarrow> 'n \<Rightarrow> bool" where
  "default_merged_lane_paid_pool parent n = False"

definition KaspaApi_trait :: "('tx, 'addr) client_env \<Rightarrow> (('tx, 'addr) node_world, 'tx, 'addr) kaspa_api_trait" where
  "KaspaApi_trait env =
     \<lparr>api_merged_fc_target = merged_fc_target env, api_merged_lane_paid_pool = default_merged_lane_paid_pool,
      api_merged_chain_hash = merged_chain_hash env, api_merged_zkas_daa = merged_zkas_daa env,
      api_claim_network_solution = claim_network_solution env, api_submit_merged_parent = submit_merged_parent_if_solved env,
      api_submit_block = submit_block env, api_refresh_merged_parent = refresh_merged_parent env\<rparr>"

text \<open>The payee of a parent-only refresh, as the connection handler asks for it.\<close>

definition refresh_payee :: "('n, 'tx, 'addr) kaspa_api_trait \<Rightarrow> 'tx block \<Rightarrow> 'addr option \<Rightarrow> 'n \<Rightarrow> 'addr option" where
  "refresh_payee api job kas_payout n = (if api_merged_lane_paid_pool api job n then None else kas_payout)"

definition refresh_parent_of_job ::
  "('n, 'tx, 'addr) kaspa_api_trait \<Rightarrow> 'tx block \<Rightarrow> 'addr option \<Rightarrow> 'n \<Rightarrow> (string + 'tx block option) \<times> 'n" where
  "refresh_parent_of_job api job kas_payout n =
     api_refresh_merged_parent api job (refresh_payee api job kas_payout n) n"

section \<open>What is submitted\<close>

text \<open>
  C22. The hash the bridge reports for a solved parent is the hash of the block it submits.  When the
  ZKas block of a merged parent is pending, the block sent to the ZKas node has the transactions of
  that pending block and a proof with the solved parent's header and coinbase, and the hash given to
  events and confirmation polls is its header hash, before the security fork and after it; and the
  target used to recognise the solution is the one of the pending block.
\<close>

theorem reported_hash_is_submitted:
  assumes "ce_merged_mining env" and "committed_h_fc (ce_lib env) parent = Some key" and "pending_get key (nw_pending w) = Some fc"
  shows "\<exists>x aux. block_to_submit env parent w = Inr x \<and> merged_chain_hash env parent w = Some (header_hash (ce_lib env) (ab_header x)) \<and>
    ab_txs x = blk_txs fc \<and> ab_aux x = Some aux \<and> parent_header aux = blk_header parent \<and> parent_coinbase aux = hd (blk_txs parent) \<and>
    merged_fc_target env parent w = Some (calculate_target (bh_bits (ab_header x)))"
proof -
  obtain c cs where txs: "blk_txs parent = c # cs" using assms(2) by (auto simp: committed_h_fc_def split: list.splits)
  show ?thesis using assms txs
    by (auto simp: block_to_submit_def merged_chain_hash_def merged_fc_target_def assemble_aux_block_def assemble_aux_block_with_def
        chain_hash_def chain_hash_with_def bind_nonce_def split: option.split)
qed

text \<open>A sample: a merged parent with one coinbase, and its pending block.\<close>

definition sample_env :: "(bytes, nat) client_env" where
  "sample_env = \<lparr>ce_lib = shape_lib, ce_fork = (Some 100, \<lparr>fork_is_active = (\<lambda>_. True), genesis_hash = [9]\<rparr>),
     ce_precomputed = sample_header, ce_parse_address = (\<lambda>s. Inr (length s)), ce_address_text = (\<lambda>a. replicate a CHR ''a''),
     ce_merged_mining = True, ce_has_kaspa_client = True, ce_kaspa_pay = Some 1, ce_coinbase_override = None, ce_coinbase_tag = []\<rparr>"

definition sample_fc :: "bytes block" where
  "sample_fc = \<lparr>blk_header = sample_header\<lparr>bh_daa_score := 5, bh_nonce := 7\<rparr>, blk_txs = [[4, 4]]\<rparr>"

definition sample_key :: hash where "sample_key = to_le_bytes 8 7"

definition sample_parent :: "bytes block" where
  "sample_parent = \<lparr>blk_header = sample_header, blk_txs = [0 # sample_key, [3]]\<rparr>"

definition sample_node :: "(bytes, nat) node_world" where
  "sample_node = \<lparr>nw_pending = insert_with_payee sample_key sample_fc True (MergedPending_new 4096), nw_submit_guard = BLOCK_SUBMIT_GUARD,
     nw_parent_cache = None, nw_clock = (\<lambda>i. min i 10), nw_reads = 0, nw_wall = (\<lambda>_. 0), nw_zkas_submit = (\<lambda>_. Inr Success),
     nw_zkas_log = [], nw_kaspa_submit = (\<lambda>_. Inr Success), nw_kaspa_log = [], nw_zkas_template = (\<lambda>_. Template sample_fc),
     nw_zkas_requests = [], nw_kaspa_template = (\<lambda>_. Template sample_parent), nw_kaspa_requests = []\<rparr>"

lemma sample_committed: "committed_h_fc (ce_lib sample_env) sample_parent = Some sample_key"
  by (simp add: committed_h_fc_def sample_env_def sample_parent_def shape_lib_def)

lemma sample_pending: "pending_get sample_key (nw_pending sample_node) = Some sample_fc" "pending_paid_pool sample_key (nw_pending sample_node)"
  "is_unsolved sample_key (nw_pending sample_node)"
  by (simp_all add: sample_node_def pending_get_def pending_paid_pool_def pending_ok_new)
    (simp add: is_unsolved_def insert_with_payee_def Let_def MergedPending_new_def)

theorem reported_hash_is_submitted_witness:
  "\<exists>x. block_to_submit sample_env sample_parent sample_node = Inr x \<and> ab_txs x = blk_txs sample_fc"
  using reported_hash_is_submitted[OF _ sample_committed sample_pending(1)] by (auto simp: sample_env_def)

section \<open>A block is submitted once\<close>

fun submit_all :: "('tx, 'addr) client_env \<Rightarrow> 'tx block list \<Rightarrow> ('tx, 'addr) node_world \<Rightarrow> ('tx, 'addr) node_world" where
  "submit_all env [] w = w"
| "submit_all env (b # bs) w = submit_all env bs (snd (submit_block env b w))"

text \<open>One call sends at most one block, and only one the guard has just taken as new.\<close>

lemma submit_block_cases:
  fixes w :: "('tx, 'addr) node_world" and env :: "('tx, 'addr) client_env" and b :: "'tx block"
  assumes "\<exists>r. nw_zkas_submit w (length (nw_zkas_log w)) = Inr r"
  defines "w' \<equiv> snd (submit_block env b w)"
  obtains "w' = w"
  | x where "nw_submit_guard w' = snd (try_mark (aux_block_hash env x) (nw_clock w (nw_reads w)) (nw_submit_guard w))"
      and "nw_zkas_log w' = (if fst (try_mark (aux_block_hash env x) (nw_clock w (nw_reads w)) (nw_submit_guard w))
             then nw_zkas_log w @ [x] else nw_zkas_log w)"
      and "nw_clock w' = nw_clock w" and "nw_zkas_submit w' = nw_zkas_submit w"
proof (cases "block_to_submit env b w")
  case (Inl e)
  then show ?thesis using that(1) by (simp add: w'_def submit_block_def bindE_def)
next
  case (Inr x)
  obtain r where r: "nw_zkas_submit w (length (nw_zkas_log w)) = Inr r" using assms(1) by blast
  obtain fresh g where m: "try_mark (aux_block_hash env x) (nw_clock w (nw_reads w)) (nw_submit_guard w) = (fresh, g)" by fastforce
  show ?thesis
    by (rule that(2)[of x]; cases fresh; cases r)
      (simp_all add: w'_def submit_block_def bindE_def Inr node_now_def mark_block_def m zkas_submit_call_def settle_submit_def r Let_def)
qed

text \<open>All blocks sent so far are known to the guard, and it has room for the calls to come.\<close>

definition sent_known :: "('tx, 'addr) client_env \<Rightarrow> nat \<Rightarrow> nat \<Rightarrow> ('tx, 'addr) node_world \<Rightarrow> bool" where
  "sent_known env u n w \<longleftrightarrow> guard_ok (nw_submit_guard w) \<and> length (gd_order (nw_submit_guard w)) \<le> n \<and>
     distinct (map (aux_block_hash env) (nw_zkas_log w)) \<and>
     (\<forall>h \<in> aux_block_hash env ` set (nw_zkas_log w). \<exists>v. guard_seen id h (nw_submit_guard w) = Some v \<and> u \<le> v)"

lemma behind_less: "k \<in> set ks \<Longrightarrow> behind k ks < length ks"
  by (induction ks) (auto simp: behind_Cons)

lemma seen_in_order: "guard_ok g \<Longrightarrow> guard_seen ts k g = Some v \<Longrightarrow> k \<in> set (gd_order g)"
  by (force simp: guard_ok_def entries_ok_def guard_seen_def dest: map_of_SomeD)

lemma try_mark_order: "length (gd_order (snd (try_mark k t g))) \<le> Suc (length (gd_order g))"
proof -
  obtain xs where "gd_order g = xs @ gd_order (guard_prune id t g)" using guard_prune_sub by blast
  then have "length (gd_order (guard_prune id t g)) \<le> length (gd_order g)" by (metis length_append le_add2)
  then show ?thesis by (auto simp: try_mark_cases guard_enter_def)
qed

lemma sent_known_step:
  assumes "sent_known env u n w" and "\<exists>r. nw_zkas_submit w (length (nw_zkas_log w)) = Inr r"
    and time: "u \<le> nw_clock w (nw_reads w)" "nw_clock w (nw_reads w) \<le> u + gd_ttl (nw_submit_guard w)"
    and room: "n \<le> gd_max_entries (nw_submit_guard w)"
  shows "sent_known env u (Suc n) (snd (submit_block env b w))"
  using assms(2)
proof (rule submit_block_cases[where env = env and b = b])
  assume "snd (submit_block env b w) = w"
  then show ?thesis using assms(1) by (simp add: sent_known_def)
next
  fix x
  let ?w = "snd (submit_block env b w)" and ?h = "aux_block_hash env x" and ?t = "nw_clock w (nw_reads w)"
  assume g: "nw_submit_guard ?w = snd (try_mark ?h ?t (nw_submit_guard w))"
    and l: "nw_zkas_log ?w = (if fst (try_mark ?h ?t (nw_submit_guard w)) then nw_zkas_log w @ [x] else nw_zkas_log w)"
  have ok: "guard_ok (nw_submit_guard w)" and len: "length (gd_order (nw_submit_guard w)) \<le> n" using assms(1) by (auto simp: sent_known_def)
  have keep: "guard_seen id k (nw_submit_guard ?w) = Some v \<and> \<not> (k = ?h \<and> fst (try_mark ?h ?t (nw_submit_guard w)))"
    if k: "guard_seen id k (nw_submit_guard w) = Some v" "u \<le> v" for k v
  proof -
    have "guard_newer k (nw_submit_guard w) < gd_max_entries (nw_submit_guard w)"
      using behind_less[OF seen_in_order[OF ok k(1)]] len room by (simp add: guard_newer_def)
    moreover have "?t \<le> v + gd_ttl (nw_submit_guard w)" using time(2) k(2) by simp
    ultimately show ?thesis using try_mark_keeps[OF ok k(1), of ?t] g by auto
  qed
  have known: "\<exists>v. guard_seen id k (nw_submit_guard w) = Some v \<and> u \<le> v" if "k \<in> aux_block_hash env ` set (nw_zkas_log w)" for k
    using that assms(1) by (auto simp: sent_known_def)
  have "guard_ok (nw_submit_guard ?w)" using blocks.mark_inv[OF ok] g by simp
  moreover have "length (gd_order (nw_submit_guard ?w)) \<le> Suc n" using try_mark_order[of ?h ?t "nw_submit_guard w"] len g by simp
  moreover have "distinct (map (aux_block_hash env) (nw_zkas_log ?w))"
    using assms(1) l known[of ?h] keep[of ?h] by (auto simp: sent_known_def)
  moreover have "\<exists>v. guard_seen id k (nw_submit_guard ?w) = Some v \<and> u \<le> v" if k: "k \<in> aux_block_hash env ` set (nw_zkas_log ?w)" for k
  proof (cases "k \<in> aux_block_hash env ` set (nw_zkas_log w)")
    case True
    then show ?thesis using known keep by blast
  next
    case False
    then have "k = ?h" "fst (try_mark ?h ?t (nw_submit_guard w))" using k l by (auto split: if_splits)
    then show ?thesis using blocks.mark_fresh[OF ok, of ?h ?t] g time(1) by auto
  qed
  ultimately show ?thesis by (simp add: sent_known_def)
qed

lemma submit_block_frame:
  assumes "\<exists>r. nw_zkas_submit w (length (nw_zkas_log w)) = Inr r"
  shows "nw_clock (snd (submit_block env b w)) = nw_clock w \<and> nw_zkas_submit (snd (submit_block env b w)) = nw_zkas_submit w \<and>
    gd_ttl (nw_submit_guard (snd (submit_block env b w))) = gd_ttl (nw_submit_guard w) \<and>
    gd_max_entries (nw_submit_guard (snd (submit_block env b w))) = gd_max_entries (nw_submit_guard w)"
  by (rule submit_block_cases[OF assms, where env = env and b = b]) (simp_all add: blocks.mark_limits)

lemma submit_all_known:
  "sent_known env u n w \<Longrightarrow> \<forall>i. \<exists>r. nw_zkas_submit w i = Inr r \<Longrightarrow>
   \<forall>i. u \<le> nw_clock w i \<and> nw_clock w i \<le> u + gd_ttl (nw_submit_guard w) \<Longrightarrow> n + length bs \<le> gd_max_entries (nw_submit_guard w) \<Longrightarrow>
   \<exists>m. sent_known env u m (submit_all env bs w)"
proof (induction bs arbitrary: n w)
  case (Cons b bs)
  have ok: "\<exists>r. nw_zkas_submit w (length (nw_zkas_log w)) = Inr r" using Cons.prems(2) by blast
  have "sent_known env u (Suc n) (snd (submit_block env b w))"
    by (rule sent_known_step[OF Cons.prems(1) ok]) (use Cons.prems in auto)
  then show ?case using Cons.IH[of "Suc n" "snd (submit_block env b w)"] Cons.prems submit_block_frame[OF ok, of env b] by simp
qed auto

text \<open>
  C21. No block is submitted twice.  Over any sequence of at most 50000 submissions within the ten
  minutes the guard remembers, with a node that answers (accepting or rejecting), the blocks sent to
  the node have pairwise different hashes, whatever solved parents the miners hand in.
\<close>

theorem blocks_submitted_once:
  assumes "nw_submit_guard w = BLOCK_SUBMIT_GUARD" and "nw_zkas_log w = []" and "\<forall>i. \<exists>r. nw_zkas_submit w i = Inr r"
    and "\<forall>i. u \<le> nw_clock w i \<and> nw_clock w i \<le> u + 600 * 10 ^ 9" and "length bs \<le> 50000"
  shows "distinct (map (aux_block_hash env) (nw_zkas_log (submit_all env bs w)))"
proof -
  have "sent_known env u 0 w" using assms(1,2) by (simp add: sent_known_def BLOCK_SUBMIT_GUARD_def guard_new_def guard_ok_def entries_ok_def)
  then obtain m where "sent_known env u m (submit_all env bs w)"
    using submit_all_known[of env u 0 w bs] assms by (auto simp: BLOCK_SUBMIT_GUARD_def guard_new_def)
  then show ?thesis by (simp add: sent_known_def)
qed

theorem blocks_submitted_once_witness:
  "distinct (map (aux_block_hash sample_env) (nw_zkas_log (submit_all sample_env [sample_parent, sample_parent] sample_node)))"
  by (rule blocks_submitted_once[of sample_node 0]) (auto simp: sample_node_def min_def)

section \<open>Who a merged lane pays\<close>

lemma fetch_requests:
  "nw_kaspa_requests (snd (fetch_kaspa_parent env h extra payee force w)) \<in>
     {nw_kaspa_requests w} \<union> {nw_kaspa_requests w @ [(a, extra)] | a. parent_payee env payee = Inr a}"
  "nw_pending (snd (fetch_kaspa_parent env h extra payee force w)) = nw_pending w"
  by (auto simp: fetch_kaspa_parent_def bindE_def lift_sum_def node_now_def gets_def kaspa_template_call_def set_parent_cache_def
      ret_def raise_def split: sum.split option.split template_reply.split)

lemma synthetic_frame:
  "nw_kaspa_requests (snd (or_synthetic env fc m w)) = nw_kaspa_requests (snd (m w))"
  "nw_pending (snd (or_synthetic env fc m w)) = nw_pending (snd (m w))"
  "\<exists>parent. fst (or_synthetic env fc m w) = Inr parent"
  by (simp_all add: or_synthetic_def split: prod.split sum.split)

text \<open>
  The payee recorded with a template is the payee of its parent.  Building the parent of a merged
  lane never fails; it asks the Kaspa node at most once, for a block that pays the pool in the
  lane's fee minute or when the miner gave no address, and the miner's own address otherwise; and
  the pending block is stored with exactly that answer.
\<close>

theorem template_records_payee:
  fixes env :: "('tx, 'addr) client_env" and kas_payout :: "'addr option" and lane :: "64 word" and fc :: "'tx block"
  assumes "pending_ok (nw_pending w)"
  defines "pool \<equiv> is_pool_fee_minute lane (nw_wall w (nw_reads w) div 60 mod 60) \<or> kas_payout = None"
  defines "r \<equiv> merged_parent_for env fc kas_payout lane w"
  shows "(\<exists>parent. fst r = Inr parent) \<and> pending_get (merge_key env fc) (nw_pending (snd r)) = Some fc \<and>
    (pending_paid_pool (merge_key env fc) (nw_pending (snd r)) \<longleftrightarrow> pool) \<and>
    (nw_kaspa_requests (snd r) = nw_kaspa_requests w \<or>
     (\<exists>a. nw_kaspa_requests (snd r) = nw_kaspa_requests w @ [(a, merge_extra_data env fc)] \<and>
        Some a = (if pool then ce_kaspa_pay env else kas_payout)))"
proof -
  define payee where "payee = (if is_pool_fee_minute lane (nw_wall w (nw_reads w) div 60 mod 60) then None else kas_payout)"
  let ?m = "fetch_kaspa_parent env (merge_key env fc) (merge_extra_data env fc) payee False" and ?w = "w\<lparr>nw_reads := Suc (nw_reads w)\<rparr>"
  obtain parent where parent: "fst (or_synthetic env fc ?m ?w) = Inr parent" using synthetic_frame(3) by blast
  let ?v = "snd (or_synthetic env fc ?m ?w)"
  have pool: "(payee = None) = pool" by (simp add: payee_def pool_def)
  have r: "r = (Inr parent, ?v\<lparr>nw_pending := insert_with_payee (merge_key env fc) fc pool (nw_pending w)\<rparr>)"
    using parent pool fetch_requests(2)[of env "merge_key env fc" "merge_extra_data env fc" payee False ?w] synthetic_frame(2)[of env fc ?m ?w]
    by (cases "or_synthetic env fc ?m ?w")
      (simp add: r_def merged_parent_for_def bindE_def minute_of_hour_def stash_pending_def ret_def Let_def flip: payee_def)
  have pay: "Some a = (if pool then ce_kaspa_pay env else kas_payout)" if "parent_payee env payee = Inr a" for a
    using that by (auto simp: parent_payee_def pool_def payee_def split: if_splits option.splits)
  have "nw_kaspa_requests ?v = nw_kaspa_requests w \<or>
     (\<exists>a. nw_kaspa_requests ?v = nw_kaspa_requests w @ [(a, merge_extra_data env fc)] \<and> parent_payee env payee = Inr a)"
    using fetch_requests(1)[of env "merge_key env fc" "merge_extra_data env fc" payee False ?w] by (auto simp: synthetic_frame)
  then show ?thesis using pay insert_same(1,2)[OF assms(1)] unfolding r by (auto simp: pending_get_def pending_paid_pool_def)
qed

theorem template_records_payee_witness:
  "\<exists>parent. fst (merged_parent_for sample_env sample_fc (Some 2) 17 sample_node) = Inr parent"
  using template_records_payee[where w = sample_node and lane = 17 and kas_payout = "Some 2" and env = sample_env and fc = sample_fc]
  by (auto simp: sample_node_def insert_with_payee_ok pending_ok_new)

text \<open>
  C30. The pool's minute does not survive a refresh of the parent.  The connection handler asks through
  the trait whether the lane paid the pool, and the implementation of the trait for the client
  leaves that question to the default, which says no.  So a parent-only refresh of a job whose
  template was recorded as paying the pool requests a Kaspa block that pays the miner.
\<close>

theorem refresh_ignores_pool_minute:
  assumes "ce_merged_mining env" and "ce_has_kaspa_client env" and "committed_h_fc (ce_lib env) job = Some h"
    and "is_unsolved h (nw_pending w)" and "pending_get h (nw_pending w) = Some fc" and "merged_lane_paid_pool env job w"
  shows "nw_kaspa_requests (snd (refresh_parent_of_job (KaspaApi_trait env) job (Some a) w)) =
    nw_kaspa_requests w @ [(a, merge_extra_data env fc)]"
  using assms
  by (auto simp: refresh_parent_of_job_def refresh_payee_def KaspaApi_trait_def default_merged_lane_paid_pool_def refresh_merged_parent_def
      fetch_kaspa_parent_def parent_payee_def bindE_def lift_sum_def node_now_def gets_def cached_parent_def kaspa_template_call_def
      set_parent_cache_def ret_def raise_def split: option.split template_reply.split prod.split)

theorem refresh_ignores_pool_minute_witness:
  "merged_lane_paid_pool sample_env sample_parent sample_node \<and>
   nw_kaspa_requests (snd (refresh_parent_of_job (KaspaApi_trait sample_env) sample_parent (Some 2) sample_node)) =
     [(2, merge_extra_data sample_env sample_fc)]"
proof -
  have "merged_lane_paid_pool sample_env sample_parent sample_node"
    by (simp add: merged_lane_paid_pool_def sample_committed sample_pending)
  then show ?thesis
    using refresh_ignores_pool_minute[OF _ _ sample_committed sample_pending(3,1), of 2]
    by (simp add: sample_env_def) (simp add: sample_node_def)
qed

end
