(* ===== verification/Share_Submit.thy ===== *)
theory Share_Submit
  imports Stratum_Context Node_Client Hoare_Act
begin

text \<open>
  Share validation (\<open>bridge/src/share_handler.rs\<close>): \<open>handle_submit\<close>, from the parameters a miner sends to
  the share that is credited, the block that is submitted and the reply.

  The state \<open>bridge\<close> holds the connection, the workers' statistics, the guard of submissions, the
  node behind the trait, and logs of what was published, refreshed, spawned and replied.  Clocks,
  the socket and the node are oracles inside it.  A submission is one action; it awaits the node
  and the socket, but what protects it against a concurrent copy of itself, the guard, is
  entered before the first await.  Metrics and log lines are left out, and the counters are
  unbounded (they are \<open>i64\<close> increments).
\<close>

section \<open>The model\<close>

datatype submit_error =
    Malformed | BadJobId string | JobIdRange | JobIdType | UnknownJob | NonceType | BadNonce string
  | Disconnected | ReplyFailed | Panic

record work_stats =
  ws_blocks_found :: int
  ws_shares_found :: int
  ws_shares_diff :: f64
  ws_stale_shares :: int
  ws_invalid_shares :: int
  ws_worker_name :: string
  ws_start_time :: nat
  ws_last_share :: nat
  ws_var_diff_start_time :: "nat option"
  ws_var_diff_shares_found :: int
  ws_var_diff_window :: nat
  ws_min_diff :: f64
  ws_active_connections :: nat
  ws_last_session_activity :: nat

definition WorkStats_new :: "string \<Rightarrow> nat \<Rightarrow> work_stats" where
  "WorkStats_new worker tm =
     \<lparr>ws_blocks_found = 0, ws_shares_found = 0, ws_shares_diff = Fin 0, ws_stale_shares = 0, ws_invalid_shares = 0,
      ws_worker_name = worker, ws_start_time = tm, ws_last_share = tm, ws_var_diff_start_time = None,
      ws_var_diff_shares_found = 0, ws_var_diff_window = 0, ws_min_diff = Fin 0, ws_active_connections = 0,
      ws_last_session_activity = tm\<rparr>"

text \<open>A spawned confirmation task: the worker it credits, the block's hash, its nonce and blue score.\<close>

record confirm_task =
  ct_stats_key :: string
  ct_hash :: string
  ct_nonce :: nat
  ct_blue_score :: nat

record ('n, 'tx, 'addr) bridge =
  br_ctx :: "('tx, 'addr) ctx"
  br_link :: link
  br_stats :: "string \<rightharpoonup> work_stats"
  br_overall :: work_stats
  br_guard :: "submit_entry guard"
  br_bus :: bool
  br_events :: "pool_event list"
  br_refreshes :: "nat list"
  br_parents :: "(parent_submit_outcome \<times> bool \<times> bool) list"
  br_confirms :: "confirm_task list"
  br_replies :: "json_response list"
  br_clock :: "nat \<Rightarrow> nat"
  br_wall :: "nat \<Rightarrow> nat"
  br_reads :: nat
  br_node :: 'n

text \<open>What a submission is handled with: the library, the node behind the trait, the serialiser.\<close>

record ('n, 'tx, 'addr) share_env =
  se_lib :: "'tx consensus_lib"
  se_api :: "('n, 'tx, 'addr) kaspa_api_trait"
  se_to_string :: "json_response \<Rightarrow> string"

type_synonym ('n, 'tx, 'addr, 'a) share_act = "(('n, 'tx, 'addr) bridge, submit_error, 'a) act"

subsection \<open>Basic steps\<close>

definition read_clock :: "('n, 'tx, 'addr, nat) share_act" where
  "read_clock b = (Inr (br_clock b (br_reads b)), b\<lparr>br_reads := Suc (br_reads b)\<rparr>)"

text \<open>The wall clock, in milliseconds.\<close>

definition read_wall :: "('n, 'tx, 'addr, nat) share_act" where
  "read_wall b = (Inr (br_wall b (br_reads b)), b\<lparr>br_reads := Suc (br_reads b)\<rparr>)"

definition emit :: "pool_event \<Rightarrow> ('n, 'tx, 'addr, unit) share_act" where
  "emit ev b = (Inr (), if br_bus b then b\<lparr>br_events := br_events b @ [ev]\<rparr> else b)"

definition build_share_rejected :: "string \<Rightarrow> string \<Rightarrow> share_reject_reason \<Rightarrow> nat \<Rightarrow> nat \<Rightarrow> pool_event option" where
  "build_share_rejected wallet_raw worker_raw reason ts correlation_id =
     (case (WalletAddress_new wallet_raw, WorkerName_new worker_raw) of
        (Inr wallet, Inr worker) \<Rightarrow> Some (ShareRejected wallet worker reason ts correlation_id)
      | _ \<Rightarrow> None)"

definition emit_rejected :: "string \<Rightarrow> string \<Rightarrow> share_reject_reason \<Rightarrow> nat \<Rightarrow> ('n, 'tx, 'addr, unit) share_act" where
  "emit_rejected wallet worker reason correlation_id =
     bindE read_wall (\<lambda>ts.
       case build_share_rejected wallet worker reason ts correlation_id of Some ev \<Rightarrow> emit ev | None \<Rightarrow> ret ())"

definition update_ctx :: "(('tx, 'addr) ctx \<Rightarrow> 'a \<times> ('tx, 'addr) ctx) \<Rightarrow> ('n, 'tx, 'addr, 'a) share_act" where
  "update_ctx f b = (let (a, c) = f (br_ctx b) in (Inr a, b\<lparr>br_ctx := c\<rparr>))"

definition reply :: "('n, 'tx, 'addr) share_env \<Rightarrow> json_response \<Rightarrow> ('n, 'tx, 'addr, unit) share_act" where
  "reply env response b =
     (case reply_on (se_to_string env) response (br_ctx b, br_link b) of
        (True, c, l) \<Rightarrow> (Inr (), b\<lparr>br_ctx := c, br_link := l, br_replies := br_replies b @ [response]\<rparr>)
      | (False, c, l) \<Rightarrow> (Inl Disconnected, b\<lparr>br_ctx := c, br_link := l\<rparr>))"

definition reply_stale_share :: "('n, 'tx, 'addr) share_env \<Rightarrow> json option \<Rightarrow> ('n, 'tx, 'addr, unit) share_act" where
  "reply_stale_share env i = reply env (response_error i 21 ''Job not found'' None)"

definition reply_bad_share :: "('n, 'tx, 'addr) share_env \<Rightarrow> json option \<Rightarrow> ('n, 'tx, 'addr, unit) share_act" where
  "reply_bad_share env i = reply env (response_error i 20 ''Unknown problem'' None)"

definition reply_low_diff_share :: "('n, 'tx, 'addr) share_env \<Rightarrow> json \<Rightarrow> ('n, 'tx, 'addr, unit) share_act" where
  "reply_low_diff_share env i = reply env (response_error (Some i) 23 ''Invalid difficulty'' None)"

text \<open>\<open>let _ =\<close>: the result of an action is dropped.\<close>

definition ignore_result :: "('s, 'e, 'a) act \<Rightarrow> ('s, 'e, unit) act" where
  "ignore_result m s = (Inr (), snd (m s))"

definition reply_low_diff_if_id :: "('n, 'tx, 'addr) share_env \<Rightarrow> json option \<Rightarrow> ('n, 'tx, 'addr, unit) share_act" where
  "reply_low_diff_if_id env i = (case i of Some j \<Rightarrow> ignore_result (reply_low_diff_share env j) | None \<Rightarrow> ret ())"

subsection \<open>Statistics\<close>

definition stats_key :: "('tx, 'addr) ctx \<Rightarrow> string" where
  "stats_key c = map to_ascii_lower (trim (cx_wallet_addr c)) @ [CHR 0x00] @ vardiff_worker_identity c"

definition current_stratum_diff :: "('tx, 'addr) ctx \<Rightarrow> f64" where
  "current_stratum_diff c = (case ms_stratum_diff (cx_state c) of Some d \<Rightarrow> kd_diff_value d | None \<Rightarrow> Fin 0)"

definition new_stats :: "('tx, 'addr) ctx \<Rightarrow> string \<Rightarrow> nat \<Rightarrow> work_stats" where
  "new_stats c worker tm =
     (let seeded = current_stratum_diff c; s = WorkStats_new worker tm
      in if f64_lt (Fin 0) seeded then s\<lparr>ws_min_diff := seeded\<rparr> else s)"

text \<open>The statistics are shared by reference; the model returns their key and updates them in place.\<close>

definition get_create_stats :: "('n, 'tx, 'addr, string) share_act" where
  "get_create_stats =
     bindE (update_ctx effective_worker_name) (\<lambda>worker.
     bindE (gets br_ctx) (\<lambda>c.
     bindE read_clock (\<lambda>tm b.
       let key = stats_key c
       in (Inr key, if br_stats b key = None then b\<lparr>br_stats := (br_stats b)(key \<mapsto> new_stats c worker tm)\<rparr> else b))))"

definition update_stats :: "string \<Rightarrow> (work_stats \<Rightarrow> work_stats) \<Rightarrow> ('n, 'tx, 'addr, unit) share_act" where
  "update_stats key f b = (Inr (), b\<lparr>br_stats := (br_stats b)(key := map_option f (br_stats b key))\<rparr>)"

definition update_overall :: "(work_stats \<Rightarrow> work_stats) \<Rightarrow> ('n, 'tx, 'addr, unit) share_act" where
  "update_overall f b = (Inr (), b\<lparr>br_overall := f (br_overall b)\<rparr>)"

definition bump_stale :: "work_stats \<Rightarrow> work_stats" where "bump_stale s = s\<lparr>ws_stale_shares := ws_stale_shares s + 1\<rparr>"
definition bump_invalid :: "work_stats \<Rightarrow> work_stats" where "bump_invalid s = s\<lparr>ws_invalid_shares := ws_invalid_shares s + 1\<rparr>"
definition bump_shares :: "work_stats \<Rightarrow> work_stats" where "bump_shares s = s\<lparr>ws_shares_found := ws_shares_found s + 1\<rparr>"
definition bump_blocks :: "work_stats \<Rightarrow> work_stats" where "bump_blocks s = s\<lparr>ws_blocks_found := ws_blocks_found s + 1\<rparr>"

subsection \<open>Parameters\<close>

definition parse_job_id :: "json \<Rightarrow> submit_error + nat" where
  "parse_job_id p =
     (case p of
        JStr s \<Rightarrow> (case from_str_radix u64_max 10 s of Inl e \<Rightarrow> Inl (BadJobId e) | Inr n \<Rightarrow> Inr n)
      | JNum n \<Rightarrow> (case n of PosInt k \<Rightarrow> Inr k | _ \<Rightarrow> Inl JobIdRange)
      | _ \<Rightarrow> Inl JobIdType)"

text \<open>The submitted job, or else the newest stored one, with the id it is stored under.\<close>

definition find_submitted_job :: "nat \<Rightarrow> 'b mining_state \<Rightarrow> (nat \<times> 'b job) option" where
  "find_submitted_job i ms = (case get_job i ms of Some j \<Rightarrow> Some (i, j) | None \<Rightarrow> latest_job ms)"

definition nonce_param :: "json list \<Rightarrow> submit_error + string" where
  "nonce_param params =
     (case params ! (if 5 \<le> length params then 4 else 2) of JStr s \<Rightarrow> Inr s | _ \<Rightarrow> Inl NonceType)"

fun remove_0x :: "string \<Rightarrow> string" where
  "remove_0x (a # b # cs) = (if a = CHR ''0'' \<and> b = CHR ''x'' then remove_0x cs else a # remove_0x (b # cs))"
| "remove_0x cs = cs"

definition pad_zeros :: "nat \<Rightarrow> string \<Rightarrow> string" where
  "pad_zeros width s = replicate (width - length s) CHR ''0'' @ s"

text \<open>\<open>16 - extranonce.len()\<close> panics for an extranonce of more than sixteen characters.\<close>

definition final_nonce :: "string \<Rightarrow> string \<Rightarrow> submit_error + string" where
  "final_nonce extranonce nonce =
     (if extranonce = '''' then Inr nonce
      else if 16 < length extranonce then Inl Panic
      else let extranonce2_len = 16 - length extranonce
        in if length nonce \<le> extranonce2_len then Inr (extranonce @ pad_zeros extranonce2_len nonce) else Inr nonce)"

definition parse_nonce :: "string \<Rightarrow> submit_error + nat" where
  "parse_nonce s = (case from_str_radix u64_max 16 s of Inl e \<Rightarrow> Inl (BadNonce e) | Inr n \<Rightarrow> Inr n)"

definition submit_key :: "string \<Rightarrow> nat \<Rightarrow> string \<Rightarrow> string" where
  "submit_key worker job_id nonce = worker @ ''|'' @ show_nat job_id @ ''|'' @ nonce"

subsection \<open>Duplicates\<close>

definition check_duplicate :: "string \<Rightarrow> ('n, 'tx, 'addr, submit_outcome option) share_act" where
  "check_duplicate key =
     bindE read_clock (\<lambda>tm b.
       let (found, g) = submit_guard_check key tm (br_guard b) in (Inr found, b\<lparr>br_guard := g\<rparr>))"

definition settle_outcome :: "string \<Rightarrow> submit_outcome \<Rightarrow> ('n, 'tx, 'addr, unit) share_act" where
  "settle_outcome key outcome = bindE read_clock (\<lambda>tm b. (Inr (), b\<lparr>br_guard := set_outcome key tm outcome (br_guard b)\<rparr>))"

definition reply_duplicate :: "('n, 'tx, 'addr) share_env \<Rightarrow> json option \<Rightarrow> submit_outcome \<Rightarrow> ('n, 'tx, 'addr, unit) share_act" where
  "reply_duplicate env i outcome =
     (case outcome of
        Accepted \<Rightarrow> reply env (response_success i (JBool True))
      | InFlight \<Rightarrow> reply env (response_success i (JBool True))
      | Stale \<Rightarrow> reply_stale_share env i
      | LowDiff \<Rightarrow> reply_low_diff_if_id env i
      | Bad \<Rightarrow> reply_bad_share env i)"

subsection \<open>A share that meets a network target\<close>

definition on_node :: "('n \<Rightarrow> 'a \<times> 'n) \<Rightarrow> ('n, 'tx, 'addr, 'a) share_act" where
  "on_node f b = (let (a, n) = f (br_node b) in (Inr a, b\<lparr>br_node := n\<rparr>))"

definition submit_parent_then_claim_zkas ::
  "('n, 'tx, 'addr) kaspa_api_trait \<Rightarrow> 'tx block \<Rightarrow> 'tx block \<Rightarrow> bool \<Rightarrow> 'n \<Rightarrow> (parent_submit_outcome \<times> bool) \<times> 'n" where
  "submit_parent_then_claim_zkas api solved_parent job_parent clears_zkas n =
     (let (outcome, n1) = api_submit_merged_parent api solved_parent n
      in if clears_zkas then let (claimed, n2) = api_claim_network_solution api job_parent n1 in ((outcome, claimed), n2)
         else ((outcome, False), n1))"

definition log_parent :: "parent_submit_outcome \<Rightarrow> bool \<Rightarrow> bool \<Rightarrow> ('n, 'tx, 'addr, unit) share_act" where
  "log_parent outcome claimed paid_pool b = (Inr (), b\<lparr>br_parents := br_parents b @ [(outcome, claimed, paid_pool)]\<rparr>)"

definition request_refresh :: "('n, 'tx, 'addr, unit) share_act" where
  "request_refresh b = (Inr (), b\<lparr>br_refreshes := br_refreshes b @ [cx_session_uid (br_ctx b)]\<rparr>)"

text \<open>A rig that works on a template more than ten seconds old is disconnected.\<close>

definition kick_stale_rig :: "nat \<Rightarrow> ('n, 'tx, 'addr, unit) share_act" where
  "kick_stale_rig timestamp =
     bindE read_wall (\<lambda>ms.
       if 10 < (ms - timestamp) div 1000 then update_ctx (\<lambda>c. ((), disconnect c)) else ret ())"

definition block_hash_text :: "('n, 'tx, 'addr) share_env \<Rightarrow> 'tx block \<Rightarrow> 'n \<Rightarrow> string" where
  "block_hash_text env b n =
     hex_encode (case api_merged_chain_hash (se_api env) b n of Some h \<Rightarrow> h | None \<Rightarrow> header_hash (se_lib env) (blk_header b))"

definition daa_of_block :: "('n, 'tx, 'addr) share_env \<Rightarrow> 'tx block \<Rightarrow> 'n \<Rightarrow> nat" where
  "daa_of_block env b n =
     (case api_merged_zkas_daa (se_api env) b n of Some d \<Rightarrow> d | None \<Rightarrow> bh_daa_score (blk_header b))"

definition emit_block_found :: "string \<Rightarrow> string \<Rightarrow> string \<Rightarrow> nat \<Rightarrow> nat \<Rightarrow> ('n, 'tx, 'addr, unit) share_act" where
  "emit_block_found wallet worker hash daa correlation_id =
     (case (WalletAddress_new wallet, WorkerName_new worker, BlockHash_from_hex hash) of
        (Inr w, Inr k, Inr h) \<Rightarrow> bindE read_wall (\<lambda>ts. emit (BlockFound w k h daa ts correlation_id))
      | _ \<Rightarrow> ret ())"

definition emit_block_accepted :: "string \<Rightarrow> nat \<Rightarrow> ('n, 'tx, 'addr, unit) share_act" where
  "emit_block_accepted hash correlation_id =
     (case BlockHash_from_hex hash of
        Inr h \<Rightarrow> bindE read_wall (\<lambda>ts. emit (BlockAccepted h ts correlation_id))
      | Inl _ \<Rightarrow> ret ())"

definition spawn_confirm :: "confirm_task \<Rightarrow> ('n, 'tx, 'addr, unit) share_act" where
  "spawn_confirm t b = (Inr (), b\<lparr>br_confirms := br_confirms b @ [t]\<rparr>)"

text \<open>How the loop over jobs ends: the share is valid or not for the job reached, or the reply has been given.\<close>

datatype 'tx walk_end = Judged bool nat "'tx block job" | Returned

definition accept_block :: "string \<Rightarrow> nat \<Rightarrow> 'tx block \<Rightarrow> nat \<Rightarrow> ('n, 'tx, 'addr, unit) share_act" where
  "accept_block hash nonce b correlation_id =
     bindE get_create_stats (\<lambda>key.
     bindE (emit_block_accepted hash correlation_id) (\<lambda>_.
       spawn_confirm \<lparr>ct_stats_key = key, ct_hash = hash, ct_nonce = nonce, ct_blue_score = bh_blue_score (blk_header b)\<rparr>))"

definition reject_block ::
  "('n, 'tx, 'addr) share_env \<Rightarrow> json option \<Rightarrow> string \<Rightarrow> string \<Rightarrow> string \<Rightarrow> string \<Rightarrow> nat \<Rightarrow> ('n, 'tx, 'addr, unit) share_act" where
  "reject_block env i key error_str wallet worker correlation_id =
     (if contains_text ''ErrDuplicateBlock'' error_str then
        bindE (settle_outcome key Stale) (\<lambda>_.
        bindE get_create_stats (\<lambda>sk.
        bindE (update_stats sk bump_stale) (\<lambda>_.
        bindE (update_overall bump_stale) (\<lambda>_.
        bindE (emit_rejected wallet worker RStale correlation_id) (\<lambda>_.
          reply_stale_share env i)))))
      else
        bindE get_create_stats (\<lambda>sk.
        bindE (update_stats sk bump_invalid) (\<lambda>_.
        bindE (update_overall bump_invalid) (\<lambda>_.
        bindE (emit_rejected wallet worker RBadPow correlation_id) (\<lambda>_.
        bindE (settle_outcome key Bad) (\<lambda>_.
          reply_bad_share env i))))))"

text \<open>The claimed ZKas block: announced, submitted, and settled by the node's answer.\<close>

definition submit_claimed_block ::
  "('n, 'tx, 'addr) share_env \<Rightarrow> json option \<Rightarrow> string \<Rightarrow> nat \<Rightarrow> string \<Rightarrow> string \<Rightarrow> nat \<Rightarrow> 'tx block job \<Rightarrow> 'tx block \<Rightarrow>
   ('n, 'tx, 'addr, 'tx walk_end) share_act" where
  "submit_claimed_block env i key correlation_id wallet worker job_id job b =
     bindE request_refresh (\<lambda>_.
     bindE (kick_stale_rig (bh_timestamp (blk_header b))) (\<lambda>_.
     bindE (gets (\<lambda>s. (block_hash_text env b (br_node s), daa_of_block env b (br_node s)))) (\<lambda>(hash, daa).
     bindE (emit_block_found wallet worker hash daa correlation_id) (\<lambda>_.
     bindE (on_node (api_submit_block (se_api env) b)) (\<lambda>answer.
       case answer of
         Inr (RejectedByNode _) \<Rightarrow> ret (Judged False job_id job)
       | Inr SubmitAccepted \<Rightarrow>
           bindE (accept_block hash (bh_nonce (blk_header b)) b correlation_id) (\<lambda>_. ret (Judged False job_id job))
       | Inl error_str \<Rightarrow>
           bindE (reject_block env i key error_str wallet worker correlation_id) (\<lambda>_. ret Returned))))))"

definition settle_network_share ::
  "('n, 'tx, 'addr) share_env \<Rightarrow> json option \<Rightarrow> string \<Rightarrow> nat \<Rightarrow> nat \<Rightarrow> bool \<Rightarrow> nat \<Rightarrow> 'tx block job \<Rightarrow>
   ('n, 'tx, 'addr, 'tx walk_end) share_act" where
  "settle_network_share env i key correlation_id nonce meets job_id job =
     bindE (gets (cx_wallet_addr \<circ> br_ctx)) (\<lambda>wallet.
     bindE (update_ctx effective_worker_name) (\<lambda>worker.
       let b = \<lparr>blk_header = (blk_header (job_block job))\<lparr>bh_nonce := nonce\<rparr>, blk_txs = blk_txs (job_block job)\<rparr>
       in bindE (on_node (submit_parent_then_claim_zkas (se_api env) b (job_block job) meets)) (\<lambda>(parent_outcome, claimed).
          bindE (gets (\<lambda>s. api_merged_lane_paid_pool (se_api env) b (br_node s))) (\<lambda>paid_pool.
          bindE (log_parent parent_outcome claimed paid_pool) (\<lambda>_.
            if \<not> meets then ret (Judged False job_id job)
            else if \<not> claimed then ret (Judged False job_id job)
            else submit_claimed_block env i key correlation_id wallet worker job_id job b)))))"

subsection \<open>The search for the job\<close>

definition MAX_COMPAT_JOB_ATTEMPTS :: nat where "MAX_COMPAT_JOB_ATTEMPTS = 8"

text \<open>The hash of the job's header with the submitted nonce, and what it is compared with.\<close>

definition share_pow :: "('n, 'tx, 'addr) share_env \<Rightarrow> nat \<Rightarrow> 'tx block job \<Rightarrow> bool \<times> nat" where
  "share_pow env nonce job = check_pow (se_lib env) ((blk_header (job_block job))\<lparr>bh_nonce := nonce\<rparr>) nonce"

definition network_target :: "('n, 'tx, 'addr) share_env \<Rightarrow> 'tx block job \<Rightarrow> 'n \<Rightarrow> nat" where
  "network_target env job n =
     (case api_merged_fc_target (se_api env) (job_block job) n of
        Some t \<Rightarrow> t
      | None \<Rightarrow> calculate_target (bh_bits (blk_header (job_block job))))"

definition job_difficulty :: "nat \<Rightarrow> 'b mining_state \<Rightarrow> kaspa_diff option" where
  "job_difficulty i ms = (case get_job_diff i ms of Some d \<Rightarrow> Some d | None \<Rightarrow> ms_stratum_diff ms)"

definition pool_target :: "nat \<Rightarrow> 'b mining_state \<Rightarrow> nat" where
  "pool_target i ms = (case job_difficulty i ms of Some d \<Rightarrow> kd_target_value d | None \<Rightarrow> 0)"

definition meets_network :: "('n, 'tx, 'addr) share_env \<Rightarrow> nat \<Rightarrow> 'tx block job \<Rightarrow> 'n \<Rightarrow> bool" where
  "meets_network env nonce job n \<longleftrightarrow> snd (share_pow env nonce job) \<le> network_target env job n"

definition solves_parent :: "('n, 'tx, 'addr) share_env \<Rightarrow> nat \<Rightarrow> 'tx block job \<Rightarrow> 'n \<Rightarrow> bool" where
  "solves_parent env nonce job n \<longleftrightarrow>
     api_merged_fc_target (se_api env) (job_block job) n \<noteq> None \<and> fst (share_pow env nonce job)"

text \<open>
  The loop, by the number of attempts left.  A share that misses the target of a job is tried on the
  previous one, unless the first job, the whole ring or the attempts are used up.
\<close>

fun walk_jobs ::
  "nat \<Rightarrow> ('n, 'tx, 'addr) share_env \<Rightarrow> json option \<Rightarrow> string \<Rightarrow> nat \<Rightarrow> nat \<Rightarrow> nat \<Rightarrow> bool \<Rightarrow> nat \<Rightarrow> 'tx block job \<Rightarrow>
   ('n, 'tx, 'addr, 'tx walk_end) share_act" where
  "walk_jobs 0 env i key cid nonce job_id invalid cur job = ret (Judged invalid cur job)"
| "walk_jobs (Suc left) env i key cid nonce job_id invalid cur job =
     bindE (gets br_node) (\<lambda>n.
       if meets_network env nonce job n \<or> solves_parent env nonce job n
       then settle_network_share env i key cid nonce (meets_network env nonce job n) cur job
       else bindE (gets (cx_state \<circ> br_ctx)) (\<lambda>ms.
         if pool_target cur ms < snd (share_pow env nonce job) then
           (let invalid' = (if cur = job_id then True else invalid)
            in if cur = 1 \<or> cur mod MAX_JOBS = (job_id mod MAX_JOBS + 1) mod MAX_JOBS then ret (Judged invalid' cur job)
               else if left = 0 then ret (Judged invalid' cur job)
               else if cur = 0 then raise Panic
               else case get_job (cur - 1) ms of
                   Some prev \<Rightarrow> walk_jobs left env i key cid nonce job_id invalid' (cur - 1) prev
                 | None \<Rightarrow> ret (Judged invalid' cur job))
         else ret (Judged False cur job)))"

subsection \<open>The verdict\<close>

definition reject_low_diff ::
  "('n, 'tx, 'addr) share_env \<Rightarrow> json option \<Rightarrow> string \<Rightarrow> nat \<Rightarrow> string \<Rightarrow> ('n, 'tx, 'addr, unit) share_act" where
  "reject_low_diff env i key cid sk =
     bindE (update_stats sk bump_invalid) (\<lambda>_.
     bindE (update_overall bump_invalid) (\<lambda>_.
     bindE (gets br_ctx) (\<lambda>c.
     bindE (emit_rejected (cx_wallet_addr c) (cx_worker_name c) RLowDifficulty cid) (\<lambda>_.
     bindE (reply_low_diff_if_id env i) (\<lambda>_.
       settle_outcome key LowDiff)))))"

definition emit_credited :: "string \<Rightarrow> string \<Rightarrow> f64 \<Rightarrow> nat \<Rightarrow> nat \<Rightarrow> ('n, 'tx, 'addr, unit) share_act" where
  "emit_credited wallet worker difficulty daa cid =
     (case (WalletAddress_new wallet, WorkerName_new worker, ShareDifficulty_new difficulty) of
        (Inr w, Inr k, Inr d) \<Rightarrow> bindE read_wall (\<lambda>ts. emit (ShareCredited w k d daa ts cid))
      | _ \<Rightarrow> ret ())"

definition count_share :: "f64 \<Rightarrow> nat \<Rightarrow> work_stats \<Rightarrow> work_stats" where
  "count_share hash_value tm s =
     s\<lparr>ws_shares_found := ws_shares_found s + 1, ws_var_diff_shares_found := ws_var_diff_shares_found s + 1,
       ws_shares_diff := f64_add (ws_shares_diff s) hash_value, ws_last_share := tm\<rparr>"

definition credit_share ::
  "('n, 'tx, 'addr) share_env \<Rightarrow> json option \<Rightarrow> string \<Rightarrow> nat \<Rightarrow> nat \<Rightarrow> 'tx block job \<Rightarrow> ('n, 'tx, 'addr, unit) share_act" where
  "credit_share env i key cid cur job =
     bindE get_create_stats (\<lambda>sk.
     bindE (gets (cx_state \<circ> br_ctx)) (\<lambda>ms.
       let d = job_difficulty cur ms; hash_value = (case d of Some x \<Rightarrow> kd_hash_value x | None \<Rightarrow> Fin 0);
           assigned = (case d of Some x \<Rightarrow> kd_diff_value x | None \<Rightarrow> hash_value)
       in bindE read_clock (\<lambda>tm.
          bindE (update_stats sk (count_share hash_value tm)) (\<lambda>_.
          bindE (update_overall bump_shares) (\<lambda>_.
          bindE (gets (\<lambda>s. (br_ctx s, daa_of_block env (job_block job) (br_node s)))) (\<lambda>(c, daa).
          bindE (emit_credited (cx_wallet_addr c) (cx_worker_name c) assigned daa cid) (\<lambda>_.
          bindE (settle_outcome key Accepted) (\<lambda>_.
            map_err (\<lambda>_. ReplyFailed) (reply env (response_success i (JBool True)))))))))))"

definition judge_share ::
  "('n, 'tx, 'addr) share_env \<Rightarrow> json option \<Rightarrow> string \<Rightarrow> nat \<Rightarrow> 'tx walk_end \<Rightarrow> ('n, 'tx, 'addr, unit) share_act" where
  "judge_share env i key cid e =
     (case e of
        Returned \<Rightarrow> ret ()
      | Judged invalid cur job \<Rightarrow>
          bindE get_create_stats (\<lambda>sk.
            if invalid then reject_low_diff env i key cid sk else credit_share env i key cid cur job))"

subsection \<open>The handler\<close>

text \<open>A new submission for a job that was found: the key, the guard, the search, the verdict.\<close>

definition handle_found ::
  "('n, 'tx, 'addr) share_env \<Rightarrow> json option \<Rightarrow> nat \<Rightarrow> string \<Rightarrow> nat \<Rightarrow> nat \<Rightarrow> 'tx block job \<Rightarrow> ('n, 'tx, 'addr, unit) share_act" where
  "handle_found env i cid nonce_text nonce job_id job =
     bindE (update_ctx effective_worker_name) (\<lambda>worker.
       let key = submit_key worker job_id nonce_text
       in bindE (check_duplicate key) (\<lambda>found.
          case found of
            Some outcome \<Rightarrow> reply_duplicate env i outcome
          | None \<Rightarrow>
              bindE (walk_jobs MAX_COMPAT_JOB_ATTEMPTS env i key cid nonce job_id False job_id job)
                (judge_share env i key cid)))"

definition submitted_nonce :: "json list \<Rightarrow> ('tx, 'addr) ctx \<Rightarrow> submit_error + (string \<times> nat)" where
  "submitted_nonce params c =
     (case nonce_param params of Inl e \<Rightarrow> Inl e
      | Inr raw \<Rightarrow> (case final_nonce (cx_extranonce c) (remove_0x raw) of Inl e \<Rightarrow> Inl e
          | Inr s \<Rightarrow> (case parse_nonce s of Inl e \<Rightarrow> Inl e | Inr n \<Rightarrow> Inr (s, n))))"

definition handle_submit :: "('n, 'tx, 'addr) share_env \<Rightarrow> json_event \<Rightarrow> nat \<Rightarrow> ('n, 'tx, 'addr, unit) share_act" where
  "handle_submit env event cid =
     (let params = ev_params event
      in bindE (gets br_ctx) (\<lambda>c.
         if length params < 3 then
           seqE (emit_rejected (cx_wallet_addr c) (cx_worker_name c) RMalformedFrame cid) (raise Malformed)
         else bindE (lift_sum (parse_job_id (params ! 1))) (\<lambda>submitted_id.
           case find_submitted_job submitted_id (cx_state c) of
             None \<Rightarrow> seqE (emit_rejected (cx_wallet_addr c) (cx_worker_name c) RMissingJob cid) (raise UnknownJob)
           | Some (job_id, job) \<Rightarrow>
               bindE (lift_sum (submitted_nonce params c)) (\<lambda>(nonce_text, nonce).
                 handle_found env (ev_id event) cid nonce_text nonce job_id job))))"

section \<open>What a step leaves alone\<close>

definition is_credit :: "pool_event \<Rightarrow> bool" where
  "is_credit ev = (case ev of ShareCredited _ _ _ _ _ _ \<Rightarrow> True | _ \<Rightarrow> False)"

definition credits :: "('n, 'tx, 'addr) bridge \<Rightarrow> pool_event list" where
  "credits b = filter is_credit (br_events b)"

text \<open>The jobs, the wallet, a worker name once set, the bus and the credited shares are as before.\<close>

definition calm_step :: "('n, 'tx, 'addr) bridge \<Rightarrow> ('n, 'tx, 'addr) bridge \<Rightarrow> bool" where
  "calm_step b b' \<longleftrightarrow> credits b' = credits b \<and> cx_state (br_ctx b') = cx_state (br_ctx b) \<and>
     cx_wallet_addr (br_ctx b') = cx_wallet_addr (br_ctx b) \<and> br_bus b' = br_bus b \<and>
     (trim (cx_worker_name (br_ctx b)) \<noteq> [] \<longrightarrow> cx_worker_name (br_ctx b') = cx_worker_name (br_ctx b))"

text \<open>Actions whose every outcome stands in a relation to the state they start from.\<close>

definition stays :: "('s \<Rightarrow> 's \<Rightarrow> bool) \<Rightarrow> ('s, 'e, 'a) act \<Rightarrow> bool" where
  "stays R m \<longleftrightarrow> (\<forall>s. R s (snd (m s)))"

named_theorems stays_rules

lemma staysD: "stays R m \<Longrightarrow> m s = (r, t) \<Longrightarrow> R s t"
  by (metis snd_conv stays_def)

locale step_relation =
  fixes R :: "'s \<Rightarrow> 's \<Rightarrow> bool"
  assumes refl: "R s s" and trans: "R s t \<Longrightarrow> R t u \<Longrightarrow> R s u"
begin

lemma stays_pure: "stays R (ret a)" "stays R (raise e)" "stays R (gets f)" "stays R (lift_sum r)"
  by (simp_all add: stays_def refl)

lemma stays_bindE: "stays R m \<Longrightarrow> (\<And>a. stays R (f a)) \<Longrightarrow> stays R (bindE m f)"
  unfolding stays_def bindE_def
  by (auto split: prod.split sum.split) (metis snd_conv trans)+

lemma stays_seqE: "stays R m \<Longrightarrow> stays R n \<Longrightarrow> stays R (seqE m n)"
  by (simp add: seqE_def stays_bindE)

lemma stays_map_err: "stays R m \<Longrightarrow> stays R (map_err g m)"
  by (simp add: stays_def)

lemma stays_ignore: "stays R m \<Longrightarrow> stays R (ignore_result m)"
  by (simp add: stays_def ignore_result_def)

lemma stays_if: "stays R m \<Longrightarrow> stays R n \<Longrightarrow> stays R (if c then m else n)"
  by simp

lemma stays_option: "(\<And>y. stays R (f y)) \<Longrightarrow> stays R m \<Longrightarrow> stays R (case x of None \<Rightarrow> m | Some y \<Rightarrow> f y)"
  by (simp split: option.split)

lemma stays_sum: "(\<And>x. stays R (f x)) \<Longrightarrow> (\<And>y. stays R (g y)) \<Longrightarrow> stays R (case s of Inl x \<Rightarrow> f x | Inr y \<Rightarrow> g y)"
  by (simp split: sum.split)

lemma stays_prod: "(\<And>x y. stays R (f x y)) \<Longrightarrow> stays R (case p of (x, y) \<Rightarrow> f x y)"
  by (simp split: prod.split)

lemma stays_Let: "(\<And>x. stays R (f x)) \<Longrightarrow> stays R (Let v f)"
  by (simp add: Let_def)

lemmas stays_control = stays_pure stays_bindE stays_seqE stays_map_err stays_ignore stays_if stays_option stays_sum stays_prod stays_Let

end

interpretation calm: step_relation calm_step
  by unfold_locales (simp_all add: calm_step_def)

text \<open>The guard, the node and the jobs are as before.\<close>

definition still_step :: "('n, 'tx, 'addr) bridge \<Rightarrow> ('n, 'tx, 'addr) bridge \<Rightarrow> bool" where
  "still_step b b' \<longleftrightarrow> br_guard b' = br_guard b \<and> br_node b' = br_node b \<and> cx_state (br_ctx b') = cx_state (br_ctx b)"

interpretation still: step_relation still_step
  by unfold_locales (simp_all add: still_step_def)

lemma is_credit_simps [simp]:
  "is_credit (ShareCredited w k d daa ts cid)" "\<not> is_credit (ShareRejected w k r ts cid)" "\<not> is_credit (BlockFound w k h daa ts cid)"
  "\<not> is_credit (BlockAccepted h ts cid)"
  by (simp_all add: is_credit_def)

lemma context_frame [simp]:
  "cx_state (snd (effective_worker_name c)) = cx_state c" "cx_wallet_addr (snd (effective_worker_name c)) = cx_wallet_addr c"
  "cx_state (disconnect c) = cx_state c" "cx_wallet_addr (disconnect c) = cx_wallet_addr c"
  "cx_extranonce (snd (effective_worker_name c)) = cx_extranonce c" "cx_worker_name (disconnect c) = cx_worker_name c"
  "trim (cx_worker_name c) \<noteq> [] \<Longrightarrow> effective_worker_name c = (cx_worker_name c, c)"
  by (simp_all add: effective_worker_name_def ensure_default_worker_name_def disconnect_def Let_def)

lemma reply_on_frame:
  "reply_on f r (c, l) = (ok, c', l') \<Longrightarrow> cx_state c' = cx_state c \<and> cx_wallet_addr c' = cx_wallet_addr c \<and> cx_worker_name c' = cx_worker_name c"
  by (auto simp: reply_on_def split: if_splits prod.splits write_end.splits)

lemma calm_basic [stays_rules]:
  "stays calm_step read_clock" "stays calm_step read_wall" "\<not> is_credit ev \<Longrightarrow> stays calm_step (emit ev)"
  "stays calm_step (update_ctx effective_worker_name)" "stays calm_step (update_ctx (\<lambda>c. ((), disconnect c)))"
  "stays calm_step (update_stats key f)" "stays calm_step (update_overall h)" "stays calm_step (on_node k)"
  "stays calm_step (log_parent po cl pp)" "stays calm_step request_refresh" "stays calm_step (spawn_confirm t)"
  by (simp_all add: stays_def calm_step_def read_clock_def read_wall_def emit_def update_ctx_def update_stats_def update_overall_def on_node_def
      log_parent_def request_refresh_def spawn_confirm_def credits_def Let_def split_beta)

lemma still_basic [stays_rules]:
  "stays still_step read_clock" "stays still_step read_wall" "stays still_step (emit ev)"
  "stays still_step (update_ctx effective_worker_name)" "stays still_step (update_ctx (\<lambda>c. ((), disconnect c)))"
  "stays still_step (update_stats key f)" "stays still_step (update_overall h)"
  "stays still_step (log_parent po cl pp)" "stays still_step request_refresh" "stays still_step (spawn_confirm t)"
  by (simp_all add: stays_def still_step_def read_clock_def read_wall_def emit_def update_ctx_def update_stats_def update_overall_def
      log_parent_def request_refresh_def spawn_confirm_def Let_def split_beta)

lemma reply_frame [stays_rules]: "stays calm_step (reply env r)" "stays still_step (reply env r)"
proof -
  have "calm_step b (snd (reply env r b)) \<and> still_step b (snd (reply env r b))" for b
  proof (cases "reply_on (se_to_string env) r (br_ctx b, br_link b)")
    case (fields ok c l)
    then show ?thesis using reply_on_frame[OF fields]
      by (cases ok) (simp_all add: reply_def calm_step_def still_step_def credits_def)
  qed
  then show "stays calm_step (reply env r)" "stays still_step (reply env r)" by (simp_all add: stays_def)
qed

lemma create_insert_frame [stays_rules]:
  "stays calm_step (\<lambda>b. (Inr key, if br_stats b key = None then b\<lparr>br_stats := f b\<rparr> else b))"
  "stays still_step (\<lambda>b. (Inr key, if br_stats b key = None then b\<lparr>br_stats := f b\<rparr> else b))"
  by (simp_all add: stays_def calm_step_def still_step_def credits_def)

lemma rejected_no_credit: "build_share_rejected w k r ts cid = Some ev \<Longrightarrow> \<not> is_credit ev"
  by (auto simp: build_share_rejected_def split: sum.splits)

lemma calm_rejected [stays_rules]: "stays calm_step (emit_rejected wallet worker reason cid)"
  unfolding emit_rejected_def
  by (intro calm.stays_bindE stays_rules) (auto split: option.split dest: rejected_no_credit intro!: stays_rules calm.stays_control)

lemmas share_steps = reply_stale_share_def reply_bad_share_def reply_low_diff_if_id_def reply_low_diff_share_def
  emit_block_found_def emit_block_accepted_def get_create_stats_def accept_block_def kick_stale_rig_def

lemma calm_steps [stays_rules]:
  "stays calm_step (reply_stale_share env i)" "stays calm_step (reply_bad_share env i)" "stays calm_step (reply_low_diff_if_id env i)"
  "stays calm_step (emit_block_found wallet worker hash daa cid)"
  "stays calm_step (emit_block_accepted hash cid)" "stays calm_step get_create_stats" "stays calm_step (kick_stale_rig t)"
  unfolding share_steps by (auto simp: Let_def intro!: stays_rules calm.stays_control split: option.split sum.split)

lemma still_steps [stays_rules]:
  "stays still_step (reply_stale_share env i)" "stays still_step (reply_bad_share env i)" "stays still_step (reply_low_diff_if_id env i)"
  "stays still_step (emit_rejected wallet worker reason cid)" "stays still_step (emit_block_found wallet worker hash daa cid)"
  "stays still_step (emit_block_accepted hash cid)" "stays still_step get_create_stats" "stays still_step (kick_stale_rig t)"
  unfolding share_steps emit_rejected_def by (auto simp: Let_def intro!: stays_rules still.stays_control split: option.split sum.split)

lemma calm_guard [stays_rules]: "stays calm_step (check_duplicate key)" "stays calm_step (settle_outcome key outcome)"
proof -
  have "stays calm_step (\<lambda>b. (Inr (f b), b\<lparr>br_guard := g b\<rparr>))" for f and g :: "_ \<Rightarrow> submit_entry guard"
    by (simp add: stays_def calm_step_def credits_def)
  then show "stays calm_step (check_duplicate key)" "stays calm_step (settle_outcome key outcome)"
    unfolding check_duplicate_def settle_outcome_def by (auto simp: Let_def split_beta intro!: stays_rules calm.stays_control)
qed

lemma calm_block [stays_rules]:
  "stays calm_step (accept_block hash nonce b cid)" "stays calm_step (reject_block env i key e wallet worker cid)"
  "stays calm_step (submit_claimed_block env i key cid wallet worker job_id job b)"
  unfolding accept_block_def reject_block_def submit_claimed_block_def
  by (intro stays_rules calm.stays_control; auto intro!: stays_rules calm.stays_control simp: accept_block_def reject_block_def
      split: sum.split block_submit_outcome.split)+

lemma calm_settle [stays_rules]: "stays calm_step (settle_network_share env i key cid nonce meets job_id job)"
  unfolding settle_network_share_def by (auto simp: Let_def intro!: stays_rules calm.stays_control)

section \<open>The search\<close>

definition valid_share :: "('n, 'tx, 'addr) share_env \<Rightarrow> nat \<Rightarrow> nat \<Rightarrow> 'tx block job \<Rightarrow> 'tx block mining_state \<Rightarrow> 'n \<Rightarrow> bool" where
  "valid_share env nonce cur job ms n \<longleftrightarrow>
     snd (share_pow env nonce job) \<le> pool_target cur ms \<or> meets_network env nonce job n \<or> solves_parent env nonce job n"

lemma claimed_judged:
  assumes "submit_claimed_block env i key cid wallet worker cur job x b = (Inr (Judged bad c j), b')"
  shows "\<not> bad \<and> c = cur \<and> j = job"
  using assms unfolding submit_claimed_block_def
  by (auto simp: ret_def split: sum.splits block_submit_outcome.splits elim!: bindE_InrE)

lemma settle_judged:
  assumes "settle_network_share env i key cid nonce meets cur job b = (Inr (Judged bad c j), b')"
  shows "\<not> bad \<and> c = cur \<and> j = job"
  using assms unfolding settle_network_share_def Let_def
  by (auto simp: ret_def split: if_splits elim!: bindE_InrE dest: claimed_judged)

text \<open>A job the search ends on without objection is stored, lies within the attempts, and its target is met.\<close>

lemma walk_judged:
  assumes "walk_jobs left env i key cid nonce job_id invalid cur job b = (Inr (Judged False cur' job'), b')"
    and "invalid \<or> cur = job_id" and "get_job cur (cx_state (br_ctx b)) = Some job" and "0 < left"
  shows "get_job cur' (cx_state (br_ctx b)) = Some job' \<and> cur' \<le> cur \<and> cur < cur' + left \<and>
    valid_share env nonce cur' job' (cx_state (br_ctx b)) (br_node b)"
  using assms
proof (induction left arbitrary: invalid cur job)
  case (Suc left)
  let ?ms = "cx_state (br_ctx b)"
  show ?case
  proof (cases "meets_network env nonce job (br_node b) \<or> solves_parent env nonce job (br_node b)")
    case True
    then have "settle_network_share env i key cid nonce (meets_network env nonce job (br_node b)) cur job b = (Inr (Judged False cur' job'), b')"
      using Suc.prems(1) by (simp add: bindE_gets)
    from settle_judged[OF this] show ?thesis using Suc.prems(3) True by (auto simp: valid_share_def)
  next
    case False
    show ?thesis
    proof (cases "pool_target cur ?ms < snd (share_pow env nonce job)")
      case low: True
      have flag: "(cur = job_id \<longrightarrow> True) \<and> (cur \<noteq> job_id \<longrightarrow> invalid)" using Suc.prems(2) by auto
      then obtain prev where prev: "get_job (cur - 1) ?ms = Some prev" "cur \<noteq> 0" "left \<noteq> 0"
        and rec: "walk_jobs left env i key cid nonce job_id True (cur - 1) prev b = (Inr (Judged False cur' job'), b')"
        using Suc.prems(1,2) False low
        by (auto simp: bindE_gets Let_def ret_def raise_def split: if_splits option.splits)
      from Suc.IH[OF rec] prev show ?thesis by auto
    next
      case False
      then show ?thesis using Suc.prems(1,3) \<open>\<not> (meets_network env nonce job (br_node b) \<or> solves_parent env nonce job (br_node b))\<close>
        by (auto simp: bindE_gets ret_def valid_share_def)
    qed
  qed
qed simp

lemma calm_walk [stays_rules]: "stays calm_step (walk_jobs left env i key cid nonce job_id invalid cur job)"
proof (induction left arbitrary: invalid cur job)
  case (Suc left)
  show ?case unfolding walk_jobs.simps Let_def by (intro stays_rules calm.stays_control Suc.IH)
qed (simp add: calm.stays_pure)

section \<open>Credited shares\<close>

definition at_credits :: "pool_event list \<Rightarrow> 'tx block mining_state \<Rightarrow> string \<Rightarrow> ('n, 'tx, 'addr) bridge \<Rightarrow> bool" where
  "at_credits C ms W b \<longleftrightarrow> credits b = C \<and> cx_state (br_ctx b) = ms \<and> cx_wallet_addr (br_ctx b) = W"

text \<open>At most one event, one of the given ones, has been added to the credited shares.\<close>

definition grown :: "pool_event list \<Rightarrow> pool_event set \<Rightarrow> ('n, 'tx, 'addr) bridge \<Rightarrow> bool" where
  "grown C E b \<longleftrightarrow> credits b = C \<or> (\<exists>ev \<in> E. credits b = C @ [ev])"

lemma at_stays: "stays calm_step m \<Longrightarrow> triple (at_credits C ms W) m (\<lambda>_. at_credits C ms W) (at_credits C ms W)"
  by (rule tripleI; drule (1) staysD) (auto simp: at_credits_def calm_step_def)

lemma grown_stays: "stays calm_step m \<Longrightarrow> triple (grown C E) m (\<lambda>_. grown C E) (grown C E)"
  by (rule tripleI; drule (1) staysD) (auto simp: grown_def calm_step_def)

lemma at_grown: "triple P m Q (at_credits C ms W) \<Longrightarrow> triple P m Q (grown C E)"
  by (erule triple_weaken) (auto simp: at_credits_def grown_def)

lemma at_bind:
  "stays calm_step m \<Longrightarrow> (\<And>a. triple (at_credits C ms W) (f a) (\<lambda>_. grown C E) (grown C E)) \<Longrightarrow>
   triple (at_credits C ms W) (bindE m f) (\<lambda>_. grown C E) (grown C E)"
  by (rule triple_bindE[OF at_grown[OF at_stays]])

lemma at_calm: "stays calm_step m \<Longrightarrow> triple (at_credits C ms W) m (\<lambda>_. grown C E) (grown C E)"
  by (rule triple_weaken[OF at_stays]) (auto simp: at_credits_def grown_def)

definition credit_events :: "nat \<Rightarrow> 'tx block mining_state \<Rightarrow> string \<Rightarrow> nat \<Rightarrow> pool_event set" where
  "credit_events cur ms W cid = {ShareCredited W k (kd_diff_value d) daa ts cid | k d daa ts. job_difficulty cur ms = Some d}"

lemma WalletAddress_new_same: "WalletAddress_new s = Inr w \<Longrightarrow> w = s"
  by (auto simp: WalletAddress_new_def split: option.splits if_splits)

lemma ShareDifficulty_new_same: "ShareDifficulty_new d = Inr x \<Longrightarrow> x = d \<and> d \<noteq> Fin 0"
  by (auto simp: ShareDifficulty_new_def split: if_splits)

lemma emit_grown: "ev \<in> E \<Longrightarrow> triple (at_credits C ms W) (emit ev) (\<lambda>_. grown C E) (grown C E)"
  by (auto simp: triple_def emit_def at_credits_def grown_def credits_def)

lemma emit_credited_grown:
  assumes "case job_difficulty cur ms of Some d \<Rightarrow> diff = kd_diff_value d | None \<Rightarrow> diff = Fin 0"
  shows "triple (at_credits C ms W) (emit_credited W worker diff daa cid) (\<lambda>_. grown C (credit_events cur ms W cid))
    (grown C (credit_events cur ms W cid))"
proof (cases "WalletAddress_new W"; cases "WorkerName_new worker"; cases "ShareDifficulty_new diff")
  fix w k d
  assume ok: "WalletAddress_new W = Inr w" "WorkerName_new worker = Inr k" "ShareDifficulty_new diff = Inr d"
  have d: "d = diff" "diff \<noteq> Fin 0" using ShareDifficulty_new_same[OF ok(3)] by simp_all
  then have ev: "ShareCredited w k d daa ts cid \<in> credit_events cur ms W cid" for ts
    using assms WalletAddress_new_same[OF ok(1)] by (auto simp: credit_events_def split: option.splits)
  show ?thesis unfolding emit_credited_def ok prod.case sum.case by (intro at_bind stays_rules emit_grown ev)
qed (simp_all add: emit_credited_def at_calm calm.stays_pure)

lemma update_gets_ctx:
  "(\<And>c. cx_state c = ms \<Longrightarrow> cx_wallet_addr c = W \<Longrightarrow> triple (at_credits C ms W) (f c) Q E') \<Longrightarrow>
   triple (at_credits C ms W) (bindE (gets br_ctx) f) Q E'"
  by (auto simp: triple_def bindE_gets at_credits_def)

lemma at_state: "triple (at_credits C ms W) (f ms) Q E' \<Longrightarrow> triple (at_credits C ms W) (bindE (gets (cx_state \<circ> br_ctx)) f) Q E'"
  by (auto simp: triple_def bindE_gets at_credits_def)

lemma at_ctx_daa:
  "(\<And>c daa. cx_wallet_addr c = W \<Longrightarrow> triple (at_credits C ms W) (f c daa) Q E') \<Longrightarrow>
   triple (at_credits C ms W) (bindE (gets (\<lambda>s. (br_ctx s, g s))) (\<lambda>(c, daa). f c daa)) Q E'"
  by (auto simp: triple_def bindE_gets at_credits_def)

lemma credit_share_grown:
  "triple (at_credits C ms W) (credit_share env i key cid cur job) (\<lambda>_. grown C (credit_events cur ms W cid))
     (grown C (credit_events cur ms W cid))"
  unfolding credit_share_def
  apply (rule at_bind, rule stays_rules)
  apply (rule at_state)
  unfolding Let_def
  apply (rule at_bind, rule stays_rules)+
  apply (rule at_ctx_daa)
  apply (rule triple_bindE[where Q = "\<lambda>_. grown C (credit_events cur ms W cid)"])
   apply (simp only:, rule emit_credited_grown, simp split: option.split)
  apply (rule grown_stays)
  apply (intro stays_rules calm.stays_control)
  done

lemma judge_grown:
  "triple (at_credits C ms W) (judge_share env i key cid (Judged bad cur job))
     (\<lambda>_. grown C (if bad then {} else credit_events cur ms W cid)) (grown C (if bad then {} else credit_events cur ms W cid))"
proof (cases bad)
  case True
  have "stays calm_step (reject_low_diff env i key cid sk)" for sk
    unfolding reject_low_diff_def by (intro stays_rules calm.stays_control)
  then show ?thesis using True by (auto simp: judge_share_def intro!: at_calm calm.stays_bindE stays_rules)
qed (auto simp: judge_share_def intro!: at_bind credit_share_grown stays_rules)


text \<open>What a submission adds to the credited shares when it adds anything, for the job and the nonce it resolves to.\<close>

definition fresh_submission :: "string \<Rightarrow> ('n, 'tx, 'addr) bridge \<Rightarrow> bool" where
  "fresh_submission key b \<longleftrightarrow> fst (submit_guard_check key (br_clock b (br_reads b)) (br_guard b)) = None"

lemma calm_duplicate [stays_rules]: "stays calm_step (reply_duplicate env i outcome)"
  unfolding reply_duplicate_def by (cases outcome) (auto intro!: stays_rules)

lemma check_duplicate_step:
  assumes "check_duplicate key b = (r, b')"
  shows "r = Inr (fst (submit_guard_check key (br_clock b (br_reads b)) (br_guard b))) \<and> br_node b' = br_node b"
  using assms by (auto simp: check_duplicate_def read_clock_def bindE_def Let_def split_beta)

lemma handle_found_credits:
  assumes stored: "get_job job_id (cx_state (br_ctx b)) = Some job"
    and run: "handle_found env i cid nonce_text nonce job_id job b = (r, b')" and new: "credits b' \<noteq> credits b"
  shows "fresh_submission (submit_key (fst (effective_worker_name (br_ctx b))) job_id nonce_text) b \<and>
    (\<exists>cur job' ev. get_job cur (cx_state (br_ctx b)) = Some job' \<and> cur \<le> job_id \<and> job_id < cur + MAX_COMPAT_JOB_ATTEMPTS \<and>
       valid_share env nonce cur job' (cx_state (br_ctx b)) (br_node b) \<and>
       ev \<in> credit_events cur (cx_state (br_ctx b)) (cx_wallet_addr (br_ctx b)) cid \<and> credits b' = credits b @ [ev])"
proof -
  define worker where "worker = fst (effective_worker_name (br_ctx b))"
  define key where "key = submit_key worker job_id nonce_text"
  define b1 where "b1 = b\<lparr>br_ctx := snd (effective_worker_name (br_ctx b))\<rparr>"
  obtain found b2 where dup: "check_duplicate key b1 = (Inr found, b2)" using check_duplicate_step prod.exhaust by metis
  have run1: "(case found of Some outcome \<Rightarrow> reply_duplicate env i outcome
      | None \<Rightarrow> bindE (walk_jobs MAX_COMPAT_JOB_ATTEMPTS env i key cid nonce job_id False job_id job) (judge_share env i key cid)) b2 = (r, b')"
    using run dup by (cases found) (simp_all add: handle_found_def Let_def bindE_def update_ctx_def split_beta key_def worker_def b1_def)
  have c1: "calm_step b b2"
    using staysD[OF calm_guard(1) dup] by (simp add: calm_step_def b1_def credits_def)
  have n1: "br_node b2 = br_node b" and f1: "found = None \<longleftrightarrow> fresh_submission key b"
    using check_duplicate_step[OF dup] by (simp_all add: b1_def fresh_submission_def)
  have "found = None"
  proof (rule ccontr)
    assume "found \<noteq> None"
    then obtain outcome where "reply_duplicate env i outcome b2 = (r, b')" using run1 by auto
    then show False using staysD[OF calm_duplicate] c1 new unfolding calm_step_def by metis
  qed
  then obtain w b3 where walk: "walk_jobs MAX_COMPAT_JOB_ATTEMPTS env i key cid nonce job_id False job_id job b2 = (w, b3)"
    and rest: "(case w of Inl e \<Rightarrow> (Inl e, b3) | Inr e \<Rightarrow> judge_share env i key cid e b3) = (r, b')"
    using run1 by (auto simp: bindE_def split: prod.splits)
  have c3: "calm_step b b3" using c1 staysD[OF calm_walk walk] calm.trans by blast
  obtain bad cur job' where w: "w = Inr (Judged bad cur job')"
    using rest c3 new by (cases w) (auto simp: calm_step_def judge_share_def split: walk_end.splits)
  have at: "at_credits (credits b) (cx_state (br_ctx b)) (cx_wallet_addr (br_ctx b)) b3" using c3 by (simp add: at_credits_def calm_step_def)
  have g: "grown (credits b) (if bad then {} else credit_events cur (cx_state (br_ctx b)) (cx_wallet_addr (br_ctx b)) cid) b'"
    using triple_snd[OF judge_grown[of _ _ _ env i key cid bad cur job'] at] rest w by simp
  with new have ok: "\<not> bad" by (auto simp: grown_def split: if_splits)
  have walk_ok: "walk_jobs MAX_COMPAT_JOB_ATTEMPTS env i key cid nonce job_id False job_id job b2 = (Inr (Judged False cur job'), b3)"
    using walk w ok by simp
  show ?thesis
    using walk_judged[OF walk_ok] g new f1 \<open>found = None\<close> stored c1 n1 ok
    by (auto simp: grown_def calm_step_def MAX_COMPAT_JOB_ATTEMPTS_def key_def worker_def split: if_splits)
qed


lemma find_submitted_stored: "find_submitted_job i ms = Some (j, job) \<Longrightarrow> get_job j ms = Some job"
  by (auto simp: find_submitted_job_def latest_job_def split: option.splits)

text \<open>A submission that reaches the search has parameters for a stored job and a nonce; any other credits nothing.\<close>

lemma handle_submit_credits:
  assumes run: "handle_submit env event cid b = (r, b')" and new: "credits b' \<noteq> credits b"
  shows "\<exists>sid job_id job nonce_text nonce. 3 \<le> length (ev_params event) \<and> parse_job_id (ev_params event ! 1) = Inr sid \<and>
    find_submitted_job sid (cx_state (br_ctx b)) = Some (job_id, job) \<and> submitted_nonce (ev_params event) (br_ctx b) = Inr (nonce_text, nonce) \<and>
    handle_found env (ev_id event) cid nonce_text nonce job_id job b = (r, b')"
proof -
  have quiet: "seqE (emit_rejected w k reason cid) (raise e) b \<noteq> (r, b')" for w k reason and e
    using new staysD[OF calm.stays_seqE[OF calm_rejected calm.stays_pure(2)]] unfolding calm_step_def by metis
  show ?thesis
    using run new quiet
    by (auto simp: handle_submit_def Let_def bindE_gets bindE_lift_sum split: if_splits sum.splits option.splits prod.splits)
qed

text \<open>
  C17. Share crediting safety: a submission appends at most one credit to the event log.  When it
  appends one, the request has its three parameters; the job id resolves to a stored job; the key
  of worker, job and nonce was new to the guard; the credit goes to the wallet of the connection, at
  the difficulty of a stored job at most seven ids older than the resolved one; and the hash of that
  job's header with the submitted nonce meets that job's pool target, its network target or its parent's target.
\<close>

theorem credited_share_is_valid:
  "let b' = snd (handle_submit env event cid b); c = br_ctx b; ms = cx_state c
   in credits b' = credits b \<or>
     (\<exists>sid job_id job0 nonce_text nonce cur job d worker daa ts.
        3 \<le> length (ev_params event) \<and> parse_job_id (ev_params event ! 1) = Inr sid \<and>
        find_submitted_job sid ms = Some (job_id, job0) \<and> submitted_nonce (ev_params event) c = Inr (nonce_text, nonce) \<and>
        fresh_submission (submit_key (fst (effective_worker_name c)) job_id nonce_text) b \<and>
        get_job cur ms = Some job \<and> cur \<le> job_id \<and> job_id < cur + 8 \<and> job_difficulty cur ms = Some d \<and>
        valid_share env nonce cur job ms (br_node b) \<and>
        credits b' = credits b @ [ShareCredited (cx_wallet_addr c) worker (kd_diff_value d) daa ts cid])"
proof (cases "credits (snd (handle_submit env event cid b)) = credits b")
  case False
  obtain r b' where run: "handle_submit env event cid b = (r, b')" by fastforce
  with False have new: "credits b' \<noteq> credits b" by simp
  from handle_submit_credits[OF run new] obtain sid job_id job nonce_text nonce
    where req: "3 \<le> length (ev_params event)" "parse_job_id (ev_params event ! 1) = Inr sid"
      "find_submitted_job sid (cx_state (br_ctx b)) = Some (job_id, job)" "submitted_nonce (ev_params event) (br_ctx b) = Inr (nonce_text, nonce)"
      and found: "handle_found env (ev_id event) cid nonce_text nonce job_id job b = (r, b')"
    by blast
  from handle_found_credits[OF find_submitted_stored[OF req(3)] found new] show ?thesis
    unfolding run Let_def snd_conv using req by (fastforce simp: credit_events_def MAX_COMPAT_JOB_ATTEMPTS_def)
qed simp


section \<open>Errors\<close>

definition fails_in :: "'e set \<Rightarrow> ('s, 'e, 'a) act \<Rightarrow> bool" where
  "fails_in E m \<longleftrightarrow> (\<forall>s e. fst (m s) = Inl e \<longrightarrow> e \<in> E)"

named_theorems fails_rules

lemma fails_pure [fails_rules]: "fails_in E (ret a)" "fails_in E (gets f)" "e \<in> E \<Longrightarrow> fails_in E (raise e)"
  by (simp_all add: fails_in_def)

lemma fails_bindE [fails_rules]: "fails_in E m \<Longrightarrow> (\<And>a. fails_in E (f a)) \<Longrightarrow> fails_in E (bindE m f)"
  unfolding fails_in_def bindE_def by (auto split: prod.splits sum.splits) (metis fst_conv)

lemma fails_ignore [fails_rules]: "fails_in E (ignore_result m)"
  by (simp add: fails_in_def ignore_result_def)

lemma fails_map_err [fails_rules]: "(\<And>e. g e \<in> E) \<Longrightarrow> fails_in E (map_err g m)"
  unfolding fails_in_def map_err_def by (auto split: prod.split sum.split)

lemma fails_cases [fails_rules]:
  "fails_in E m \<Longrightarrow> fails_in E n \<Longrightarrow> fails_in E (if c then m else n)"
  "fails_in E m \<Longrightarrow> (\<And>y. fails_in E (f y)) \<Longrightarrow> fails_in E (case x of None \<Rightarrow> m | Some y \<Rightarrow> f y)"
  "(\<And>x. fails_in E (g x)) \<Longrightarrow> (\<And>y. fails_in E (f y)) \<Longrightarrow> fails_in E (case s of Inl x \<Rightarrow> g x | Inr y \<Rightarrow> f y)"
  "(\<And>x y. fails_in E (h x y)) \<Longrightarrow> fails_in E (case p of (x, y) \<Rightarrow> h x y)"
  by (simp_all split: option.split sum.split prod.split)

lemma fails_basic [fails_rules]:
  "fails_in E read_clock" "fails_in E read_wall" "fails_in E (emit ev)" "fails_in E (update_ctx u)"
  "fails_in E (update_stats key f)" "fails_in E (update_overall h)" "fails_in E (on_node k)"
  "fails_in E (log_parent po cl pp)" "fails_in E request_refresh" "fails_in E (spawn_confirm t)"
  by (simp_all add: fails_in_def read_clock_def read_wall_def emit_def update_ctx_def update_stats_def update_overall_def on_node_def
      log_parent_def request_refresh_def spawn_confirm_def Let_def split_beta)

lemma fails_state [fails_rules]: "fails_in E (\<lambda>b. (Inr (f b), g b))"
  by (simp add: fails_in_def)

lemma fails_reply [fails_rules]: "Disconnected \<in> E \<Longrightarrow> fails_in E (reply env r)"
  by (auto simp: fails_in_def reply_def split: prod.split bool.split)

lemma fails_steps [fails_rules]:
  "Disconnected \<in> E \<Longrightarrow> fails_in E (reply_stale_share env i)" "Disconnected \<in> E \<Longrightarrow> fails_in E (reply_bad_share env i)"
  "fails_in E (reply_low_diff_if_id env i)" "fails_in E (emit_rejected wallet worker reason cid)"
  "fails_in E (emit_block_found wallet worker hash daa cid)" "fails_in E (emit_block_accepted hash cid)"
  "fails_in E get_create_stats" "fails_in E (kick_stale_rig t)" "fails_in E (accept_block hash nonce b cid)"
  "fails_in E (settle_outcome key outcome)" "fails_in E (check_duplicate key)" "fails_in E (emit_credited wallet worker d daa cid)"
  unfolding share_steps emit_rejected_def settle_outcome_def check_duplicate_def emit_credited_def Let_def split_beta
  by (intro fails_rules; simp)+

lemma fails_block [fails_rules]:
  "Disconnected \<in> E \<Longrightarrow> fails_in E (reject_block env i key e wallet worker cid)"
  "Disconnected \<in> E \<Longrightarrow> fails_in E (submit_claimed_block env i key cid wallet worker job_id job b)"
  "Disconnected \<in> E \<Longrightarrow> fails_in E (settle_network_share env i key cid nonce meets job_id job)"
  unfolding settle_network_share_def submit_claimed_block_def reject_block_def Let_def
  by (auto intro!: fails_rules split: sum.split block_submit_outcome.split)


lemma fails_verdict [fails_rules]:
  "fails_in E (reject_low_diff env i key cid sk)" "ReplyFailed \<in> E \<Longrightarrow> fails_in E (credit_share env i key cid cur job)"
  "ReplyFailed \<in> E \<Longrightarrow> fails_in E (judge_share env i key cid e)" "Disconnected \<in> E \<Longrightarrow> fails_in E (reply_duplicate env i outcome)"
  unfolding reject_low_diff_def credit_share_def judge_share_def reply_duplicate_def Let_def
  by (auto intro!: fails_rules split: walk_end.split submit_outcome.split)

lemma fails_walk [fails_rules]:
  "{Disconnected, Panic} \<subseteq> E \<Longrightarrow> fails_in E (walk_jobs left env i key cid nonce job_id invalid cur job)"
proof (induction left arbitrary: invalid cur job)
  case (Suc left)
  then show ?case unfolding walk_jobs.simps Let_def by (intro fails_rules) auto
qed (simp add: fails_rules)

lemma fails_found [fails_rules]:
  "{Disconnected, ReplyFailed, Panic} \<subseteq> E \<Longrightarrow> fails_in E (handle_found env i cid nonce_text nonce job_id job)"
  unfolding handle_found_def Let_def by (auto intro!: fails_rules)

text \<open>Why a request is refused before the search, by the position of the check: the first that fails.\<close>

definition request_refusal :: "json list \<Rightarrow> ('tx, 'addr) ctx \<Rightarrow> submit_error option" where
  "request_refusal params c =
     (if length params < 3 then Some Malformed
      else case parse_job_id (params ! 1) of Inl e \<Rightarrow> Some e
      | Inr sid \<Rightarrow> if find_submitted_job sid (cx_state c) = None then Some UnknownJob
          else case submitted_nonce params c of Inl e \<Rightarrow> Some e | Inr _ \<Rightarrow> None)"

lemma emit_rejected_step:
  assumes "emit_rejected wallet worker reason cid b = (r, b')"
  shows "r = Inr () \<and> (\<exists>evs reads. b' = b\<lparr>br_events := br_events b @ evs, br_reads := reads\<rparr> \<and>
    (evs = [] \<or> (\<exists>w k ts. evs = [ShareRejected w k reason ts cid])))"
proof (cases "build_share_rejected wallet worker reason (br_wall b (br_reads b)) cid")
  case None
  then have "b' = b\<lparr>br_events := br_events b @ [], br_reads := Suc (br_reads b)\<rparr>" and "r = Inr ()"
    using assms by (auto simp: emit_rejected_def bindE_def read_wall_def)
  then show ?thesis by blast
next
  case (Some ev)
  then obtain w k where ev: "ev = ShareRejected w k reason (br_wall b (br_reads b)) cid"
    by (auto simp: build_share_rejected_def split: sum.splits)
  define evs where "evs = (if br_bus b then [ev] else [])"
  have "b' = b\<lparr>br_events := br_events b @ evs, br_reads := Suc (br_reads b)\<rparr>" and "r = Inr ()"
    using assms Some by (auto simp: emit_rejected_def bindE_def read_wall_def emit_def evs_def)
  moreover have "evs = [] \<or> (\<exists>w k ts. evs = [ShareRejected w k reason ts cid])" using ev by (simp add: evs_def)
  ultimately show ?thesis by blast
qed

lemma refused_state:
  assumes "request_refusal (ev_params event) (br_ctx b) = Some e"
  shows "fst (handle_submit env event cid b) = Inl e \<and>
    (\<exists>evs reads. snd (handle_submit env event cid b) = b\<lparr>br_events := br_events b @ evs, br_reads := reads\<rparr> \<and>
       (evs = [] \<or> (\<exists>w k reason ts. evs = [ShareRejected w k reason ts cid])))"
proof (cases "\<exists>w k reason. handle_submit env event cid b = seqE (emit_rejected w k reason cid) (raise e) b")
  case True
  then obtain w k reason where run: "handle_submit env event cid b = seqE (emit_rejected w k reason cid) (raise e) b" by blast
  obtain r b' where em: "emit_rejected w k reason cid b = (r, b')" by fastforce
  then have "handle_submit env event cid b = (Inl e, b')" using emit_rejected_step[OF em] run by (simp add: seqE_def bindE_def raise_def)
  then show ?thesis using emit_rejected_step[OF em] by auto
next
  case False
  then have run: "handle_submit env event cid b = (Inl e, b)"
    using assms by (auto simp: handle_submit_def request_refusal_def Let_def bindE_gets bindE_lift_sum split: if_splits sum.splits)
  have "b = b\<lparr>br_events := br_events b @ [], br_reads := br_reads b\<rparr>" by simp
  then show ?thesis unfolding run by (metis fst_conv snd_conv)
qed

text \<open>
  C19. Error behaviour of a submission.  A request that has too few parameters, whose job id does not parse or
  resolves to no stored job, or whose nonce does not parse, ends with the error of the first failed
  check, and changes the bridge in nothing but at most one rejection event and the clock reads: no
  reply, no statistics, no guard entry, no call of the node.  Any other request succeeds or fails
  with a broken connection, a failed reply or the panic of the search.
\<close>

theorem refused_request_changes_nothing:
  "case request_refusal (ev_params event) (br_ctx b) of
     Some e \<Rightarrow> fst (handle_submit env event cid b) = Inl e \<and>
       (\<exists>evs reads. snd (handle_submit env event cid b) = b\<lparr>br_events := br_events b @ evs, br_reads := reads\<rparr> \<and>
          (evs = [] \<or> (\<exists>w k reason ts. evs = [ShareRejected w k reason ts cid])))
   | None \<Rightarrow> fst (handle_submit env event cid b) \<in> {Inr (), Inl Disconnected, Inl ReplyFailed, Inl Panic}"
proof (cases "request_refusal (ev_params event) (br_ctx b)")
  case None
  then obtain nonce_text nonce job_id job where "handle_submit env event cid b = handle_found env (ev_id event) cid nonce_text nonce job_id job b"
    by (auto simp: handle_submit_def request_refusal_def Let_def bindE_gets bindE_lift_sum split: if_splits sum.splits)
  moreover have "fails_in {Disconnected, ReplyFailed, Panic} (handle_found env (ev_id event) cid nonce_text nonce job_id job)"
    by (intro fails_rules) simp
  ultimately show ?thesis using None by (cases "fst (handle_submit env event cid b)") (auto simp: fails_in_def)
next
  case (Some e)
  then show ?thesis using refused_state[OF Some, of env cid] by simp
qed

section \<open>Settled submissions\<close>

text \<open>No entry but those of the given keys is in flight.\<close>

definition settled :: "string set \<Rightarrow> submit_entry guard \<Rightarrow> bool" where
  "settled X g \<longleftrightarrow> (\<forall>k e. map_of (gd_entries g) k = Some e \<longrightarrow> se_outcome e = InFlight \<longrightarrow> k \<in> X)"

lemma settled_mono: "settled X g \<Longrightarrow> X \<subseteq> Y \<Longrightarrow> settled Y g"
  by (auto simp: settled_def)

lemma settled_prune: "settled X g \<Longrightarrow> settled X (guard_prune se_ts t g)"
  using guard_prune_sub[of se_ts t g] unfolding settled_def map_le_def by (metis domI)

lemma settled_outcome:
  assumes "settled {key} g" and "outcome \<noteq> InFlight"
  shows "settled {} (set_outcome key t outcome g)"
  using settled_prune[OF assms(1), of t] assms(2) by (auto simp: set_outcome_def settled_def Let_def update_conv' split: option.splits if_splits)

lemma settled_check:
  assumes "settled {} g" and "submit_guard_check key t g = (found, g')"
  shows "if found = None then settled {key} g' else settled {} g'"
  using settled_prune[OF assms(1), of t] settled_prune[OF settled_prune[OF assms(1), of t], of t] assms(2)
  by (auto simp: submit_guard_check_def submit_guard_get_def insert_inflight_def settled_def Let_def update_conv' split: option.splits if_splits)

definition guard_step :: "('n, 'tx, 'addr) bridge \<Rightarrow> ('n, 'tx, 'addr) bridge \<Rightarrow> bool" where
  "guard_step b b' \<longleftrightarrow> br_guard b' = br_guard b"

interpretation kept: step_relation guard_step
  by unfold_locales (simp_all add: guard_step_def)

lemma still_kept: "stays still_step m \<Longrightarrow> stays guard_step m"
  by (simp add: stays_def still_step_def guard_step_def)

lemma node_kept: "stays guard_step (on_node f)"
  by (simp add: stays_def guard_step_def on_node_def split_beta)

definition holds_settled :: "string set \<Rightarrow> ('n, 'tx, 'addr) bridge \<Rightarrow> bool" where
  "holds_settled X b \<longleftrightarrow> settled X (br_guard b)"

lemma kept_triple: "stays guard_step m \<Longrightarrow> triple (holds_settled X) m (\<lambda>_. holds_settled X) (holds_settled X)"
  by (rule tripleI; drule (1) staysD) (auto simp: guard_step_def holds_settled_def)

text \<open>A step that leaves the guard alone and cannot fail is passed over.\<close>

lemma kept_bind:
  assumes "stays guard_step m" and "fails_in {} m" and "\<And>a. triple (holds_settled X) (f a) Q E"
  shows "triple (holds_settled X) (bindE m f) Q E"
proof (rule triple_bindE[OF _ assms(3)])
  show "triple (holds_settled X) m (\<lambda>_. holds_settled X) E"
    using assms(1,2) by (auto simp: triple_def stays_def fails_in_def guard_step_def holds_settled_def split: prod.splits sum.splits) (metis snd_conv fst_conv)+
qed

lemma settle_triple:
  "outcome \<noteq> InFlight \<Longrightarrow> triple (holds_settled {key}) (settle_outcome key outcome) (\<lambda>_. holds_settled {}) E"
  by (auto simp: triple_def settle_outcome_def bindE_def read_clock_def holds_settled_def settled_outcome)


lemma settle_then:
  "outcome \<noteq> InFlight \<Longrightarrow> stays guard_step m \<Longrightarrow>
   triple (holds_settled {key}) (bindE (settle_outcome key outcome) (\<lambda>_. m)) (\<lambda>_. holds_settled {}) (holds_settled {})"
  by (rule triple_bindE[OF settle_triple kept_triple])

lemmas kept_intros = still_kept[OF still_basic(1)] still_kept[OF still_basic(2)] still_kept[OF still_basic(3)] still_kept[OF still_basic(4)]
  still_kept[OF still_basic(5)] still_kept[OF still_basic(6)] still_kept[OF still_basic(7)] still_kept[OF still_basic(8)]
  still_kept[OF still_basic(9)] still_kept[OF still_basic(10)] still_kept[OF still_steps(1)] still_kept[OF still_steps(2)]
  still_kept[OF still_steps(3)] still_kept[OF still_steps(4)] still_kept[OF still_steps(5)] still_kept[OF still_steps(6)]
  still_kept[OF still_steps(7)] still_kept[OF still_steps(8)] still_kept[OF reply_frame(2)] node_kept kept.stays_control

lemma kept_credited: "stays guard_step (emit_credited w k d daa cid)" "stays guard_step (accept_block h n b cid)"
  unfolding emit_credited_def accept_block_def by (intro kept_intros)+

lemma reject_block_settles:
  "triple (holds_settled {key}) (reject_block env i key e w k cid) (\<lambda>_. holds_settled {}) (holds_settled {})"
  unfolding reject_block_def
  by (intro triple_if settle_then kept_bind kept_intros fails_rules) simp_all

lemma verdict_settles:
  "triple (holds_settled {key}) (reject_low_diff env i key cid sk) (\<lambda>_. holds_settled {}) (holds_settled {})"
  "triple (holds_settled {key}) (credit_share env i key cid cur job) (\<lambda>_. holds_settled {}) (holds_settled {})"
  unfolding reject_low_diff_def credit_share_def Let_def split_beta
  by (intro settle_triple settle_then kept_bind kept_credited kept_intros fails_rules; simp)+

definition walk_settles :: "string \<Rightarrow> 'tx walk_end \<Rightarrow> ('n, 'tx, 'addr) bridge \<Rightarrow> bool" where
  "walk_settles key w b \<longleftrightarrow> holds_settled (if w = Returned then {} else {key}) b"

lemma claimed_settles:
  "triple (holds_settled {key}) (submit_claimed_block env i key cid w k job_id job b) (walk_settles key) (holds_settled {})"
proof -
  have judged: "triple (holds_settled {key}) (ret (Judged bad c j)) (walk_settles key) (holds_settled {})" for bad c j
    by (rule triple_ret) (simp add: walk_settles_def)
  have returned: "triple (holds_settled {}) (ret Returned) (walk_settles key) (holds_settled {})"
    by (rule triple_ret) (simp add: walk_settles_def)
  show ?thesis unfolding submit_claimed_block_def split_beta
    apply (intro kept_bind kept_intros fails_rules)
    subgoal for _ _ _ _ answer
      by (cases answer; simp split: block_submit_outcome.split)
        (auto intro!: judged kept_bind kept_credited fails_rules triple_bindE[OF reject_block_settles returned])
    done
qed

lemma network_settles:
  "triple (holds_settled {key}) (settle_network_share env i key cid nonce meets job_id job) (walk_settles key) (holds_settled {})"
  unfolding settle_network_share_def Let_def split_beta
  by (intro kept_bind kept_intros fails_rules triple_if claimed_settles; rule triple_ret; simp add: walk_settles_def)


text \<open>The search only reads until it ends or comes to a job whose network target or parent the share meets.\<close>

lemma walk_shape:
  fixes b :: "('n, 'tx, 'addr) bridge" and env i key cid nonce
  defines "ends m \<equiv> (\<exists>w c j. m b = (Inr (Judged w c j), b)) \<or> (\<exists>meets c j. m b = settle_network_share env i key cid nonce meets c j b)"
  assumes "get_job 0 (cx_state (br_ctx b)) = None" and "get_job cur (cx_state (br_ctx b)) = Some job"
  shows "ends (walk_jobs left env i key cid nonce job_id invalid cur job)"
  using assms(3)
proof (induction left arbitrary: invalid cur job)
  case (Suc left)
  let ?ms = "cx_state (br_ctx b)" and ?n = "br_node b"
  let ?next = "\<lambda>v. if cur = 1 \<or> cur mod MAX_JOBS = (job_id mod MAX_JOBS + 1) mod MAX_JOBS then ret (Judged v cur job)
      else if left = 0 then ret (Judged v cur job) else if cur = 0 then raise Panic
      else case get_job (cur - 1) ?ms of Some prev \<Rightarrow> walk_jobs left env i key cid nonce job_id v (cur - 1) prev
        | None \<Rightarrow> ret (Judged v cur job)"
  have ret: "ends (ret (Judged w c j))" for w c j by (simp add: ends_def ret_def)
  have "cur \<noteq> 0" using Suc.prems assms(2) by (metis option.distinct(1))
  then have step: "ends (?next v)" for v
    using Suc.IH ret by (simp split: option.split)
  show ?case
  proof (cases "meets_network env nonce job ?n \<or> solves_parent env nonce job ?n")
    case True
    then show ?thesis unfolding ends_def by (simp add: bindE_gets) blast
  next
    case False
    have cong: "m b = m' b \<Longrightarrow> ends m' \<Longrightarrow> ends m" for m m' by (simp add: ends_def)
    show ?thesis
    proof (rule cong)
      show "ends (if pool_target cur ?ms < snd (share_pow env nonce job) then ?next (if cur = job_id then True else invalid)
          else ret (Judged False cur job))"
        by (cases "pool_target cur ?ms < snd (share_pow env nonce job)") (simp_all only: if_True if_False step ret)
    qed (simp only: walk_jobs.simps bindE_gets False if_False Let_def o_apply if_distrib[of "\<lambda>m. m b"])
  qed
qed (simp add: ends_def ret_def)

lemma judge_settles:
  "triple (walk_settles key w) (judge_share env i key cid w) (\<lambda>_. holds_settled {}) (holds_settled {})"
proof (cases w)
  case (Judged bad cur job)
  then show ?thesis unfolding judge_share_def walk_settles_def
    by (auto intro!: kept_bind verdict_settles kept_intros fails_rules)
qed (auto simp: judge_share_def walk_settles_def intro: triple_ret)

lemma kept_duplicate: "stays guard_step (reply_duplicate env i outcome)"
  unfolding reply_duplicate_def by (cases outcome) (auto intro!: kept_intros)

text \<open>A connection whose jobs have ids from one on: the search neither panics nor leaves an entry in flight.\<close>

lemma found_settles:
  assumes zero: "get_job 0 (cx_state (br_ctx b)) = None" and stored: "get_job job_id (cx_state (br_ctx b)) = Some job"
    and run: "handle_found env i cid nonce_text nonce job_id job b = (r, b')" and start: "settled {} (br_guard b)"
  shows "r \<noteq> Inl Panic \<and> settled {} (br_guard b')"
proof -
  define key where "key = submit_key (fst (effective_worker_name (br_ctx b))) job_id nonce_text"
  define b1 where "b1 = b\<lparr>br_ctx := snd (effective_worker_name (br_ctx b))\<rparr>"
  obtain found b2 where dup: "check_duplicate key b1 = (Inr found, b2)" using check_duplicate_step prod.exhaust by metis
  have ms: "cx_state (br_ctx b2) = cx_state (br_ctx b)" using staysD[OF calm_guard(1) dup] by (simp add: calm_step_def b1_def)
  have g: "submit_guard_check key (br_clock b (br_reads b)) (br_guard b) = (found, br_guard b2)"
    using dup by (auto simp: check_duplicate_def read_clock_def bindE_def b1_def split: prod.splits)
  have run1: "(case found of Some outcome \<Rightarrow> reply_duplicate env i outcome
      | None \<Rightarrow> bindE (walk_jobs MAX_COMPAT_JOB_ATTEMPTS env i key cid nonce job_id False job_id job) (judge_share env i key cid)) b2 = (r, b')"
    using run dup by (cases found) (simp_all add: handle_found_def Let_def bindE_def update_ctx_def split_beta key_def b1_def)
  show ?thesis
  proof (cases found)
    case (Some outcome)
    have "fails_in {Disconnected} (reply_duplicate env i outcome)" by (intro fails_rules) simp
    then show ?thesis using settled_check[OF start g] Some run1 staysD[OF kept_duplicate, of env i outcome b2 r b']
      by (cases r) (auto simp: fails_in_def guard_step_def, metis fst_conv submit_error.distinct)
  next
    case None
    define m where "m = bindE (walk_jobs MAX_COMPAT_JOB_ATTEMPTS env i key cid nonce job_id False job_id job) (judge_share env i key cid)"
    have pre: "holds_settled {key} b2" using settled_check[OF start g] None by (simp add: holds_settled_def)
    consider (judged) w c j where "m b2 = judge_share env i key cid (Judged w c j) b2"
      | (network) meets c j where "m b2 = bindE (settle_network_share env i key cid nonce meets c j) (judge_share env i key cid) b2"
      using walk_shape[where b = b2 and cur = job_id and job = job and left = MAX_COMPAT_JOB_ATTEMPTS and env = env and i = i and key = key
        and cid = cid and nonce = nonce and job_id = job_id and invalid = False] zero stored ms
      by (auto simp: m_def bindE_def)
    then obtain m' where m': "m b2 = m' b2" "fails_in {Disconnected, ReplyFailed} m'"
        "triple (holds_settled {key}) m' (\<lambda>_. holds_settled {}) (holds_settled {})"
    proof cases
      case judged
      show ?thesis by (rule that[of "judge_share env i key cid (Judged w c j)", OF judged])
          (use judge_settles[of key "Judged w c j" env i cid] in \<open>simp_all add: fails_rules walk_settles_def[abs_def]\<close>)
    next
      case network
      show ?thesis by (rule that[of "bindE (settle_network_share env i key cid nonce meets c j) (judge_share env i key cid)", OF network]) (auto intro!: fails_rules triple_bindE[OF network_settles judge_settles])
    qed
    have "m' b2 = (r, b')" using run1 None m'(1) by (simp add: m_def)
    moreover from this have "r \<noteq> Inl Panic" using m'(2) unfolding fails_in_def by (metis fst_conv insertE singletonD submit_error.distinct)
    ultimately show ?thesis using triple_snd[OF m'(3) pre] by (simp add: holds_settled_def)
  qed
qed

text \<open>
  C18. Settled submissions: on a connection whose job store is reached by publishing jobs and whose extranonce has
  at most sixteen digits, a submission does not panic, and when no earlier submission is in flight
  none is after it, whatever the node and the socket answer; the entry it made has its outcome.
\<close>

theorem submission_settles:
  assumes "ring_run xs MiningState_new = Some (cx_state (br_ctx b))" and "length (cx_extranonce (br_ctx b)) \<le> 16"
    and "settled {} (br_guard b)"
  shows "fst (handle_submit env event cid b) \<noteq> Inl Panic \<and> settled {} (br_guard (snd (handle_submit env event cid b)))"
proof -
  let ?ms = "cx_state (br_ctx b)"
  have "ring_rel (history xs None) ?ms" using ring_run_rel[OF ring_rel_new assms(1)] by (simp add: MiningState_new_def)
  then have zero: "get_job 0 ?ms = None" by (simp add: ring_rel_get window_at_def visible_def)
  show ?thesis
  proof (cases "request_refusal (ev_params event) (br_ctx b)")
    case None
    then obtain nonce_text nonce sid job_id job where found: "find_submitted_job sid ?ms = Some (job_id, job)"
      and run: "handle_submit env event cid b = handle_found env (ev_id event) cid nonce_text nonce job_id job b"
      by (auto simp: handle_submit_def request_refusal_def Let_def bindE_gets bindE_lift_sum split: if_splits sum.splits)
    show ?thesis using found_settles[OF zero find_submitted_stored[OF found] _ assms(3)] unfolding run by (metis prod.collapse)
  next
    case (Some e)
    have "e \<noteq> Panic" using Some assms(2)
      by (auto simp: request_refusal_def parse_job_id_def submitted_nonce_def nonce_param_def final_nonce_def parse_nonce_def Let_def
          split: if_splits sum.splits json.splits json_number.splits)
    then show ?thesis using refused_state[OF Some, of env cid] assms(3) by auto
  qed
qed


section \<open>Valid shares are credited\<close>

definition at_worker :: "pool_event list \<Rightarrow> 'tx block mining_state \<Rightarrow> string \<Rightarrow> string \<Rightarrow> ('n, 'tx, 'addr) bridge \<Rightarrow> bool" where
  "at_worker C ms W k b \<longleftrightarrow> at_credits C ms W b \<and> br_bus b \<and> cx_worker_name (br_ctx b) = k \<and> trim k \<noteq> []"

lemma worker_bind:
  assumes "stays calm_step m" and "fails_in {} m" and "\<And>a. triple (at_worker C ms W k) (f a) Q E"
  shows "triple (at_worker C ms W k) (bindE m f) Q E"
proof (rule triple_bindE[OF _ assms(3)])
  show "triple (at_worker C ms W k) m (\<lambda>_. at_worker C ms W k) E"
  proof (rule tripleI)
    fix s e t assume "m s = (Inl e, t)"
    then show "E t" using assms(2) by (metis empty_iff fails_in_def fst_conv)
  qed (use staysD[OF assms(1)] in \<open>auto simp: at_worker_def at_credits_def calm_step_def\<close>)
qed

definition credited :: "pool_event list \<Rightarrow> string \<Rightarrow> string \<Rightarrow> f64 \<Rightarrow> nat \<Rightarrow> ('n, 'tx, 'addr) bridge \<Rightarrow> bool" where
  "credited C W k d cid b \<longleftrightarrow> (\<exists>daa ts. credits b = C @ [ShareCredited W k d daa ts cid])"

lemma emit_credited_adds:
  assumes "WalletAddress_new W = Inr W" "WorkerName_new k = Inr k" "ShareDifficulty_new d = Inr d"
  shows "triple (at_worker C ms W k) (emit_credited W k d daa cid) (\<lambda>_. credited C W k d cid) E"
  by (auto simp: triple_def emit_credited_def assms bindE_def read_wall_def emit_def at_worker_def at_credits_def credits_def credited_def)

lemma credited_stays: "stays calm_step m \<Longrightarrow> triple (credited C W k d cid) m (\<lambda>_. credited C W k d cid) (credited C W k d cid)"
  by (rule tripleI; drule (1) staysD) (auto simp: credited_def calm_step_def)

lemma worker_state: "triple (at_worker C ms W k) (f ms) Q E' \<Longrightarrow> triple (at_worker C ms W k) (bindE (gets (cx_state \<circ> br_ctx)) f) Q E'"
  by (auto simp: triple_def bindE_gets at_worker_def at_credits_def)

lemma worker_ctx_daa:
  "(\<And>c daa. cx_wallet_addr c = W \<Longrightarrow> cx_worker_name c = k \<Longrightarrow> triple (at_worker C ms W k) (f c daa) Q E') \<Longrightarrow>
   triple (at_worker C ms W k) (bindE (gets (\<lambda>s. (br_ctx s, g s))) (\<lambda>(c, daa). f c daa)) Q E'"
  by (auto simp: triple_def bindE_gets at_worker_def at_credits_def)

lemma credit_share_adds:
  assumes "WalletAddress_new W = Inr W" "WorkerName_new k = Inr k" "ShareDifficulty_new (kd_diff_value d) = Inr (kd_diff_value d)"
    and "job_difficulty cur ms = Some d"
  shows "triple (at_worker C ms W k) (credit_share env i key cid cur job) (\<lambda>_. credited C W k (kd_diff_value d) cid)
    (credited C W k (kd_diff_value d) cid)"
  unfolding credit_share_def
  apply (rule worker_bind, (rule stays_rules fails_rules)+)
  apply (rule worker_state)
  unfolding Let_def assms(4) option.case
  apply (rule worker_bind, rule stays_rules, rule fails_rules)+
  apply (rule worker_ctx_daa)
  apply (rule triple_bindE[where R = "\<lambda>_. credited C W k (kd_diff_value d) cid"])
   apply (simp only:, rule emit_credited_adds[OF assms(1-3)])
  apply (rule credited_stays)
  apply (intro stays_rules calm.stays_control)
  done


text \<open>Requests whose parameters resolve, on a connection with an authorised wallet and a named worker.\<close>

definition resolves_to :: "json_event \<Rightarrow> ('tx, 'addr) ctx \<Rightarrow> nat \<Rightarrow> 'tx block job \<Rightarrow> string \<Rightarrow> nat \<Rightarrow> bool" where
  "resolves_to event c job_id job nonce_text nonce \<longleftrightarrow> 3 \<le> length (ev_params event) \<and>
     (\<exists>sid. parse_job_id (ev_params event ! 1) = Inr sid \<and> find_submitted_job sid (cx_state c) = Some (job_id, job)) \<and>
     submitted_nonce (ev_params event) c = Inr (nonce_text, nonce)"

definition authorised :: "('n, 'tx, 'addr) bridge \<Rightarrow> bool" where
  "authorised b \<longleftrightarrow> br_bus b \<and> WalletAddress_new (cx_wallet_addr (br_ctx b)) = Inr (cx_wallet_addr (br_ctx b)) \<and>
     WorkerName_new (cx_worker_name (br_ctx b)) = Inr (cx_worker_name (br_ctx b)) \<and> trim (cx_worker_name (br_ctx b)) \<noteq> []"

lemma resolves_run:
  "resolves_to event (br_ctx b) job_id job nonce_text nonce \<Longrightarrow>
   handle_submit env event cid b = handle_found env (ev_id event) cid nonce_text nonce job_id job b"
  by (auto simp: resolves_to_def handle_submit_def Let_def bindE_gets bindE_lift_sum)

definition misses_network :: "('n, 'tx, 'addr) share_env \<Rightarrow> nat \<Rightarrow> 'tx block job \<Rightarrow> 'n \<Rightarrow> bool" where
  "misses_network env nonce job n \<longleftrightarrow> \<not> meets_network env nonce job n \<and> \<not> solves_parent env nonce job n"

lemma attempts: "MAX_COMPAT_JOB_ATTEMPTS = Suc 7" "(7::nat) = Suc 6"
  by (simp_all add: MAX_COMPAT_JOB_ATTEMPTS_def)

lemma walk_direct:
  "misses_network env nonce job (br_node b) \<Longrightarrow> snd (share_pow env nonce job) \<le> pool_target cur (cx_state (br_ctx b)) \<Longrightarrow>
   walk_jobs (Suc left) env i key cid nonce job_id invalid cur job b = (Inr (Judged False cur job), b)"
  by (simp add: misses_network_def bindE_gets ret_def)

lemma walk_back:
  assumes "misses_network env nonce job (br_node b)" and "pool_target job_id (cx_state (br_ctx b)) < snd (share_pow env nonce job)"
    and "1 < job_id" "0 < left" and "get_job (job_id - 1) (cx_state (br_ctx b)) = Some prev"
  shows "walk_jobs (Suc left) env i key cid nonce job_id invalid job_id job b =
    walk_jobs left env i key cid nonce job_id True (job_id - 1) prev b"
proof -
  have "x \<noteq> (x + 1) mod MAX_JOBS" if "x < MAX_JOBS" for x :: nat
    using that by (cases "x + 1 = MAX_JOBS") (simp_all add: MAX_JOBS_def)
  then have "job_id mod MAX_JOBS \<noteq> (job_id mod MAX_JOBS + 1) mod MAX_JOBS" by (simp add: MAX_JOBS_def)
  then show ?thesis using assms by (simp add: misses_network_def bindE_gets)
qed

lemma found_credited:
  assumes auth: "authorised b" and fresh: "fresh_submission (submit_key (cx_worker_name (br_ctx b)) job_id nonce_text) b"
    and d: "job_difficulty cur (cx_state (br_ctx b)) = Some d" "ShareDifficulty_new (kd_diff_value d) = Inr (kd_diff_value d)"
    and walk: "\<And>key b'. cx_state (br_ctx b') = cx_state (br_ctx b) \<Longrightarrow> br_node b' = br_node b \<Longrightarrow>
      walk_jobs MAX_COMPAT_JOB_ATTEMPTS env i key cid nonce job_id False job_id job b' = (Inr (Judged False cur job'), b')"
  shows "credited (credits b) (cx_wallet_addr (br_ctx b)) (cx_worker_name (br_ctx b)) (kd_diff_value d) cid
    (snd (handle_found env i cid nonce_text nonce job_id job b))"
proof -
  let ?c = "br_ctx b"
  define key where "key = submit_key (cx_worker_name ?c) job_id nonce_text"
  have name: "effective_worker_name ?c = (cx_worker_name ?c, ?c)" using auth by (simp add: authorised_def)
  obtain b2 where dup: "check_duplicate key b = (Inr None, b2)"
    using check_duplicate_step fresh unfolding fresh_submission_def key_def by (metis prod.exhaust)
  have c2: "calm_step b b2" and n2: "br_node b2 = br_node b"
    using staysD[OF calm_guard(1) dup] check_duplicate_step[OF dup] by auto
  have "walk_jobs MAX_COMPAT_JOB_ATTEMPTS env i key cid nonce job_id False job_id job b2 = (Inr (Judged False cur job'), b2)"
    using walk c2 n2 by (simp add: calm_step_def)
  then have run: "handle_found env i cid nonce_text nonce job_id job b = judge_share env i key cid (Judged False cur job') b2"
    using dup name by (simp add: handle_found_def Let_def bindE_def update_ctx_def key_def)
  have at: "at_worker (credits b) (cx_state ?c) (cx_wallet_addr ?c) (cx_worker_name ?c) b2"
    using c2 auth by (auto simp: at_worker_def at_credits_def calm_step_def authorised_def)
  have "triple (at_worker (credits b) (cx_state ?c) (cx_wallet_addr ?c) (cx_worker_name ?c)) (judge_share env i key cid (Judged False cur job'))
      (\<lambda>_. credited (credits b) (cx_wallet_addr ?c) (cx_worker_name ?c) (kd_diff_value d) cid)
      (credited (credits b) (cx_wallet_addr ?c) (cx_worker_name ?c) (kd_diff_value d) cid)"
    using auth d by (auto simp: judge_share_def authorised_def intro!: worker_bind credit_share_adds stays_rules fails_rules)
  from triple_snd[OF this at] show ?thesis by (simp add: run)
qed

text \<open>
  C20. A share that meets its pool target is credited: a request of an authorised worker that resolves to a stored
  job, is new to the guard and meets the job's pool target, without being a block, adds
  one credit for the worker at that job's difficulty, whatever becomes of the reply.
\<close>

theorem valid_share_is_credited:
  assumes "authorised b" and "resolves_to event (br_ctx b) job_id job nonce_text nonce"
    and "fresh_submission (submit_key (cx_worker_name (br_ctx b)) job_id nonce_text) b"
    and "misses_network env nonce job (br_node b)" and "snd (share_pow env nonce job) \<le> pool_target job_id (cx_state (br_ctx b))"
    and "job_difficulty job_id (cx_state (br_ctx b)) = Some d" and "ShareDifficulty_new (kd_diff_value d) = Inr (kd_diff_value d)"
  shows "\<exists>daa ts. credits (snd (handle_submit env event cid b)) =
    credits b @ [ShareCredited (cx_wallet_addr (br_ctx b)) (cx_worker_name (br_ctx b)) (kd_diff_value d) daa ts cid]"
proof -
  have "walk_jobs MAX_COMPAT_JOB_ATTEMPTS env i key cid nonce job_id False job_id job b' = (Inr (Judged False job_id job), b')"
    if "cx_state (br_ctx b') = cx_state (br_ctx b)" "br_node b' = br_node b" for i key b'
    unfolding attempts(1) by (rule walk_direct) (use assms(4,5) that in simp_all)
  from found_credited[OF assms(1,3,6,7) this] show ?thesis by (simp add: resolves_run[OF assms(2)] credited_def)
qed

text \<open>
  C29. The guard is keyed by the resolved job id, the credit by the job the search ends on.  A share for job
  \<open>j\<close> that is already recorded as accepted under \<open>j\<close> is credited once more when it is sent under \<open>j + 1\<close> and
  misses that job's target: the search steps back to \<open>j\<close>.
\<close>

theorem accepted_share_credited_again:
  assumes "authorised b" and "resolves_to event (br_ctx b) (Suc j) later nonce_text nonce" and "get_job j (cx_state (br_ctx b)) = Some job"
    and "fst (submit_guard_check (submit_key (cx_worker_name (br_ctx b)) j nonce_text) (br_clock b (br_reads b)) (br_guard b)) = Some Accepted"
    and "fresh_submission (submit_key (cx_worker_name (br_ctx b)) (Suc j) nonce_text) b"
    and "misses_network env nonce later (br_node b)" and "pool_target (Suc j) (cx_state (br_ctx b)) < snd (share_pow env nonce later)"
    and "misses_network env nonce job (br_node b)" and "snd (share_pow env nonce job) \<le> pool_target j (cx_state (br_ctx b))" and "0 < j"
    and "job_difficulty j (cx_state (br_ctx b)) = Some d" and "ShareDifficulty_new (kd_diff_value d) = Inr (kd_diff_value d)"
  shows "\<exists>daa ts. credits (snd (handle_submit env event cid b)) =
    credits b @ [ShareCredited (cx_wallet_addr (br_ctx b)) (cx_worker_name (br_ctx b)) (kd_diff_value d) daa ts cid]"
proof -
  have walk: "walk_jobs MAX_COMPAT_JOB_ATTEMPTS env i key cid nonce (Suc j) False (Suc j) later b' = (Inr (Judged False j job), b')"
    if "cx_state (br_ctx b') = cx_state (br_ctx b)" "br_node b' = br_node b" for i key b'
  proof -
    have "walk_jobs (Suc 7) env i key cid nonce (Suc j) False (Suc j) later b' = walk_jobs 7 env i key cid nonce (Suc j) True (Suc j - 1) job b'"
      by (rule walk_back) (use assms(3,6-10) that in simp_all)
    moreover have "walk_jobs (Suc 6) env i key cid nonce (Suc j) True j job b' = (Inr (Judged False j job), b')"
      by (rule walk_direct) (use assms(3,6-10) that in simp_all)
    ultimately show ?thesis unfolding attempts by simp
  qed
  show ?thesis
    using found_credited[OF assms(1,5,11,12) walk] by (simp add: resolves_run[OF assms(2)] credited_def)
qed


section \<open>A sample connection\<close>

text \<open>A connection with two jobs, the second with a lower target, and a node that is never asked for a block.\<close>

definition sample_api :: "(unit, bytes, nat) kaspa_api_trait" where
  "sample_api = \<lparr>api_merged_fc_target = (\<lambda>_ _. None), api_merged_lane_paid_pool = default_merged_lane_paid_pool,
     api_merged_chain_hash = (\<lambda>_ _. None), api_merged_zkas_daa = (\<lambda>_ _. None), api_claim_network_solution = (\<lambda>_ n. (False, n)),
     api_submit_merged_parent = (\<lambda>_ n. (NotMerged, n)), api_submit_block = (\<lambda>_ n. (Inl ''offline'', n)),
     api_refresh_merged_parent = (\<lambda>_ _ n. (Inr None, n))\<rparr>"

definition sample_share_env :: "(unit, bytes, nat) share_env" where
  "sample_share_env = \<lparr>se_lib = shape_lib, se_api = sample_api, se_to_string = (\<lambda>_. ''{}'')\<rparr>"

definition sample_job :: "nat \<Rightarrow> bytes block job" where
  "sample_job k = \<lparr>job_block = \<lparr>blk_header = sample_header\<lparr>bh_bits := 0, bh_daa_score := k\<rparr>, blk_txs = []\<rparr>, job_pre_pow_hash = []\<rparr>"

definition sample_jobs :: "bytes block job_op list" where
  "sample_jobs = [SetDiff \<lparr>kd_hash_value = Fin 1, kd_diff_value = Fin 1, kd_target_value = 100\<rparr>, Publish (sample_job 1),
     SetDiff \<lparr>kd_hash_value = Fin 2, kd_diff_value = Fin 2, kd_target_value = 50\<rparr>, Publish (sample_job 2)]"

definition sample_ctx :: "(bytes, nat) ctx" where
  "sample_ctx = (context_new ''10.0.0.1'' 5555 1 (the (ring_run sample_jobs MiningState_new)))
     \<lparr>cx_wallet_addr := ''zkastest:pyfjy228l6gukj2v'', cx_worker_name := ''rig''\<rparr>"

definition sample_bridge :: "(unit, bytes, nat) bridge" where
  "sample_bridge = \<lparr>br_ctx = sample_ctx, br_link = \<lparr>lk_attempt = (\<lambda>_. Written), lk_tries = 0, lk_out = ''''\<rparr>,
     br_stats = Map.empty, br_overall = WorkStats_new '''' 0, br_guard = guard_new 60000 1000, br_bus = True, br_events = [],
     br_refreshes = [], br_parents = [], br_confirms = [], br_replies = [], br_clock = id, br_wall = id, br_reads = 0, br_node = ()\<rparr>"

definition sample_submit :: "string \<Rightarrow> string \<Rightarrow> json_event" where
  "sample_submit job_id nonce = \<lparr>ev_id = Some (JNum (PosInt 7)), ev_jsonrpc = ''2.0'', ev_method = ''mining.submit'',
     ev_params = [JStr ''rig'', JStr job_id, JStr nonce]\<rparr>"


lemma sample_ring: "ring_run sample_jobs MiningState_new = Some (cx_state sample_ctx)"
  by (simp add: sample_ctx_def sample_jobs_def context_new_def add_job_def MiningState_new_def Let_def set_stratum_diff_def)

lemma sample_history:
  "history sample_jobs None = [(sample_job 1, Some \<lparr>kd_hash_value = Fin 1, kd_diff_value = Fin 1, kd_target_value = 100\<rparr>),
     (sample_job 2, Some \<lparr>kd_hash_value = Fin 2, kd_diff_value = Fin 2, kd_target_value = 50\<rparr>)]"
  by (simp add: sample_jobs_def)

lemma sample_stored:
  "get_job 1 (cx_state sample_ctx) = Some (sample_job 1)" "get_job 2 (cx_state sample_ctx) = Some (sample_job 2)"
  "get_job_diff 1 (cx_state sample_ctx) = Some \<lparr>kd_hash_value = Fin 1, kd_diff_value = Fin 1, kd_target_value = 100\<rparr>"
  "get_job_diff 2 (cx_state sample_ctx) = Some \<lparr>kd_hash_value = Fin 2, kd_diff_value = Fin 2, kd_target_value = 50\<rparr>"
proof -
  have rel: "ring_rel (history sample_jobs None) (cx_state sample_ctx)"
    using ring_run_rel[OF ring_rel_new sample_ring] by (simp add: MiningState_new_def)
  show "get_job 1 (cx_state sample_ctx) = Some (sample_job 1)" "get_job 2 (cx_state sample_ctx) = Some (sample_job 2)"
    "get_job_diff 1 (cx_state sample_ctx) = Some \<lparr>kd_hash_value = Fin 1, kd_diff_value = Fin 1, kd_target_value = 100\<rparr>"
    "get_job_diff 2 (cx_state sample_ctx) = Some \<lparr>kd_hash_value = Fin 2, kd_diff_value = Fin 2, kd_target_value = 50\<rparr>"
    by (simp_all add: ring_rel_get[OF rel] sample_history window_at_def visible_def MAX_JOBS_def)
qed

lemma sample_requests:
  "resolves_to (sample_submit ''1'' ''3c'') sample_ctx 1 (sample_job 1) ''3c'' 60"
  "resolves_to (sample_submit ''2'' ''3c'') sample_ctx 2 (sample_job 2) ''3c'' 60"
proof -
  have ids: "parse_job_id (JStr ''1'') = Inr 1" "parse_job_id (JStr ''2'') = Inr 2" and nonce: "parse_nonce ''3c'' = Inr 60"
    by (simp_all add: parse_job_id_def parse_nonce_def)
  show "resolves_to (sample_submit ''1'' ''3c'') sample_ctx 1 (sample_job 1) ''3c'' 60"
    "resolves_to (sample_submit ''2'' ''3c'') sample_ctx 2 (sample_job 2) ''3c'' 60"
    using ids nonce sample_stored
    by (simp_all add: resolves_to_def sample_submit_def find_submitted_job_def submitted_nonce_def nonce_param_def final_nonce_def
        sample_ctx_def context_new_def)
qed

lemma sample_share_pow:
  "misses_network sample_share_env 60 (sample_job k) n" "snd (share_pow sample_share_env 60 (sample_job k)) = 60"
  by (simp_all add: misses_network_def meets_network_def solves_parent_def share_pow_def network_target_def sample_share_env_def sample_api_def
      sample_job_def shape_lib_def calculate_target_def)

lemma sample_difficulty:
  "job_difficulty 1 (cx_state sample_ctx) = Some \<lparr>kd_hash_value = Fin 1, kd_diff_value = Fin 1, kd_target_value = 100\<rparr>"
  "pool_target 1 (cx_state sample_ctx) = 100" "pool_target 2 (cx_state sample_ctx) = 50"
  "ShareDifficulty_new (Fin 1) = Inr (Fin 1)"
  using sample_stored by (simp_all add: job_difficulty_def pool_target_def ShareDifficulty_new_def f64_is_finite_def)

lemma sample_authorised: "authorised sample_bridge" "authorised (sample_bridge\<lparr>br_guard := g\<rparr>)"
proof -
  have "WalletAddress_new ''zkastest:pyfjy228l6gukj2v'' = Inr ''zkastest:pyfjy228l6gukj2v''" "WorkerName_new ''rig'' = Inr ''rig''"
    "trim ''rig'' \<noteq> []" by code_simp+
  then show "authorised sample_bridge" "authorised (sample_bridge\<lparr>br_guard := g\<rparr>)"
    by (simp_all add: authorised_def sample_bridge_def sample_ctx_def)
qed

theorem submission_settles_witness:
  "settled {} (br_guard (snd (handle_submit sample_share_env (sample_submit ''2'' ''3c'') 1 sample_bridge)))"
proof -
  have "br_ctx sample_bridge = sample_ctx" "cx_extranonce sample_ctx = []" "settled {} (br_guard sample_bridge)"
    by (simp_all add: sample_bridge_def sample_ctx_def context_new_def settled_def guard_new_def)
  then show ?thesis using submission_settles[of sample_jobs sample_bridge sample_share_env] sample_ring by simp
qed

theorem valid_share_is_credited_witness:
  "\<exists>daa ts. credits (snd (handle_submit sample_share_env (sample_submit ''1'' ''3c'') 9 sample_bridge)) =
     [ShareCredited ''zkastest:pyfjy228l6gukj2v'' ''rig'' (Fin 1) daa ts 9]"
proof -
  have b: "br_ctx sample_bridge = sample_ctx" "credits sample_bridge = []" "cx_worker_name sample_ctx = ''rig''"
    "cx_wallet_addr sample_ctx = ''zkastest:pyfjy228l6gukj2v''"
    by (simp_all add: sample_bridge_def credits_def sample_ctx_def)
  have "fresh_submission (submit_key ''rig'' 1 ''3c'') sample_bridge"
    by (simp add: fresh_submission_def sample_bridge_def guard_new_def submit_guard_check_def submit_guard_get_def guard_prune_def Let_def)
  then show ?thesis
    using valid_share_is_credited[of sample_bridge "sample_submit ''1'' ''3c''" 1 "sample_job 1" "''3c''" 60 sample_share_env _ 9]
      sample_authorised(1) sample_requests(1) sample_share_pow sample_difficulty by (simp add: b)
qed


theorem accepted_share_credited_again_witness:
  "\<exists>daa ts. credits (snd (handle_submit sample_share_env (sample_submit ''2'' ''3c'') 9
       (sample_bridge\<lparr>br_guard := set_outcome ''rig|1|3c'' 0 Accepted (insert_inflight ''rig|1|3c'' 0 (guard_new 60000 1000))\<rparr>))) =
     [ShareCredited ''zkastest:pyfjy228l6gukj2v'' ''rig'' (Fin 1) daa ts 9]"
proof -
  define g where "g = set_outcome ''rig|1|3c'' 0 Accepted (insert_inflight ''rig|1|3c'' 0 (guard_new 60000 1000))"
  define b where "b = sample_bridge\<lparr>br_guard := g\<rparr>"
  have frame: "br_ctx b = sample_ctx" "credits b = []" "cx_worker_name sample_ctx = ''rig''" "br_node b = ()"
    "cx_wallet_addr sample_ctx = ''zkastest:pyfjy228l6gukj2v''" "br_clock b (br_reads b) = 0" "br_guard b = g"
    by (simp_all add: b_def sample_bridge_def credits_def sample_ctx_def)
  have keys: "submit_key ''rig'' 1 ''3c'' = ''rig|1|3c''" "submit_key ''rig'' (Suc 1) ''3c'' = ''rig|2|3c''"
    by (simp_all add: submit_key_def show_nat.simps digit_char_def char_of_def bit_iff_odd)
  have "g = \<lparr>gd_ttl = 60000, gd_max_entries = 1000, gd_entries = [(''rig|1|3c'', \<lparr>se_ts = 0, se_outcome = Accepted\<rparr>)], gd_order = [''rig|1|3c'']\<rparr>"
    by (simp add: g_def guard_new_def set_outcome_def insert_inflight_def guard_prune_def Let_def)
  then have seen: "fst (submit_guard_check ''rig|1|3c'' 0 g) = Some Accepted" "fst (submit_guard_check ''rig|2|3c'' 0 g) = None"
    by (simp_all add: submit_guard_check_def submit_guard_get_def guard_prune_def Let_def)
  show ?thesis
    using accepted_share_credited_again[of b "sample_submit ''2'' ''3c''" 1 "sample_job 2" "''3c''" 60 "sample_job 1" sample_share_env _ 9]
      sample_authorised(2)[of g] sample_requests(2) sample_stored(1) sample_share_pow sample_difficulty seen keys
    by (simp add: frame fresh_submission_def b_def[symmetric] g_def[symmetric] numeral_2_eq_2)
qed

end
