(* ===== verification/Vardiff.thy ===== *)
theory Vardiff
  imports Share_Submit
begin

text \<open>
  Difficulty control (\<open>bridge/src/share_handler.rs\<close>): the registration of a connection's worker, the
  cached difficulty, the pruning of statistics, and the periodic adjustment.

  The clock counts nanoseconds.  The square root and the binary logarithm of the platform are
  parameters: without the power-of-two clamp the bounds hold for any, because the step is bounded; with it
  they need \<open>lib_ok\<close>.  The timer loops are modelled by what they repeat.
\<close>

section \<open>The model\<close>

definition VARDIFF_MIN_ELAPSED_SECS :: f64 where "VARDIFF_MIN_ELAPSED_SECS = Fin 30"
definition VARDIFF_MAX_ELAPSED_SECS_NO_SHARES :: f64 where "VARDIFF_MAX_ELAPSED_SECS_NO_SHARES = Fin 15"
definition VARDIFF_MAX_ELAPSED_SECS_SPARSE_SHARES :: f64 where "VARDIFF_MAX_ELAPSED_SECS_SPARSE_SHARES = Fin 90"
definition VARDIFF_MIN_DIFF :: f64 where "VARDIFF_MIN_DIFF = Fin 64"
definition VARDIFF_MIN_SHARES :: f64 where "VARDIFF_MIN_SHARES = Fin 3"
definition VARDIFF_LOWER_RATIO :: f64 where "VARDIFF_LOWER_RATIO = Fin (3 / 4)"
definition VARDIFF_UPPER_RATIO :: f64 where "VARDIFF_UPPER_RATIO = Fin (5 / 4)"
definition VARDIFF_MAX_STEP_UP :: f64 where "VARDIFF_MAX_STEP_UP = Fin 128"
definition VARDIFF_MAX_STEP_DOWN :: f64 where "VARDIFF_MAX_STEP_DOWN = Fin (1 / 2)"
definition INACTIVE_VARDIFF_TTL :: nat where "INACTIVE_VARDIFF_TTL = 3600 * 10 ^ 9"

text \<open>\<open>max\<close> prefers a number to NaN, \<open>clamp\<close> keeps NaN.\<close>

definition f64_max :: "f64 \<Rightarrow> f64 \<Rightarrow> f64" where
  "f64_max a b = (if a = NaN then b else if b = NaN then a else if f64_le a b then b else a)"

definition f64_clamp :: "f64 \<Rightarrow> f64 \<Rightarrow> f64 \<Rightarrow> f64" where
  "f64_clamp lo hi x = (if f64_lt x lo then lo else if f64_lt hi x then hi else x)"

fun f64_abs :: "f64 \<Rightarrow> f64" where
  "f64_abs (Fin x) = Fin \<bar>x\<bar>"
| "f64_abs NaN = NaN"
| "f64_abs _ = PInf"

definition f64_sub :: "f64 \<Rightarrow> f64 \<Rightarrow> f64" where
  "f64_sub a b = f64_add a (f64_neg b)"

definition f64_epsilon :: f64 where "f64_epsilon = Fin (1 / 2 ^ 52)"

text \<open>\<open>2_f64.powi(exp as i32)\<close>.\<close>

fun f64_as_i32 :: "f64 \<Rightarrow> int" where
  "f64_as_i32 (Fin x) = max (- (2 ^ 31)) (min (2 ^ 31 - 1) (trunc_rat x))"
| "f64_as_i32 PInf = 2 ^ 31 - 1"
| "f64_as_i32 NInf = - (2 ^ 31)"
| "f64_as_i32 NaN = 0"

definition f64_pow2 :: "int \<Rightarrow> f64" where
  "f64_pow2 n = (if 1023 < n then PInf else if n < - 1074 then Fin 0 else Fin (2 powi n))"

record float_lib =
  fl_sqrt :: "f64 \<Rightarrow> f64"
  fl_log2 :: "f64 \<Rightarrow> f64"

definition vardiff_pow2_clamp_towards :: "float_lib \<Rightarrow> f64 \<Rightarrow> f64 \<Rightarrow> f64" where
  "vardiff_pow2_clamp_towards fl current new =
     (if \<not> f64_is_finite new \<or> f64_le new (Fin 0) then Fin 1
      else let e = (if f64_le current new then f64_ceil (fl_log2 fl new) else f64_floor (fl_log2 fl new));
               clamped = f64_pow2 (f64_as_i32 e)
        in if f64_lt clamped (Fin 1) then Fin 1 else clamped)"

definition at_least_min :: "f64 \<Rightarrow> f64" where
  "at_least_min new = (if f64_lt new VARDIFF_MIN_DIFF then VARDIFF_MIN_DIFF else new)"

definition maybe_pow2 :: "float_lib \<Rightarrow> bool \<Rightarrow> f64 \<Rightarrow> f64 \<Rightarrow> f64" where
  "maybe_pow2 fl clamp_pow2 current new = (if clamp_pow2 then vardiff_pow2_clamp_towards fl current new else new)"

definition changed_from :: "f64 \<Rightarrow> f64 \<Rightarrow> f64 option" where
  "changed_from current new = (if f64_lt f64_epsilon (f64_abs (f64_sub new current)) then Some new else None)"

definition vardiff_compute_next_diff :: "float_lib \<Rightarrow> f64 \<Rightarrow> f64 \<Rightarrow> f64 \<Rightarrow> f64 \<Rightarrow> bool \<Rightarrow> f64 option" where
  "vardiff_compute_next_diff fl current share_count elapsed expected_spm clamp_pow2 =
     (if \<not> f64_is_finite current \<or> f64_le current (Fin 0) then None
      else if \<not> f64_is_finite elapsed \<or> f64_le elapsed (Fin 0) then None
      else if f64_eq share_count (Fin 0) \<and> f64_le VARDIFF_MAX_ELAPSED_SECS_NO_SHARES elapsed then
        changed_from current (maybe_pow2 fl clamp_pow2 current (at_least_min (f64_mul current VARDIFF_MAX_STEP_DOWN)))
      else if f64_lt elapsed VARDIFF_MIN_ELAPSED_SECS \<or>
          (f64_lt share_count VARDIFF_MIN_SHARES \<and> f64_lt elapsed VARDIFF_MAX_ELAPSED_SECS_SPARSE_SHARES) then None
      else let observed_spm = f64_mul (f64_div share_count elapsed) (Fin 60);
               ratio = f64_div observed_spm (f64_max expected_spm (Fin 1))
        in if \<not> f64_is_finite ratio \<or> f64_le ratio (Fin 0) then None
           else if f64_lt VARDIFF_LOWER_RATIO ratio \<and> f64_lt ratio VARDIFF_UPPER_RATIO then None
           else let step = f64_clamp VARDIFF_MAX_STEP_DOWN VARDIFF_MAX_STEP_UP (fl_sqrt fl ratio);
                    new = maybe_pow2 fl clamp_pow2 current (at_least_min (f64_mul current step));
                    rel_change = f64_div (f64_abs (f64_sub new current)) (f64_max current (Fin 1))
             in if f64_lt rel_change (f64_round (1 / 10)) then None else changed_from current new)"

subsection \<open>Connections\<close>

definition restart_window :: "nat \<Rightarrow> work_stats \<Rightarrow> work_stats" where
  "restart_window tm s = s\<lparr>ws_var_diff_start_time := Some tm, ws_var_diff_shares_found := 0, ws_var_diff_window := 0\<rparr>"

definition activate_client_vardiff :: "('n, 'tx, 'addr, unit) share_act" where
  "activate_client_vardiff =
     bindE (update_ctx claim_vardiff_registration) (\<lambda>claimed.
       if \<not> claimed then ret ()
       else bindE get_create_stats (\<lambda>key.
         bindE (update_stats key (\<lambda>s. s\<lparr>ws_active_connections := min (2 ^ 32 - 1) (ws_active_connections s + 1)\<rparr>)) (\<lambda>_.
         bindE read_clock (\<lambda>tm.
         bindE (update_stats key (restart_window tm)) (\<lambda>_.
         bindE read_clock (\<lambda>t0. update_stats key (\<lambda>s. s\<lparr>ws_last_session_activity := t0\<rparr>)))))))"

definition get_stats_if_exists :: "('n, 'tx, 'addr, work_stats option) share_act" where
  "get_stats_if_exists = gets (\<lambda>b. br_stats b (stats_key (br_ctx b)))"

text \<open>These do not create statistics.\<close>

definition deactivate_client_vardiff :: "('n, 'tx, 'addr, unit) share_act" where
  "deactivate_client_vardiff =
     bindE (update_ctx release_vardiff_registration) (\<lambda>released.
       if \<not> released then ret ()
       else bindE (gets (stats_key \<circ> br_ctx)) (\<lambda>key. bindE get_stats_if_exists (\<lambda>found.
         case found of None \<Rightarrow> ret ()
         | Some _ \<Rightarrow> bindE (update_stats key (\<lambda>s. s\<lparr>ws_active_connections := ws_active_connections s - 1\<rparr>)) (\<lambda>_.
             bindE read_clock (\<lambda>tm. update_stats key (\<lambda>s. s\<lparr>ws_last_session_activity := tm\<rparr>))))))"

definition set_client_vardiff :: "f64 \<Rightarrow> ('n, 'tx, 'addr, f64) share_act" where
  "set_client_vardiff min_diff =
     bindE (gets (stats_key \<circ> br_ctx)) (\<lambda>key. bindE get_stats_if_exists (\<lambda>found.
       case found of None \<Rightarrow> gets (current_stratum_diff \<circ> br_ctx)
       | Some stats \<Rightarrow> bindE read_clock (\<lambda>tm.
           bindE (update_stats key (\<lambda>s. restart_window tm (s\<lparr>ws_min_diff := min_diff\<rparr>))) (\<lambda>_. ret (ws_min_diff stats)))))"

definition get_client_vardiff :: "('n, 'tx, 'addr, f64) share_act" where
  "get_client_vardiff =
     bindE get_stats_if_exists (\<lambda>found.
       case found of Some stats \<Rightarrow> ret (ws_min_diff stats) | None \<Rightarrow> gets (current_stratum_diff \<circ> br_ctx))"

definition start_client_vardiff :: "('n, 'tx, 'addr, unit) share_act" where
  "start_client_vardiff =
     bindE (gets (stats_key \<circ> br_ctx)) (\<lambda>key. bindE get_stats_if_exists (\<lambda>found.
       case found of None \<Rightarrow> ret ()
       | Some stats \<Rightarrow> if ws_var_diff_start_time stats \<noteq> None then ret ()
           else bindE read_clock (\<lambda>tm.
             update_stats key (\<lambda>s. s\<lparr>ws_var_diff_start_time := Some tm, ws_var_diff_shares_found := 0\<rparr>))))"

text \<open>A connection starts from its cached difficulty when that is at least 64, otherwise from its seed.\<close>

definition restore_diff :: "f64 \<Rightarrow> f64 \<Rightarrow> f64" where
  "restore_diff seed current =
     (if \<not> f64_is_finite current \<or> f64_lt current VARDIFF_MIN_DIFF then f64_max seed VARDIFF_MIN_DIFF else current)"

definition register_client_vardiff :: "f64 \<Rightarrow> ('n, 'tx, 'addr, f64) share_act" where
  "register_client_vardiff seed =
     bindE get_create_stats (\<lambda>key. bindE (gets (\<lambda>b. br_stats b key)) (\<lambda>found.
       case found of None \<Rightarrow> ret (Fin 0) \<comment> \<open>not reached: the entry was just created\<close>
       | Some stats \<Rightarrow>
           let restored = restore_diff seed (ws_min_diff stats)
           in bindE (update_stats key (\<lambda>s. s\<lparr>ws_min_diff := restored\<rparr>)) (\<lambda>_.
              bindE (if ws_var_diff_start_time stats = None
                     then bindE read_clock (\<lambda>tm. update_stats key (\<lambda>s. s\<lparr>ws_var_diff_start_time := Some tm\<rparr>))
                     else ret ()) (\<lambda>_.
              bindE read_clock (\<lambda>tm. bindE (update_stats key (\<lambda>s. s\<lparr>ws_last_session_activity := tm\<rparr>)) (\<lambda>_.
              ret restored))))))"

subsection \<open>The periodic tasks\<close>

definition should_retain_vardiff_stats :: "work_stats \<Rightarrow> nat \<Rightarrow> bool" where
  "should_retain_vardiff_stats s tm \<longleftrightarrow> 0 < ws_active_connections s \<or> tm - ws_last_session_activity s < INACTIVE_VARDIFF_TTL"

definition prune_stats :: "nat \<Rightarrow> (string \<rightharpoonup> work_stats) \<Rightarrow> (string \<rightharpoonup> work_stats)" where
  "prune_stats tm m = (\<lambda>key. case m key of Some s \<Rightarrow> if should_retain_vardiff_stats s tm then Some s else None | None \<Rightarrow> None)"

definition as_secs_f64 :: "nat \<Rightarrow> f64" where
  "as_secs_f64 ns = f64_add (f64_round (of_nat (ns div 10 ^ 9))) (f64_div (f64_round (of_nat (ns mod 10 ^ 9))) (Fin (10 ^ 9)))"

definition adjust_worker :: "float_lib \<Rightarrow> nat \<Rightarrow> bool \<Rightarrow> nat \<Rightarrow> work_stats \<Rightarrow> work_stats" where
  "adjust_worker fl expected_share_rate clamp tm s =
     (if ws_active_connections s = 0 then s
      else case ws_var_diff_start_time s of None \<Rightarrow> s
        | Some start \<Rightarrow>
            (case vardiff_compute_next_diff fl (ws_min_diff s) (f64_of_int (ws_var_diff_shares_found s))
                (f64_max (as_secs_f64 (tm - start)) (Fin 0)) (f64_of_int (int (max expected_share_rate 1))) clamp of
               None \<Rightarrow> s
             | Some new \<Rightarrow> restart_window tm (s\<lparr>ws_min_diff := new\<rparr>)))"

definition vardiff_tick :: "float_lib \<Rightarrow> nat \<Rightarrow> bool \<Rightarrow> nat \<Rightarrow> (string \<rightharpoonup> work_stats) \<Rightarrow> (string \<rightharpoonup> work_stats)" where
  "vardiff_tick fl expected_share_rate clamp tm m = map_option (adjust_worker fl expected_share_rate clamp tm) \<circ> m"


section \<open>Bounds of a step\<close>

text \<open>The difficulties in question: doubles from 64 up to \<open>2 ^ 100\<close>.\<close>

definition usual_diff :: "rat \<Rightarrow> bool" where
  "usual_diff c \<longleftrightarrow> is_float c \<and> 64 \<le> c \<and> c \<le> 2 ^ 100"

lemma usual_scaled:
  assumes "usual_diff c"
  shows "is_float (c / 2)" and "is_float (128 * c)"
proof -
  have c: "is_float c" "1 \<le> c" "c \<le> 2 ^ 100" using assms unfolding usual_diff_def by auto
  have "c * 2 powi (- 1) = c / 2" "c * 2 powi 7 = 128 * c" by (simp_all add: power_int_minus)
  then show "is_float (c / 2)" and "is_float (128 * c)"
    using is_float_times[OF c, of "- 1"] is_float_times[OF c, of 7] by (simp_all add: mult.commute)
qed

lemma is_float_64: "is_float 64"
  using is_float_int[of 64] by simp

lemma scaled_bounds:
  assumes "usual_diff c" and "1 / 2 \<le> s" and "s \<le> 128"
  shows "\<exists>r. at_least_min (f64_mul (Fin c) (Fin s)) = Fin r \<and> is_float r \<and> 64 \<le> r \<and> c / 2 \<le> r \<and> r \<le> 128 * c \<and> (s = 1 / 2 \<longrightarrow> r = max 64 (c / 2))"
proof -
  have c: "64 \<le> c" "c \<le> 2 ^ 100" using assms(1) by (simp_all add: usual_diff_def)
  have bounds: "c / 2 \<le> c * s" "c * s \<le> 128 * c" using assms c by (simp_all add: field_simps)
  then obtain r where r: "f64_round (c * s) = Fin r" "c / 2 \<le> r" "r \<le> 128 * c"
    using f64_round_finite[OF usual_scaled[OF assms(1)]] by blast
  have "128 * c \<le> 2 ^ 7 * 2 ^ 100" using c(2) by simp
  also have "(2::rat) ^ 7 * 2 ^ 100 \<le> 2 ^ 120" unfolding power_add[symmetric] by (rule power_increasing) simp_all
  finally have "is_float r" using is_float_rounded[OF r(1)] bounds c(1) by linarith
  moreover have "r = c / 2" if "s = 1 / 2"
    using r(1)[unfolded that] usual_scaled(1)[OF assms(1)] by (simp add: is_float_def)
  ultimately show ?thesis using r c(1) is_float_64
    by (auto simp: at_least_min_def VARDIFF_MIN_DIFF_def f64_lt_def f64_eq_def max_def)
qed

text \<open>
  What the clamp needs of the platform: the square root of a positive number is a number, and between two
  neighbouring powers of two the logarithm lies between their exponents (so it is exact at powers of two).
  Correctly rounded functions have these properties.
\<close>

definition lib_ok :: "float_lib \<Rightarrow> bool" where
  "lib_ok fl \<longleftrightarrow> (\<forall>x > 0. fl_sqrt fl (Fin x) \<noteq> NaN) \<and>
     (\<forall>x e. 2 ^ e \<le> x \<longrightarrow> x \<le> 2 ^ (e + 1) \<longrightarrow> (\<exists>l. fl_log2 fl (Fin x) = Fin l \<and> of_nat e \<le> l \<and> l \<le> of_nat (e + 1)))"

lemma pow2_cases:
  fixes x :: rat
  assumes "1 \<le> x" and "x \<le> 2 ^ 120"
  obtains e :: nat where "2 ^ e \<le> x" "x < 2 ^ (e + 1)" "e \<le> 120"
proof -
  have e: "2 powi exponent2 x \<le> x" "x < 2 powi (exponent2 x + 1)" using exponent2_bounds[of x] assms by simp_all
  have "0 \<le> exponent2 x" using exponent2_ge[of 0 x] assms(1) by simp
  moreover have "exponent2 x \<le> 120" using assms by (intro exponent2_le) (auto intro: order.strict_trans1)
  ultimately show thesis using that[of "nat (exponent2 x)"] e by (simp add: power_int_def nat_add_distrib)
qed

lemma pow2_clamp_bounds:
  assumes "lib_ok fl" and "64 \<le> x" and "x \<le> 2 ^ 120"
  shows "\<exists>j. vardiff_pow2_clamp_towards fl current (Fin x) = Fin (2 ^ j) \<and> 6 \<le> j \<and> j \<le> 121 \<and> x / 2 \<le> 2 ^ j \<and> 2 ^ j \<le> 2 * x"
proof -
  have "1 \<le> x" using assms(2) by linarith
  then obtain e :: nat where e: "2 ^ e \<le> x" "x < 2 ^ (e + 1)" "e \<le> 120" using assms(3) by (rule pow2_cases)
  have "\<exists>l. fl_log2 fl (Fin x) = Fin l \<and> of_nat e \<le> l \<and> l \<le> of_nat (e + 1)"
    using assms(1) e(1) less_imp_le[OF e(2)] unfolding lib_ok_def by blast
  then obtain l where l: "fl_log2 fl (Fin x) = Fin l" "of_nat e \<le> l" "l \<le> of_nat (e + 1)" by blast
  define f where "f = (if f64_le current (Fin x) then \<lceil>l\<rceil> else \<lfloor>l\<rfloor>)"
  have "\<lfloor>l\<rfloor> \<in> {int e, int (e + 1)}" "\<lceil>l\<rceil> \<in> {int e, int (e + 1)}" using l(2,3) by (auto; linarith)+
  then have "f = int e \<or> f = int (e + 1)" by (auto simp: f_def)
  then obtain j where j: "f = int j" "j = e \<or> j = e + 1" by blast
  have "6 \<le> e"
  proof (rule ccontr)
    assume "\<not> 6 \<le> e"
    then have "(2::rat) ^ (e + 1) \<le> 2 ^ 6" by (intro power_increasing) auto
    with e(2) assms(2) show False by simp
  qed
  then have small: "6 \<le> j" "j \<le> 121" using j(2) e(3) by auto
  have "f64_as_i32 (Fin (of_int f)) = int j" using j(1) small by (simp add: trunc_rat_def)
  then have "f64_pow2 (f64_as_i32 (Fin (of_int f))) = f64_pow2 (int j)" by (rule arg_cong)
  also have "\<dots> = Fin (2 ^ j)" using small by (simp add: f64_pow2_def)
  finally have "f64_pow2 (f64_as_i32 (Fin (of_int f))) = Fin (2 ^ j)" .
  moreover have "(if f64_le current (Fin x) then f64_ceil (fl_log2 fl (Fin x)) else f64_floor (fl_log2 fl (Fin x))) = Fin (of_int f)"
    by (simp add: f_def l(1))
  moreover have "\<not> (2 ^ j :: rat) < 1" by (simp add: not_less)
  ultimately have "vardiff_pow2_clamp_towards fl current (Fin x) = Fin (2 ^ j)"
    using assms(2) by (simp add: vardiff_pow2_clamp_towards_def Let_def f64_is_finite_def f64_lt_def f64_eq_def not_less order.eq_iff)
  moreover have "x / 2 \<le> 2 ^ j" "2 ^ j \<le> 2 * x" using j(2) e(1,2) by auto
  ultimately show ?thesis using small by blast
qed

lemma clamp_cases:
  obtains "f64_clamp VARDIFF_MAX_STEP_DOWN VARDIFF_MAX_STEP_UP x = NaN"
  | s where "f64_clamp VARDIFF_MAX_STEP_DOWN VARDIFF_MAX_STEP_UP x = Fin s" and "1 / 2 \<le> s" and "s \<le> 128"
proof (cases x)
  case (Fin y)
  consider "y < 1 / 2" | "1 / 2 \<le> y" "y \<le> 128" | "128 < y" by linarith
  then show ?thesis
    by cases (use that(2)[of "1 / 2"] that(2)[of y] that(2)[of 128] in
      \<open>auto simp: Fin f64_clamp_def VARDIFF_MAX_STEP_DOWN_def VARDIFF_MAX_STEP_UP_def f64_lt_def f64_eq_def\<close>)
qed (use that(1) that(2)[of "1 / 2"] that(2)[of 128] in
  \<open>simp_all add: f64_clamp_def VARDIFF_MAX_STEP_DOWN_def VARDIFF_MAX_STEP_UP_def f64_lt_def f64_eq_def\<close>)

lemma changed_from_Some: "changed_from current new = Some x \<Longrightarrow> x = new \<and> new \<noteq> NaN"
  by (cases new; cases current) (auto simp: changed_from_def f64_sub_def f64_lt_def f64_epsilon_def split: if_splits)

text \<open>The bounds of a new difficulty; with the clamp it is a power of two, and the bounds are wider by a factor of two.\<close>

definition step_within :: "bool \<Rightarrow> rat \<Rightarrow> rat \<Rightarrow> bool" where
  "step_within clamp c r \<longleftrightarrow> is_float r \<and> 64 \<le> r \<and>
     (if clamp then c / 4 \<le> r \<and> r \<le> 256 * c \<and> (\<exists>j. r = 2 ^ j) else c / 2 \<le> r \<and> r \<le> 128 * c)"

lemma maybe_pow2_within:
  assumes "usual_diff c" and "64 \<le> x" "is_float x" "c / 2 \<le> x" "x \<le> 128 * c" and "clamp \<Longrightarrow> lib_ok fl"
  shows "\<exists>r. maybe_pow2 fl clamp (Fin c) (Fin x) = Fin r \<and> step_within clamp c r \<and> r \<le> 2 * x"
proof (cases clamp)
  case True
  have "128 * c \<le> 2 ^ 7 * 2 ^ 100" using assms(1) by (simp add: usual_diff_def)
  also have "(2::rat) ^ 7 * 2 ^ 100 \<le> 2 ^ 120" unfolding power_add[symmetric] by (rule power_increasing) simp_all
  finally obtain j where j: "vardiff_pow2_clamp_towards fl (Fin c) (Fin x) = Fin (2 ^ j)" "6 \<le> j" "j \<le> 121" "x / 2 \<le> 2 ^ j" "2 ^ j \<le> 2 * x"
    using pow2_clamp_bounds[OF assms(6)[OF True] assms(2), of "Fin c"] assms(5) by fastforce
  have "is_float (2 ^ j)" using is_float_scaled[of 1 j] j(3) by simp
  moreover have "(64::rat) \<le> 2 ^ j" using power_increasing[OF j(2), of "2::rat"] by simp
  ultimately show ?thesis using True j assms(4,5) by (auto simp: maybe_pow2_def step_within_def)
qed (use assms in \<open>simp add: maybe_pow2_def step_within_def\<close>)

lemma vardiff_step_bounded:
  assumes "usual_diff c" and "vardiff_compute_next_diff fl (Fin c) n elapsed spm clamp = Some new" and "clamp \<Longrightarrow> lib_ok fl"
  shows "\<exists>r. new = Fin r \<and> step_within clamp c r \<and> (n = Fin 0 \<and> f64_le (Fin 15) elapsed \<longrightarrow> r \<le> max 128 c)"
proof (cases "f64_eq n (Fin 0) \<and> f64_le VARDIFF_MAX_ELAPSED_SECS_NO_SHARES elapsed")
  case True
  then have new: "changed_from (Fin c) (maybe_pow2 fl clamp (Fin c) (at_least_min (f64_mul (Fin c) (Fin (1 / 2))))) = Some new"
    using assms(2) by (auto simp: vardiff_compute_next_diff_def VARDIFF_MAX_STEP_DOWN_def split: if_splits)
  obtain x where x: "at_least_min (f64_mul (Fin c) (Fin (1 / 2))) = Fin x" "is_float x" "64 \<le> x" "c / 2 \<le> x" "x \<le> 128 * c" "x = max 64 (c / 2)"
    using scaled_bounds[OF assms(1), of "1 / 2"] by auto
  obtain r where r: "maybe_pow2 fl clamp (Fin c) (Fin x) = Fin r" "step_within clamp c r" "r \<le> 2 * x"
    using maybe_pow2_within[OF assms(1) x(3,2,4,5) assms(3)] by blast
  then have "r \<le> max 128 c" using x(6) by auto
  then show ?thesis using new r unfolding x(1) by (auto dest: changed_from_Some)
next
  case False
  then obtain ratio where "changed_from (Fin c) (maybe_pow2 fl clamp (Fin c)
      (at_least_min (f64_mul (Fin c) (f64_clamp VARDIFF_MAX_STEP_DOWN VARDIFF_MAX_STEP_UP (fl_sqrt fl ratio))))) = Some new"
    and ratio: "f64_is_finite ratio" "\<not> f64_le ratio (Fin 0)"
    using assms(2) by (auto simp: vardiff_compute_next_diff_def Let_def split: if_splits)
  moreover define y where "y = fl_sqrt fl ratio"
  ultimately have new: "new = maybe_pow2 fl clamp (Fin c) (at_least_min (f64_mul (Fin c) (f64_clamp VARDIFF_MAX_STEP_DOWN VARDIFF_MAX_STEP_UP y)))" "new \<noteq> NaN"
    by (auto dest: changed_from_Some)
  have "y \<noteq> NaN" if clamp using ratio assms(3)[OF that] by (cases ratio) (auto simp: y_def lib_ok_def f64_is_finite_def)
  then have number: "f64_clamp VARDIFF_MAX_STEP_DOWN VARDIFF_MAX_STEP_UP y \<noteq> NaN"
    using new by (cases clamp) (auto simp: maybe_pow2_def at_least_min_def f64_lt_def f64_clamp_def VARDIFF_MAX_STEP_DOWN_def VARDIFF_MAX_STEP_UP_def split: if_splits)
  have noshares: "\<not> (n = Fin 0 \<and> f64_le (Fin 15) elapsed)" using False by (simp add: f64_eq_def VARDIFF_MAX_ELAPSED_SECS_NO_SHARES_def)
  show ?thesis
  proof (rule clamp_cases[of y])
    assume "f64_clamp VARDIFF_MAX_STEP_DOWN VARDIFF_MAX_STEP_UP y = NaN"
    then show ?thesis using number by simp
  next
    fix s assume s: "f64_clamp VARDIFF_MAX_STEP_DOWN VARDIFF_MAX_STEP_UP y = Fin s" "1 / 2 \<le> s" "s \<le> 128"
    then obtain x where x: "at_least_min (f64_mul (Fin c) (Fin s)) = Fin x" "is_float x" "64 \<le> x" "c / 2 \<le> x" "x \<le> 128 * c"
      using scaled_bounds[OF assms(1), of s] by auto
    then show ?thesis using maybe_pow2_within[OF assms(1) x(3,2,4,5) assms(3)] new(1) s(1) noshares by auto
  qed
qed

text \<open>
  The bootstrap of an unknown miner, without the clamp: from the seed 8192, adjustments after fifteen seconds or more without a
  share halve the difficulty down to 64 in seven steps and stop there.
\<close>

fun idle_descent :: "float_lib \<Rightarrow> f64 list \<Rightarrow> f64 \<Rightarrow> f64" where
  "idle_descent fl [] d = d"
| "idle_descent fl (e # es) d =
     idle_descent fl es (case vardiff_compute_next_diff fl d (Fin 0) e (Fin 20) False of Some x \<Rightarrow> x | None \<Rightarrow> d)"

lemma idle_halves:
  assumes "15 \<le> e" and "64 < n" and "n < 2 ^ 52"
  shows "vardiff_compute_next_diff fl (Fin (of_int n)) (Fin 0) (Fin e) spm False = Some (Fin (max 64 (of_int n / 2)))"
proof -
  have half: "f64_round (of_int n / 2) = Fin (of_int n / 2)" using f64_round_dyadic[of n 1] assms by simp
  have gap: "f64_round (max 64 (of_int n / 2) - of_int n) = Fin (max 64 (of_int n / 2) - of_int n)"
  proof (cases "of_int n / 2 \<le> (64::rat)")
    case True
    then show ?thesis using f64_round_int[of "64 - n"] f64_round_int[of "- 64"] assms by (simp add: max_def)
  next
    case False
    moreover have "of_int n / 2 - of_int n = (of_int (- n) / 2 :: rat)" by simp
    ultimately show ?thesis using f64_round_dyadic[of "- n" 1] assms by (simp add: max_def)
  qed
  have "f64_lt f64_epsilon (Fin \<bar>max 64 (of_int n / 2) - of_int n\<bar>)"
  proof -
    have "(1::rat) / 2 ^ 52 < 1 / 2" by simp
    also have "1 / 2 \<le> \<bar>max 64 (of_int n / 2) - (of_int n :: rat)\<bar>" using assms(2) by (auto simp: max_def abs_if)
    finally show ?thesis by (simp add: f64_lt_def f64_eq_def f64_epsilon_def)
  qed
  moreover have "at_least_min (Fin (of_int n / 2)) = Fin (max 64 (of_int n / 2))"
    by (auto simp: at_least_min_def VARDIFF_MIN_DIFF_def f64_lt_def f64_eq_def max_def)
  ultimately show ?thesis using assms half gap
    by (simp add: vardiff_compute_next_diff_def f64_is_finite_def f64_eq_def VARDIFF_MAX_ELAPSED_SECS_NO_SHARES_def VARDIFF_MAX_STEP_DOWN_def
        maybe_pow2_def changed_from_def f64_sub_def)
qed

lemma idle_descends:
  assumes "\<forall>e \<in> set es. 15 \<le> e" and "length es \<le> 40"
  shows "idle_descent fl (map Fin es) (Fin (2 ^ (length es + 6))) = Fin 64"
  using assms
proof (induction es)
  case (Cons e es)
  let ?n = "2 ^ (length (e # es) + 6) :: int"
  have "(2::int) ^ 6 < ?n" by (rule power_strict_increasing) simp_all
  moreover have "?n < 2 ^ 52" using Cons.prems(2) by (intro power_strict_increasing) simp_all
  moreover have "(2::rat) ^ 6 \<le> 2 ^ (length es + 6)" by (rule power_increasing) simp_all
  moreover have "of_int ?n / 2 = (2::rat) ^ (length es + 6)" by (simp add: power_add)
  ultimately have "max 64 (of_int ?n / 2) = (2::rat) ^ (length es + 6)" and "64 < ?n" and "?n < 2 ^ 52" by simp_all
  then have "vardiff_compute_next_diff fl (Fin (of_int ?n)) (Fin 0) (Fin e) (Fin 20) False = Some (Fin (2 ^ (length es + 6)))"
    using idle_halves[of e ?n fl "Fin 20"] Cons.prems(1) by (simp only: list.set_intros)
  then show ?case using Cons by simp
qed simp

lemma bootstrap_descends:
  "length es = 7 \<Longrightarrow> \<forall>e \<in> set es. 15 \<le> e \<Longrightarrow> idle_descent fl (map Fin es) (Fin 8192) = Fin 64"
  using idle_descends[of es fl] by simp

subsection \<open>The cached difficulties\<close>

lemma restored_at_least_min:
  assumes "seed \<noteq> PInf"
  shows "\<exists>r. restore_diff seed current = Fin r \<and> 64 \<le> r"
  using assms
  by (cases seed; cases current)
    (auto simp: restore_diff_def f64_max_def f64_lt_def f64_eq_def f64_is_finite_def VARDIFF_MIN_DIFF_def)

lemma get_create_stats_spec:
  "\<exists>s b'. get_create_stats b = (Inr (stats_key (br_ctx b')), b') \<and> br_stats b' (stats_key (br_ctx b')) = Some s"
  by (auto simp: get_create_stats_def bindE_def update_ctx_def gets_def read_clock_def Let_def split: prod.splits)

text \<open>
  A registered connection gets a difficulty of at least 64, and that is what its statistics hold.
\<close>

lemma registered_diff_at_least_min:
  assumes "seed \<noteq> PInf"
  shows "\<exists>r s b'. register_client_vardiff seed b = (Inr (Fin r), b') \<and> 64 \<le> r \<and>
    br_stats b' (stats_key (br_ctx b')) = Some s \<and> ws_min_diff s = Fin r"
proof -
  obtain s b1 where b1: "get_create_stats b = (Inr (stats_key (br_ctx b1)), b1)" "br_stats b1 (stats_key (br_ctx b1)) = Some s"
    using get_create_stats_spec by blast
  obtain r where "restore_diff seed (ws_min_diff s) = Fin r" "64 \<le> r" using restored_at_least_min[OF assms] by blast
  then show ?thesis
    by (simp add: register_client_vardiff_def bindE_def b1 gets_def Let_def update_stats_def read_clock_def ret_def)
qed

text \<open>
  C39. A round of adjustments over the workers.  A worker without connections is left alone, and every other worker either keeps its
  statistics or gets a new difficulty with a new observation window.  For a difficulty that is a double from 64 to \<open>2 ^ 100\<close>, whatever shares were found, whatever time
  passed, for any target rate: the new difficulty is a double of at least 64.  Without the
  power-of-two clamp it is at least half and at most 128 times the old one.  With the clamp, on which the
  pool runs, it is a power of two, at least a quarter and at most 256 times the old one, provided the platform's square root and logarithm are
  sane: the root of a positive number is a number, and the logarithm stays between the exponents of neighbouring powers of two.  The limits of half and 128 times given with the
  constants do not hold then.
\<close>

theorem vardiff_tick_bounded:
  assumes "m key = Some s" and "ws_min_diff s = Fin c" and "usual_diff c" and "clamp \<longrightarrow> lib_ok fl"
  shows "\<exists>s' r. vardiff_tick fl rate clamp tm m key = Some s' \<and> ws_min_diff s' = Fin r \<and>
    (ws_active_connections s = 0 \<longrightarrow> s' = s) \<and>
    (s' = s \<or> s' = restart_window tm (s\<lparr>ws_min_diff := Fin r\<rparr>) \<and> step_within clamp c r)"
proof (cases "adjust_worker fl rate clamp tm s = s")
  case True
  then show ?thesis using assms by (intro exI[of _ s] exI[of _ c]) (simp add: vardiff_tick_def)
next
  case False
  then obtain n elapsed spm new where next_diff: "vardiff_compute_next_diff fl (Fin c) n elapsed spm clamp = Some new"
    and adjusted: "adjust_worker fl rate clamp tm s = restart_window tm (s\<lparr>ws_min_diff := new\<rparr>)" "ws_active_connections s \<noteq> 0"
    by (auto simp: adjust_worker_def assms(2) split: if_splits option.splits)
  then obtain r where "new = Fin r" "step_within clamp c r"
    using vardiff_step_bounded[OF assms(3) next_diff] assms(4) by blast
  then show ?thesis using adjusted assms(1)
    by (intro exI[of _ "restart_window tm (s\<lparr>ws_min_diff := new\<rparr>)"] exI[of _ r]) (simp add: vardiff_tick_def restart_window_def)
qed

text \<open>A logarithm that rounds down to an integer satisfies what is asked of it above.\<close>

definition floor_log2 :: "f64 \<Rightarrow> f64" where
  "floor_log2 v = (case v of Fin x \<Rightarrow> Fin (of_int (exponent2 x)) | _ \<Rightarrow> v)"

definition sample_fl :: float_lib where
  "sample_fl = \<lparr>fl_sqrt = id, fl_log2 = floor_log2\<rparr>"

lemma sample_fl_ok: "lib_ok sample_fl"
  unfolding lib_ok_def
proof (intro conjI allI impI)
  fix x :: rat and e :: nat
  assume x: "2 ^ e \<le> x" "x \<le> 2 ^ (e + 1)"
  have "0 < x" using x(1) zero_less_power[of "2::rat" e] by linarith
  moreover have "x < 4 * 2 ^ e" using x(2) zero_less_power[of "2::rat" e] by (simp only: power_add power_one_right) linarith
  then have "x < 2 powi (int (e + 1) + 1)" by (simp add: power_int_def nat_add_distrib)
  ultimately have "exponent2 x \<le> int (e + 1)" by (intro exponent2_le)
  moreover have "int e \<le> exponent2 x" by (rule exponent2_ge[OF x(1)])
  ultimately have "of_int (int e) \<le> rat_of_int (exponent2 x)" "rat_of_int (exponent2 x) \<le> of_int (int (e + 1))"
    by (simp_all only: of_int_le_iff)
  then show "\<exists>l. fl_log2 sample_fl (Fin x) = Fin l \<and> of_nat e \<le> l \<and> l \<le> of_nat (e + 1)"
    by (intro exI[of _ "of_int (exponent2 x)"]) (simp add: sample_fl_def floor_log2_def)
qed (simp add: sample_fl_def)

text \<open>
  An idle worker with one connection: fifteen seconds without a share take its difficulty from 200 to 64 under the
  clamp, to less than half.
\<close>

definition idle_stats :: work_stats where
  "idle_stats = (WorkStats_new ''rig'' 0)\<lparr>ws_min_diff := Fin 200, ws_active_connections := 1, ws_var_diff_start_time := Some 0\<rparr>"

lemma idle_clamped:
  "vardiff_compute_next_diff sample_fl (Fin 200) (Fin 0) (Fin 15) (Fin 20) True = Some (Fin 64)"
proof -
  have "f64_round 100 = Fin 100" "f64_round (- 136) = Fin (- 136)" using f64_round_int[of 100] f64_round_int[of "- 136"] by simp_all
  moreover have "exponent2 100 = 6" by code_simp
  ultimately show ?thesis
    by (simp add: vardiff_compute_next_diff_def f64_is_finite_def f64_eq_def VARDIFF_MAX_ELAPSED_SECS_NO_SHARES_def VARDIFF_MAX_STEP_DOWN_def
        maybe_pow2_def vardiff_pow2_clamp_towards_def sample_fl_def floor_log2_def at_least_min_def VARDIFF_MIN_DIFF_def f64_lt_def Let_def
        trunc_rat_def f64_pow2_def changed_from_def f64_sub_def f64_epsilon_def)
qed

lemma idle_stats_adjusted:
  "adjust_worker sample_fl 20 True 15000000000 idle_stats = restart_window 15000000000 (idle_stats\<lparr>ws_min_diff := Fin 64\<rparr>)"
proof -
  have "f64_round 15 = Fin 15" "f64_round 0 = Fin 0" "f64_round 20 = Fin 20"
    using f64_round_int[of 15] f64_round_int[of 0] f64_round_int[of 20] by simp_all
  then show ?thesis using idle_clamped
    by (simp add: adjust_worker_def idle_stats_def as_secs_f64_def f64_of_int_def WorkStats_new_def f64_max_def)
qed

theorem vardiff_tick_bounded_witness:
  "\<exists>s' r. vardiff_tick sample_fl 20 True 15000000000 [''k'' \<mapsto> idle_stats] ''k'' = Some s' \<and> ws_min_diff s' = Fin r \<and>
     step_within True 200 r \<and> s' = restart_window 15000000000 (idle_stats\<lparr>ws_min_diff := Fin 64\<rparr>)"
proof -
  let ?tick = "vardiff_tick sample_fl 20 True 15000000000 [''k'' \<mapsto> idle_stats] ''k''"
  let ?new = "restart_window 15000000000 (idle_stats\<lparr>ws_min_diff := Fin 64\<rparr>)"
  have "ws_min_diff idle_stats = Fin 200" by (simp add: idle_stats_def)
  moreover have "usual_diff 200" using is_float_int[of 200] by (simp add: usual_diff_def)
  ultimately obtain s' r where tick: "?tick = Some s'" "ws_min_diff s' = Fin r"
    "s' = idle_stats \<or> s' = restart_window 15000000000 (idle_stats\<lparr>ws_min_diff := Fin r\<rparr>) \<and> step_within True 200 r"
    using vardiff_tick_bounded[of "[''k'' \<mapsto> idle_stats]" "''k''" idle_stats 200 True sample_fl 20 15000000000] sample_fl_ok
    by fastforce
  moreover have "?tick = Some ?new" by (simp add: vardiff_tick_def idle_stats_adjusted)
  moreover have "?new \<noteq> idle_stats" by (simp add: idle_stats_def restart_window_def WorkStats_new_def)
  ultimately show ?thesis by (intro exI[of _ s'] exI[of _ r]) auto
qed

end
