(* ===== verification/Share_Consumer.thy ===== *)
theory Share_Consumer
  imports Share_Submit Accounting_Repo "HOL-Library.Sublist"
begin

text \<open>
  The accountant's event consumer (\<open>accountant/src/consumer.rs\<close>) and the statements it uses
  (\<open>wallet.rs\<close>, \<open>worker.rs\<close>, \<open>share.rs\<close>, \<open>share_reject.rs\<close>, \<open>connection_session.rs\<close> of \<open>katpool-db\<close>): from the events of
  the bridge to the rows of the share, block and session tables.

  The state extends the database by the tables only the consumer writes, the sequences of
  their keys, and the map of open sessions the process keeps in memory.  The answers of the
  broadcast channel and the clock of the drain are inputs.  Sequences are not rolled back by the
  server; the model rolls them back, which only changes which fresh number is taken.  The share row
  leaves out its own key, the worker, the session and the correlation id.
\<close>

section \<open>The model\<close>

record worker_row =
  wk_id :: int
  wk_wallet :: wallet_id
  wk_name :: string

record reject_row =
  rj_wallet :: wallet_id
  rj_worker :: int
  rj_reason :: share_reject_reason
  rj_at :: timestamp

record session_row =
  ss_id :: int
  ss_worker :: "int option"
  ss_ip :: string
  ss_app :: "string option"
  ss_country :: "string option"
  ss_connected :: timestamp
  ss_disconnected :: "timestamp option"

record consumer_db = pool_db +
  next_wallet :: int
  workers :: "worker_row list"
  next_worker :: int
  rejects :: "reject_row list"
  sessions :: "session_row list"
  next_session :: int
  open_sessions :: "nat \<rightharpoonup> int"

type_synonym 'a cdb_act = "(consumer_db, db_error, 'a) act"

subsection \<open>Statements\<close>

definition VALID_NETWORKS :: "string list" where
  "VALID_NETWORKS = [''mainnet'', ''testnet-10'', ''testnet-11'', ''devnet'', ''simnet'']"

text \<open>The check \<open>wallet_address_format\<close>: a prefix of the network, then forty to a hundred letters and digits.\<close>

definition network_prefixes :: "string \<Rightarrow> string list" where
  "network_prefixes net =
     (if net = ''mainnet'' then [''zkas:'', ''firecash:'', ''kaspa:'']
      else if net = ''testnet-10'' \<or> net = ''testnet-11'' then [''zkastest:'', ''firecashtest:'', ''kaspatest:'']
      else if net = ''devnet'' then [''zkasdev:'', ''firecashdev:'', ''kaspadev:'']
      else if net = ''simnet'' then [''zkassim:'', ''firecashsim:'', ''kaspasim:''] else [])"

definition address_format :: "string \<Rightarrow> string \<Rightarrow> bool" where
  "address_format net a =
     list_ex (\<lambda>p. case strip_prefix p a of None \<Rightarrow> False
       | Some body \<Rightarrow> 40 \<le> length body \<and> length body \<le> 100 \<and> list_all (\<lambda>c. is_ascii_lowercase c \<or> is_ascii_digit c) body)
       (network_prefixes net)"

text \<open>\<open>INSERT \<dots> ON CONFLICT DO UPDATE\<close>: the check is made on the proposed row, the sequence moves in both cases.\<close>

definition wallet_ensure :: "string \<Rightarrow> string \<Rightarrow> wallet_row cdb_act" where
  "wallet_ensure addr net = sql (\<lambda>s.
     if \<not> address_format net addr then (Inl (Constraint ''wallet_address_format''), s)
     else let t = s\<lparr>next_wallet := next_wallet s + 1\<rparr>
       in case List.find (\<lambda>w. w_address w = addr) (wallets s) of
            Some w \<Rightarrow> (Inr w, t)
          | None \<Rightarrow> let w = \<lparr>w_id = next_wallet s, w_address = addr, w_network = net\<rparr>
              in (Inr w, t\<lparr>wallets := wallets s @ [w]\<rparr>))"

definition worker_checks :: "string \<Rightarrow> bool" where
  "worker_checks name \<longleftrightarrow> 1 \<le> length name \<and> length name \<le> 64 \<and> list_all is_safe_worker_char name"

definition worker_ensure :: "wallet_id \<Rightarrow> string \<Rightarrow> worker_row cdb_act" where
  "worker_ensure wid name = sql (\<lambda>s.
     if \<not> worker_checks name then (Inl (Constraint ''worker_name_charset''), s)
     else let t = s\<lparr>next_worker := next_worker s + 1\<rparr>
       in case List.find (\<lambda>k. wk_wallet k = wid \<and> wk_name k = name) (workers s) of
            Some k \<Rightarrow> (Inr k, t)
          | None \<Rightarrow>
              if \<not> list_ex (\<lambda>w. w_id w = wid) (wallets s) then (Inl (Constraint ''worker_wallet_id_fkey''), s)
              else let k = \<lparr>wk_id = next_worker s, wk_wallet = wid, wk_name = name\<rparr>
                in (Inr k, t\<lparr>workers := workers s @ [k]\<rparr>))"

definition owner_exists :: "wallet_id \<Rightarrow> int \<Rightarrow> consumer_db \<Rightarrow> bool" where
  "owner_exists wid kid s \<longleftrightarrow> list_ex (\<lambda>w. w_id w = wid) (wallets s) \<and> list_ex (\<lambda>k. wk_id k = kid) (workers s)"

text \<open>The check \<open>difficulty > 0 AND difficulty = difficulty\<close>; the server orders NaN above every number and equal to itself.\<close>

definition difficulty_check :: "f64 \<Rightarrow> bool" where
  "difficulty_check d \<longleftrightarrow> d = NaN \<or> f64_lt (Fin 0) d"

definition insert_credited :: "wallet_id \<Rightarrow> int \<Rightarrow> f64 \<Rightarrow> nat \<Rightarrow> unit cdb_act" where
  "insert_credited wid kid d daa = sql (\<lambda>s.
     if \<not> difficulty_check d \<or> u64_as_i64 daa < 0 then (Inl (Constraint ''share_check''), s)
     else if \<not> owner_exists wid kid s then (Inl (Constraint ''share_fkey''), s)
     else (Inr (), s\<lparr>shares := shares s @ [\<lparr>sh_wallet = wid, sh_difficulty = d, sh_daa = u64_as_i64 daa, sh_credited_at = now s\<rparr>]\<rparr>))"

definition reject_insert :: "wallet_id \<Rightarrow> int \<Rightarrow> share_reject_reason \<Rightarrow> unit cdb_act" where
  "reject_insert wid kid reason = sql (\<lambda>s.
     if \<not> owner_exists wid kid s then (Inl (Constraint ''share_reject_fkey''), s)
     else (Inr (), s\<lparr>rejects := rejects s @ [\<lparr>rj_wallet = wid, rj_worker = kid, rj_reason = reason, rj_at = now s\<rparr>]\<rparr>))"

definition session_insert ::
  "int option \<Rightarrow> string \<Rightarrow> string option \<Rightarrow> string option \<Rightarrow> timestamp \<Rightarrow> timestamp option \<Rightarrow> int cdb_act" where
  "session_insert worker ip app country since ended = sql (\<lambda>s.
     if (case worker of Some k \<Rightarrow> \<not> list_ex (\<lambda>r. wk_id r = k) (workers s) | None \<Rightarrow> False)
     then (Inl (Constraint ''connection_session_worker_id_fkey''), s)
     else (Inr (next_session s),
       s\<lparr>sessions := sessions s @ [\<lparr>ss_id = next_session s, ss_worker = worker, ss_ip = ip, ss_app = app, ss_country = country,
           ss_connected = since, ss_disconnected = ended\<rparr>], next_session := next_session s + 1\<rparr>))"

definition session_open :: "int option \<Rightarrow> string \<Rightarrow> string option \<Rightarrow> string option \<Rightarrow> timestamp \<Rightarrow> int cdb_act" where
  "session_open worker ip app country since = session_insert worker ip app country since None"

definition record_closed :: "int option \<Rightarrow> string \<Rightarrow> string option \<Rightarrow> string option \<Rightarrow> timestamp \<Rightarrow> timestamp \<Rightarrow> int cdb_act" where
  "record_closed worker ip app country since ended = session_insert worker ip app country since (Some ended)"

definition session_close :: "int \<Rightarrow> unit cdb_act" where
  "session_close sid = sql (\<lambda>s. (Inr (), s\<lparr>sessions :=
     update_where (\<lambda>r. ss_id r = sid) (\<lambda>r. r\<lparr>ss_disconnected := coalesce (ss_disconnected r) (Some (now s))\<rparr>) (sessions s)\<rparr>))"

definition close_all_open :: "nat cdb_act" where
  "close_all_open = sql (\<lambda>s. (Inr (rows_affected (\<lambda>r. ss_disconnected r = None) (sessions s)), s\<lparr>sessions :=
     update_where (\<lambda>r. ss_disconnected r = None) (\<lambda>r. r\<lparr>ss_disconnected := Some (now s)\<rparr>) (sessions s)\<rparr>))"

subsection \<open>Handlers\<close>

datatype event_error =
    WalletEnsure db_error | WorkerEnsure db_error | ShareInsert db_error | ShareRejectInsert db_error
  | BlockEnsure db_error | BlockMarkSubmitted db_error | OrphanBlockAccepted string
  | SessionBadIp string | SessionRecord db_error

type_synonym 'a cons_act = "(consumer_db, event_error, 'a) act"

text \<open>The network, and what resolves addresses: the parser of IP addresses and the optional country lookup.\<close>

record consumer_config =
  cc_network :: string
  cc_parse_ip :: "string \<Rightarrow> string option"
  cc_country :: "(string \<Rightarrow> string option) option"

definition ConsumerConfig_new :: "string \<Rightarrow> (string \<Rightarrow> string option) \<Rightarrow> (string \<Rightarrow> string option) option \<Rightarrow> string + consumer_config" where
  "ConsumerConfig_new network parse_ip country =
     (if network \<notin> set VALID_NETWORKS then Inl network
      else Inr \<lparr>cc_network = network, cc_parse_ip = parse_ip, cc_country = country\<rparr>)"

definition ensure_owner :: "consumer_config \<Rightarrow> string \<Rightarrow> string \<Rightarrow> (wallet_id \<times> int) cons_act" where
  "ensure_owner cfg addr name =
     bindE (map_err WalletEnsure (wallet_ensure addr (cc_network cfg))) (\<lambda>w.
     bindE (map_err WorkerEnsure (worker_ensure (w_id w) name)) (\<lambda>k. ret (w_id w, wk_id k)))"

definition handle_share_rejected :: "consumer_config \<Rightarrow> string \<Rightarrow> string \<Rightarrow> share_reject_reason \<Rightarrow> unit cons_act" where
  "handle_share_rejected cfg addr name reason =
     transaction (bindE (ensure_owner cfg addr name) (\<lambda>(w, k). map_err ShareRejectInsert (reject_insert w k reason))) ShareRejectInsert"

definition handle_share_credited :: "consumer_config \<Rightarrow> string \<Rightarrow> string \<Rightarrow> f64 \<Rightarrow> nat \<Rightarrow> unit cons_act" where
  "handle_share_credited cfg addr name d daa =
     transaction (bindE (ensure_owner cfg addr name) (\<lambda>(w, k). map_err ShareInsert (insert_credited w k d daa))) ShareInsert"

definition handle_block_found :: "consumer_config \<Rightarrow> string \<Rightarrow> string \<Rightarrow> hash \<Rightarrow> nat \<Rightarrow> unit cons_act" where
  "handle_block_found cfg addr name h daa =
     transaction (bindE (ensure_owner cfg addr name) (\<lambda>_. bindE (map_err BlockEnsure (block_ensure h daa)) (\<lambda>_. ret ()))) BlockEnsure"

definition handle_block_accepted :: "hash \<Rightarrow> unit cons_act" where
  "handle_block_accepted h =
     bindE (map_err BlockMarkSubmitted (find_by_hash h)) (\<lambda>existing.
       case existing of
         None \<Rightarrow> raise (OrphanBlockAccepted (hex_encode h))
       | Some _ \<Rightarrow> map_err BlockMarkSubmitted (mark_submitted h))"

definition session_worker :: "consumer_config \<Rightarrow> string option \<Rightarrow> string option \<Rightarrow> int option cons_act" where
  "session_worker cfg wallet worker =
     (case (wallet, worker) of
        (Some addr, Some name) \<Rightarrow> bindE (ensure_owner cfg addr name) (\<lambda>(w, k). ret (Some k))
      | _ \<Rightarrow> ret None)"

definition resolve_ip :: "consumer_config \<Rightarrow> string \<Rightarrow> (string \<times> string option) cons_act" where
  "resolve_ip cfg remote_ip =
     (case cc_parse_ip cfg remote_ip of
        None \<Rightarrow> raise (SessionBadIp remote_ip)
      | Some ip \<Rightarrow> ret (ip, Option.bind (cc_country cfg) (\<lambda>g. g ip)))"

definition handle_session_opened ::
  "consumer_config \<Rightarrow> nat \<Rightarrow> string option \<Rightarrow> string option \<Rightarrow> string \<Rightarrow> string option \<Rightarrow> nat \<Rightarrow> unit cons_act" where
  "handle_session_opened cfg conn wallet worker remote_ip app since =
     bindE (resolve_ip cfg remote_ip) (\<lambda>(ip, country).
     bindE (transaction (bindE (session_worker cfg wallet worker) (\<lambda>k.
         map_err SessionRecord (session_open k ip app country (int since)))) SessionRecord) (\<lambda>sid s.
       (Inr (), s\<lparr>open_sessions := (open_sessions s)(conn \<mapsto> sid)\<rparr>)))"

definition handle_session_closed ::
  "consumer_config \<Rightarrow> nat \<Rightarrow> string option \<Rightarrow> string option \<Rightarrow> string \<Rightarrow> string option \<Rightarrow> nat \<Rightarrow> nat \<Rightarrow> unit cons_act" where
  "handle_session_closed cfg conn wallet worker remote_ip app since ended =
     bindE (\<lambda>s. (Inr (open_sessions s conn), s\<lparr>open_sessions := (open_sessions s)(conn := None)\<rparr>)) (\<lambda>open_row.
       case open_row of
         Some sid \<Rightarrow> map_err SessionRecord (session_close sid)
       | None \<Rightarrow>
           bindE (resolve_ip cfg remote_ip) (\<lambda>(ip, country).
           bindE (transaction (bindE (session_worker cfg wallet worker) (\<lambda>k.
               map_err SessionRecord (record_closed k ip app country (int since) (int ended)))) SessionRecord) (\<lambda>_. ret ())))"

subsection \<open>The loop\<close>

definition dispatch :: "consumer_config \<Rightarrow> pool_event \<Rightarrow> unit cons_act" where
  "dispatch cfg ev =
     (case ev of
        ShareCredited w k d daa _ _ \<Rightarrow> handle_share_credited cfg w k d daa
      | ShareRejected w k reason _ _ \<Rightarrow> handle_share_rejected cfg w k reason
      | BlockFound w k h daa _ _ \<Rightarrow> handle_block_found cfg w k h daa
      | BlockAccepted h _ _ \<Rightarrow> handle_block_accepted h
      | SessionOpened conn w k ip app since _ \<Rightarrow> handle_session_opened cfg conn w k ip app since
      | SessionClosed conn w k ip app since ts _ \<Rightarrow> handle_session_closed cfg conn w k ip app since ts)"

text \<open>An error of a handler is logged and dropped.\<close>

definition handle_event :: "consumer_config \<Rightarrow> pool_event \<Rightarrow> consumer_db \<Rightarrow> consumer_db" where
  "handle_event cfg ev s = snd (dispatch cfg ev s)"

datatype recv_result = Received pool_event | Lagged nat | Closed
datatype loop_step = LoopContinue | LoopExit

definition consumer_step :: "consumer_config \<Rightarrow> recv_result \<Rightarrow> consumer_db \<Rightarrow> loop_step \<times> consumer_db" where
  "consumer_step cfg r s =
     (case r of
        Received ev \<Rightarrow> (LoopContinue, handle_event cfg ev s)
      | Lagged _ \<Rightarrow> (LoopContinue, s)
      | Closed \<Rightarrow> (LoopExit, s))"

definition startup_session_sweep :: "consumer_db \<Rightarrow> consumer_db" where
  "startup_session_sweep s = snd (close_all_open s)"

text \<open>The drain at shutdown, over the clock reads and answers of the channel; \<open>None\<close> is the idle gap.\<close>

fun drain_backlog :: "consumer_config \<Rightarrow> nat \<Rightarrow> (nat \<times> recv_result option) list \<Rightarrow> consumer_db \<Rightarrow> consumer_db" where
  "drain_backlog cfg deadline [] s = s"
| "drain_backlog cfg deadline ((tm, answer) # rest) s =
     (if deadline \<le> tm then s
      else case answer of
        None \<Rightarrow> s
      | Some (Received ev) \<Rightarrow> drain_backlog cfg deadline rest (handle_event cfg ev s)
      | Some (Lagged _) \<Rightarrow> drain_backlog cfg deadline rest s
      | Some Closed \<Rightarrow> s)"

text \<open>What the loop waits for: the channel, or a change of the shutdown flag (or its sender gone).\<close>

datatype wakeup = FromBus recv_result | ShutdownFlag bool

fun consumer_loop ::
  "consumer_config \<Rightarrow> (nat \<times> (nat \<times> recv_result option) list) \<Rightarrow> wakeup list \<Rightarrow> consumer_db \<Rightarrow> consumer_db" where
  "consumer_loop cfg drain [] s = s"
| "consumer_loop cfg drain (FromBus r # ws) s =
     (case consumer_step cfg r s of (LoopContinue, t) \<Rightarrow> consumer_loop cfg drain ws t | (LoopExit, t) \<Rightarrow> t)"
| "consumer_loop cfg drain (ShutdownFlag stop # ws) s =
     (if stop then drain_backlog cfg (fst drain) (snd drain) s else consumer_loop cfg drain ws s)"

text \<open>Without a shutdown signal the loop ends with the channel.\<close>

definition consumer_run :: "consumer_config \<Rightarrow> recv_result list \<Rightarrow> consumer_db \<Rightarrow> consumer_db" where
  "consumer_run cfg rs s = consumer_loop cfg (0, []) (map FromBus rs) (startup_session_sweep s)"

definition run_with_shutdown ::
  "consumer_config \<Rightarrow> bool \<Rightarrow> (nat \<times> (nat \<times> recv_result option) list) \<Rightarrow> wakeup list \<Rightarrow> consumer_db \<Rightarrow> consumer_db" where
  "run_with_shutdown cfg latched drain ws s =
     (let t = startup_session_sweep s
      in if latched then drain_backlog cfg (fst drain) (snd drain) t else consumer_loop cfg drain ws t)"


section \<open>What a handler leaves alone\<close>

text \<open>The shares are as before, and wallets are only added.\<close>

definition books_step :: "consumer_db \<Rightarrow> consumer_db \<Rightarrow> bool" where
  "books_step s t \<longleftrightarrow> shares t = shares s \<and> prefix (wallets s) (wallets t)"

interpretation books: step_relation books_step
  by unfold_locales (auto simp: books_step_def)

lemma tables_calls: "books_step s (t\<lparr>calls := n\<rparr>) = books_step s t" "books_step (s\<lparr>calls := n\<rparr>) t = books_step s t"
  by (simp_all add: books_step_def)

lemma stays_sql: "stays books_step m \<Longrightarrow> stays books_step (sql m)"
  unfolding stays_def sql_def Let_def by (auto simp: tables_calls books.refl) (metis tables_calls(2))

lemma stays_transaction: "stays books_step body \<Longrightarrow> stays books_step (transaction body conv)"
proof -
  assume body: "stays books_step body"
  have stmt: "stays books_step (map_err conv (sql (ret ())))" by (intro books.stays_map_err stays_sql books.stays_pure)
  have all: "stays books_step (bindE (map_err conv (sql (ret ()))) (\<lambda>_. bindE body (\<lambda>a. bindE (map_err conv (sql (ret ()))) (\<lambda>_. ret a))))"
    by (intro books.stays_bindE stmt body books.stays_pure)
  show ?thesis unfolding stays_def
  proof
    fix s
    show "books_step s (snd (transaction body conv s))"
      using all[unfolded stays_def, rule_format, of s]
      by (auto simp: transaction_def tables_calls books.refl split: prod.split sum.split)
  qed
qed

lemma stays_ensure: "stays books_step (wallet_ensure a n)" "stays books_step (worker_ensure w k)"
  unfolding wallet_ensure_def worker_ensure_def
  by (rule stays_sql; auto simp: stays_def books_step_def Let_def split: option.split)+

lemma stays_owner: "stays books_step (ensure_owner cfg a k)"
  unfolding ensure_owner_def by (intro books.stays_control stays_ensure)

lemma stays_statements:
  "stays books_step (reject_insert w k r)" "stays books_step (session_insert kk ip app country c d)" "stays books_step (session_close sid)"
  "stays books_step close_all_open" "stays books_step (block_ensure h daa)" "stays books_step (find_by_hash h)" "stays books_step (mark_submitted h)"
  unfolding reject_insert_def session_insert_def session_close_def close_all_open_def block_ensure_def find_by_hash_def mark_submitted_def update_block_def
  by (rule stays_sql; auto simp: stays_def books_step_def Let_def split: option.split)+

lemma stays_open_map: "stays books_step (\<lambda>s. (f s, s\<lparr>open_sessions := g s\<rparr>))"
  by (simp add: stays_def books_step_def)

lemmas books_rules = stays_transaction stays_owner stays_statements stays_open_map books.stays_control

lemma other_events_keep_shares:
  assumes "\<not> is_credit ev"
  shows "stays books_step (dispatch cfg ev)"
  using assms
  unfolding dispatch_def handle_share_rejected_def handle_block_found_def handle_block_accepted_def handle_session_opened_def handle_session_closed_def
    resolve_ip_def session_worker_def session_open_def record_closed_def
  by (cases ev) (auto intro!: books_rules split: option.split)


section \<open>Booking a share\<close>

lemma wallet_ensure_Inr:
  assumes "wallet_ensure a n s = (Inr w, t)"
  shows "w \<in> set (wallets t) \<and> w_address w = a \<and> prefix (wallets s) (wallets t) \<and> shares t = shares s \<and> address_format n a"
  using assms[unfolded wallet_ensure_def, THEN sql_Inr]
  by (auto simp: Let_def find_Some_iff split: if_splits option.splits)

lemma worker_ensure_Inr:
  assumes "worker_ensure w n s = (Inr k, t)"
  shows "k \<in> set (workers t) \<and> wallets t = wallets s \<and> shares t = shares s \<and> worker_checks n"
  using assms[unfolded worker_ensure_def, THEN sql_Inr]
  by (auto simp: Let_def find_Some_iff split: if_splits option.splits)

lemma ensure_owner_Inr:
  assumes "ensure_owner cfg a n s = (Inr (wid, kid), t)"
  shows "(\<exists>w \<in> set (wallets t). w_id w = wid \<and> w_address w = a) \<and> (\<exists>k \<in> set (workers t). wk_id k = kid) \<and>
    prefix (wallets s) (wallets t) \<and> shares t = shares s \<and> address_format (cc_network cfg) a"
proof -
  from assms obtain w u k where w: "wallet_ensure a (cc_network cfg) s = (Inr w, u)" and k: "worker_ensure (w_id w) n u = (Inr k, t)"
    and ids: "wid = w_id w" "kid = wk_id k"
    by (auto simp: ensure_owner_def map_err_def split: prod.splits sum.splits elim!: bindE_InrE)
  show ?thesis using wallet_ensure_Inr[OF w] worker_ensure_Inr[OF k] ids by auto
qed

text \<open>The row that books a credit: the wallet row of the address, the difficulty and the score of the event.\<close>

definition row_of :: "wallet_row list \<Rightarrow> pool_event \<Rightarrow> share_row \<Rightarrow> bool" where
  "row_of ws ev row =
     (case ev of
        ShareCredited addr _ d daa _ _ \<Rightarrow>
          (\<exists>w \<in> set ws. w_id w = sh_wallet row \<and> w_address w = addr) \<and> sh_difficulty row = d \<and> sh_daa row = u64_as_i64 daa
      | _ \<Rightarrow> False)"

lemma row_of_mono: "row_of ws ev row \<Longrightarrow> set ws \<subseteq> set vs \<Longrightarrow> row_of vs ev row"
  by (auto simp: row_of_def split: pool_event.splits)

lemma credited_outcome:
  assumes run: "dispatch cfg (ShareCredited a n d daa ts cid) s = (r, t)"
  obtains (lost) e where "r = Inl e" and "t = s\<lparr>calls := calls t\<rparr>"
    | (booked) row where "r = Inr ()" and "shares t = shares s @ [row]" and "prefix (wallets s) (wallets t)"
        and "row_of (wallets t) (ShareCredited a n d daa ts cid) row" and "address_format (cc_network cfg) a"
        and "0 \<le> u64_as_i64 daa"
proof (cases r)
  case (Inl e)
  have "t = s\<lparr>calls := calls t\<rparr>"
    by (rule transaction_Inl[OF run[unfolded dispatch_def handle_share_credited_def pool_event.case Inl]])
  then show ?thesis by (rule lost[OF Inl])
next
  case (Inr x)
  let ?body = "bindE (ensure_owner cfg a n) (\<lambda>(w, k). map_err ShareInsert (insert_credited w k d daa))"
  from run Inr obtain v where v: "?body (s\<lparr>calls := Suc (calls s)\<rparr>) = (Inr (), v)" and t: "t = v\<lparr>calls := Suc (calls v)\<rparr>"
    by (auto simp: dispatch_def handle_share_credited_def elim: transaction_Inr)
  from v obtain wid kid u where o: "ensure_owner cfg a n (s\<lparr>calls := Suc (calls s)\<rparr>) = (Inr (wid, kid), u)"
    and i: "insert_credited wid kid d daa u = (Inr (), v)"
    by (auto simp: map_err_def split: prod.splits sum.splits elim!: bindE_InrE)
  from i[unfolded insert_credited_def, THEN sql_Inr]
  have sh: "shares v = shares u @ [\<lparr>sh_wallet = wid, sh_difficulty = d, sh_daa = u64_as_i64 daa, sh_credited_at = now u\<rparr>]" "wallets v = wallets u" "0 \<le> u64_as_i64 daa"
    by (auto split: if_splits)
  show ?thesis
    by (rule booked) (use Inr ensure_owner_Inr[OF o] sh t in \<open>auto simp: row_of_def\<close>)
qed

lemma only_calls:
  fixes s t :: consumer_db
  assumes "t = s\<lparr>calls := calls t\<rparr>"
  shows "shares t = shares s" "wallets t = wallets s"
  by (subst assms, simp)+

lemma handle_event_books:
  obtains (same) "shares (handle_event cfg ev s) = shares s" and "prefix (wallets s) (wallets (handle_event cfg ev s))"
    | (booked) row where "is_credit ev" and "shares (handle_event cfg ev s) = shares s @ [row]"
        and "prefix (wallets s) (wallets (handle_event cfg ev s))" and "row_of (wallets (handle_event cfg ev s)) ev row"
proof (cases "is_credit ev")
  case False
  then show ?thesis
    using same other_events_keep_shares[OF False, of cfg] by (auto simp: stays_def books_step_def handle_event_def)
next
  case True
  then obtain a n d daa ts cid where ev: "ev = ShareCredited a n d daa ts cid" by (auto simp: is_credit_def split: pool_event.splits)
  obtain r t where run: "dispatch cfg (ShareCredited a n d daa ts cid) s = (r, t)" by fastforce
  then have t: "handle_event cfg ev s = t" by (simp add: handle_event_def ev)
  show ?thesis
  proof (rule credited_outcome[OF run])
    fix e assume "t = s\<lparr>calls := calls t\<rparr>"
    from only_calls[OF this] show ?thesis using same t by simp
  qed (use booked t ev True in simp)
qed

section \<open>Runs\<close>

text \<open>The events the loop and the drain are offered, and that they handle some of them in order.\<close>

definition received :: "wakeup list \<Rightarrow> pool_event list" where
  "received ws = concat (map (\<lambda>w. case w of FromBus (Received ev) \<Rightarrow> [ev] | _ \<Rightarrow> []) ws)"

definition drained :: "(nat \<times> recv_result option) list \<Rightarrow> pool_event list" where
  "drained xs = concat (map (\<lambda>(tm, a). case a of Some (Received ev) \<Rightarrow> [ev] | _ \<Rightarrow> []) xs)"

lemma drain_handles: "\<exists>evs. subseq evs (drained xs) \<and> drain_backlog cfg deadline xs s = fold (handle_event cfg) evs s"
proof (induction xs arbitrary: s)
  case (Cons x xs)
  obtain tm a where x: "x = (tm, a)" by fastforce
  have skip: "\<exists>evs. subseq evs (drained (x # xs)) \<and> s = fold (handle_event cfg) evs s" by (rule exI[of _ "[]"]) simp
  show ?case
  proof (cases "\<exists>ev. a = Some (Received ev)")
    case True
    then obtain ev where a: "a = Some (Received ev)" by blast
    from Cons.IH[of "handle_event cfg ev s"] obtain evs where evs: "subseq evs (drained xs)"
      "drain_backlog cfg deadline xs (handle_event cfg ev s) = fold (handle_event cfg) evs (handle_event cfg ev s)" by blast
    have "subseq (ev # evs) (drained (x # xs))" using evs(1) by (simp add: drained_def x a)
    moreover have "drain_backlog cfg deadline (x # xs) s = (if deadline \<le> tm then s else fold (handle_event cfg) (ev # evs) s)"
      using evs(2) by (simp add: x a)
    ultimately show ?thesis using skip by (cases "deadline \<le> tm") auto
  next
    case False
    then have "drained (x # xs) = drained xs" by (auto simp: drained_def x split: option.splits recv_result.splits)
    then show ?thesis using Cons.IH[of s] skip False x by (auto split: option.splits recv_result.splits)
  qed
qed (auto simp: drained_def)

lemma loop_handles:
  "\<exists>evs. subseq evs (received ws @ drained (snd drain)) \<and> consumer_loop cfg drain ws s = fold (handle_event cfg) evs s"
proof (induction ws arbitrary: s)
  case Nil
  show ?case by (rule exI[of _ "[]"]) simp
next
  case (Cons w ws)
  have skip: "\<exists>evs. subseq evs (received (w # ws) @ drained (snd drain)) \<and> s = fold (handle_event cfg) evs s" by (rule exI[of _ "[]"]) simp
  consider (ev) ev where "w = FromBus (Received ev)" | (lag) n where "w = FromBus (Lagged n)" | (close) "w = FromBus Closed"
    | (stop) "w = ShutdownFlag True" | (wait) "w = ShutdownFlag False"
    by (metis (full_types) recv_result.exhaust wakeup.exhaust)
  then show ?case
  proof cases
    case ev
    from Cons.IH[of "handle_event cfg ev s"] obtain evs where evs: "subseq evs (received ws @ drained (snd drain))"
      "consumer_loop cfg drain ws (handle_event cfg ev s) = fold (handle_event cfg) evs (handle_event cfg ev s)" by blast
    show ?thesis by (rule exI[of _ "ev # evs"]) (use evs ev in \<open>simp add: received_def consumer_step_def\<close>)
  next
    case stop
    obtain evs where evs: "subseq evs (drained (snd drain))" "drain_backlog cfg (fst drain) (snd drain) s = fold (handle_event cfg) evs s"
      using drain_handles by blast
    show ?thesis by (rule exI[of _ evs]) (use evs stop in \<open>simp add: list_emb_append2\<close>)
  qed (use skip Cons.IH[of s] in \<open>auto simp: received_def consumer_step_def\<close>)
qed

lemma run_handles:
  "\<exists>evs. subseq evs (received ws @ drained (snd drain)) \<and>
     run_with_shutdown cfg latched drain ws s = fold (handle_event cfg) evs (startup_session_sweep s)"
proof (cases latched)
  case True
  obtain evs where "subseq evs (drained (snd drain))"
    "drain_backlog cfg (fst drain) (snd drain) (startup_session_sweep s) = fold (handle_event cfg) evs (startup_session_sweep s)"
    using drain_handles by blast
  then show ?thesis using True by (intro exI[of _ evs]) (simp add: run_with_shutdown_def list_emb_append2)
qed (use loop_handles in \<open>simp add: run_with_shutdown_def\<close>)

lemma fold_books:
  "\<exists>kept rows. shares (fold (handle_event cfg) evs s) = shares s @ rows \<and> subseq kept (filter is_credit evs) \<and>
     list_all2 (row_of (wallets (fold (handle_event cfg) evs s))) kept rows \<and> prefix (wallets s) (wallets (fold (handle_event cfg) evs s))"
proof (induction evs arbitrary: s)
  case Nil
  show ?case by (rule exI[of _ "[]"], rule exI[of _ "[]"]) simp
next
  case (Cons ev evs)
  let ?u = "handle_event cfg ev s" and ?t = "fold (handle_event cfg) evs (handle_event cfg ev s)"
  from Cons.IH[of ?u] obtain kept rows where IH: "shares ?t = shares ?u @ rows" "subseq kept (filter is_credit evs)"
    "list_all2 (row_of (wallets ?t)) kept rows" "prefix (wallets ?u) (wallets ?t)" by blast
  show ?case
  proof (rule handle_event_books[of cfg ev s])
    assume "shares ?u = shares s" "prefix (wallets s) (wallets ?u)"
    then show ?thesis by (intro exI[of _ kept] exI[of _ rows]) (use IH in \<open>auto intro: prefix_order.trans\<close>)
  next
    fix row assume new: "is_credit ev" "shares ?u = shares s @ [row]" "prefix (wallets s) (wallets ?u)" "row_of (wallets ?u) ev row"
    have "row_of (wallets ?t) ev row" using row_of_mono[OF new(4) set_mono_prefix[OF IH(4)]] .
    then show ?thesis by (intro exI[of _ "ev # kept"] exI[of _ "row # rows"]) (use IH new in \<open>auto intro: prefix_order.trans\<close>)
  qed
qed


section \<open>Wallet rows\<close>

text \<open>One row per address and per id, and the sequence is ahead of every id.\<close>

definition owners_ok :: "consumer_db \<Rightarrow> bool" where
  "owners_ok s \<longleftrightarrow> distinct (map w_id (wallets s)) \<and> distinct (map w_address (wallets s)) \<and> (\<forall>w \<in> set (wallets s). w_id w < next_wallet s)"

lemma owners_inv: "db_inv owners_ok"
  by (simp add: db_inv_def owners_ok_def)

lemma owners_wallet: "preserves owners_ok (wallet_ensure a n)"
  unfolding wallet_ensure_def
  by (rule preserves_sql[OF owners_inv]) (force simp: preserves_def owners_ok_def Let_def find_None_iff split: option.split)

lemma owners_same:
  assumes "\<And>s. wallets (snd (m s)) = wallets s \<and> next_wallet (snd (m s)) = next_wallet s"
  shows "preserves owners_ok m"
  using assms by (simp add: preserves_def owners_ok_def)

lemma owners_statements:
  "preserves owners_ok (worker_ensure w k)" "preserves owners_ok (insert_credited w kk d daa)" "preserves owners_ok (reject_insert w kk r)"
  "preserves owners_ok (session_insert ko ip app country c e)" "preserves owners_ok (session_close sid)" "preserves owners_ok close_all_open"
  "preserves owners_ok (block_ensure h daa)" "preserves owners_ok (find_by_hash h)" "preserves owners_ok (mark_submitted h)"
  "preserves owners_ok (\<lambda>s. (f s, s\<lparr>open_sessions := g s\<rparr>))"
  unfolding worker_ensure_def insert_credited_def reject_insert_def session_insert_def session_close_def close_all_open_def block_ensure_def
    find_by_hash_def mark_submitted_def update_block_def
  by (intro preserves_sql[OF owners_inv] owners_same; auto simp: Let_def split: option.split)+

lemma owners_dispatch: "preserves owners_ok (dispatch cfg ev)"
  unfolding dispatch_def handle_share_rejected_def handle_share_credited_def handle_block_found_def handle_block_accepted_def
    handle_session_opened_def handle_session_closed_def resolve_ip_def session_worker_def session_open_def record_closed_def ensure_owner_def
  by (cases ev) (auto intro!: preserves_rules preserves_transaction[OF owners_inv] owners_wallet owners_statements split: option.split prod.split)


lemma owners_fold: "owners_ok s \<Longrightarrow> owners_ok (fold (handle_event cfg) evs s)"
  by (induction evs arbitrary: s) (simp_all add: handle_event_def preservesD[OF owners_dispatch])

lemma sweep_books: "books_step s (startup_session_sweep s)" "owners_ok s \<Longrightarrow> owners_ok (startup_session_sweep s)"
  using stays_statements(4) owners_statements(6) by (auto simp: startup_session_sweep_def stays_def preserves_def)

lemma run_books:
  "\<exists>kept rows. shares (run_with_shutdown cfg latched drain ws s) = shares s @ rows \<and>
     subseq kept (filter is_credit (received ws @ drained (snd drain))) \<and>
     list_all2 (row_of (wallets (run_with_shutdown cfg latched drain ws s))) kept rows"
proof -
  let ?t = "run_with_shutdown cfg latched drain ws s"
  obtain evs where evs: "subseq evs (received ws @ drained (snd drain))" and t: "?t = fold (handle_event cfg) evs (startup_session_sweep s)"
    using run_handles by blast
  obtain kept rows where "shares ?t = shares (startup_session_sweep s) @ rows" "subseq kept (filter is_credit evs)"
    "list_all2 (row_of (wallets ?t)) kept rows"
    using fold_books[of cfg evs "startup_session_sweep s"] unfolding t by blast
  moreover have "shares (startup_session_sweep s) = shares s" using sweep_books(1)[of s] by (simp add: books_step_def)
  moreover have "subseq (filter is_credit evs) (filter is_credit (received ws @ drained (snd drain)))" using evs by (rule subseq_filter)
  ultimately show ?thesis by (metis subseq_order.trans)
qed

section \<open>Properties\<close>

text \<open>
  Every share row comes from a credited share.  Over a whole run of the consumer, whatever the
  connection to the database does, however events lag and whenever it is shut down, the rows
  added to the share table are those of some of the credited shares offered on the bus, in order
  and at most one for each, with their difficulty and score, under the wallet row of their
  address; and there is one wallet row per address.
\<close>

theorem share_rows_are_credited:
  fixes cfg latched drain ws
  assumes "owners_ok s"
  defines "t \<equiv> run_with_shutdown cfg latched drain ws s"
  shows "owners_ok t \<and> (\<exists>kept rows. shares t = shares s @ rows \<and>
    subseq kept (filter is_credit (received ws @ drained (snd drain))) \<and> list_all2 (row_of (wallets t)) kept rows)"
proof -
  have "owners_ok t" using run_handles[of ws drain cfg latched s] owners_fold[OF sweep_books(2)[OF assms(1)]] unfolding t_def by auto
  then show ?thesis using run_books[of cfg latched drain ws s] unfolding t_def by blast
qed

definition empty_db :: consumer_db where
  "empty_db = \<lparr>now = 0, faults = (\<lambda>_. False), calls = 0, wallets = [], shares = [], windows = [], next_window = 1, rewards = [], next_reward = 1,
     allocs = [], next_alloc = 1, rebates = [], blocks = [], cycles = [], next_cycle = 1, payouts = [], next_payout = 1, transfers = [],
     next_transfer = 1, meta = Map.empty, audit = [], next_wallet = 1, workers = [], next_worker = 1, rejects = [], sessions = [],
     next_session = 1, open_sessions = Map.empty\<rparr>"

definition mainnet_config :: consumer_config where
  "mainnet_config = \<lparr>cc_network = ''mainnet'', cc_parse_ip = Some, cc_country = None\<rparr>"

theorem share_rows_are_credited_witness:
  "owners_ok (run_with_shutdown mainnet_config False (0, [])
     [FromBus (Received (ShareCredited ''kaspa:a'' ''rig'' (Fin 1) 5 0 0))] empty_db)"
  using share_rows_are_credited[of empty_db] by (simp add: empty_db_def owners_ok_def)

text \<open>
  The fields of a credit are values of domain types: a checked worker name, a checked difficulty, any \<open>u64\<close> as score.
  Beyond their checks the schema asks for an address in the format of the network and a score below \<open>2 ^ 63\<close>, since
  the score is cast to \<open>i64\<close> and must not be negative.
\<close>

definition typed_event :: "pool_event \<Rightarrow> bool" where
  "typed_event ev =
     (case ev of
        ShareCredited a k d daa _ _ \<Rightarrow> WorkerName_new k = Inr k \<and> ShareDifficulty_new d = Inr d \<and> daa < 2 ^ 64
      | _ \<Rightarrow> True)"

definition bookable :: "consumer_config \<Rightarrow> pool_event \<Rightarrow> bool" where
  "bookable cfg ev =
     (case ev of ShareCredited a k d daa _ _ \<Rightarrow> address_format (cc_network cfg) a \<and> daa < 2 ^ 63 | _ \<Rightarrow> False)"

lemma sql_sound: "\<not> faults s (calls s) \<Longrightarrow> sql m s = m (s\<lparr>calls := Suc (calls s)\<rparr>)"
  by (simp add: sql_def Let_def)

definition sound_db :: "consumer_db \<Rightarrow> bool" where
  "sound_db s \<longleftrightarrow> (\<forall>n. \<not> faults s n)"

lemma domain_checks:
  "WorkerName_new k = Inr k \<Longrightarrow> worker_checks k" "ShareDifficulty_new d = Inr d \<Longrightarrow> difficulty_check d" "daa < 2 ^ 63 \<Longrightarrow> 0 \<le> u64_as_i64 daa"
  by (auto simp: WorkerName_new_def worker_checks_def WORKER_MAX_LEN_def list_all_iff find_None_iff ShareDifficulty_new_def difficulty_check_def
      f64_is_finite_def f64_lt_def f64_eq_def u64_as_i64_small Suc_le_eq split: if_splits option.splits f64.splits)


lemma sound_calls: "sound_db (s\<lparr>calls := n\<rparr>) = sound_db s"
  by (simp add: sound_db_def)

lemma sound_inv: "db_inv sound_db"
  by (simp add: db_inv_def sound_db_def)

lemma sound_statements:
  "preserves sound_db (wallet_ensure a n)"
  "preserves sound_db (worker_ensure w k)" "preserves sound_db (insert_credited w kk d daa)" "preserves sound_db (reject_insert w kk r)"
  "preserves sound_db (session_insert ko ip app country c e)" "preserves sound_db (session_close sid)" "preserves sound_db close_all_open"
  "preserves sound_db (block_ensure h daa)" "preserves sound_db (find_by_hash h)" "preserves sound_db (mark_submitted h)"
  unfolding wallet_ensure_def worker_ensure_def insert_credited_def reject_insert_def session_insert_def session_close_def close_all_open_def
    block_ensure_def find_by_hash_def mark_submitted_def update_block_def
  by (intro preserves_sql[OF sound_inv]; auto simp: preserves_def sound_db_def Let_def split: option.split)+

lemma sound_open_map: "preserves sound_db (\<lambda>s. (f s, s\<lparr>open_sessions := g s\<rparr>))"
  by (simp add: preserves_def sound_db_def)

lemma sound_dispatch: "preserves sound_db (dispatch cfg ev)"
  unfolding dispatch_def handle_share_rejected_def handle_share_credited_def handle_block_found_def handle_block_accepted_def
    handle_session_opened_def handle_session_closed_def resolve_ip_def session_worker_def session_open_def record_closed_def ensure_owner_def
  by (cases ev) (auto intro!: preserves_rules preserves_transaction[OF sound_inv] sound_statements sound_open_map split: option.split prod.split)

lemma wallet_ensure_sound:
  "sound_db s \<Longrightarrow> address_format n a \<Longrightarrow> \<exists>w t. wallet_ensure a n s = (Inr w, t) \<and> sound_db t"
  by (auto simp: wallet_ensure_def sql_sound sound_db_def Let_def split: option.split)

lemma worker_ensure_sound:
  "sound_db s \<Longrightarrow> worker_checks k \<Longrightarrow> w \<in> set (wallets s) \<Longrightarrow> \<exists>r t. worker_ensure (w_id w) k s = (Inr r, t) \<and> sound_db t"
  by (auto simp: worker_ensure_def sql_sound sound_db_def Let_def list_ex_iff split: option.split)

lemma ensure_owner_sound:
  assumes "sound_db s" "address_format (cc_network cfg) a" "worker_checks k"
  shows "\<exists>wid kid t. ensure_owner cfg a k s = (Inr (wid, kid), t) \<and> sound_db t"
proof -
  obtain w u where w: "wallet_ensure a (cc_network cfg) s = (Inr w, u)" "sound_db u" using wallet_ensure_sound[OF assms(1,2)] by blast
  obtain r t where r: "worker_ensure (w_id w) k u = (Inr r, t)" "sound_db t"
    using worker_ensure_sound[OF w(2) assms(3)] wallet_ensure_Inr[OF w(1)] by blast
  show ?thesis using w(1) r by (simp add: ensure_owner_def bindE_def map_err_def)
qed

lemma credit_booked:
  assumes "sound_db s" and "typed_event (ShareCredited a k d daa ts cid)" and "bookable cfg (ShareCredited a k d daa ts cid)"
  shows "\<exists>t. dispatch cfg (ShareCredited a k d daa ts cid) s = (Inr (), t)"
proof -
  let ?s = "s\<lparr>calls := Suc (calls s)\<rparr>"
  have chk: "address_format (cc_network cfg) a" "worker_checks k" "difficulty_check d" "0 \<le> u64_as_i64 daa"
    using assms(2,3) domain_checks by (auto simp: typed_event_def bookable_def)
  obtain wid kid u where o: "ensure_owner cfg a k ?s = (Inr (wid, kid), u)" "sound_db u"
    using ensure_owner_sound[of ?s cfg a k] assms(1) chk by (auto simp: sound_calls)
  have "owner_exists wid kid u" using ensure_owner_Inr[OF o(1)] by (auto simp: owner_exists_def list_ex_iff)
  then have "\<exists>v. insert_credited wid kid d daa u = (Inr (), v) \<and> sound_db v"
    using o(2) chk by (simp add: insert_credited_def sql_sound sound_db_def owner_exists_def)
  then show ?thesis using o assms(1)
    by (auto simp: dispatch_def handle_share_credited_def transaction_def bindE_def map_err_def sql_def Let_def sound_db_def)
qed

lemma unbookable_lost:
  assumes "is_credit ev" and "typed_event ev" and "\<not> bookable cfg ev"
  shows "shares (handle_event cfg ev s) = shares s"
proof -
  obtain a k d daa ts cid where ev: "ev = ShareCredited a k d daa ts cid" using assms(1) by (auto simp: is_credit_def split: pool_event.splits)
  obtain r t where run: "dispatch cfg (ShareCredited a k d daa ts cid) s = (r, t)" by fastforce
  have "\<not> address_format (cc_network cfg) a \<or> u64_as_i64 daa < 0"
    using assms(2,3) by (auto simp: ev typed_event_def bookable_def u64_as_i64_def)
  then have "t = s\<lparr>calls := calls t\<rparr>" using credited_outcome[OF run] by (metis not_less)
  from only_calls(1)[OF this] show ?thesis by (simp add: handle_event_def ev run)
qed

lemma fold_books_all:
  "sound_db s \<Longrightarrow> list_all typed_event evs \<Longrightarrow>
   \<exists>rows. shares (fold (handle_event cfg) evs s) = shares s @ rows \<and>
     list_all2 (row_of (wallets (fold (handle_event cfg) evs s))) (filter (bookable cfg) evs) rows"
proof (induction evs arbitrary: s)
  case (Cons ev evs)
  let ?u = "handle_event cfg ev s" and ?t = "fold (handle_event cfg) evs (handle_event cfg ev s)"
  have "sound_db ?u" using Cons.prems(1) preservesD[OF sound_dispatch] by (simp add: handle_event_def)
  then obtain rows where IH: "shares ?t = shares ?u @ rows" "list_all2 (row_of (wallets ?t)) (filter (bookable cfg) evs) rows"
    using Cons.IH Cons.prems(2) by fastforce
  show ?case
  proof (cases "bookable cfg ev")
    case False
    then have "shares ?u = shares s"
      using other_events_keep_shares[of ev cfg] unbookable_lost[of ev cfg] Cons.prems(2)
      by (cases "is_credit ev") (auto simp: stays_def books_step_def handle_event_def)
    then show ?thesis using IH False by simp
  next
    case True
    then obtain a k d daa ts cid where ev: "ev = ShareCredited a k d daa ts cid" by (auto simp: bookable_def split: pool_event.splits)
    obtain t where t: "dispatch cfg (ShareCredited a k d daa ts cid) s = (Inr (), t)"
      using credit_booked[OF Cons.prems(1), of a k d daa ts cid cfg] Cons.prems(2) True ev by auto
    obtain row where row: "shares t = shares s @ [row]" "row_of (wallets t) ev row" by (rule credited_outcome[OF t]) (auto simp: ev)
    have u: "?u = t" by (simp add: handle_event_def ev t)
    have "prefix (wallets t) (wallets ?t)" using fold_books[of cfg evs ?u] by (auto simp: u)
    then have "row_of (wallets ?t) ev row" using row_of_mono[OF row(2) set_mono_prefix] by blast
    then show ?thesis using IH row True by (intro exI[of _ "row # rows"]) (simp add: u)
  qed
qed simp

text \<open>
  C16. What is booked on a database on which no statement fails at the connection, for any sequence of events with checked
  worker names and difficulties: the share rows added are exactly those of the credits whose address has the
  format of the network and whose score is below \<open>2 ^ 63\<close>, one row for each, in order.  The
  other credits are lost: the domain types admit both shorter addresses and higher scores, which the schema refuses.
\<close>

theorem credited_shares_all_booked:
  assumes "sound_db s" and "list_all typed_event evs"
  shows "\<exists>rows. shares (fold (handle_event cfg) evs s) = shares s @ rows \<and>
    list_all2 (row_of (wallets (fold (handle_event cfg) evs s))) (filter (bookable cfg) evs) rows"
  using fold_books_all[OF assms] .

theorem credited_shares_all_booked_witness:
  "\<exists>row. shares (fold (handle_event mainnet_config)
       [ShareCredited (''kaspa:'' @ replicate 40 CHR ''q'') ''rig'' (Fin 2) 5 0 0,
        ShareCredited (''kaspa:'' @ replicate 40 CHR ''q'') ''rig'' (Fin 3) (2 ^ 63) 0 0] empty_db) = [row] \<and> sh_difficulty row = Fin 2"
proof -
  let ?cfg = mainnet_config and ?ev = "\<lambda>d daa. ShareCredited (''kaspa:'' @ replicate 40 CHR ''q'') ''rig'' (Fin d) daa 0 0"
  let ?evs = "[?ev 2 5, ?ev 3 (2 ^ 63)]"
  have "address_format ''mainnet'' (''kaspa:'' @ replicate 40 CHR ''q'')"
    by (simp add: address_format_def network_prefixes_def strip_prefix_def is_ascii_lowercase_def list_all_iff)
  then have "filter (bookable ?cfg) ?evs = [?ev 2 5]" by (simp add: bookable_def mainnet_config_def)
  moreover have "WorkerName_new ''rig'' = Inr ''rig''" by code_simp
  then have "list_all typed_event ?evs" by (simp add: typed_event_def ShareDifficulty_new_def f64_is_finite_def)
  moreover have "sound_db empty_db" "shares empty_db = []" by (simp_all add: sound_db_def empty_db_def)
  ultimately show ?thesis
    using credited_shares_all_booked[of empty_db ?evs ?cfg] by (auto simp: list_all2_Cons1 row_of_def simp del: fold.simps filter.simps)
qed

lemma prefix_length: "p \<in> set (network_prefixes n) \<Longrightarrow> 5 \<le> length p"
  by (auto simp: network_prefixes_def split: if_splits)

lemma address_format_length: "address_format n a \<Longrightarrow> 45 \<le> length a"
  using prefix_length by (fastforce simp: address_format_def strip_prefix_def list_ex_iff split: option.splits if_splits)

text \<open>
  The domain type admits wallet addresses from thirteen characters on, the schema needs forty after the
  prefix: a share credited to an address of fewer than forty-five characters is never booked, on any network.
\<close>

theorem short_address_never_booked:
  assumes "length a < 45"
  shows "shares (handle_event cfg (ShareCredited a k d daa ts cid) s) = shares s"
proof -
  obtain r t where run: "dispatch cfg (ShareCredited a k d daa ts cid) s = (r, t)" by fastforce
  have "\<not> address_format n a" for n using address_format_length[of n a] assms by linarith
  then have "t = s\<lparr>calls := calls t\<rparr>" using credited_outcome[OF run] by metis
  from only_calls(1)[OF this] show ?thesis by (simp add: handle_event_def run)
qed


theorem short_address_never_booked_witness:
  "WalletAddress_new ''zkas:qqqqqqqq'' = Inr ''zkas:qqqqqqqq'' \<and>
   shares (handle_event mainnet_config (ShareCredited ''zkas:qqqqqqqq'' ''rig'' (Fin 1) 5 0 0) empty_db) = []"
proof -
  have "WalletAddress_new ''zkas:qqqqqqqq'' = Inr ''zkas:qqqqqqqq''" by code_simp
  then show ?thesis using short_address_never_booked[of "''zkas:qqqqqqqq''" mainnet_config] by (simp add: empty_db_def)
qed

end
