(* ===== verification/Spec2Isabelle.thy ===== *)
theory Spec2Isabelle
  imports Fees Vesting Zkas_Engine Allocation Maturity Consolidation Krc20_Safety
    Mining_Jobs Merged_Mining Share_Submit Vardiff Share_Consumer
begin

text \<open>
  A verification of the money path of the pool: what happens to a share from the moment a miner
  submits it until it is credited, and to a coinbase reward from the moment the node reports it
  until a miner's payout is confirmed.

  \<^bold>\<open>The program.\<close>  The accountant (\<open>accountant/src\<close>) rolls credited shares up into DAA windows,
  watches the pool's blocks and coinbase outputs, and splits every matured reward among the
  wallets of its window.  Balances, cycles and payouts live in a PostgreSQL database, reached
  only through the statements of \<open>crates/katpool-db/src/repo\<close>.  Three payout engines read the
  balances and spend the treasury: \<open>payout-kas\<close> builds and signs Kaspa transactions itself,
  \<open>payout-zkas\<close> hands shielded payments to an external process, \<open>payout-krc20\<close> pays token rebates;
  a fourth job consolidates the treasury's coins.  One advisory lock keeps them from spending at
  the same time.  The bridge (\<open>bridge/src\<close>) is where shares come from: it hands jobs to miners over
  stratum connections, checks the shares they submit, credits them on an event bus, and submits
  solved blocks to the ZKas node and, merge-mined, to a Kaspa node.  The API reads balances out.

  \<^bold>\<open>How it is modelled.\<close>  A function that touches the database or the network is an action: a
  function from a state to an error or a value and a state (\<open>Prelude\<close>), composed with \<open>bindE\<close> where
  the source writes \<open>?\<close>, with \<open>foldE\<close> where it loops.  An error keeps the state reached, except
  inside \<open>transaction\<close>, which undoes the tables.  The state is a record of tables; an oracle in it
  decides for every statement whether the connection fails there, and the engines' worlds add
  oracles for the answers of the node and of the sending process, so the theorems hold for every
  outage, crash point and reply.  Machine integers are \<open>int\<close> and \<open>nat\<close> with their ranges written
  out; the release profile checks overflow and aborts on panic, so an overflowing sum is an
  error value.  Floating point is rounded exactly (\<open>F64\<close>).  What is not in the repository is a
  parameter: the consensus mass calculator (\<open>consensus\<close>), keys, signing, transaction ids and
  address scripts (\<open>signer\<close>), hash codecs, the tier service, the node.  Log and metric calls are
  left out; JSON payloads of audit entries are not kept.

  \<^bold>\<open>Theories.\<close>
  \<^item> \<open>Prelude\<close>: integers, actions, invariants of actions, lists.
  \<^item> \<open>F64\<close>: IEEE doubles: rounding, arithmetic, casts; exactness on small integers.
  \<^item> \<open>Fees\<close> (\<open>accountant/src/config.rs\<close>): fee configuration and the split of a gross share.
  \<^item> \<open>Vesting\<close> (\<open>accountant/src/vesting.rs\<close>, \<open>payout.rs\<close>): the vested split and the payout plan.
  \<^item> \<open>Domain\<close> (\<open>crates/katpool-domain\<close>): admission of addresses, worker names, difficulties.
  \<^item> \<open>Pool_Db\<close>: the tables, \<open>sql\<close> and \<open>transaction\<close>, and the locale \<open>monotone_table\<close>: the contract of
    a table whose rows only move forward.  It is interpreted on payouts, cycles, transfers and
    blocks.
  \<^item> \<open>Payout_Repo\<close>, \<open>Accounting_Repo\<close> (\<open>crates/katpool-db/src/repo\<close>): one definition per statement,
    with the schema's constraints; the status machines and the schema invariant.
  \<^item> \<open>Payout_Cycle\<close> (\<open>payout-kas/src/window.rs\<close>, \<open>plan.rs\<close>, \<open>cycle.rs\<close>, \<open>confirm.rs\<close>): windows, atomic
    planning, resuming, the status fold and reconciliation.
  \<^item> \<open>Db_View\<close>: the locale \<open>db_view\<close>, which extends \<open>monotone_table\<close>: what an engine may rely on
    while it plans, reads and confirms.  \<open>Zkas_Engine\<close>, \<open>Kas_Safety\<close> and \<open>Krc20_Safety\<close> interpret it on
    their worlds, each with the part of the world it watches.
  \<^item> \<open>Zkas_Engine\<close> (\<open>payout-zkas/src\<close>): the sender boundary, the in-flight latch, the confirmation
    scan and the tick.
  \<^item> \<open>Allocation\<close> (\<open>accountant/src/window.rs\<close>, \<open>allocation.rs\<close>) and \<open>Maturity\<close> (\<open>maturity.rs\<close>): from a
    matured coinbase output to the wallets' shares.
  \<^item> \<open>Storagemass\<close> (\<open>crates/katpool-storagemass/src\<close>): the greedy payout planner, fees, masses and the
    consolidation planner.
  \<^item> \<open>Kas_Execute\<close>, \<open>Kas_Safety\<close> (\<open>payout-kas/src/signer.rs\<close>, \<open>execute.rs\<close>, \<open>engine.rs\<close>): signing with the
    exact fee, intent before broadcast, confirmation, the tick; and what they guarantee.
  \<^item> \<open>Consolidation\<close> (\<open>payout-kas/src/consolidate/engine.rs\<close>, \<open>crates/katpool-idempotency\<close>): the
    consolidation tick, and runs in which payout and consolidation ticks alternate.
  \<^item> \<open>Krc20_Plan\<close>, \<open>Krc20_Cycle\<close>, \<open>Krc20_Execute\<close> (\<open>payout-krc20/src\<close>): floor prices and the conversion of a
    rebate, the circuit breaker of the price source, inscriptions and the commit/reveal plan; cycles,
    crediting and giving up; signing, the state machine of a transfer and the tick.
  \<^item> \<open>Krc20_Safety\<close>: the invariant of the token payouts over every run, by the Hoare triples of
    \<open>Hoare_Act\<close>: books that balance, intent before broadcast, one commit and one reveal per payout.
  \<^item> \<open>F64_Order\<close>, \<open>Share_Target\<close> (\<open>bridge/src/hasher.rs\<close>): the order of doubles; difficulties and targets, the
    two job formats and the bytes hashed into the pre-PoW hash.
  \<^item> \<open>Mining_Jobs\<close> (\<open>mining_state.rs\<close>): the ring of the last 300 jobs, and the locale \<open>job_store\<close>, a store
    that answers from the history of published jobs; the ring interprets it.
  \<^item> \<open>Bridge_Guards\<close> (\<open>share_handler.rs\<close>, \<open>kaspaapi.rs\<close>): the two bounded, expiring guards against repeats, and the
    locale \<open>first_sight\<close>, what a guard promises while a key is young and not crowded out; both
    guards interpret it.
  \<^item> \<open>Merged_Mining\<close> (\<open>merged.rs\<close>): merge keys, parents, the auxiliary proof, pending blocks, the fee minute.
  \<^item> \<open>Node_Client\<close> (\<open>kaspaapi.rs\<close>): templates and parents, what a merged parent stands for, submission
    to both nodes, and the trait the share handler sees.
  \<^item> \<open>Stratum_Context\<close> (\<open>stratum_context.rs\<close>, \<open>jsonrpc_event.rs\<close>, \<open>katpool-domain\<close>): frames, events, the state
    of a connection, replies and the write loop.
  \<^item> \<open>Share_Submit\<close> (\<open>share_handler.rs\<close>): \<open>handle_submit\<close> from parameters to reply.  The locale
    \<open>step_relation\<close> gives the frame rules of actions for any preorder on states; it is interpreted on
    the relations the proofs use (credits and jobs, guard and node, guard alone).
  \<^item> \<open>Vardiff\<close> (\<open>share_handler.rs\<close>): difficulty control: registration of a connection, the cached difficulty, pruning
    and the periodic adjustment; the platform's square root and logarithm are parameters.
  \<^item> \<open>Share_Consumer\<close> (\<open>accountant/src/consumer.rs\<close>, \<open>wallet.rs\<close>, \<open>worker.rs\<close>, \<open>share.rs\<close>, \<open>share_reject.rs\<close>,
    \<open>connection_session.rs\<close> of \<open>katpool-db\<close>): the handlers of bridge events, the loop and its drain; it interprets
    \<open>step_relation\<close> on the database.
  \<^item> This theory: what spans the bridge and the accountant.

  \<^bold>\<open>What is shown.\<close>  Safety of money: a payout row goes out at most once, in the KAS engine over
  every sequence of payout and consolidation ticks, in the ZKas engine under its latch, and in the
  token engine as one commit and the one reveal that spends it; a latched engine stays silent; caps and per-tick limits hold; only mature coins that no pending
  payout depends on are spent; every coinbase output is distributed completely and once, and only
  after it has matured.  Functional behaviour: the splits conserve every sompi, the planners
  balance every transaction and pay each recipient once in full, fees are those for the measured mass, cycles are
  planned all or nothing and their status is the documented fold.  Invariants: the schema, the
  status machines, and the rebate books: credited tokens are exactly the confirmed payouts, and a
  completed transfer is always credited.  Limits: runs in which the per-row guarantee does not
  protect a balance, in which a cycle is never settled, in which the planner pays nobody although
  the treasury could, in which a planned batch is over the mass limit or pays less than its rate because mass was measured
  before the fee was taken out, and in which the token cap of one window is passed in the next.  The bridge: a
  submission credits at most one share, to the connection's wallet, at the difficulty of a stored
  job whose target the nonce meets, and only if the guard has not seen it; a valid share of an authorised
  worker is credited; a refused request changes nothing; no submission stays in flight; no block is
  submitted twice, and the hash reported for it is the hash of what is submitted; the job ring, the
  pending store and the Merkle branch agree with their specifications; a difficulty adjustment never goes below 64
  and keeps within half and 128 times the old difficulty, within a quarter and 256 times when it is rounded to a power
  of two.  Between bridge and
  accountant: every share row goes back to its own submission of the run, which earned the credit, and on a
  healthy database exactly the credits with an admissible address and a score below \<open>2 ^ 63\<close> get a row.  Limits there: one share can be
  credited under neighbouring job ids, a parent refresh forgets the pool's minute, and a write
  that times out is repeated from its start.

  \<^bold>\<open>Termination and fuel.\<close>  Every loop is a total function: structural recursion, or a measure (the
  unpaid recipients of \<open>plan_loop\<close>, the remaining inputs of \<open>build_loop\<close>, the search interval of
  \<open>search_cap\<close>, the width of the tree level in \<open>branch_loop\<close>, the number in \<open>next_power_of_two\<close>); the search over
  jobs recurses on the attempts left, at most eight, the write loop and the template retries on
  theirs.  No fuel is used.  The timer loops are modelled by what they repeat: runs are
  inductive relations over ticks, with arbitrary changes by other components in between.

  \<^bold>\<open>Not modelled.\<close>  Sockets, line reading and the other stratum methods, the listeners and threads around the
  handlers, the CPU miner, the embedded node, the HTTP API, the replay of event logs, tier, price and
  node clients of the accountant, statistics queries, process start-up, configuration and telemetry; the
  reasons are listed with the components.  A failed commit counts as rolled back: the case in which the
  server has committed but the answer is lost is not distinguished.  Engines are serialised by the
  advisory lock, whose answers are inputs of a tick; interleavings inside a tick are not modelled.
  A submission is one sequential action: the guard entry it makes before its first await keeps a
  concurrent copy out, but interleavings of different submissions are not modelled.
\<close>

section \<open>From the miner to the share table\<close>

text \<open>
  Runs of a bridge with the submissions they make: the state each was handled in, the request, its correlation
  id.  In between the bridge may do anything that credits no share (new jobs, other wallets, guard entries that expire).
\<close>

inductive bridge_run :: "('n, 'tx, 'addr) share_env \<Rightarrow> ('n, 'tx, 'addr) bridge \<Rightarrow>
    (('n, 'tx, 'addr) bridge \<times> json_event \<times> nat) list \<Rightarrow> ('n, 'tx, 'addr) bridge \<Rightarrow> bool" for env b0 where
  begin_run: "bridge_run env b0 [] b0"
| submission: "bridge_run env b0 subs b \<Longrightarrow> bridge_run env b0 (subs @ [(b, event, cid)]) (snd (handle_submit env event cid b))"
| elsewhere: "bridge_run env b0 subs b \<Longrightarrow> credits b' = credits b \<Longrightarrow> bridge_run env b0 subs b'"

text \<open>
  A submission has earned a credit: handling it appended this credit; the request resolved to a stored job and a nonce
  the guard had not seen; a job at most seven ids older was met by the nonce; and the credit goes to the
  wallet of the connection, at that job's difficulty, with the submission's correlation id.
\<close>

definition earned :: "('n, 'tx, 'addr) share_env \<Rightarrow> ('n, 'tx, 'addr) bridge \<times> json_event \<times> nat \<Rightarrow> pool_event \<Rightarrow> bool" where
  "earned env sub ev \<longleftrightarrow>
     (case sub of (b, event, cid) \<Rightarrow>
        credits (snd (handle_submit env event cid b)) = credits b @ [ev] \<and>
        (\<exists>job_id job0 nonce_text nonce cur job d worker daa ts.
          resolves_to event (br_ctx b) job_id job0 nonce_text nonce \<and>
          fresh_submission (submit_key (fst (effective_worker_name (br_ctx b))) job_id nonce_text) b \<and>
          get_job cur (cx_state (br_ctx b)) = Some job \<and> cur \<le> job_id \<and> job_id < cur + 8 \<and>
          job_difficulty cur (cx_state (br_ctx b)) = Some d \<and> valid_share env nonce cur job (cx_state (br_ctx b)) (br_node b) \<and>
          ev = ShareCredited (cx_wallet_addr (br_ctx b)) worker (kd_diff_value d) daa ts cid))"

lemma submission_earned:
  assumes "credits (snd (handle_submit env event cid b)) \<noteq> credits b"
  shows "\<exists>ev. earned env (b, event, cid) ev"
proof -
  obtain r b' where run: "handle_submit env event cid b = (r, b')" by fastforce
  with assms have new: "credits b' \<noteq> credits b" by simp
  from handle_submit_credits[OF run new] obtain sid job_id job nonce_text nonce
    where req: "3 \<le> length (ev_params event)" "parse_job_id (ev_params event ! 1) = Inr sid"
      "find_submitted_job sid (cx_state (br_ctx b)) = Some (job_id, job)" "submitted_nonce (ev_params event) (br_ctx b) = Inr (nonce_text, nonce)"
      and found: "handle_found env (ev_id event) cid nonce_text nonce job_id job b = (r, b')"
    by blast
  from handle_found_credits[OF find_submitted_stored[OF req(3)] found new] obtain cur job' ev
    where fresh: "fresh_submission (submit_key (fst (effective_worker_name (br_ctx b))) job_id nonce_text) b"
      and at: "get_job cur (cx_state (br_ctx b)) = Some job'" "cur \<le> job_id" "job_id < cur + 8"
        "valid_share env nonce cur job' (cx_state (br_ctx b)) (br_node b)"
        "ev \<in> credit_events cur (cx_state (br_ctx b)) (cx_wallet_addr (br_ctx b)) cid" "credits b' = credits b @ [ev]"
    by (auto simp: MAX_COMPAT_JOB_ATTEMPTS_def)
  have "resolves_to event (br_ctx b) job_id job nonce_text nonce" using req by (auto simp: resolves_to_def)
  then have "earned env (b, event, cid) ev" unfolding earned_def using fresh at run by (fastforce simp: credit_events_def)
  then show ?thesis ..
qed

lemma run_credits_earned:
  assumes "bridge_run env b0 subs b" and "credits b0 = []"
  shows "\<exists>origin. subseq origin subs \<and> list_all2 (earned env) origin (credits b)"
  using assms
proof (induction rule: bridge_run.induct)
  case (submission subs b event cid)
  then obtain origin where IH: "subseq origin subs" "list_all2 (earned env) origin (credits b)" by blast
  show ?case
  proof (cases "credits (snd (handle_submit env event cid b)) = credits b")
    case True
    then show ?thesis using IH by (metis list_emb_append2 list_emb_append_mono append_Nil2 list_emb_Nil)
  next
    case False
    from submission_earned[OF False] obtain ev where ev: "earned env (b, event, cid) ev" by blast
    then have "credits (snd (handle_submit env event cid b)) = credits b @ [ev]" by (simp add: earned_def)
    moreover have "subseq (origin @ [(b, event, cid)]) (subs @ [(b, event, cid)])" using IH(1) by (simp add: list_emb_append_mono)
    ultimately show ?thesis using IH(2) ev by (intro exI[of _ "origin @ [(b, event, cid)]"]) (simp add: list_all2_appendI)
  qed
qed simp_all

lemma origin_of_subseq:
  "subseq zs ys \<Longrightarrow> list_all2 P xs ys \<Longrightarrow> \<exists>ws. subseq ws xs \<and> list_all2 P ws zs"
proof (induction arbitrary: xs rule: list_emb.induct)
  case (list_emb_Cons zs ys y)
  then obtain x xs' where "xs = x # xs'" "list_all2 P xs' ys" by (auto simp: list_all2_Cons2)
  then show ?case using list_emb_Cons.IH by (meson list_emb.list_emb_Cons)
next
  case (list_emb_Cons2 z y zs ys)
  then obtain x xs' where xs: "xs = x # xs'" "P x y" "list_all2 P xs' ys" by (auto simp: list_all2_Cons2)
  from list_emb_Cons2.IH[OF xs(3)] obtain ws where "subseq ws xs'" "list_all2 P ws zs" by blast
  then show ?case using xs list_emb_Cons2.hyps by (intro exI[of _ "x # ws"]) auto
qed (auto intro: exI[of _ "[]"])

text \<open>
  C15. Every booked share was earned.  Take any run of the bridge from a state without credits, and any run of
  the consumer on the events of the bridge, or on what is left of them when the bus lags: whatever
  fails on either side, the rows added to the share table correspond, in order, to distinct submissions of that run.  Each of
  these appended the credit whose wallet, difficulty and score the row has: it was new to the guard, its nonce
  met the target of a job stored at that moment, and the credit is for the wallet of its connection at that
  job's difficulty.
\<close>

theorem every_booked_share_is_earned:
  assumes "bridge_run env b0 subs b" and "credits b0 = []" and "owners_ok s"
    and "subseq (received ws @ drained (snd drain)) (br_events b)"
  shows "\<exists>origin kept rows. shares (run_with_shutdown cfg stopped drain ws s) = shares s @ rows \<and>
    subseq origin subs \<and> list_all2 (earned env) origin kept \<and>
    list_all2 (row_of (wallets (run_with_shutdown cfg stopped drain ws s))) kept rows"
proof -
  let ?t = "run_with_shutdown cfg stopped drain ws s"
  obtain kept rows where rows: "shares ?t = shares s @ rows" "subseq kept (filter is_credit (received ws @ drained (snd drain)))"
    "list_all2 (row_of (wallets ?t)) kept rows"
    using run_books[of cfg stopped drain ws s] by blast
  have sub: "subseq kept (credits b)" unfolding credits_def using rows(2) subseq_filter[OF assms(4)] by (rule subseq_order.trans)
  obtain origin where "subseq origin subs" "list_all2 (earned env) origin (credits b)" using run_credits_earned[OF assms(1,2)] by blast
  with origin_of_subseq[OF sub] obtain origin' where "subseq origin' subs" "list_all2 (earned env) origin' kept"
    by (meson subseq_order.trans)
  then show ?thesis using rows by blast
qed

theorem every_booked_share_is_earned_witness:
  "\<exists>origin kept rows. shares (run_with_shutdown mainnet_config False (0, [])
     (map (FromBus \<circ> Received) (br_events (snd (handle_submit sample_share_env (sample_submit ''1'' ''3c'') 9 sample_bridge)))) empty_db) = rows \<and>
     subseq origin [(sample_bridge, sample_submit ''1'' ''3c'', 9)] \<and> list_all2 (earned sample_share_env) origin kept \<and> length rows = length kept"
proof -
  let ?b = "snd (handle_submit sample_share_env (sample_submit ''1'' ''3c'') 9 sample_bridge)"
  have run: "bridge_run sample_share_env sample_bridge ([] @ [(sample_bridge, sample_submit ''1'' ''3c'', 9)]) ?b" by (intro submission begin_run)
  have start: "credits sample_bridge = []" "owners_ok empty_db" "shares empty_db = []"
    by (simp_all add: sample_bridge_def credits_def empty_db_def owners_ok_def)
  have bus: "received (map (FromBus \<circ> Received) evs) = evs" for evs by (induction evs) (simp_all add: received_def)
  from every_booked_share_is_earned[OF run start(1,2), of "map (FromBus \<circ> Received) (br_events ?b)" "(0, [])" mainnet_config False]
  obtain origin kept rows where "shares (run_with_shutdown mainnet_config False (0, []) (map (FromBus \<circ> Received) (br_events ?b)) empty_db) = rows"
    "subseq origin [(sample_bridge, sample_submit ''1'' ''3c'', 9)]" "list_all2 (earned sample_share_env) origin kept" "length kept = length rows"
    by (auto simp: bus drained_def start dest: list_all2_lengthD)
  then show ?thesis by force
qed

end
